(* ===== verification/Pepin_Prelude.thy ===== *)
theory Pepin_Prelude
  imports Main "HOL-Library.Word"
begin

text \<open>
  Shared vocabulary of the PepinOS development: the integer types of \<^verbatim>\<open>lib/types.h\<close>,
  the outcome type of kernel code that may never come back, the two loop combinators
  every component uses, and the word lemmas the components share.
\<close>

unbundle bit_operations_syntax

named_theorems pepin_defs \<open>unfolding rules of small helper definitions\<close>

section \<open>Integer types\<close>

type_synonym u8 = "8 word"
type_synonym u16 = "16 word"
type_synonym u32 = "32 word"

section \<open>Outcomes of kernel code\<close>

text \<open>
  Kernel code either returns a value or stops for good: it spins in a deliberate
  \<^verbatim>\<open>while (1)\<close>, it takes a page fault or a divide error (whose handlers print and spin), or
  it leaves the defined behaviour of C by an access outside an object, through a null pointer,
  or by a shift of a 32-bit value by 32 or more.
\<close>

datatype stop = Halted | PageFault | DivideError | OutOfBounds | NullDeref | BadShift

type_synonym 'a outcome = "stop + 'a"

fun bindo :: "'a outcome \<Rightarrow> ('a \<Rightarrow> 'b outcome) \<Rightarrow> 'b outcome" where
  "bindo (Inl e) f = Inl e"
| "bindo (Inr x) f = f x"

lemma bindo_Inr_iff [simp]: "bindo m f = Inr y \<longleftrightarrow> (\<exists>x. m = Inr x \<and> f x = Inr y)"
  by (cases m) auto

lemma bindo_Inl_iff: "bindo m f = Inl e \<longleftrightarrow> m = Inl e \<or> (\<exists>x. m = Inr x \<and> f x = Inl e)"
  by (cases m) auto

lemma bindo_assoc: "bindo (bindo m f) g = bindo m (\<lambda>x. bindo (f x) g)"
  by (cases m) auto

section \<open>Counting loops\<close>

text \<open>\<^verbatim>\<open>for (i = lo; i < hi; i++) s = body(i, s)\<close>, without an early exit.\<close>

definition for_range :: "nat \<Rightarrow> nat \<Rightarrow> (nat \<Rightarrow> 's \<Rightarrow> 's) \<Rightarrow> 's \<Rightarrow> 's" where
  "for_range lo hi body s = fold body [lo..<hi] s"

lemma for_range_empty [simp]: "hi \<le> lo \<Longrightarrow> for_range lo hi body s = s"
  by (simp add: for_range_def)

lemma for_range_Suc: "lo \<le> hi \<Longrightarrow> for_range lo (Suc hi) body s = body hi (for_range lo hi body s)"
  by (simp add: for_range_def)

lemma for_range_first: "lo < hi \<Longrightarrow> for_range lo hi body s = for_range (Suc lo) hi body (body lo s)"
  by (simp add: for_range_def upt_conv_Cons)

text \<open>The loop rule: an invariant indexed by the loop counter.\<close>

lemma for_range_inv:
  assumes "P lo s" and "lo \<le> hi"
    and "\<And>i t. lo \<le> i \<Longrightarrow> i < hi \<Longrightarrow> P i t \<Longrightarrow> P (Suc i) (body i t)"
  shows "P hi (for_range lo hi body s)"
proof -
  have "lo + n \<le> hi \<Longrightarrow> P (lo + n) (for_range lo (lo + n) body s)" for n
    by (induction n) (auto simp: assms(1) for_range_Suc intro!: assms(3))
  from this[of "hi - lo"] assms(2) show ?thesis by simp
qed

text \<open>The same loop over a body that may stop.\<close>

fun for_list_try :: "nat list \<Rightarrow> (nat \<Rightarrow> 's \<Rightarrow> 's outcome) \<Rightarrow> 's \<Rightarrow> 's outcome" where
  "for_list_try [] body s = Inr s"
| "for_list_try (i # is) body s = bindo (body i s) (for_list_try is body)"

definition for_try :: "nat \<Rightarrow> nat \<Rightarrow> (nat \<Rightarrow> 's \<Rightarrow> 's outcome) \<Rightarrow> 's \<Rightarrow> 's outcome" where
  "for_try lo hi body s = for_list_try [lo..<hi] body s"

lemma for_list_try_append:
  "for_list_try (is @ js) body s = bindo (for_list_try is body s) (for_list_try js body)"
proof (induction "is" arbitrary: s)
  case (Cons i "is")
  then show ?case by (cases "body i s") simp_all
qed simp

lemma for_try_empty [simp]: "hi \<le> lo \<Longrightarrow> for_try lo hi body s = Inr s"
  by (simp add: for_try_def)

lemma for_try_Suc:
  "lo \<le> hi \<Longrightarrow> for_try lo (Suc hi) body s = bindo (for_try lo hi body s) (body hi)"
  by (simp add: for_try_def for_list_try_append)
     (cases "for_list_try [lo..<hi] body s"; simp; cases "body hi (projr (for_list_try [lo..<hi] body s))"; simp)

lemma for_try_Inr:
  assumes "\<And>i t. lo \<le> i \<Longrightarrow> i < hi \<Longrightarrow> body i t = Inr (f i t)"
  shows "for_try lo hi body s = Inr (for_range lo hi f s)"
proof (cases "lo \<le> hi")
  case True
  have "lo + n \<le> hi \<Longrightarrow> for_try lo (lo + n) body s = Inr (for_range lo (lo + n) f s)" for n
    by (induction n) (auto simp: for_try_Suc for_range_Suc assms)
  from this[of "hi - lo"] True show ?thesis by simp
qed simp

text \<open>The loop rule for a body that may stop.\<close>

lemma for_try_inv:
  assumes "P lo s" and "lo \<le> hi"
    and "\<And>i t. lo \<le> i \<Longrightarrow> i < hi \<Longrightarrow> P i t \<Longrightarrow> \<exists>t'. body i t = Inr t' \<and> P (Suc i) t'"
  shows "\<exists>t. for_try lo hi body s = Inr t \<and> P hi t"
proof -
  have "lo + n \<le> hi \<Longrightarrow> \<exists>t. for_try lo (lo + n) body s = Inr t \<and> P (lo + n) t" for n
  proof (induction n)
    case (Suc n)
    then obtain t where "for_try lo (lo + n) body s = Inr t" "P (lo + n) t" by auto
    with assms(3)[of "lo + n" t] Suc.prems show ?case by (auto simp: for_try_Suc)
  qed (simp add: assms(1))
  from this[of "hi - lo"] assms(2) show ?thesis by simp
qed

text \<open>The same rule when the state after every iteration is known.\<close>

lemma for_try_states:
  assumes "lo \<le> hi" and "st lo = s"
    and "\<And>i. lo \<le> i \<Longrightarrow> i < hi \<Longrightarrow> body i (st i) = Inr (st (Suc i))"
  shows "for_try lo hi body s = Inr (st hi)"
  using for_try_inv[of "\<lambda>i t. t = st i" lo s hi body] assms by auto

text \<open>A loop that stops at iteration \<open>k\<close>.\<close>

lemma for_try_stops:
  assumes "lo \<le> k" and "k < hi" and "st lo = s"
    and "\<And>i. lo \<le> i \<Longrightarrow> i < k \<Longrightarrow> body i (st i) = Inr (st (Suc i))"
    and "body k (st k) = Inl x"
  shows "for_try lo hi body s = Inl x"
proof -
  have "[lo..<hi] = [lo..<k] @ k # [Suc k..<hi]"
    using assms(1,2) upt_add_eq_append[of lo k "hi - k"] by (simp add: upt_conv_Cons)
  moreover have "for_list_try [lo..<k] body s = Inr (st k)"
    using for_try_states[of lo k st s body] assms by (simp add: for_try_def)
  ultimately show ?thesis using assms(5) by (simp add: for_try_def for_list_try_append)
qed

text \<open>\<^verbatim>\<open>for (i = lo; i < hi; i++) if (P(i)) break\<close>: the first index that satisfies the test.\<close>

lemma find_range_Some:
  "find P [lo..<hi] = Some i \<Longrightarrow> lo \<le> i \<and> i < hi \<and> P i \<and> (\<forall>j. lo \<le> j \<longrightarrow> j < i \<longrightarrow> \<not> P j)"
proof -
  assume "find P [lo..<hi] = Some i"
  then obtain k where k: "k < hi - lo" "P (lo + k)" "i = lo + k" "\<forall>j<k. \<not> P (lo + j)"
    by (auto simp: find_Some_iff)
  then have "\<not> P j" if "lo \<le> j" "j < i" for j using k(4)[rule_format, of "j - lo"] that by simp
  with k show ?thesis by simp
qed

lemma find_range_None: "find P [lo..<hi] = None \<Longrightarrow> lo \<le> i \<Longrightarrow> i < hi \<Longrightarrow> \<not> P i"
  by (auto simp: find_None_iff)

lemma find_range_first:
  assumes "lo \<le> i" and "i < hi" and "P i" and "\<And>j. lo \<le> j \<Longrightarrow> j < i \<Longrightarrow> \<not> P j"
  shows "find P [lo..<hi] = Some i"
  unfolding find_Some_iff using assms by (intro exI[of _ "i - lo"]) auto

lemma find_range_ex:
  fixes lo hi :: nat
  assumes "\<exists>i. lo \<le> i \<and> i < hi \<and> P i"
  shows "\<exists>i. lo \<le> i \<and> i < hi \<and> P i \<and> (\<forall>j. lo \<le> j \<longrightarrow> j < i \<longrightarrow> \<not> P j)"
  using assms find_range_None[of P lo hi] find_range_Some[of P lo hi] by (cases "find P [lo..<hi]") blast+

text \<open>Filling an array by index.\<close>

lemma for_range_fill_gen:
  "n \<le> length xs \<Longrightarrow> for_range 0 n (\<lambda>i d. d[i := f i]) xs = map f [0..<n] @ drop n xs"
proof (induction n)
  case (Suc n)
  then have "drop n xs = xs ! n # drop (Suc n) xs" by (simp add: Cons_nth_drop_Suc)
  with Suc show ?case by (simp add: for_range_Suc list_update_append)
qed simp

lemma for_range_fill: "length xs = n \<Longrightarrow> for_range 0 n (\<lambda>i d. d[i := f i]) xs = map f [0..<n]"
  by (simp add: for_range_fill_gen)

lemma fill_const: "length xs = n \<Longrightarrow> for_range 0 n (\<lambda>i d. d[i := v]) xs = replicate n v"
  by (simp add: for_range_fill map_replicate_trivial)

section \<open>Words\<close>

lemma unat_of_nat_lt [simp]: "n < 2 ^ LENGTH('a) \<Longrightarrow> unat (of_nat n :: 'a::len word) = n"
  by (simp add: unat_of_nat)

lemma unat_lt32: "unat (w :: u32) < 4294967296"
  using unsigned_less[of w] by simp

lemma unat_add_no_wrap:
  "unat a + unat b < 2 ^ LENGTH('a) \<Longrightarrow> unat (a + b :: 'a::len word) = unat a + unat b"
  by (simp add: unat_word_ariths)

lemma of_nat_inj32:
  assumes "m < 4294967296" and "n < 4294967296"
  shows "(of_nat m :: u32) = of_nat n \<longleftrightarrow> m = n"
proof
  assume "(of_nat m :: u32) = of_nat n"
  then have "unat (of_nat m :: u32) = unat (of_nat n :: u32)" by (rule arg_cong)
  with assms show "m = n" by simp
qed simp

lemma dvd_bound:
  fixes a N :: nat
  assumes "d dvd a" and "d dvd N" and "a < N"
  shows "a + d \<le> N"
proof -
  from assms obtain k l where "a = d * k" "N = d * l" by (auto elim!: dvdE)
  with assms(3) have "Suc k \<le> l" by (cases "d = 0") auto
  then have "d * Suc k \<le> d * l" by (rule mult_le_mono2)
  then show ?thesis using \<open>a = d * k\<close> \<open>N = d * l\<close> by simp
qed

section \<open>Words as bytes, low byte first\<close>

definition le16 :: "u8 list \<Rightarrow> nat \<Rightarrow> u16" where
  "le16 b i = ucast (b ! i) OR push_bit 8 (ucast (b ! (i + 1)))"

definition le32 :: "u8 list \<Rightarrow> nat \<Rightarrow> u32" where
  "le32 b i = ucast (b ! i) OR push_bit 8 (ucast (b ! (i + 1))) OR push_bit 16 (ucast (b ! (i + 2))) OR
     push_bit 24 (ucast (b ! (i + 3)))"

definition bytes16 :: "u16 \<Rightarrow> u8 list" where
  "bytes16 w = [ucast w, ucast (drop_bit 8 w)]"

definition bytes32 :: "u32 \<Rightarrow> u8 list" where
  "bytes32 w = [ucast w, ucast (drop_bit 8 w), ucast (drop_bit 16 w), ucast (drop_bit 24 w)]"

lemma le32_bytes:
  "(ucast (ucast w :: u8) OR push_bit 8 (ucast (ucast (drop_bit 8 w) :: u8)) OR
    push_bit 16 (ucast (ucast (drop_bit 16 w) :: u8)) OR push_bit 24 (ucast (ucast (drop_bit 24 w) :: u8)) :: u32) = w"
proof (rule bit_word_eqI)
  fix n assume "n < LENGTH(32)"
  then consider "n < 8" | "8 \<le> n" "n < 16" | "16 \<le> n" "n < 24" | "24 \<le> n" "n < 32" by fastforce
  then show "bit (ucast (ucast w :: u8) OR push_bit 8 (ucast (ucast (drop_bit 8 w) :: u8)) OR
    push_bit 16 (ucast (ucast (drop_bit 16 w) :: u8)) OR push_bit 24 (ucast (ucast (drop_bit 24 w) :: u8)) :: u32) n = bit w n"
    by cases (auto simp: bit_simps dest: bit_imp_le_length)
qed

lemma le16_bytes: "(ucast (ucast w :: u8) OR push_bit 8 (ucast (ucast (drop_bit 8 w) :: u8)) :: u16) = w"
  by (rule bit_word_eqI) (auto simp: bit_simps dest: bit_imp_le_length)

section \<open>Tables of entries of one size\<close>

lemma concat_entries:
  assumes "\<And>x. x \<in> set xs \<Longrightarrow> length (f x) = n"
  shows "length (concat (map f xs)) = n * length xs"
    and "v < length xs \<Longrightarrow> j < n \<Longrightarrow> concat (map f xs) ! (n * v + j) = f (xs ! v) ! j"
  using assms
proof (induction xs arbitrary: v)
  case (Cons x xs)
  { case 1 then show ?case using Cons.IH(1) by simp }
  { case 2 then show ?case using Cons.IH(2)[of "v - 1"] by (cases v) (simp_all add: nth_append) }
qed simp_all

lemma find_map_nth: "find P xs = map_option ((!) xs) (find (\<lambda>i. P (xs ! i)) [0..<length xs])"
proof -
  have "find P (map f ys) = map_option f (find (\<lambda>y. P (f y)) ys)" for f and ys :: "nat list" by (induction ys) simp_all
  from this[of "(!) xs" "[0..<length xs]"] show ?thesis by (simp add: map_nth)
qed

end
