(* ===== verification/Linked_List.thy ===== *)
theory Linked_List
  imports Pepin_Prelude
begin

text \<open>
  The intrusive circular doubly linked list of \<^verbatim>\<open>lib/list.h\<close>. The store of all
  \<^verbatim>\<open>list_head\<close> nodes is a pair of maps from node addresses to node addresses; every
  function is the code's sequence of pointer assignments, in order. The predicate \<open>circ\<close>
  relates a store and a sentinel to the list of nodes it holds, and the operations are
  shown to implement push, append, removal and traversal of that list. The locale
  \<open>circular_list\<close> is the interface the scheduler relies on.
\<close>

section \<open>Nodes and operations\<close>

record 'a links =
  next_of :: "'a \<Rightarrow> 'a"
  prev_of :: "'a \<Rightarrow> 'a"

definition set_next :: "'a links \<Rightarrow> 'a \<Rightarrow> 'a \<Rightarrow> 'a links" where
  "set_next h a v = h\<lparr>next_of := (next_of h)(a := v)\<rparr>"

definition set_prev :: "'a links \<Rightarrow> 'a \<Rightarrow> 'a \<Rightarrow> 'a links" where
  "set_prev h a v = h\<lparr>prev_of := (prev_of h)(a := v)\<rparr>"

definition list_init :: "'a links \<Rightarrow> 'a \<Rightarrow> 'a links" where
  "list_init h head = set_prev (set_next h head head) head head"

definition list_insert_between :: "'a links \<Rightarrow> 'a \<Rightarrow> 'a \<Rightarrow> 'a \<Rightarrow> 'a links" where
  "list_insert_between h new prev next =
     (let h1 = set_prev h next new;
          h2 = set_next h1 new next;
          h3 = set_prev h2 new prev
      in set_next h3 prev new)"

definition list_add :: "'a links \<Rightarrow> 'a \<Rightarrow> 'a \<Rightarrow> 'a links" where
  "list_add h head new = list_insert_between h new head (next_of h head)"

definition list_add_tail :: "'a links \<Rightarrow> 'a \<Rightarrow> 'a \<Rightarrow> 'a links" where
  "list_add_tail h head new = list_insert_between h new (prev_of h head) head"

definition list_del :: "'a links \<Rightarrow> 'a \<Rightarrow> 'a links" where
  "list_del h node =
     (let h1 = set_next h (prev_of h node) (next_of h node)
      in set_prev h1 (next_of h1 node) (prev_of h1 node))"

definition list_empty :: "'a links \<Rightarrow> 'a \<Rightarrow> bool" where
  "list_empty h head \<longleftrightarrow> next_of h head = head"

text \<open>
  The iterators. A loop that never meets the sentinel again does not return (\<open>None\<close>).
  \<open>list_for_each\<close> runs a body that leaves the links alone; the body of
  \<open>list_for_each_safe\<close> may relink the node it is given.
\<close>

partial_function (option) list_for_each_from ::
    "'a links \<Rightarrow> 'a \<Rightarrow> ('a \<Rightarrow> 's \<Rightarrow> 's) \<Rightarrow> 'a \<Rightarrow> 's \<Rightarrow> 's option" where
  "list_for_each_from h head body pos s =
     (if pos = head then Some s
      else list_for_each_from h head body (next_of h pos) (body pos s))"

definition list_for_each :: "'a links \<Rightarrow> 'a \<Rightarrow> ('a \<Rightarrow> 's \<Rightarrow> 's) \<Rightarrow> 's \<Rightarrow> 's option" where
  "list_for_each h head body s = list_for_each_from h head body (next_of h head) s"

partial_function (option) list_for_each_safe_from ::
    "'a \<Rightarrow> ('a \<Rightarrow> 'a links \<Rightarrow> 'a links) \<Rightarrow> 'a \<Rightarrow> 'a \<Rightarrow> 'a links \<Rightarrow> 'a links option" where
  "list_for_each_safe_from head body pos n h =
     (if pos = head then Some h
      else list_for_each_safe_from head body n (next_of (body pos h) n) (body pos h))"

definition list_for_each_safe :: "'a links \<Rightarrow> 'a \<Rightarrow> ('a \<Rightarrow> 'a links \<Rightarrow> 'a links) \<Rightarrow> 'a links option" where
  "list_for_each_safe h head body =
     list_for_each_safe_from head body (next_of h head) (next_of h (next_of h head)) h"

text \<open>
  Node and enclosing structure: \<open>container_of\<close> subtracts the offset of the member, and the
  entry iterator keeps the address of the structure rather than of its node.
\<close>

definition container_of :: "u32 \<Rightarrow> u32 \<Rightarrow> u32" where
  "container_of ptr member_offset = ptr - member_offset"

definition list_first_entry :: "u32 links \<Rightarrow> u32 \<Rightarrow> u32 \<Rightarrow> u32" where
  "list_first_entry h head off = container_of (next_of h head) off"

definition list_next_entry :: "u32 links \<Rightarrow> u32 \<Rightarrow> u32 \<Rightarrow> u32" where
  "list_next_entry h pos off = container_of (next_of h (pos + off)) off"

partial_function (option) list_for_each_entry_from ::
    "u32 links \<Rightarrow> u32 \<Rightarrow> u32 \<Rightarrow> (u32 \<Rightarrow> 's \<Rightarrow> 's) \<Rightarrow> u32 \<Rightarrow> 's \<Rightarrow> 's option" where
  "list_for_each_entry_from h head off body pos s =
     (if pos + off = head then Some s
      else list_for_each_entry_from h head off body (list_next_entry h pos off) (body pos s))"

definition list_for_each_entry ::
    "u32 links \<Rightarrow> u32 \<Rightarrow> u32 \<Rightarrow> (u32 \<Rightarrow> 's \<Rightarrow> 's) \<Rightarrow> 's \<Rightarrow> 's option" where
  "list_for_each_entry h head off body s =
     list_for_each_entry_from h head off body (list_first_entry h head off) s"

section \<open>The list a store represents\<close>

primrec chain :: "'a links \<Rightarrow> 'a \<Rightarrow> 'a list \<Rightarrow> 'a \<Rightarrow> bool" where
  "chain h a [] b \<longleftrightarrow> next_of h a = b \<and> prev_of h b = a"
| "chain h a (x # xs) b \<longleftrightarrow> next_of h a = x \<and> prev_of h x = a \<and> chain h x xs b"

definition circ :: "'a links \<Rightarrow> 'a \<Rightarrow> 'a list \<Rightarrow> bool" where
  "circ h head xs \<longleftrightarrow> chain h head xs head \<and> distinct (head # xs)"

lemma next_of_set [simp]:
  "next_of (set_next h a v) = (next_of h)(a := v)" "next_of (set_prev h a v) = next_of h"
  by (simp_all add: set_next_def set_prev_def)

lemma prev_of_set [simp]:
  "prev_of (set_prev h a v) = (prev_of h)(a := v)" "prev_of (set_next h a v) = prev_of h"
  by (simp_all add: set_next_def set_prev_def)

lemma chain_append: "chain h a (xs @ y # ys) b \<longleftrightarrow> chain h a xs y \<and> chain h y ys b"
  by (induction xs arbitrary: a) auto

lemma chain_set_next_other: "u \<notin> insert a (set xs) \<Longrightarrow> chain (set_next h u v) a xs b = chain h a xs b"
  by (induction xs arbitrary: a) auto

lemma chain_set_prev_other: "u \<notin> insert b (set xs) \<Longrightarrow> chain (set_prev h u v) a xs b = chain h a xs b"
  by (induction xs arbitrary: a) auto

lemma chain_next: "chain h a xs b \<Longrightarrow> next_of h a = hd (xs @ [b])"
  by (cases xs) auto

lemma chain_prev: "chain h a xs b \<Longrightarrow> prev_of h b = last (a # xs)"
  by (induction xs arbitrary: a) auto

lemma chain_cong:
  assumes "\<And>u. u \<in> insert a (set xs) \<Longrightarrow> next_of h' u = next_of h u"
    and "\<And>u. u \<in> insert b (set xs) \<Longrightarrow> prev_of h' u = prev_of h u"
  shows "chain h' a xs b = chain h a xs b"
  using assms by (induction xs arbitrary: a) auto

lemma circ_next: "circ h head xs \<Longrightarrow> next_of h head = hd (xs @ [head])"
  by (auto simp: circ_def dest: chain_next)

lemma circ_prev: "circ h head xs \<Longrightarrow> prev_of h head = last (head # xs)"
  unfolding circ_def by (blast dest: chain_prev)

lemma circ_unique:
  assumes "circ h head xs" and "circ h head ys"
  shows "xs = ys"
proof -
  have "chain h a xs head \<Longrightarrow> chain h a ys head \<Longrightarrow> head \<notin> set xs \<Longrightarrow> head \<notin> set ys \<Longrightarrow> xs = ys" for a
  proof (induction xs arbitrary: a ys)
    case Nil
    then show ?case by (cases ys) auto
  next
    case (Cons x xs)
    then show ?case by (cases ys) auto
  qed
  with assms show ?thesis by (auto simp: circ_def)
qed

section \<open>The operations on the represented list\<close>

lemma circ_init: "circ (list_init h head) head []"
  by (simp add: list_init_def circ_def)

lemma circ_empty_iff: "circ h head xs \<Longrightarrow> list_empty h head \<longleftrightarrow> xs = []"
  by (cases xs) (auto simp: list_empty_def circ_def)

lemma circ_add:
  assumes "circ h head xs" and "new \<notin> set (head # xs)"
  shows "circ (list_add h head new) head (new # xs)"
proof (cases xs)
  case Nil
  with assms show ?thesis
    by (auto simp: circ_def list_add_def list_insert_between_def Let_def)
next
  case (Cons x ys)
  let ?h = "list_add h head new"
  have "chain ?h x ys head = chain h x ys head"
    by (rule chain_cong)
       (use assms Cons in \<open>auto simp: circ_def list_add_def list_insert_between_def Let_def\<close>)
  with assms Cons show ?thesis
    by (auto simp: circ_def list_add_def list_insert_between_def Let_def)
qed

lemma circ_add_tail:
  assumes "circ h head xs" and "new \<notin> set (head # xs)"
  shows "circ (list_add_tail h head new) head (xs @ [new])"
proof (cases xs rule: rev_cases)
  case Nil
  with assms show ?thesis
    by (auto simp: circ_def list_add_tail_def list_insert_between_def Let_def)
next
  case (snoc ys y)
  let ?h = "list_add_tail h head new"
  have "chain ?h head ys y = chain h head ys y"
    by (rule chain_cong)
       (use assms snoc in \<open>auto simp: circ_def chain_append list_add_tail_def list_insert_between_def Let_def\<close>)
  with assms snoc show ?thesis
    by (auto simp: circ_def chain_append list_add_tail_def list_insert_between_def Let_def)
qed

lemma circ_del:
  assumes "circ h head (xs @ y # ys)"
  shows "circ (list_del h y) head (xs @ ys)"
proof -
  from assms have ch: "chain h head xs y" "chain h y ys head" and d: "distinct (head # xs @ y # ys)"
    by (auto simp: circ_def chain_append)
  define p where "p = last (head # xs)"
  define n where "n = hd (ys @ [head])"
  have pn: "prev_of h y = p" "next_of h y = n"
    unfolding p_def n_def using ch by (blast dest: chain_prev, blast dest: chain_next)
  have "p \<noteq> y" using d by (cases xs rule: rev_cases) (auto simp: p_def)
  then have del: "list_del h y = set_prev (set_next h p n) n p"
    by (simp add: list_del_def Let_def pn)
  have front: "chain (set_prev (set_next h p n) n p) head us p = chain h head us p"
    if "xs = us @ [p]" for us
    by (rule chain_cong; insert that d; cases ys; auto simp: n_def)
  have rear: "chain (set_prev (set_next h p n) n p) n vs head = chain h n vs head"
    if "ys = n # vs" for vs
    by (rule chain_cong; insert that d; cases xs rule: rev_cases; auto simp: p_def)
  show ?thesis
  proof (cases xs rule: rev_cases; cases ys)
    fix v vs assume "xs = []" "ys = v # vs"
    then show ?thesis using d ch rear[of vs] by (simp add: del circ_def p_def n_def)
  next
    fix u us assume "xs = us @ [u]" "ys = []"
    then show ?thesis using d ch front[of us] by (auto simp: del circ_def p_def n_def chain_append)
  next
    fix u us v vs assume "xs = us @ [u]" "ys = v # vs"
    then show ?thesis using d ch front[of us] rear[of vs]
      by (auto simp: del circ_def p_def n_def chain_append)
  qed (use d in \<open>simp add: del circ_def p_def n_def\<close>)
qed

lemma chain_for_each:
  assumes "chain h a xs head" and "head \<notin> set xs"
  shows "list_for_each_from h head body (next_of h a) s = Some (fold body xs s)"
  using assms
proof (induction xs arbitrary: a s)
  case Nil
  then show ?case by (simp add: list_for_each_from.simps)
next
  case (Cons x xs)
  then have "next_of h a = x" "x \<noteq> head" by auto
  with Cons show ?case by (subst list_for_each_from.simps) simp
qed

lemma circ_for_each: "circ h head xs \<Longrightarrow> list_for_each h head body s = Some (fold body xs s)"
  by (simp add: list_for_each_def circ_def chain_for_each)

text \<open>The entry iterator is the node iterator seen through \<open>container_of\<close>.\<close>

lemma container_of_member [simp]: "container_of (pos + off) off = pos" "container_of n off + off = n"
  by (simp_all add: container_of_def)

lemma chain_for_each_entry:
  assumes "chain h a xs head" and "head \<notin> set xs"
  shows "list_for_each_entry_from h head off body (container_of (next_of h a) off) s =
         Some (fold (\<lambda>n. body (container_of n off)) xs s)"
  using assms
proof (induction xs arbitrary: a s)
  case Nil
  then show ?case by (simp add: list_for_each_entry_from.simps)
next
  case (Cons x xs)
  then have "next_of h a = x" "x \<noteq> head" by auto
  with Cons show ?case
    by (subst list_for_each_entry_from.simps) (simp add: list_next_entry_def)
qed

lemma circ_for_each_entry:
  "circ h head xs \<Longrightarrow>
   list_for_each_entry h head off body s = Some (fold (\<lambda>n. body (container_of n off)) xs s)"
  by (simp add: list_for_each_entry_def list_first_entry_def circ_def chain_for_each_entry)

text \<open>Deleting every visited node is safe under the iterator that looks one node ahead.\<close>

lemma circ_for_each_safe_del_from:
  assumes "circ h head xs"
  shows "\<exists>h'. list_for_each_safe_from head (\<lambda>n l. list_del l n) (next_of h head)
                (next_of h (next_of h head)) h = Some h' \<and> circ h' head []"
  using assms
proof (induction xs arbitrary: h)
  case Nil
  then show ?case
    by (subst list_for_each_safe_from.simps) (simp add: circ_def)
next
  case (Cons x xs)
  then have x: "next_of h head = x" "x \<noteq> head" by (auto simp: circ_def)
  from Cons.prems have del: "circ (list_del h x) head xs"
    using circ_del[of h head "[]"] by simp
  have "next_of h x = next_of (list_del h x) head"
    using circ_next[OF del] Cons.prems by (auto simp: circ_def dest: chain_next)
  with Cons.IH[OF del] x show ?case
    by (subst list_for_each_safe_from.simps) simp
qed

lemma circ_for_each_safe_del:
  "circ h head xs \<Longrightarrow>
   \<exists>h'. list_for_each_safe h head (\<lambda>n l. list_del l n) = Some h' \<and> circ h' head []"
  unfolding list_for_each_safe_def by (rule circ_for_each_safe_del_from)

section \<open>The interface of a sentinel list\<close>

text \<open>
  What a client that walks the list round and round relies on: appending puts a fresh
  node last, removing drops one node, and the successor of a node is the next one held,
  or the sentinel after the last.
\<close>

locale circular_list =
  fixes holds :: "'h \<Rightarrow> 'a \<Rightarrow> 'a list \<Rightarrow> bool"
    and append :: "'h \<Rightarrow> 'a \<Rightarrow> 'a \<Rightarrow> 'h"
    and remove :: "'h \<Rightarrow> 'a \<Rightarrow> 'h"
    and succ :: "'h \<Rightarrow> 'a \<Rightarrow> 'a"
  assumes holds_distinct: "holds h s xs \<Longrightarrow> distinct (s # xs)"
    and holds_append: "holds h s xs \<Longrightarrow> x \<notin> set (s # xs) \<Longrightarrow> holds (append h s x) s (xs @ [x])"
    and holds_remove: "holds h s (xs @ x # ys) \<Longrightarrow> holds (remove h x) s (xs @ ys)"
    and succ_sentinel: "holds h s xs \<Longrightarrow> succ h s = hd (xs @ [s])"
    and succ_member: "holds h s (xs @ x # ys) \<Longrightarrow> succ h x = hd (ys @ [s])"
begin

text \<open>Stepping to the successor and over the sentinel is stepping round the list.\<close>

lemma step_skipping_sentinel:
  assumes "holds h s xs" and "i < length xs"
  shows "(if succ h (xs ! i) = s then succ h s else succ h (xs ! i)) = xs ! (Suc i mod length xs)"
proof -
  have xs: "xs = take i xs @ xs ! i # drop (Suc i) xs"
    using assms(2) by (simp add: id_take_nth_drop)
  with assms(1) have nxt: "succ h (xs ! i) = hd (drop (Suc i) xs @ [s])"
    by (metis succ_member)
  have d: "s \<notin> set xs" using holds_distinct[OF assms(1)] by simp
  show ?thesis
  proof (cases "Suc i < length xs")
    case True
    then have "hd (drop (Suc i) xs @ [s]) = xs ! Suc i" by (simp add: hd_drop_conv_nth)
    moreover have "xs ! Suc i \<noteq> s" using d True by (metis nth_mem)
    ultimately show ?thesis using nxt True by simp
  next
    case False
    with assms(2) have "length xs = Suc i" by simp
    with nxt succ_sentinel[OF assms(1)] assms(2) show ?thesis by (cases xs) auto
  qed
qed

lemma append_all:
  "holds h s xs \<Longrightarrow> distinct (s # xs @ ys) \<Longrightarrow> holds (fold (\<lambda>x l. append l s x) ys h) s (xs @ ys)"
proof (induction ys arbitrary: h xs)
  case (Cons y ys)
  then have "holds (append h s y) s (xs @ [y])" by (intro holds_append) auto
  from Cons.IH[OF this] Cons.prems show ?case by simp
qed simp

end

lemma circ_succ_member: "circ h s (xs @ x # ys) \<Longrightarrow> next_of h x = hd (ys @ [s])"
  by (auto simp: circ_def chain_append dest: chain_next)

interpretation lh: circular_list circ list_add_tail list_del next_of
proof unfold_locales
  show "circ h s xs \<Longrightarrow> distinct (s # xs)" for h :: "'a links" and s xs
    by (simp add: circ_def)
qed (fact circ_add_tail circ_del circ_next circ_succ_member)+

section \<open>Properties\<close>

text \<open>The nodes 1, 2, 3 appended to a fresh sentinel 0, for concrete instances.\<close>

definition three_nodes :: "u32 links" where
  "three_nodes = fold (\<lambda>n h. list_add_tail h 0 n) [1, 2, 3]
     (list_init \<lparr>next_of = (\<lambda>_. 0), prev_of = (\<lambda>_. 0)\<rparr> 0)"

lemma circ_three_nodes: "circ three_nodes 0 [1, 2, 3]"
  unfolding three_nodes_def using lh.append_all[OF circ_init, of "0 :: u32" "[1, 2, 3]"] by simp

text \<open>C34: On a well-formed circular list, and for a node that is not on it, \<open>list_add\<close> puts the node
  first and \<open>list_add_tail\<close> puts it last; both leave the list well-formed in both directions.\<close>

theorem list_insert_refines:
  assumes "circ h head xs" and "new \<notin> set (head # xs)"
  shows "circ (list_add h head new) head (new # xs) \<and> circ (list_add_tail h head new) head (xs @ [new])"
  using circ_add[OF assms] circ_add_tail[OF assms] by blast

theorem list_insert_refines_witness:
  "circ (list_add three_nodes 0 7) 0 [7, 1, 2, 3] \<and> circ (list_add_tail three_nodes 0 7) 0 [1, 2, 3, 7]"
  using list_insert_refines[OF circ_three_nodes, of 7] by simp

text \<open>C35: \<open>list_del\<close> removes exactly the given node from a well-formed list, wherever it stands, and
  touches the links of no node but its two neighbours (the deleted node keeps its own stale links).\<close>

theorem list_del_refines:
  assumes "circ h head (xs @ node # ys)"
  shows "circ (list_del h node) head (xs @ ys) \<and>
    (\<forall>u. u \<noteq> prev_of h node \<longrightarrow> next_of (list_del h node) u = next_of h u) \<and>
    (\<forall>u. u \<noteq> next_of h node \<longrightarrow> prev_of (list_del h node) u = prev_of h u)"
proof -
  have "prev_of h node \<noteq> node"
    using assms by (auto simp: circ_def chain_append dest!: chain_prev split: if_splits)
  then have "list_del h node = set_prev (set_next h (prev_of h node) (next_of h node)) (next_of h node) (prev_of h node)"
    by (simp add: list_del_def Let_def)
  with circ_del[OF assms] show ?thesis by simp
qed

theorem list_del_refines_witness: "circ (list_del three_nodes 2) 0 [1, 3]"
  using list_del_refines[of three_nodes 0 "[1]" 2 "[3]"] circ_three_nodes by simp

text \<open>C36: The iterators return on every well-formed list: \<open>list_for_each\<close> and \<open>list_for_each_entry\<close>
  run the body once on every node in order, and under \<open>list_for_each_safe\<close> a body that deletes the
  node it is given empties the list.\<close>

theorem list_traversals_return:
  assumes "circ h head xs"
  shows "list_for_each h head body s = Some (fold body xs s) \<and>
    list_for_each_entry h head off body s = Some (fold (\<lambda>n. body (container_of n off)) xs s) \<and>
    (\<exists>h'. list_for_each_safe h head (\<lambda>n l. list_del l n) = Some h' \<and> list_empty h' head)"
proof (intro conjI)
  from circ_for_each_safe_del[OF assms] obtain h' where
    "list_for_each_safe h head (\<lambda>n l. list_del l n) = Some h'" "circ h' head []" by blast
  then show "\<exists>h'. list_for_each_safe h head (\<lambda>n l. list_del l n) = Some h' \<and> list_empty h' head"
    by (auto simp: circ_empty_iff)
qed (simp_all add: circ_for_each[OF assms] circ_for_each_entry[OF assms])

theorem list_traversals_return_witness:
  "list_for_each three_nodes 0 (\<lambda>n s. s + n) 0 = Some 6"
  using list_traversals_return[OF circ_three_nodes, of "\<lambda>n s. s + n" 0] by simp

end
