(* ===== verification/PMM.thy ===== *)
theory PMM
  imports Pepin_Prelude
begin

text \<open>
  The physical memory manager, \<^verbatim>\<open>mm/pmm.c\<close>: a bitmap of 256 words of 32 bits, one bit per
  4 KB frame (1 = used), the number of frames managed and the number of free ones. The
  abstract view is the set of free frame numbers; the locale \<open>frame_allocator\<close> is what the
  code that builds page tables relies on.
\<close>

section \<open>State and operations\<close>

record pmm =
  pmm_bitmap :: "u32 list"
  pmm_total_pages :: u32
  pmm_free_pages :: u32

abbreviation "PMM_PAGE_SIZE \<equiv> (4096 :: u32)"
abbreviation "PMM_MAX_PAGES \<equiv> (8192 :: u32)"
abbreviation "PMM_RESERVED \<equiv> (0x400000 :: u32)"

definition pmm_set_used :: "u32 \<Rightarrow> pmm \<Rightarrow> pmm" where
  "pmm_set_used idx s = s\<lparr>pmm_bitmap := (pmm_bitmap s)
     [unat (idx div 32) := pmm_bitmap s ! unat (idx div 32) OR push_bit (unat (idx mod 32)) 1]\<rparr>"

definition pmm_set_free :: "u32 \<Rightarrow> pmm \<Rightarrow> pmm" where
  "pmm_set_free idx s = s\<lparr>pmm_bitmap := (pmm_bitmap s)
     [unat (idx div 32) := pmm_bitmap s ! unat (idx div 32) AND NOT (push_bit (unat (idx mod 32)) 1)]\<rparr>"

definition pmm_is_used :: "pmm \<Rightarrow> u32 \<Rightarrow> bool" where
  "pmm_is_used s idx \<longleftrightarrow>
     drop_bit (unat (idx mod 32)) (pmm_bitmap s ! unat (idx div 32)) AND 1 \<noteq> 0"

definition pmm_init :: "u32 \<Rightarrow> pmm \<Rightarrow> pmm" where
  "pmm_init mem_size s =
     (let total = mem_size div PMM_PAGE_SIZE;
          total = (if total > PMM_MAX_PAGES then PMM_MAX_PAGES else total);
          s1 = s\<lparr>pmm_total_pages := total, pmm_free_pages := 0\<rparr>;
          s2 = for_range 0 (unat (PMM_MAX_PAGES div 32))
                 (\<lambda>i t. t\<lparr>pmm_bitmap := (pmm_bitmap t)[i := 0xFFFFFFFF]\<rparr>) s1
      in for_range (unat (PMM_RESERVED div PMM_PAGE_SIZE)) (unat total)
           (\<lambda>i t. (pmm_set_free (of_nat i) t)\<lparr>pmm_free_pages := pmm_free_pages t + 1\<rparr>) s2)"

text \<open>The scan of the bitmap stops at the first free frame; 0 is the answer when there is none.\<close>

definition pmm_alloc_page :: "pmm \<Rightarrow> u32 \<times> pmm" where
  "pmm_alloc_page s =
     (case find (\<lambda>i. \<not> pmm_is_used s (of_nat i)) [0..<unat (pmm_total_pages s)] of
        Some i \<Rightarrow> (of_nat i * PMM_PAGE_SIZE,
                   (pmm_set_used (of_nat i) s)\<lparr>pmm_free_pages := pmm_free_pages s - 1\<rparr>)
      | None \<Rightarrow> (0, s))"

definition pmm_free_page :: "u32 \<Rightarrow> pmm \<Rightarrow> pmm" where
  "pmm_free_page addr s =
     (let idx = addr div PMM_PAGE_SIZE
      in if idx < pmm_total_pages s \<and> pmm_is_used s idx
         then (pmm_set_free idx s)\<lparr>pmm_free_pages := pmm_free_pages s + 1\<rparr>
         else s)"

definition pmm_free_count :: "pmm \<Rightarrow> u32" where
  "pmm_free_count s = pmm_free_pages s"

section \<open>The set of free frames\<close>

definition frame_used :: "pmm \<Rightarrow> nat \<Rightarrow> bool" where
  "frame_used s n \<longleftrightarrow> bit (pmm_bitmap s ! (n div 32)) (n mod 32)"

definition free_frames :: "pmm \<Rightarrow> nat set" where
  "free_frames s = {n. n < unat (pmm_total_pages s) \<and> \<not> frame_used s n}"

definition pmm_inv :: "pmm \<Rightarrow> bool" where
  "pmm_inv s \<longleftrightarrow> length (pmm_bitmap s) = 256 \<and> pmm_total_pages s \<le> PMM_MAX_PAGES \<and>
     unat (pmm_free_pages s) = card (free_frames s)"

text \<open>The frames below 4 MB are still marked used.\<close>

definition pmm_reserved :: "pmm \<Rightarrow> bool" where
  "pmm_reserved s \<longleftrightarrow> (\<forall>n<1024. frame_used s n)"

lemma total_le: "pmm_inv s \<Longrightarrow> unat (pmm_total_pages s) \<le> 8192"
  by (simp add: pmm_inv_def word_le_nat_alt)

lemma finite_free_frames [simp]: "finite (free_frames s)"
  by (simp add: free_frames_def)

lemma low_bit_iff: "(w :: u32) AND 1 \<noteq> 0 \<longleftrightarrow> bit w 0"
  by (simp add: and_one_eq bit_0 odd_iff_mod_2_eq_one)

lemma pmm_is_used_iff: "pmm_is_used s idx \<longleftrightarrow> frame_used s (unat idx)"
  by (simp add: pmm_is_used_def frame_used_def unat_div unat_mod low_bit_iff bit_drop_bit_eq)

lemma div_mod_eq_iff: "(n div 32 = k div 32 \<and> n mod 32 = k mod 32) \<longleftrightarrow> n = (k :: nat)"
  by (metis div_mult_mod_eq)

lemma frame_used_set_used:
  assumes "length (pmm_bitmap s) = 256" and "unat idx < 8192"
  shows "frame_used (pmm_set_used idx s) n \<longleftrightarrow> n = unat idx \<or> frame_used s n"
  using assms div_mod_eq_iff[of n "unat idx"]
  by (auto simp: frame_used_def pmm_set_used_def unat_div unat_mod nth_list_update bit_simps)

lemma frame_used_set_free:
  assumes "length (pmm_bitmap s) = 256" and "unat idx < 8192"
  shows "frame_used (pmm_set_free idx s) n \<longleftrightarrow> n \<noteq> unat idx \<and> frame_used s n"
  using assms div_mod_eq_iff[of n "unat idx"]
  by (auto simp: frame_used_def pmm_set_free_def unat_div unat_mod nth_list_update bit_simps)

lemma pmm_set_frame [simp]:
  "length (pmm_bitmap (pmm_set_used idx s)) = length (pmm_bitmap s)"
  "length (pmm_bitmap (pmm_set_free idx s)) = length (pmm_bitmap s)"
  "pmm_total_pages (pmm_set_used idx s) = pmm_total_pages s"
  "pmm_total_pages (pmm_set_free idx s) = pmm_total_pages s"
  "pmm_free_pages (pmm_set_free idx s) = pmm_free_pages s"
  "frame_used (s\<lparr>pmm_free_pages := c\<rparr>) = frame_used s"
  "free_frames (s\<lparr>pmm_free_pages := c\<rparr>) = free_frames s"
  by (simp_all add: pmm_set_used_def pmm_set_free_def frame_used_def free_frames_def fun_eq_iff)

lemma free_frames_set_used:
  assumes "pmm_inv s" and "unat idx < 8192"
  shows "free_frames (pmm_set_used idx s) = free_frames s - {unat idx}"
  using assms by (auto simp: free_frames_def frame_used_set_used pmm_inv_def)

lemma free_frames_set_free:
  assumes "length (pmm_bitmap s) = 256" and "unat idx < 8192" and "unat idx < unat (pmm_total_pages s)"
  shows "free_frames (pmm_set_free idx s) = insert (unat idx) (free_frames s)"
  using assms by (auto simp: free_frames_def frame_used_set_free)

lemma find_upt_None: "find P [0..<n] = None \<longleftrightarrow> (\<forall>i<n. \<not> P i)"
  by (auto simp: find_None_iff)

lemma find_upt_Some: "find P [0..<n] = Some i \<longleftrightarrow> i < n \<and> P i \<and> (\<forall>j<i. \<not> P j)"
  by (auto simp: find_Some_iff)

lemma page_number_lt: "i < unat (pmm_total_pages s) \<Longrightarrow> pmm_inv s \<Longrightarrow> i < 8192"
  using total_le by fastforce

lemma pmm_is_used_nat:
  assumes "pmm_inv s" and "i < unat (pmm_total_pages s)"
  shows "pmm_is_used s (of_nat i) \<longleftrightarrow> frame_used s i"
proof -
  have "i < 4294967296" using page_number_lt[OF assms(2,1)] by simp
  then show ?thesis by (simp add: pmm_is_used_iff)
qed

text \<open>The two outcomes of an allocation, on the set of free frames.\<close>

lemma pmm_alloc_none:
  assumes "pmm_inv s" and "free_frames s = {}"
  shows "pmm_alloc_page s = (0, s)"
proof -
  have "find (\<lambda>i. \<not> pmm_is_used s (of_nat i)) [0..<unat (pmm_total_pages s)] = None"
    using assms by (auto simp: find_upt_None pmm_is_used_nat free_frames_def)
  then show ?thesis by (simp add: pmm_alloc_page_def)
qed

lemma pmm_alloc_some:
  assumes "pmm_inv s" and "free_frames s \<noteq> {}"
  shows "pmm_alloc_page s = (of_nat (Min (free_frames s)) * 4096,
           (pmm_set_used (of_nat (Min (free_frames s))) s)\<lparr>pmm_free_pages := pmm_free_pages s - 1\<rparr>)"
proof -
  define i where "i = Min (free_frames s)"
  have "i \<in> free_frames s" unfolding i_def using assms(2) by (intro Min_in) auto
  then have i: "i < unat (pmm_total_pages s)" "\<not> frame_used s i" by (auto simp: free_frames_def)
  have least: "frame_used s j" if "j < i" for j
  proof (rule ccontr)
    assume "\<not> frame_used s j"
    with that i have "j \<in> free_frames s" by (simp add: free_frames_def)
    then have "i \<le> j" unfolding i_def by (rule Min_le[OF finite_free_frames])
    with that show False by simp
  qed
  have "find (\<lambda>i. \<not> pmm_is_used s (of_nat i)) [0..<unat (pmm_total_pages s)] = Some i"
    unfolding find_upt_Some
    by (intro conjI allI impI) (simp_all add: i least pmm_is_used_nat[OF assms(1)] less_trans[OF _ i(1)])
  then show ?thesis by (simp add: pmm_alloc_page_def i_def)
qed

lemma frame_address: "n < 8192 \<Longrightarrow> unat (of_nat n * 4096 :: u32) = 4096 * n"
  by (simp add: unat_word_ariths unat_of_nat)

lemma frame_address_div: "n < 8192 \<Longrightarrow> (of_nat n * 4096 :: u32) div 4096 = of_nat n"
  by (rule word_unat_eq_iff[THEN iffD2]) (simp add: unat_div frame_address)

lemma Min_free_lt: "pmm_inv s \<Longrightarrow> free_frames s \<noteq> {} \<Longrightarrow> Min (free_frames s) < 8192"
proof -
  assume "pmm_inv s" "free_frames s \<noteq> {}"
  then have "Min (free_frames s) \<in> free_frames s" by (intro Min_in) auto
  then show ?thesis using total_le[OF \<open>pmm_inv s\<close>] by (auto simp: free_frames_def)
qed

lemma unat_pred: "(w :: u32) \<noteq> 0 \<Longrightarrow> unat (w - 1) = unat w - 1"
  by (simp add: unat_minus_one)

lemma pmm_alloc_state:
  assumes "pmm_inv s" and "free_frames s \<noteq> {}"
  shows "free_frames (snd (pmm_alloc_page s)) = free_frames s - {Min (free_frames s)}"
    and "pmm_inv (snd (pmm_alloc_page s))"
proof -
  let ?i = "Min (free_frames s)"
  have i: "unat (of_nat ?i :: u32) = ?i" "?i < 8192" "?i \<in> free_frames s"
    using Min_free_lt[OF assms] assms(2) by (auto intro: Min_in)
  show ff: "free_frames (snd (pmm_alloc_page s)) = free_frames s - {?i}"
    using assms i by (simp add: pmm_alloc_some free_frames_set_used)
  have "unat (pmm_free_pages s) \<noteq> 0"
    using assms by (simp add: pmm_inv_def card_gt_0_iff)
  then have "pmm_free_pages s \<noteq> 0" by auto
  with assms i ff show "pmm_inv (snd (pmm_alloc_page s))"
    by (simp add: pmm_inv_def pmm_alloc_some unat_pred)
qed

lemma card_free_frames_le: "card (free_frames s) \<le> unat (pmm_total_pages s)"
  by (rule order_trans[OF card_mono[of "{..<unat (pmm_total_pages s)}"]]) (auto simp: free_frames_def)

lemma pmm_free_inv: "pmm_inv s \<Longrightarrow> pmm_inv (pmm_free_page addr s)"
proof -
  assume inv: "pmm_inv s"
  let ?n = "unat (addr div 4096)"
  show "pmm_inv (pmm_free_page addr s)"
  proof (cases "addr div 4096 < pmm_total_pages s \<and> pmm_is_used s (addr div 4096)")
    case True
    then have n: "?n < unat (pmm_total_pages s)" "frame_used s ?n"
      by (auto simp: word_less_nat_alt pmm_is_used_iff)
    with inv have "?n < 8192" using total_le[OF inv] by simp
    with n inv have ff: "free_frames (pmm_set_free (addr div 4096) s) = insert ?n (free_frames s)"
      by (simp add: free_frames_set_free pmm_inv_def)
    have "?n \<notin> free_frames s" using n by (simp add: free_frames_def)
    then have "card (insert ?n (free_frames s)) = Suc (card (free_frames s))" by simp
    moreover from this have "card (free_frames s) < 8192"
      using card_free_frames_le[of "pmm_set_free (addr div 4096) s"] total_le[OF inv] ff by simp
    ultimately show ?thesis
      using True inv ff by (simp add: pmm_inv_def pmm_free_page_def Let_def unat_word_ariths)
  next
    case False
    then have "pmm_free_page addr s = s" by (auto simp: pmm_free_page_def Let_def)
    with inv show ?thesis by simp
  qed
qed

text \<open>What a release does to the set of free frames.\<close>

lemma pmm_free_frames:
  assumes "pmm_inv s"
  shows "free_frames (pmm_free_page addr s) =
     (if unat addr div 4096 < unat (pmm_total_pages s)
      then insert (unat addr div 4096) (free_frames s) else free_frames s)"
proof -
  let ?n = "unat addr div 4096"
  have n: "unat (addr div 4096) = ?n" by (simp add: unat_div)
  show ?thesis
  proof (cases "?n < unat (pmm_total_pages s) \<and> frame_used s ?n")
    case True
    with total_le[OF assms] have "?n < 8192" by simp
    with True assms n show ?thesis
      by (simp add: pmm_free_page_def Let_def word_less_nat_alt pmm_is_used_iff pmm_inv_def
          free_frames_set_free)
  next
    case False
    then have "pmm_free_page addr s = s"
      by (auto simp: pmm_free_page_def Let_def word_less_nat_alt pmm_is_used_iff n)
    with False show ?thesis by (auto simp: free_frames_def)
  qed
qed

lemma pmm_free_page_free: "unat addr div 4096 \<in> free_frames s \<Longrightarrow> pmm_free_page addr s = s"
  by (auto simp: pmm_free_page_def Let_def pmm_is_used_iff unat_div free_frames_def)

lemma clear_set_bit:
  "\<not> bit w m \<Longrightarrow> (w OR 2 ^ m) AND NOT (2 ^ m) = (w :: u32)"
  by (rule bit_word_eqI) (auto simp: bit_simps simp flip: push_bit_eq_mult)

lemma pmm_set_free_set_used:
  assumes "length (pmm_bitmap s) = 256" and "unat idx < 8192" and "\<not> frame_used s (unat idx)"
  shows "pmm_set_free idx (pmm_set_used idx s) = s"
proof -
  have "unat (idx mod 32) < 32" by (simp add: unat_mod)
  with assms show ?thesis
    by (simp add: pmm_set_free_def pmm_set_used_def frame_used_def unat_div unat_mod clear_set_bit)
qed

lemma pmm_set_free_free_pages:
  "pmm_set_free idx (s\<lparr>pmm_free_pages := c\<rparr>) = (pmm_set_free idx s)\<lparr>pmm_free_pages := c\<rparr>"
  by (simp add: pmm_set_free_def)

section \<open>Initialisation\<close>

lemma pmm_fill_bitmap:
  fixes s :: pmm
  assumes "length (pmm_bitmap s) = 256"
  shows "for_range 0 256 (\<lambda>i t. t\<lparr>pmm_bitmap := (pmm_bitmap t)[i := 0xFFFFFFFF]\<rparr>) s =
         s\<lparr>pmm_bitmap := replicate 256 0xFFFFFFFF\<rparr>"
proof -
  have "for_range 0 256 (\<lambda>i t. t\<lparr>pmm_bitmap := (pmm_bitmap t)[i := 0xFFFFFFFF]\<rparr>) s =
        s\<lparr>pmm_bitmap := replicate 256 0xFFFFFFFF @ drop 256 (pmm_bitmap s)\<rparr>"
  proof (rule for_range_inv[where P = "\<lambda>i t. t = s\<lparr>pmm_bitmap := replicate i 0xFFFFFFFF @ drop i (pmm_bitmap s)\<rparr>"])
    fix i :: nat and t :: pmm
    assume "i < 256" "t = s\<lparr>pmm_bitmap := replicate i 0xFFFFFFFF @ drop i (pmm_bitmap s)\<rparr>"
    moreover from \<open>i < 256\<close> assms have "drop i (pmm_bitmap s) = pmm_bitmap s ! i # drop (Suc i) (pmm_bitmap s)"
      by (simp add: Cons_nth_drop_Suc)
    ultimately show "t\<lparr>pmm_bitmap := (pmm_bitmap t)[i := 0xFFFFFFFF]\<rparr> =
        s\<lparr>pmm_bitmap := replicate (Suc i) 0xFFFFFFFF @ drop (Suc i) (pmm_bitmap s)\<rparr>"
      by (simp add: list_update_append replicate_app_Cons_same flip: replicate_Suc)
  qed simp_all
  with assms show ?thesis by simp
qed

lemma frame_used_full:
  assumes "n < 8192"
  shows "frame_used (s\<lparr>pmm_bitmap := replicate 256 0xFFFFFFFF\<rparr>) n"
proof -
  have "n div 32 < 256" using assms by simp
  moreover have "bit (0xFFFFFFFF :: u32) (n mod 32)"
  proof -
    have "(0xFFFFFFFF :: u32) = mask 32" by (simp add: mask_eq_exp_minus_1)
    then show ?thesis by (simp only: bit_mask_iff) simp
  qed
  ultimately show ?thesis by (simp add: frame_used_def)
qed

definition managed_pages :: "u32 \<Rightarrow> nat" where
  "managed_pages mem_size = min (unat mem_size div 4096) 8192"

lemma pmm_release_loop:
  assumes "length (pmm_bitmap s) = 256" and "\<And>n. n < 8192 \<Longrightarrow> frame_used s n"
    and "pmm_free_pages s = 0" and "lo \<le> hi" and "hi \<le> 8192"
  defines "t \<equiv> for_range lo hi (\<lambda>i t. (pmm_set_free (of_nat i) t)\<lparr>pmm_free_pages := pmm_free_pages t + 1\<rparr>) s"
  shows "length (pmm_bitmap t) = 256 \<and> pmm_total_pages t = pmm_total_pages s \<and>
    pmm_free_pages t = of_nat (hi - lo) \<and> (\<forall>n<8192. frame_used t n \<longleftrightarrow> \<not> (lo \<le> n \<and> n < hi))"
  unfolding t_def
proof (rule for_range_inv[where P = "\<lambda>i t. length (pmm_bitmap t) = 256 \<and>
    pmm_total_pages t = pmm_total_pages s \<and> pmm_free_pages t = of_nat (i - lo) \<and>
    (\<forall>n<8192. frame_used t n \<longleftrightarrow> \<not> (lo \<le> n \<and> n < i))"])
  fix i u
  assume "lo \<le> i" "i < hi" and u: "length (pmm_bitmap u) = 256 \<and>
    pmm_total_pages u = pmm_total_pages s \<and> pmm_free_pages u = of_nat (i - lo) \<and>
    (\<forall>n<8192. frame_used u n \<longleftrightarrow> \<not> (lo \<le> n \<and> n < i))"
  then have i: "unat (of_nat i :: u32) = i" "i < 8192" using assms(5) by simp_all
  show "length (pmm_bitmap ((pmm_set_free (of_nat i) u)\<lparr>pmm_free_pages := pmm_free_pages u + 1\<rparr>)) = 256 \<and>
    pmm_total_pages ((pmm_set_free (of_nat i) u)\<lparr>pmm_free_pages := pmm_free_pages u + 1\<rparr>) = pmm_total_pages s \<and>
    pmm_free_pages ((pmm_set_free (of_nat i) u)\<lparr>pmm_free_pages := pmm_free_pages u + 1\<rparr>) = of_nat (Suc i - lo) \<and>
    (\<forall>n<8192. frame_used ((pmm_set_free (of_nat i) u)\<lparr>pmm_free_pages := pmm_free_pages u + 1\<rparr>) n \<longleftrightarrow>
      \<not> (lo \<le> n \<and> n < Suc i))"
    using u \<open>lo \<le> i\<close> i by (auto simp: frame_used_set_free Suc_diff_le less_Suc_eq)
qed (use assms in auto)

lemma frame_used_fields [simp]:
  "frame_used (s\<lparr>pmm_total_pages := c\<rparr>) = frame_used s"
  "pmm_free_pages (s\<lparr>pmm_bitmap := b\<rparr>) = pmm_free_pages s"
  by (simp_all add: frame_used_def fun_eq_iff)

lemma pmm_init_state:
  assumes "length (pmm_bitmap s) = 256"
  shows "length (pmm_bitmap (pmm_init mem_size s)) = 256"
    and "unat (pmm_total_pages (pmm_init mem_size s)) = managed_pages mem_size"
    and "pmm_free_pages (pmm_init mem_size s) = of_nat (managed_pages mem_size - 1024)"
    and "n < 8192 \<Longrightarrow> frame_used (pmm_init mem_size s) n \<longleftrightarrow> \<not> (1024 \<le> n \<and> n < managed_pages mem_size)"
proof -
  define total where
    "total = (if mem_size div 4096 > 8192 then 8192 else mem_size div (4096 :: u32))"
  have total: "unat total = managed_pages mem_size"
    by (simp add: total_def managed_pages_def word_less_nat_alt unat_div)
  define r where "r = s\<lparr>pmm_total_pages := total, pmm_free_pages := 0\<rparr>\<lparr>pmm_bitmap := replicate 256 (0xFFFFFFFF :: u32)\<rparr>"
  have init: "pmm_init mem_size s = for_range 1024 (managed_pages mem_size)
      (\<lambda>i t. (pmm_set_free (of_nat i) t)\<lparr>pmm_free_pages := pmm_free_pages t + 1\<rparr>) r"
    using assms by (simp add: pmm_init_def Let_def pmm_fill_bitmap r_def flip: total_def total)
  have r: "length (pmm_bitmap r) = 256" "pmm_total_pages r = total" "pmm_free_pages r = 0"
    "n < 8192 \<Longrightarrow> frame_used r n" for n
    by (simp_all add: r_def frame_used_full)
  let ?R = "length (pmm_bitmap (pmm_init mem_size s)) = 256 \<and>
    pmm_total_pages (pmm_init mem_size s) = total \<and>
    pmm_free_pages (pmm_init mem_size s) = of_nat (managed_pages mem_size - 1024) \<and>
    (\<forall>n<8192. frame_used (pmm_init mem_size s) n \<longleftrightarrow> \<not> (1024 \<le> n \<and> n < managed_pages mem_size))"
  have ?R
  proof (cases "1024 \<le> managed_pages mem_size")
    case True
    have "managed_pages mem_size \<le> 8192" by (simp add: managed_pages_def)
    from pmm_release_loop[OF r(1,4,3) True this] r(2) show ?thesis by (simp add: init)
  next
    case False
    then show ?thesis by (auto simp: init r)
  qed
  then show "length (pmm_bitmap (pmm_init mem_size s)) = 256"
    and "unat (pmm_total_pages (pmm_init mem_size s)) = managed_pages mem_size"
    and "pmm_free_pages (pmm_init mem_size s) = of_nat (managed_pages mem_size - 1024)"
    and "n < 8192 \<Longrightarrow> frame_used (pmm_init mem_size s) n \<longleftrightarrow> \<not> (1024 \<le> n \<and> n < managed_pages mem_size)"
    by (simp_all add: total)
qed

lemma pmm_init_free_frames:
  assumes "length (pmm_bitmap s) = 256"
  shows "free_frames (pmm_init mem_size s) = {1024..<managed_pages mem_size}"
proof -
  have "managed_pages mem_size \<le> 8192" by (simp add: managed_pages_def)
  then show ?thesis
    by (auto simp: free_frames_def pmm_init_state[OF assms])
qed

lemma pmm_init_inv:
  assumes "length (pmm_bitmap s) = 256"
  shows "pmm_inv (pmm_init mem_size s)" and "pmm_reserved (pmm_init mem_size s)"
proof -
  have "managed_pages mem_size \<le> 8192" by (simp add: managed_pages_def)
  then have "unat (of_nat (managed_pages mem_size - 1024) :: u32) = managed_pages mem_size - 1024"
    by simp
  with \<open>managed_pages mem_size \<le> 8192\<close> show "pmm_inv (pmm_init mem_size s)"
    using pmm_init_state(1-3)[OF assms, of mem_size]
    by (simp add: pmm_inv_def pmm_init_free_frames[OF assms] word_le_nat_alt)
  show "pmm_reserved (pmm_init mem_size s)"
    using pmm_init_state(4)[OF assms, of _ mem_size] by (simp add: pmm_reserved_def)
qed

section \<open>The allocator seen by its clients\<close>

text \<open>Running the allocator \<open>n\<close> times in a row, collecting what it returns.\<close>

fun allocs :: "('s \<Rightarrow> u32 \<times> 's) \<Rightarrow> nat \<Rightarrow> 's \<Rightarrow> u32 list \<times> 's" where
  "allocs alloc 0 s = ([], s)"
| "allocs alloc (Suc n) s =
     (let (a, s1) = alloc s; (rest, s2) = allocs alloc n s1 in (a # rest, s2))"

locale frame_allocator =
  fixes alloc :: "'s \<Rightarrow> u32 \<times> 's"
    and avail :: "'s \<Rightarrow> u32 set"
    and ok :: "'s \<Rightarrow> bool"
  assumes avail_finite: "finite (avail s)"
    and avail_page: "ok s \<Longrightarrow> a \<in> avail s \<Longrightarrow> 4096 dvd unat a \<and> 0x400000 \<le> unat a \<and> unat a < 0x2000000"
    and alloc_ok: "ok s \<Longrightarrow> ok (snd (alloc s))"
    and alloc_takes: "ok s \<Longrightarrow> avail s \<noteq> {} \<Longrightarrow>
        fst (alloc s) \<in> avail s \<and> avail (snd (alloc s)) = avail s - {fst (alloc s)}"
    and alloc_exhausted: "ok s \<Longrightarrow> avail s = {} \<Longrightarrow> alloc s = (0, s)"
begin

lemma alloc_zero_iff:
  assumes "ok s" shows "fst (alloc s) = 0 \<longleftrightarrow> avail s = {}"
proof (cases "avail s = {}")
  case False
  with alloc_takes[OF assms] avail_page[OF assms] show ?thesis by fastforce
qed (simp add: alloc_exhausted assms)

lemma allocs_fresh:
  "ok s \<Longrightarrow> n \<le> card (avail s) \<Longrightarrow>
   length (fst (allocs alloc n s)) = n \<and> distinct (fst (allocs alloc n s)) \<and>
   set (fst (allocs alloc n s)) \<subseteq> avail s \<and>
   avail (snd (allocs alloc n s)) = avail s - set (fst (allocs alloc n s)) \<and>
   ok (snd (allocs alloc n s))"
proof (induction n arbitrary: s)
  case (Suc n)
  obtain a s1 where a: "alloc s = (a, s1)" by fastforce
  from Suc.prems have "avail s \<noteq> {}" by auto
  from alloc_takes[OF Suc.prems(1) this] alloc_ok[OF Suc.prems(1)] a
  have s1: "a \<in> avail s" "avail s1 = avail s - {a}" "ok s1" by auto
  with Suc.prems have "n \<le> card (avail s1)" by (simp add: card_Diff_singleton avail_finite)
  note IH = Suc.IH[OF s1(3) this]
  obtain as s2 where as: "allocs alloc n s1 = (as, s2)" by fastforce
  have eq: "allocs alloc (Suc n) s = (a # as, s2)" by (simp add: a as)
  from IH have as': "length as = n" "distinct as" "set as \<subseteq> avail s - {a}"
    "avail s2 = avail s - {a} - set as" "ok s2"
    unfolding as s1(2) fst_conv snd_conv by blast+
  show ?case
    unfolding eq fst_conv snd_conv
  proof (intro conjI)
    show "distinct (a # as)" using as'(2,3) by auto
    show "set (a # as) \<subseteq> avail s" using as'(3) s1(1) by auto
    show "avail s2 = avail s - set (a # as)" using as'(4) by auto
  qed (use as' in simp_all)
qed simp

end

definition free_addrs :: "pmm \<Rightarrow> u32 set" where
  "free_addrs s = (\<lambda>n. of_nat n * 4096) ` free_frames s"

definition pmm_safe :: "pmm \<Rightarrow> bool" where
  "pmm_safe s \<longleftrightarrow> pmm_inv s \<and> pmm_reserved s"

lemma free_frame_lt: "pmm_inv s \<Longrightarrow> n \<in> free_frames s \<Longrightarrow> n < 8192"
  using total_le by (fastforce simp: free_frames_def)

lemma free_frame_ge: "pmm_safe s \<Longrightarrow> n \<in> free_frames s \<Longrightarrow> 1024 \<le> n"
  by (rule ccontr) (simp add: pmm_safe_def pmm_reserved_def free_frames_def)

lemma inj_frame_address: "inj_on (\<lambda>n. of_nat n * 4096 :: u32) {..<8192}"
proof (rule inj_onI)
  fix m n :: nat
  assume mn: "m \<in> {..<8192}" "n \<in> {..<8192}" "of_nat m * 4096 = (of_nat n * 4096 :: u32)"
  then have "4096 * m = 4096 * n"
    using frame_address[of m] frame_address[of n] by (simp only: lessThan_iff)
  then show "m = n" by simp
qed

lemma pmm_alloc_reserved:
  assumes "pmm_safe s" shows "pmm_safe (snd (pmm_alloc_page s))"
proof (cases "free_frames s = {}")
  case True
  with assms show ?thesis by (simp add: pmm_alloc_none pmm_safe_def)
next
  case False
  from assms have inv: "pmm_inv s" by (simp add: pmm_safe_def)
  have "unat (of_nat (Min (free_frames s)) :: u32) < 8192" using Min_free_lt[OF inv False] by simp
  moreover have "length (pmm_bitmap s) = 256" using inv by (simp add: pmm_inv_def)
  ultimately have "pmm_reserved (snd (pmm_alloc_page s))"
    using assms by (simp add: pmm_safe_def pmm_reserved_def pmm_alloc_some[OF inv False] frame_used_set_used)
  with pmm_alloc_state(2)[OF inv False] show ?thesis by (simp add: pmm_safe_def)
qed

lemma pmm_alloc_takes:
  assumes "pmm_safe s" and "free_addrs s \<noteq> {}"
  shows "fst (pmm_alloc_page s) \<in> free_addrs s \<and>
    free_addrs (snd (pmm_alloc_page s)) = free_addrs s - {fst (pmm_alloc_page s)}"
proof -
  from assms have ne: "free_frames s \<noteq> {}" and inv: "pmm_inv s"
    by (auto simp: free_addrs_def pmm_safe_def)
  have sub: "free_frames s \<subseteq> {..<8192}" using free_frame_lt[OF inv] by auto
  have "Min (free_frames s) \<in> free_frames s" using ne by (intro Min_in) auto
  moreover from this sub have "(\<lambda>n. of_nat n * 4096 :: u32) ` (free_frames s - {Min (free_frames s)}) =
      (\<lambda>n. of_nat n * 4096) ` free_frames s - (\<lambda>n. of_nat n * 4096) ` {Min (free_frames s)}"
    by (intro inj_on_image_set_diff[OF inj_frame_address]) auto
  ultimately show ?thesis
    using pmm_alloc_some[OF inv ne] pmm_alloc_state(1)[OF inv ne]
    unfolding free_addrs_def by auto
qed

interpretation pmm: frame_allocator pmm_alloc_page free_addrs pmm_safe
proof unfold_locales
  fix s a
  show "finite (free_addrs s)" by (simp add: free_addrs_def)
  assume ok: "pmm_safe s"
  show "pmm_safe (snd (pmm_alloc_page s))" using ok by (rule pmm_alloc_reserved)
  show "free_addrs s \<noteq> {} \<Longrightarrow> fst (pmm_alloc_page s) \<in> free_addrs s \<and>
    free_addrs (snd (pmm_alloc_page s)) = free_addrs s - {fst (pmm_alloc_page s)}"
    using ok by (rule pmm_alloc_takes)
  show "free_addrs s = {} \<Longrightarrow> pmm_alloc_page s = (0, s)"
    using ok by (simp add: free_addrs_def pmm_alloc_none pmm_safe_def)
  assume "a \<in> free_addrs s"
  then obtain n where n: "n \<in> free_frames s" "a = of_nat n * 4096" by (auto simp: free_addrs_def)
  from ok have "n < 8192" using n(1) free_frame_lt by (auto simp: pmm_safe_def)
  moreover have "1024 \<le> n" using free_frame_ge[OF ok n(1)] .
  ultimately show "4096 dvd unat a \<and> 0x400000 \<le> unat a \<and> unat a < 0x2000000"
    by (simp add: n frame_address)
qed

section \<open>Properties\<close>

text \<open>The manager of a machine with \<open>mem_size\<close> bytes of RAM, for concrete instances.\<close>

definition pmm_blank :: pmm where
  "pmm_blank = \<lparr>pmm_bitmap = replicate 256 0, pmm_total_pages = 0, pmm_free_pages = 0\<rparr>"

lemma pmm_blank_length [simp]: "length (pmm_bitmap pmm_blank) = 256"
  by (simp add: pmm_blank_def)

lemma pmm_booted:
  "pmm_safe (pmm_init mem_size pmm_blank)"
  "free_frames (pmm_init mem_size pmm_blank) = {1024..<managed_pages mem_size}"
  "unat (pmm_total_pages (pmm_init mem_size pmm_blank)) = managed_pages mem_size"
  by (simp_all add: pmm_safe_def pmm_init_inv pmm_init_free_frames pmm_init_state)

text \<open>After \<open>pmm_init\<close> with \<open>mem_size\<close> bytes of RAM the free frames are exactly those from
  4 MB up to the end of RAM (32 MB at most), the free counter equals their number, and every
  frame below 4 MB is marked used.\<close>

theorem pmm_init_frees_above_reserved:
  assumes "length (pmm_bitmap s) = 256"
  shows "free_frames (pmm_init mem_size s) = {1024..<managed_pages mem_size} \<and>
    pmm_free_count (pmm_init mem_size s) = of_nat (managed_pages mem_size - 1024) \<and>
    pmm_inv (pmm_init mem_size s) \<and> pmm_reserved (pmm_init mem_size s)"
  using pmm_init_free_frames[OF assms] pmm_init_state(3)[OF assms] pmm_init_inv[OF assms]
  by (simp add: pmm_free_count_def)

theorem pmm_init_frees_above_reserved_witness:
  "free_frames (pmm_init 0x2000000 pmm_blank) = {1024..<8192} \<and>
   pmm_free_count (pmm_init 0x2000000 pmm_blank) = 7168"
  using pmm_init_frees_above_reserved[of pmm_blank "0x2000000"] by (simp add: managed_pages_def)

text \<open>C32: An allocation returns the address of the lowest free frame and takes exactly that frame
  out of the free set, keeping counter and bitmap consistent; with no free frame it returns 0 and
  changes nothing.\<close>

theorem pmm_alloc_first_fit:
  assumes "pmm_inv s"
  shows "if free_frames s = {} then pmm_alloc_page s = (0, s)
         else unat (fst (pmm_alloc_page s)) = 4096 * Min (free_frames s) \<and>
              free_frames (snd (pmm_alloc_page s)) = free_frames s - {Min (free_frames s)} \<and>
              pmm_inv (snd (pmm_alloc_page s))"
  using assms pmm_alloc_none pmm_alloc_state pmm_alloc_some Min_free_lt frame_address by simp

theorem pmm_alloc_first_fit_witness:
  "fst (pmm_alloc_page (pmm_init 0x2000000 pmm_blank)) = 0x400000"
proof -
  have "Min {1024..<8192::nat} = 1024" by (rule Min_eqI) auto
  moreover have "pmm_inv (pmm_init 0x2000000 pmm_blank)" using pmm_booted by (simp add: pmm_safe_def)
  ultimately have "unat (fst (pmm_alloc_page (pmm_init 0x2000000 pmm_blank))) = 0x400000"
    using pmm_alloc_first_fit[of "pmm_init 0x2000000 pmm_blank"]
    by (simp add: pmm_booted managed_pages_def)
  then show ?thesis by (simp add: word_unat_eq_iff)
qed

text \<open>Releasing the page just allocated restores the manager exactly, bitmap and counters
  included; a second release of it changes nothing.\<close>

theorem pmm_alloc_free_roundtrip:
  assumes "pmm_inv s" and "free_frames s \<noteq> {}"
  shows "pmm_free_page (fst (pmm_alloc_page s)) (snd (pmm_alloc_page s)) = s \<and>
    pmm_free_page (fst (pmm_alloc_page s)) s = s"
proof -
  define i where "i = Min (free_frames s)"
  have i: "i \<in> free_frames s" "i < 8192"
    using assms Min_free_lt by (auto simp: i_def intro: Min_in)
  then have u: "unat (of_nat i :: u32) = i" "unat (of_nat i * 4096 :: u32) div 4096 = i"
    by (simp_all add: frame_address)
  have len: "length (pmm_bitmap s) = 256" using assms(1) by (simp add: pmm_inv_def)
  have "pmm_free_page (of_nat i * 4096) ((pmm_set_used (of_nat i) s)\<lparr>pmm_free_pages := pmm_free_pages s - 1\<rparr>) = s"
    using i u len
    by (simp add: pmm_free_page_def frame_address_div pmm_is_used_iff frame_used_set_used
        pmm_set_free_free_pages pmm_set_free_set_used free_frames_def word_less_nat_alt)
  with i u show ?thesis
    by (simp add: pmm_alloc_some[OF assms] pmm_free_page_free flip: i_def)
qed

theorem pmm_alloc_free_roundtrip_witness:
  "pmm_free_page (fst (pmm_alloc_page (pmm_init 0x2000000 pmm_blank)))
     (snd (pmm_alloc_page (pmm_init 0x2000000 pmm_blank))) = pmm_init 0x2000000 pmm_blank"
proof -
  have "pmm_inv (pmm_init 0x2000000 pmm_blank)" "free_frames (pmm_init 0x2000000 pmm_blank) \<noteq> {}"
    using pmm_booted(1) by (simp_all add: pmm_safe_def pmm_booted(2) managed_pages_def)
  from pmm_alloc_free_roundtrip[OF this] show ?thesis by blast
qed

text \<open>C33: A run of allocations no longer than the number of free frames returns pairwise distinct,
  page-aligned addresses above the reserved 4 MB, none of them the failure value 0.\<close>

theorem pmm_allocs_distinct:
  assumes "pmm_safe s" and "n \<le> card (free_addrs s)"
  shows "distinct (fst (allocs pmm_alloc_page n s)) \<and>
    (\<forall>a \<in> set (fst (allocs pmm_alloc_page n s)). 4096 dvd unat a \<and> 0x400000 \<le> unat a) \<and>
    free_addrs (snd (allocs pmm_alloc_page n s)) =
      free_addrs s - set (fst (allocs pmm_alloc_page n s))"
  using pmm.allocs_fresh[OF assms] pmm.avail_page[OF assms(1)] by blast

theorem pmm_allocs_distinct_witness:
  "distinct (fst (allocs pmm_alloc_page 3 (pmm_init 0x2000000 pmm_blank)))"
proof -
  have "card (free_addrs (pmm_init 0x2000000 pmm_blank)) = card {1024..<8192::nat}"
    unfolding free_addrs_def pmm_booted(2)
    by (subst card_image) (auto simp: managed_pages_def intro: inj_on_subset[OF inj_frame_address])
  then have "3 \<le> card (free_addrs (pmm_init 0x2000000 pmm_blank))" by simp
  from pmm_allocs_distinct[OF pmm_booted(1) this] show ?thesis by blast
qed

text \<open>\<open>pmm_free_page\<close> does not guard the reserved region: releasing any address below 4 MB
  un-reserves its frame, and the next allocation hands out memory of the kernel's own 4 MB.\<close>

theorem pmm_free_breaks_reserved:
  assumes "pmm_safe s" and "1024 \<le> unat (pmm_total_pages s)" and "unat addr < 0x400000"
  shows "\<not> pmm_reserved (pmm_free_page addr s) \<and>
    unat (fst (pmm_alloc_page (pmm_free_page addr s))) < 0x400000"
proof -
  let ?n = "unat addr div 4096" and ?t = "pmm_free_page addr s"
  from assms have inv: "pmm_inv s" by (simp add: pmm_safe_def)
  have n: "?n < 1024" using assms(3) by simp
  with assms(2) have ff: "?n \<in> free_frames ?t" by (simp add: pmm_free_frames[OF inv])
  then have "\<not> frame_used ?t ?n" by (simp add: free_frames_def)
  moreover have "Min (free_frames ?t) \<le> ?n" using ff by simp
  with n have m: "Min (free_frames ?t) < 1024" by simp
  have "fst (pmm_alloc_page ?t) = of_nat (Min (free_frames ?t)) * 4096"
    using ff by (subst pmm_alloc_some[OF pmm_free_inv[OF inv]]) auto
  with m have "unat (fst (pmm_alloc_page ?t)) < 0x400000" by (simp add: frame_address)
  ultimately show ?thesis using n by (auto simp: pmm_reserved_def)
qed

theorem pmm_free_breaks_reserved_witness:
  "\<not> pmm_reserved (pmm_free_page 0x1000 (pmm_init 0x2000000 pmm_blank))"
  using pmm_free_breaks_reserved[OF pmm_booted(1), of "0x2000000" "0x1000"]
  by (simp add: pmm_booted(3) managed_pages_def)

end
