(* ===== verification/Machine.thy ===== *)
theory Machine
  imports Pepin_Prelude
begin

text \<open>
  The machine the kernel runs on: byte-addressed physical memory, CR3 and CR0, and the
  two-level page walk of the i386, which reads the tables \<^verbatim>\<open>mm/paging.c\<close>, \<^verbatim>\<open>mm/vmm.c\<close> and
  \<^verbatim>\<open>fs/elf.c\<close> write. Once CR0.PG is set every kernel access goes through the walk, and an
  access it does not map is a page fault. The TLB is not modelled: the code invalidates or
  reloads CR3 where an entry it changed is live.
\<close>

section \<open>Physical memory\<close>

type_synonym mem = "u32 \<Rightarrow> u8"

definition ld32 :: "mem \<Rightarrow> u32 \<Rightarrow> u32" where
  "ld32 m a = ucast (m a) OR push_bit 8 (ucast (m (a + 1))) OR
              push_bit 16 (ucast (m (a + 2))) OR push_bit 24 (ucast (m (a + 3)))"

definition st32 :: "mem \<Rightarrow> u32 \<Rightarrow> u32 \<Rightarrow> mem" where
  "st32 m a v = m(a := ucast v, a + 1 := ucast (drop_bit 8 v),
                  a + 2 := ucast (drop_bit 16 v), a + 3 := ucast (drop_bit 24 v))"

lemma ld32_st32_same [simp]: "ld32 (st32 m a v) a = v"
proof -
  have "ucast (ucast v :: u8) OR push_bit 8 (ucast (ucast (drop_bit 8 v) :: u8)) OR
        push_bit 16 (ucast (ucast (drop_bit 16 v) :: u8)) OR
        push_bit 24 (ucast (ucast (drop_bit 24 v) :: u8)) = v"
  proof (rule bit_word_eqI)
    fix n assume "n < LENGTH(32)"
    then consider "n < 8" | "8 \<le> n" "n < 16" | "16 \<le> n" "n < 24" | "24 \<le> n" "n < 32" by fastforce
    then show "bit (ucast (ucast v :: u8) OR push_bit 8 (ucast (ucast (drop_bit 8 v) :: u8)) OR
        push_bit 16 (ucast (ucast (drop_bit 16 v) :: u8)) OR
        push_bit 24 (ucast (ucast (drop_bit 24 v) :: u8)) :: u32) n = bit v n"
      by cases (auto simp: bit_simps)
  qed
  then show ?thesis by (simp add: ld32_def st32_def)
qed

text \<open>Aligned accesses to different dwords do not meet.\<close>

lemma unat_add_lt4:
  fixes a :: u32
  assumes "4 dvd unat a"
  shows "unat (a + 1) = unat a + 1" "unat (a + 2) = unat a + 2" "unat (a + 3) = unat a + 3"
proof -
  have "unat a + 4 \<le> 4294967296" using dvd_bound[OF assms, of 4294967296] unat_lt32[of a] by simp
  then show "unat (a + 1) = unat a + 1" "unat (a + 2) = unat a + 2" "unat (a + 3) = unat a + 3"
    by (simp_all add: unat_add_no_wrap)
qed

lemma st32_apply:
  assumes "4 dvd unat a"
  shows "unat b < unat a \<or> unat a + 4 \<le> unat b \<Longrightarrow> st32 m a v b = m b"
  using unat_add_lt4[OF assms] by (auto simp: st32_def)

lemma ld32_cong:
  fixes m m' :: mem
  assumes "4 dvd unat b"
    and "\<And>x. unat b \<le> unat x \<Longrightarrow> unat x < unat b + 4 \<Longrightarrow> m' x = m x"
  shows "ld32 m' b = ld32 m b"
  using unat_add_lt4[OF assms(1)] by (simp add: ld32_def assms(2))

lemma ld32_st32_other:
  assumes "4 dvd unat a" and "4 dvd unat b" and "a \<noteq> b"
  shows "ld32 (st32 m a v) b = ld32 m b"
proof (rule ld32_cong[OF assms(2)])
  fix x :: u32 assume x: "unat b \<le> unat x" "unat x < unat b + 4"
  have "unat a \<noteq> unat b" using assms(3) by (simp add: word_unat_eq_iff)
  then have "unat a + 4 \<le> unat b \<or> unat b + 4 \<le> unat a"
    using assms(1,2) by (metis dvd_bound linorder_neqE_nat)
  with x show "st32 m a v x = m x" by (intro st32_apply[OF assms(1)]) auto
qed

section \<open>Page tables\<close>

definition page_aligned :: "u32 \<Rightarrow> bool" where
  "page_aligned p \<longleftrightarrow> 4096 dvd unat p"

definition slot :: "u32 \<Rightarrow> nat \<Rightarrow> u32" where
  "slot p i = p + 4 * of_nat i"

lemma unat_slot: "page_aligned p \<Longrightarrow> i < 1024 \<Longrightarrow> unat (slot p i) = unat p + 4 * i"
proof -
  assume "page_aligned p" "i < 1024"
  moreover from this have "unat p + 4096 \<le> 4294967296"
    using dvd_bound[of 4096 "unat p" 4294967296] unat_lt32[of p] by (simp add: page_aligned_def)
  moreover have "unat (4 * of_nat i :: u32) = 4 * i" using \<open>i < 1024\<close>
    by (simp add: unat_word_ariths unat_of_nat)
  ultimately show ?thesis by (simp add: slot_def unat_add_no_wrap)
qed

lemma slot_aligned: "page_aligned p \<Longrightarrow> i < 1024 \<Longrightarrow> 4 dvd unat (slot p i)"
  by (auto simp: unat_slot page_aligned_def intro: dvd_trans[of 4 4096])

lemma slot_eq_iff:
  assumes "page_aligned p" "page_aligned q" "i < 1024" "j < 1024"
  shows "slot p i = slot q j \<longleftrightarrow> p = q \<and> i = j"
proof
  assume "slot p i = slot q j"
  then have e: "unat p + 4 * i = unat q + 4 * j"
    using assms unat_slot by (metis (no_types))
  obtain k l where kl: "unat p = 4096 * k" "unat q = 4096 * l"
    using assms(1,2) by (auto simp: page_aligned_def elim!: dvdE)
  have "k = (4096 * k + 4 * i) div 4096" "l = (4096 * l + 4 * j) div 4096" using assms(3,4) by simp_all
  with e kl have "k = l" by simp
  with e kl show "p = q \<and> i = j" by (simp add: word_unat_eq_iff)
qed simp

lemma ld32_st32_slot [simp]:
  "page_aligned p \<Longrightarrow> page_aligned q \<Longrightarrow> i < 1024 \<Longrightarrow> j < 1024 \<Longrightarrow>
   ld32 (st32 m (slot p i) v) (slot q j) = (if p = q \<and> i = j then v else ld32 m (slot q j))"
  by (auto simp: slot_eq_iff ld32_st32_other slot_aligned)

text \<open>A table or directory entry: frame address in the upper 20 bits, flags in the lower 12.\<close>

definition page_base :: "u32 \<Rightarrow> u32" where
  "page_base e = e AND NOT 0xFFF"

definition pd_index :: "u32 \<Rightarrow> nat" where
  "pd_index va = unat (drop_bit 22 va)"

definition pt_index :: "u32 \<Rightarrow> nat" where
  "pt_index va = unat (drop_bit 12 va AND 0x3FF)"

definition present :: "u32 \<Rightarrow> bool" where
  "present e \<longleftrightarrow> e AND 1 \<noteq> 0"

definition walk_entry :: "mem \<Rightarrow> u32 \<Rightarrow> u32 \<Rightarrow> (u32 \<times> u32) option" where
  "walk_entry m pd va =
     (let pde = ld32 m (slot (page_base pd) (pd_index va))
      in if \<not> present pde then None
         else let pte = ld32 m (slot (page_base pde) (pt_index va))
              in if \<not> present pte then None else Some (pde, pte))"

definition walk :: "mem \<Rightarrow> u32 \<Rightarrow> u32 \<Rightarrow> u32 option" where
  "walk m pd va = map_option (\<lambda>(pde, pte). page_base pte OR (va AND 0xFFF)) (walk_entry m pd va)"

text \<open>Ring 3 may write where both levels carry the user and the write flag.\<close>

definition user_writable :: "mem \<Rightarrow> u32 \<Rightarrow> u32 \<Rightarrow> bool" where
  "user_writable m pd va \<longleftrightarrow>
     (case walk_entry m pd va of None \<Rightarrow> False | Some (pde, pte) \<Rightarrow> pde AND pte AND 6 = 6)"

lemma page_base_mask: "page_base e = push_bit 12 (drop_bit 12 e)"
proof -
  have m: "(0xFFF :: u32) = mask 12" by (simp add: mask_eq_exp_minus_1)
  show ?thesis unfolding page_base_def m by (rule bit_word_eqI) (auto simp: bit_simps)
qed

lemma unat_page_base: "unat (page_base e) = unat e div 4096 * 4096"
proof -
  have "unat e div 4096 * 4096 < 4294967296"
    by (rule le_less_trans[OF div_times_less_eq_dividend unat_lt32])
  then show ?thesis
    by (simp add: page_base_mask push_bit_eq_mult drop_bit_eq_div unat_word_ariths unat_div)
qed

lemma page_base_aligned [simp]: "page_aligned (page_base e)"
  by (simp add: page_aligned_def unat_page_base)

lemma page_base_id: "page_aligned p \<Longrightarrow> page_base p = p"
  by (rule word_unat_eq_iff[THEN iffD2]) (simp add: unat_page_base page_aligned_def)

lemma page_aligned_bits: "page_aligned p \<Longrightarrow> n < 12 \<Longrightarrow> \<not> bit p n"
  using page_base_id[of p] by (metis page_base_mask bit_push_bit_iff leD)

lemma unat_and_FFF: "unat (w AND 0xFFF :: u32) = unat w mod 4096"
proof -
  have "(0xFFF :: u32) = mask 12" by (simp add: mask_eq_exp_minus_1)
  then have "w AND 0xFFF = take_bit 12 w" by (simp only: take_bit_eq_mask)
  then show ?thesis by (simp add: take_bit_eq_mod unat_mod)
qed

lemma pd_index_eq: "pd_index va = unat va div 4194304"
  by (simp add: pd_index_def drop_bit_eq_div unat_div)

lemma pt_index_eq: "pt_index va = unat va div 4096 mod 1024"
proof -
  have "(0x3FF :: u32) = mask 10" by (simp add: mask_eq_exp_minus_1)
  then have "drop_bit 12 va AND 0x3FF = take_bit 10 (drop_bit 12 va)" by (simp only: take_bit_eq_mask)
  then show ?thesis by (simp add: pt_index_def take_bit_eq_mod drop_bit_eq_div unat_div unat_mod)
qed

lemma pd_index_lt [simp]: "pd_index va < 1024"
  using unat_lt32[of va] by (simp add: pd_index_eq)

lemma pt_index_lt [simp]: "pt_index va < 1024"
  by (simp add: pt_index_eq)

text \<open>Entries built from a frame address and flags, as every mapping routine builds them.\<close>

lemma page_base_entry:
  assumes "page_aligned p" and "unat fl < 4096"
  shows "page_base (p OR fl) = p"
proof -
  have "drop_bit 12 fl = 0" using assms(2) by (simp add: drop_bit_eq_div word_unat_eq_iff unat_div)
  then have "page_base (p OR fl) = page_base p" by (simp add: page_base_mask drop_bit_or)
  then show ?thesis by (simp add: page_base_id assms(1))
qed

lemma bits_below_page:
  fixes k :: u32
  assumes "unat k < 4096" and "bit k n"
  shows "n < 12"
proof -
  have "k = take_bit 12 k"
    using assms(1) by (simp add: word_unat_eq_iff take_bit_eq_mod unat_mod)
  then have "bit (take_bit 12 k) n" using assms(2) by simp
  then show ?thesis by (simp add: bit_take_bit_iff)
qed

lemma and_entry:
  assumes "page_aligned p" and "unat k < 4096"
  shows "(p OR fl) AND k = fl AND k"
proof (rule bit_word_eqI)
  fix n assume "n < LENGTH(32)"
  from page_aligned_bits[OF assms(1)] bits_below_page[OF assms(2)] show "bit ((p OR fl) AND k) n = bit (fl AND k) n"
    by (auto simp: bit_simps)
qed

lemma present_entry: "page_aligned p \<Longrightarrow> present (p OR fl) \<longleftrightarrow> present fl"
  by (simp add: present_def and_entry)

lemma unat_or_disjoint:
  assumes "page_aligned p" and "unat k < 4096"
  shows "unat (p OR k) = unat p + unat k"
proof -
  from page_aligned_bits[OF assms(1)] bits_below_page[OF assms(2)] have "p AND k = 0"
    by (intro bit_word_eqI) (auto simp: bit_simps)
  then have "p OR k = p + k" by (simp add: disjunctive_add_eq_or)
  moreover have "unat p + 4096 \<le> 4294967296"
    using dvd_bound[of 4096 "unat p" 4294967296] unat_lt32[of p] assms(1) by (simp add: page_aligned_def)
  ultimately show ?thesis using assms(2) by (simp add: unat_add_no_wrap)
qed

text \<open>A virtual address is its directory index, its table index and its offset.\<close>

lemma page_of_indices:
  "unat va div 4096 = 1024 * pd_index va + pt_index va"
proof -
  have "unat va div 4194304 = unat va div 4096 div 1024" by (simp flip: div_mult2_eq)
  then show ?thesis by (simp add: pd_index_eq pt_index_eq)
qed

lemma same_page_iff:
  "page_base va = page_base va' \<longleftrightarrow> pd_index va = pd_index va' \<and> pt_index va = pt_index va'"
proof -
  have "page_base va = page_base va' \<longleftrightarrow> unat va div 4096 = unat va' div 4096"
    by (simp add: word_unat_eq_iff unat_page_base)
  also have "\<dots> \<longleftrightarrow> pd_index va = pd_index va' \<and> pt_index va = pt_index va'"
  proof
    assume "unat va div 4096 = unat va' div 4096"
    then show "pd_index va = pd_index va' \<and> pt_index va = pt_index va'"
      by (simp add: pt_index_eq pd_index_eq div_mult2_eq[of _ 4096 1024, simplified])
  qed (simp add: page_of_indices)
  finally show ?thesis .
qed

lemma high_address:
  assumes "0xC0000000 \<le> unat va" "unat va < 0xC1000000"
  shows "unat (va - 0xC0000000 :: u32) = unat va - 0xC0000000"
    "pd_index (va - 0xC0000000) = pd_index va - 768" "pt_index (va - 0xC0000000) = pt_index va"
proof -
  define w where "w = unat va - 0xC0000000"
  have w: "unat va = w + 0xC0000000" using assms(1) by (simp add: w_def)
  show u: "unat (va - 0xC0000000) = unat va - 0xC0000000"
    using assms by (subst unat_sub_if_size) (simp add: word_size)
  have "unat va div 4194304 = 768 + w div 4194304"
    using div_mult_self1[of 4194304 w 768] w by simp
  then show "pd_index (va - 0xC0000000) = pd_index va - 768"
    unfolding pd_index_eq u by (simp add: w_def)
  have "unat va div 4096 = 786432 + w div 4096"
    using div_mult_self1[of 4096 w 786432] w by simp
  then have "unat va div 4096 mod 1024 = w div 4096 mod 1024"
    using mod_mult_self1[of "w div 4096" 768 1024] by (simp add: add.commute)
  then show "pt_index (va - 0xC0000000) = pt_index va"
    unfolding pt_index_eq u by (simp add: w_def)
qed

section \<open>The machine and the kernel's accesses\<close>

record mach =
  mm_mem :: mem
  mm_cr3 :: u32
  mm_cr0 :: u32

definition paging_on :: "mach \<Rightarrow> bool" where
  "paging_on c \<longleftrightarrow> bit (mm_cr0 c) 31"

definition translate :: "mach \<Rightarrow> u32 \<Rightarrow> u32 option" where
  "translate c va = (if paging_on c then walk (mm_mem c) (mm_cr3 c) va else Some va)"

definition kld8 :: "u32 \<Rightarrow> mach \<Rightarrow> u8 outcome" where
  "kld8 va c = (case translate c va of None \<Rightarrow> Inl PageFault | Some a \<Rightarrow> Inr (mm_mem c a))"

definition kst8 :: "u32 \<Rightarrow> u8 \<Rightarrow> mach \<Rightarrow> mach outcome" where
  "kst8 va v c = (case translate c va of None \<Rightarrow> Inl PageFault
     | Some a \<Rightarrow> Inr (c\<lparr>mm_mem := (mm_mem c)(a := v)\<rparr>))"

text \<open>A 32-bit access faults, without effect, when any of its four bytes is unmapped.\<close>

definition kld32 :: "u32 \<Rightarrow> mach \<Rightarrow> u32 outcome" where
  "kld32 va c =
     (case (translate c va, translate c (va + 1), translate c (va + 2), translate c (va + 3)) of
        (Some a, Some a1, Some a2, Some a3) \<Rightarrow>
          Inr (ucast (mm_mem c a) OR push_bit 8 (ucast (mm_mem c a1)) OR
               push_bit 16 (ucast (mm_mem c a2)) OR push_bit 24 (ucast (mm_mem c a3)))
      | _ \<Rightarrow> Inl PageFault)"

definition kst32 :: "u32 \<Rightarrow> u32 \<Rightarrow> mach \<Rightarrow> mach outcome" where
  "kst32 va v c =
     (case (translate c va, translate c (va + 1), translate c (va + 2), translate c (va + 3)) of
        (Some a, Some a1, Some a2, Some a3) \<Rightarrow>
          Inr (c\<lparr>mm_mem := (mm_mem c)(a := ucast v, a1 := ucast (drop_bit 8 v),
                              a2 := ucast (drop_bit 16 v), a3 := ucast (drop_bit 24 v))\<rparr>)
      | _ \<Rightarrow> Inl PageFault)"

lemma kst32_regs: "kst32 va v c = Inr c' \<Longrightarrow> mm_cr3 c' = mm_cr3 c \<and> mm_cr0 c' = mm_cr0 c"
  by (auto simp: kst32_def split: option.splits)

lemma kst8_regs: "kst8 va v c = Inr c' \<Longrightarrow> mm_cr3 c' = mm_cr3 c \<and> mm_cr0 c' = mm_cr0 c"
  by (auto simp: kst8_def split: option.splits)

lemma kst32_stop: "kst32 va v c = Inl e \<Longrightarrow> e = PageFault"
  by (auto simp: kst32_def split: option.splits)

section \<open>Accesses from ring 3\<close>

definition user_readable :: "mem \<Rightarrow> u32 \<Rightarrow> u32 \<Rightarrow> bool" where
  "user_readable m pd va \<longleftrightarrow>
     (case walk_entry m pd va of None \<Rightarrow> False | Some (pde, pte) \<Rightarrow> pde AND pte AND 4 = 4)"

definition uld8 :: "u32 \<Rightarrow> mach \<Rightarrow> u8 outcome" where
  "uld8 a c = (if user_readable (mm_mem c) (mm_cr3 c) a then kld8 a c else Inl PageFault)"

definition ust8 :: "u32 \<Rightarrow> u8 \<Rightarrow> mach \<Rightarrow> mach outcome" where
  "ust8 a v c = (if user_writable (mm_mem c) (mm_cr3 c) a then kst8 a v c else Inl PageFault)"

lemma writable_readable: "user_writable m pd va \<Longrightarrow> user_readable m pd va"
proof -
  have "(d AND e AND 4 = 4)" if "d AND e AND 6 = (6 :: u32)" for d e
  proof -
    have "d AND e AND 4 = (d AND e AND 6) AND 4" by (simp add: and.assoc)
    with that show ?thesis by simp
  qed
  then show "user_writable m pd va \<Longrightarrow> user_readable m pd va"
    by (auto simp: user_writable_def user_readable_def split: option.splits)
qed

text \<open>What ring 3 may do, the kernel may do in the same space.\<close>

lemma uld8_kld8: "uld8 a c = Inr v \<Longrightarrow> kld8 a c = Inr v"
  by (simp add: uld8_def split: if_splits)

lemma ust8_kst8: "ust8 a v c = Inr c' \<Longrightarrow> kst8 a v c = Inr c'"
  by (simp add: ust8_def split: if_splits)

text \<open>The 16 MB that the kernel sees at their physical addresses.\<close>

definition id_window :: "mach \<Rightarrow> bool" where
  "id_window c \<longleftrightarrow> (\<forall>va. unat va < 0x1000000 \<longrightarrow> translate c va = Some va)"

lemma id_windowD: "id_window c \<Longrightarrow> unat va < 0x1000000 \<Longrightarrow> translate c va = Some va"
  by (simp add: id_window_def)

lemma dword_in_window:
  fixes a :: u32
  assumes "4 dvd unat a" and "unat a < 0x1000000"
  shows "unat (a + 1) < 0x1000000" "unat (a + 2) < 0x1000000" "unat (a + 3) < 0x1000000"
  using dvd_bound[OF assms(1), of "0x1000000"] assms(2) by (simp_all add: unat_add_lt4[OF assms(1)])

lemma kst32_window:
  assumes "id_window c" and "4 dvd unat a" and "unat a < 0x1000000"
  shows "kst32 a v c = Inr (c\<lparr>mm_mem := st32 (mm_mem c) a v\<rparr>)"
  using assms dword_in_window[OF assms(2,3)] by (simp add: kst32_def st32_def id_windowD)

lemma kld32_window:
  assumes "id_window c" and "4 dvd unat a" and "unat a < 0x1000000"
  shows "kld32 a c = Inr (ld32 (mm_mem c) a)"
  using assms dword_in_window[OF assms(2,3)] by (simp add: kld32_def ld32_def id_windowD)

lemma kst8_window:
  "id_window c \<Longrightarrow> unat a < 0x1000000 \<Longrightarrow> kst8 a v c = Inr (c\<lparr>mm_mem := (mm_mem c)(a := v)\<rparr>)"
  by (simp add: kst8_def id_windowD)

lemma slot_in_window:
  assumes "page_aligned p" and "unat p < 0x1000000" and "i < 1024"
  shows "unat (slot p i) < 0x1000000"
proof -
  have "unat p + 4096 \<le> 0x1000000"
    using assms(1,2) by (intro dvd_bound) (simp_all add: page_aligned_def)
  with assms(1,3) show ?thesis by (simp add: unat_slot)
qed

section \<open>Filling one page\<close>

definition agree_off :: "u32 \<Rightarrow> mem \<Rightarrow> mem \<Rightarrow> bool" where
  "agree_off p m m' \<longleftrightarrow> (\<forall>a. page_base a \<noteq> p \<longrightarrow> m' a = m a)"

lemma agree_off_refl [simp]: "agree_off p m m"
  by (simp add: agree_off_def)

lemma agree_off_trans: "agree_off p m m1 \<Longrightarrow> agree_off p m1 m2 \<Longrightarrow> agree_off p m m2"
  by (simp add: agree_off_def)

lemma page_base_slot:
  assumes "page_aligned p" "i < 1024" "unat (slot p i) \<le> unat x" "unat x < unat (slot p i) + 4"
  shows "page_base x = p"
proof -
  obtain k where k: "unat p = 4096 * k" using assms(1) by (auto simp: page_aligned_def elim!: dvdE)
  have "unat x div 4096 = k" using assms k by (simp add: unat_slot div_nat_eqI)
  with k show ?thesis by (simp add: word_unat_eq_iff unat_page_base)
qed

lemma agree_off_st32: "page_aligned p \<Longrightarrow> i < 1024 \<Longrightarrow> agree_off p m (st32 m (slot p i) v)"
  unfolding agree_off_def
  by (metis page_base_slot st32_apply slot_aligned linorder_not_le)

lemma ld32_agree_off:
  assumes "agree_off p m m'" and "page_aligned q" and "j < 1024" and "p \<noteq> q"
  shows "ld32 m' (slot q j) = ld32 m (slot q j)"
  using assms page_base_slot by (intro ld32_cong slot_aligned) (auto simp: agree_off_def)

text \<open>A loop that writes the first \<open>n\<close> entries of a table, and nothing else.\<close>

lemma table_loop_at:
  assumes "page_aligned p" and "unat p < 0x1000000" and "b + n \<le> 1024"
    and win: "\<And>m'. agree_off p (mm_mem c) m' \<Longrightarrow> id_window (c\<lparr>mm_mem := m'\<rparr>)"
    and body: "\<And>i m'. i < n \<Longrightarrow> agree_off p (mm_mem c) m' \<Longrightarrow>
      body i (c\<lparr>mm_mem := m'\<rparr>) = kst32 (slot p (b + i)) (f i) (c\<lparr>mm_mem := m'\<rparr>)"
  shows "\<exists>m'. for_try 0 n body c = Inr (c\<lparr>mm_mem := m'\<rparr>) \<and> agree_off p (mm_mem c) m' \<and>
    (\<forall>j<1024. ld32 m' (slot p j) =
       (if b \<le> j \<and> j < b + n then f (j - b) else ld32 (mm_mem c) (slot p j)))"
proof -
  let ?P = "\<lambda>i t. \<exists>m'. t = c\<lparr>mm_mem := m'\<rparr> \<and> agree_off p (mm_mem c) m' \<and>
    (\<forall>j<1024. ld32 m' (slot p j) =
       (if b \<le> j \<and> j < b + i then f (j - b) else ld32 (mm_mem c) (slot p j)))"
  have "\<exists>t. for_try 0 n body c = Inr t \<and> ?P n t"
  proof (rule for_try_inv)
    have "c = c\<lparr>mm_mem := mm_mem c\<rparr>" by simp
    then show "?P 0 c" by (intro exI[of _ "mm_mem c"]) auto
  next
    fix i t assume "0 \<le> i" "i < n" "?P i t"
    then obtain m' where m': "t = c\<lparr>mm_mem := m'\<rparr>" "agree_off p (mm_mem c) m'"
      "\<And>j. j < 1024 \<Longrightarrow> ld32 m' (slot p j) =
         (if b \<le> j \<and> j < b + i then f (j - b) else ld32 (mm_mem c) (slot p j))"
      by auto
    from \<open>i < n\<close> assms(3) have i: "b + i < 1024" by simp
    let ?m = "st32 m' (slot p (b + i)) (f i)"
    have "body i t = Inr (c\<lparr>mm_mem := ?m\<rparr>)"
      using body[OF \<open>i < n\<close> m'(2)] kst32_window[OF win[OF m'(2)] slot_aligned slot_in_window] assms(1,2) i
      by (simp add: m'(1))
    moreover have "agree_off p (mm_mem c) ?m"
      using m'(2) agree_off_st32[OF assms(1) i] by (rule agree_off_trans)
    moreover have "ld32 ?m (slot p j) =
        (if b \<le> j \<and> j < b + Suc i then f (j - b) else ld32 (mm_mem c) (slot p j))" if "j < 1024" for j
    proof (cases "j = b + i")
      case True
      with assms(1) i show ?thesis by simp
    next
      case False
      then have "(b \<le> j \<and> j < b + Suc i) = (b \<le> j \<and> j < b + i)" by auto
      with False assms(1) i that m'(3) show ?thesis by auto
    qed
    ultimately show "\<exists>t'. body i t = Inr t' \<and> ?P (Suc i) t'" by blast
  qed simp
  then show ?thesis by blast
qed

lemma table_loop:
  assumes "page_aligned p" and "unat p < 0x1000000" and "n \<le> 1024"
    and win: "\<And>m'. agree_off p (mm_mem c) m' \<Longrightarrow> id_window (c\<lparr>mm_mem := m'\<rparr>)"
    and body: "\<And>i m'. i < n \<Longrightarrow> agree_off p (mm_mem c) m' \<Longrightarrow>
      body i (c\<lparr>mm_mem := m'\<rparr>) = kst32 (slot p i) (f i) (c\<lparr>mm_mem := m'\<rparr>)"
  shows "\<exists>m'. for_try 0 n body c = Inr (c\<lparr>mm_mem := m'\<rparr>) \<and> agree_off p (mm_mem c) m' \<and>
    (\<forall>j<1024. ld32 m' (slot p j) = (if j < n then f j else ld32 (mm_mem c) (slot p j)))"
  using table_loop_at[of p 0 n c body f] assms
  by (simp only: add_0 minus_nat.diff_0 le0 simp_thms)

text \<open>The same for a loop over bytes.\<close>

lemma unat_page_byte: "page_aligned p \<Longrightarrow> j < 4096 \<Longrightarrow> unat (p + of_nat j) = unat p + j"
proof -
  assume "page_aligned p" "j < 4096"
  moreover from this have "unat p + 4096 \<le> 4294967296"
    using dvd_bound[of 4096 "unat p" 4294967296] unat_lt32[of p] by (simp add: page_aligned_def)
  ultimately show ?thesis by (simp add: unat_add_no_wrap)
qed

lemma page_base_byte: "page_aligned p \<Longrightarrow> j < 4096 \<Longrightarrow> page_base (p + of_nat j) = p"
  by (rule word_unat_eq_iff[THEN iffD2])
     (auto simp: unat_page_base unat_page_byte page_aligned_def elim!: dvdE)

lemma page_byte_inj: "page_aligned p \<Longrightarrow> i < 4096 \<Longrightarrow> j < 4096 \<Longrightarrow> p + of_nat i = p + of_nat j \<longleftrightarrow> i = j"
  by (metis unat_page_byte add_left_cancel)

lemma page_byte_in_window:
  assumes "page_aligned p" and "unat p < 0x1000000" and "j < 4096"
  shows "unat (p + of_nat j) < 0x1000000"
proof -
  have "unat p + 4096 \<le> 0x1000000"
    using assms(1,2) by (intro dvd_bound) (simp_all add: page_aligned_def)
  with assms(1,3) show ?thesis by (simp add: unat_page_byte)
qed

lemma byte_loop:
  assumes "page_aligned p" and "unat p < 0x1000000" and "n \<le> 4096"
    and win: "\<And>m'. agree_off p (mm_mem c) m' \<Longrightarrow> id_window (c\<lparr>mm_mem := m'\<rparr>)"
    and body: "\<And>i m'. i < n \<Longrightarrow> agree_off p (mm_mem c) m' \<Longrightarrow>
      body i (c\<lparr>mm_mem := m'\<rparr>) = kst8 (p + of_nat i) (f i) (c\<lparr>mm_mem := m'\<rparr>)"
  shows "\<exists>m'. for_try 0 n body c = Inr (c\<lparr>mm_mem := m'\<rparr>) \<and> agree_off p (mm_mem c) m' \<and>
    (\<forall>j<4096. m' (p + of_nat j) = (if j < n then f j else mm_mem c (p + of_nat j)))"
proof -
  let ?P = "\<lambda>i t. \<exists>m'. t = c\<lparr>mm_mem := m'\<rparr> \<and> agree_off p (mm_mem c) m' \<and>
    (\<forall>j<4096. m' (p + of_nat j) = (if j < i then f j else mm_mem c (p + of_nat j)))"
  have "\<exists>t. for_try 0 n body c = Inr t \<and> ?P n t"
  proof (rule for_try_inv)
    have "c = c\<lparr>mm_mem := mm_mem c\<rparr>" by simp
    then show "?P 0 c" by (intro exI[of _ "mm_mem c"]) simp
  next
    fix i t assume "0 \<le> i" "i < n" "?P i t"
    then obtain m' where m': "t = c\<lparr>mm_mem := m'\<rparr>" "agree_off p (mm_mem c) m'"
      "\<And>j. j < 4096 \<Longrightarrow> m' (p + of_nat j) = (if j < i then f j else mm_mem c (p + of_nat j))"
      by auto
    from \<open>i < n\<close> assms(3) have i: "i < 4096" by simp
    let ?m = "m'(p + of_nat i := f i)"
    have "body i t = Inr (c\<lparr>mm_mem := ?m\<rparr>)"
      using body[OF \<open>i < n\<close> m'(2)] kst8_window[OF win[OF m'(2)] page_byte_in_window] assms(1,2) i
      by (simp add: m'(1))
    moreover have "agree_off p (mm_mem c) ?m"
      using m'(2) page_base_byte[OF assms(1) i] by (auto simp: agree_off_def)
    ultimately show "\<exists>t'. body i t = Inr t' \<and> ?P (Suc i) t'"
      using m'(3) i page_byte_inj[OF assms(1)]
      by (intro exI[of _ "c\<lparr>mm_mem := ?m\<rparr>"]) (auto intro!: exI[of _ ?m] simp: less_Suc_eq)
  qed simp
  then show ?thesis by blast
qed

section \<open>Writing one table entry\<close>

text \<open>The table a directory entry points to, when the entry is present.\<close>

definition table_of :: "mem \<Rightarrow> u32 \<Rightarrow> nat \<Rightarrow> u32 option" where
  "table_of m pd i =
     (let pde = ld32 m (slot (page_base pd) i) in if present pde then Some (page_base pde) else None)"

text \<open>
  Installing an entry for \<open>va\<close> maps its page; every other page keeps its translation as long
  as no other directory entry points to the same table and the table is not the directory.
\<close>

lemma walk_entry_st32_same:
  assumes "page_aligned pd" and "table_of m pd (pd_index va) = Some pt" and "pt \<noteq> pd" and "present e"
  shows "walk_entry (st32 m (slot pt (pt_index va)) e) pd va =
    Some (ld32 m (slot pd (pd_index va)), e)"
proof -
  let ?pde = "ld32 m (slot pd (pd_index va))"
  from assms have pde: "present ?pde" "page_base ?pde = pt"
    by (auto simp: table_of_def Let_def page_base_id split: if_splits)
  then have "page_aligned pt" by (metis page_base_aligned)
  with assms pde show ?thesis by (simp add: walk_entry_def page_base_id)
qed

lemma walk_entry_st32_other:
  assumes "page_aligned pd" and "page_aligned pt" and "k < 1024" and "pt \<noteq> pd"
    and "table_of m pd (pd_index va) = Some pt \<Longrightarrow> pt_index va \<noteq> k"
  shows "walk_entry (st32 m (slot pt k) e) pd va = walk_entry m pd va"
  using assms by (auto simp: walk_entry_def page_base_id table_of_def Let_def)

lemma walk_entry_clear:
  assumes "page_aligned pd" and "table_of m pd (pd_index va) = Some pt" and "pt \<noteq> pd" and "\<not> present e"
  shows "walk_entry (st32 m (slot pt (pt_index va)) e) pd va = None"
proof -
  let ?pde = "ld32 m (slot pd (pd_index va))"
  from assms have pde: "present ?pde" "page_base ?pde = pt"
    by (auto simp: table_of_def Let_def page_base_id split: if_splits)
  then have "page_aligned pt" by (metis page_base_aligned)
  with assms pde show ?thesis by (simp add: walk_entry_def page_base_id)
qed

text \<open>The walk reads the directory and the tables only.\<close>

lemma walk_entry_cong:
  assumes "page_aligned pd" and "ld32 m' (slot pd (pd_index va)) = ld32 m (slot pd (pd_index va))"
    and "\<And>pt. table_of m pd (pd_index va) = Some pt \<Longrightarrow>
           ld32 m' (slot pt (pt_index va)) = ld32 m (slot pt (pt_index va))"
  shows "walk_entry m' pd va = walk_entry m pd va"
  using assms by (auto simp: walk_entry_def table_of_def page_base_id Let_def)

section \<open>Blocks of bytes\<close>

text \<open>The memory with the bytes \<open>bs\<close> stored from address \<open>a\<close> on.\<close>

definition patch :: "u32 \<Rightarrow> u8 list \<Rightarrow> mem \<Rightarrow> mem" where
  "patch a bs m = (\<lambda>x. if unat (x - a) < length bs then bs ! unat (x - a) else m x)"

lemma patch_Nil [simp]: "patch a [] m = m"
  by (simp add: patch_def)

lemma patch_nth: "i < length bs \<Longrightarrow> length bs \<le> 2 ^ 32 \<Longrightarrow> patch a bs m (a + of_nat i) = bs ! i"
  by (simp add: patch_def)

lemma patch_outside: "length bs \<le> unat (x - a) \<Longrightarrow> patch a bs m x = m x"
  by (simp add: patch_def)

lemma patch_step:
  assumes "i < length bs" and "length bs \<le> 2 ^ 32"
  shows "(patch a (take i bs) m)(a + of_nat i := bs ! i) = patch a (take (Suc i) bs) m"
proof
  fix x
  have "unat (x - a) = i \<longleftrightarrow> x = a + of_nat i"
  proof
    assume "unat (x - a) = i"
    then have "of_nat (unat (x - a)) = (of_nat i :: u32)" by simp
    then show "x = a + of_nat i" by (simp add: algebra_simps)
  qed (use assms in simp)
  with assms show "((patch a (take i bs) m)(a + of_nat i := bs ! i)) x = patch a (take (Suc i) bs) m x"
    by (auto simp: patch_def less_Suc_eq)
qed

text \<open>A copy loop with paging off.\<close>

lemma flat_copy:
  assumes "\<not> paging_on c" and "n = length bs" and "n \<le> 2 ^ 32"
    and "\<And>i c. i < n \<Longrightarrow> \<not> paging_on c \<Longrightarrow> body i c = kst8 (a + of_nat i) (bs ! i) c"
  shows "for_try 0 n body c = Inr (c\<lparr>mm_mem := patch a bs (mm_mem c)\<rparr>)"
proof -
  have "for_try 0 n body c = Inr (c\<lparr>mm_mem := patch a (take n bs) (mm_mem c)\<rparr>)"
  proof (rule for_try_states)
    show "c\<lparr>mm_mem := patch a (take 0 bs) (mm_mem c)\<rparr> = c" by (simp add: patch_def)
    fix i assume i: "i < n"
    have "\<not> paging_on (c\<lparr>mm_mem := patch a (take i bs) (mm_mem c)\<rparr>)" using assms(1) by (simp add: paging_on_def)
    then show "body i (c\<lparr>mm_mem := patch a (take i bs) (mm_mem c)\<rparr>) = Inr (c\<lparr>mm_mem := patch a (take (Suc i) bs) (mm_mem c)\<rparr>)"
      using i assms(2,3) patch_step[of i bs a "mm_mem c"] by (simp add: assms(4) kst8_def translate_def)
  qed simp
  then show ?thesis by (simp add: assms(2))
qed

text \<open>A machine in protected mode, before paging.\<close>

definition cold_machine :: mach where
  "cold_machine = \<lparr>mm_mem = (\<lambda>_. 0), mm_cr3 = 0, mm_cr0 = 0x11\<rparr>"

lemma cold_machine_flat: "\<not> paging_on cold_machine"
  by (simp add: paging_on_def cold_machine_def bit_simps)

end
