(* ===== verification/Paging.thy ===== *)
theory Paging
  imports Machine
begin

text \<open>
  \<^verbatim>\<open>mm/paging.c\<close>: the kernel's page directory with its identity map of the first 16 MB, and
  the address spaces of the two built-in tasks. The stores are the code's, one by one, through
  the machine's own translation; the lemmas read the tables back with the page walk.
\<close>

section \<open>Operations\<close>

abbreviation "KERNEL_PD_ADDR \<equiv> (0x00200000 :: u32)"
abbreviation "KERNEL_PT_ADDR \<equiv> (0x00201000 :: u32)"
abbreviation "TASK_A_PD_ADDR \<equiv> (0x00205000 :: u32)"
abbreviation "TASK_A_PT_ADDR \<equiv> (0x00206000 :: u32)"
abbreviation "TASK_B_PD_ADDR \<equiv> (0x00207000 :: u32)"
abbreviation "TASK_B_PT_ADDR \<equiv> (0x00208000 :: u32)"
abbreviation "PAGE_PRESENT \<equiv> (0x1 :: u32)"
abbreviation "PAGE_WRITE \<equiv> (0x2 :: u32)"
abbreviation "PAGE_USER \<equiv> (0x4 :: u32)"
abbreviation "KERNEL_VIRTUAL \<equiv> (0xC0000000 :: u32)"

definition memzero :: "u32 \<Rightarrow> u32 \<Rightarrow> mach \<Rightarrow> mach outcome" where
  "memzero ptr sz c = for_try 0 (unat sz) (\<lambda>i. kst8 (ptr + of_nat i) 0) c"

definition init_paging :: "mach \<Rightarrow> mach outcome" where
  "init_paging c =
     (let pd = KERNEL_PD_ADDR; pt = KERNEL_PT_ADDR in
      bindo (memzero pd 4096 c) (\<lambda>c.
      bindo (for_try 0 (4 * 1024) (\<lambda>i (addr, c).
               bindo (kst32 (slot pt i) (addr OR PAGE_PRESENT OR PAGE_WRITE OR PAGE_USER) c) (\<lambda>c.
               Inr (addr + 0x1000, c))) (0, c)) (\<lambda>(addr, c).
      bindo (for_try 0 4 (\<lambda>i c.
               kst32 (slot pd i) (slot pt (i * 1024) OR PAGE_PRESENT OR PAGE_WRITE OR PAGE_USER) c) c) (\<lambda>c.
      let c = c\<lparr>mm_cr3 := pd\<rparr>
      in Inr (c\<lparr>mm_cr0 := mm_cr0 c OR 0x80000000\<rparr>)))))"

definition create_task_space :: "u32 \<Rightarrow> u32 \<Rightarrow> u32 \<Rightarrow> u32 \<Rightarrow> u32 \<Rightarrow> u32 \<Rightarrow> mach \<Rightarrow> mach outcome" where
  "create_task_space task_code_phys task_stack_phys task_code_virt task_stack_virt pd_addr pt_addr c =
     (let code_idx = pt_index task_code_virt;
          stack_idx = pt_index task_stack_virt;
          code_dir = pd_index task_code_virt;
          kv_dir = pd_index KERNEL_VIRTUAL in
      bindo (memzero pd_addr 4096 c) (\<lambda>c.
      bindo (memzero pt_addr 4096 c) (\<lambda>c.
      bindo (kst32 (slot pt_addr code_idx) (task_code_phys OR PAGE_PRESENT OR PAGE_WRITE OR PAGE_USER) c) (\<lambda>c.
      bindo (kst32 (slot pt_addr stack_idx) (task_stack_phys OR PAGE_PRESENT OR PAGE_WRITE OR PAGE_USER) c) (\<lambda>c.
      bindo (kst32 (slot pd_addr code_dir) (pt_addr OR PAGE_PRESENT OR PAGE_WRITE OR PAGE_USER) c) (\<lambda>c.
      bindo (for_try 0 4 (\<lambda>i c.
               bindo (kld32 (slot KERNEL_PD_ADDR i) c) (\<lambda>e. kst32 (slot pd_addr i) e c)) c) (\<lambda>c.
      for_try 0 4 (\<lambda>i c.
        kst32 (slot pd_addr (kv_dir + i))
          (slot KERNEL_PT_ADDR (i * 1024) OR PAGE_PRESENT OR PAGE_WRITE) c) c)))))))"

definition switch_to_kernel_space :: "mach \<Rightarrow> mach" where
  "switch_to_kernel_space c = c\<lparr>mm_cr3 := KERNEL_PD_ADDR\<rparr>"

section \<open>The identity window in the tables\<close>

definition kpt_page :: "nat \<Rightarrow> u32" where
  "kpt_page i = slot KERNEL_PT_ADDR (i * 1024)"

definition window_tables :: "mem \<Rightarrow> bool" where
  "window_tables m \<longleftrightarrow> (\<forall>i<4. \<forall>j<1024. ld32 m (slot (kpt_page i) j) = of_nat (1024 * i + j) * 4096 OR 7)"

definition window_dir :: "mem \<Rightarrow> u32 \<Rightarrow> bool" where
  "window_dir m pd \<longleftrightarrow> (\<forall>i<4. ld32 m (slot pd i) = kpt_page i OR 7)"

text \<open>A running address space whose first 16 MB are the kernel's identity map.\<close>

definition in_space :: "u32 \<Rightarrow> mach \<Rightarrow> bool" where
  "in_space pd c \<longleftrightarrow> paging_on c \<and> mm_cr3 c = pd \<and> page_aligned pd \<and>
     window_dir (mm_mem c) pd \<and> window_tables (mm_mem c)"

definition window_pages :: "u32 set" where
  "window_pages = kpt_page ` {..<4}"

lemma unat_kpt_page: "i < 4 \<Longrightarrow> unat (kpt_page i) = 0x201000 + 4096 * i"
  by (simp add: kpt_page_def slot_def unat_word_ariths unat_of_nat)

lemma kpt_page_aligned [simp]: "i < 4 \<Longrightarrow> page_aligned (kpt_page i)"
  by (simp add: page_aligned_def unat_kpt_page)

lemma kpt_page_inj:
  assumes ij: "i < 4" "j < 4"
  shows "kpt_page i = kpt_page j \<longleftrightarrow> i = j"
proof
  assume "kpt_page i = kpt_page j"
  then have "unat (kpt_page i) = unat (kpt_page j)" by simp
  with ij show "i = j" by (simp only: unat_kpt_page)
qed simp

lemma aligned_consts [simp]:
  "page_aligned 0x200000" "page_aligned 0x201000" "page_aligned 0x205000" "page_aligned 0x206000"
  "page_aligned 0x207000" "page_aligned 0x208000" "page_aligned 0x300000" "page_aligned 0x301000"
  "page_aligned 0x30E000" "page_aligned 0x30F000"
  by (simp_all add: page_aligned_def)

lemma not_window_page:
  "p \<notin> window_pages \<longleftrightarrow> (\<forall>i<4. p \<noteq> kpt_page i)"
  by (auto simp: window_pages_def)

lemma outside_window_pages: "unat p < 0x201000 \<or> 0x205000 \<le> unat p \<Longrightarrow> p \<notin> window_pages"
  by (auto simp: window_pages_def unat_kpt_page)

lemma split_page: "page_base va OR (va AND 0xFFF) = va"
  unfolding page_base_def by (rule bit_word_eqI) (auto simp: bit_simps)

lemma page_number:
  assumes "unat va < 0x1000000"
  shows "of_nat (1024 * pd_index va + pt_index va) * 4096 = page_base va"
proof -
  have n: "unat va div 4096 < 4096" using assms by simp
  have "unat (of_nat (unat va div 4096) * 4096 :: u32) = unat va div 4096 * 4096"
    using n by (simp add: unat_word_ariths unat_of_nat)
  then have "unat (of_nat (1024 * pd_index va + pt_index va) * 4096 :: u32) = unat va div 4096 * 4096"
    by (simp only: page_of_indices)
  then show ?thesis by (simp add: word_unat_eq_iff unat_page_base)
qed

lemma window_table_entry:
  assumes "window_tables m" and "unat va < 0x1000000"
  shows "ld32 m (slot (kpt_page (pd_index va)) (pt_index va)) = page_base va OR 7"
proof -
  have "pd_index va < 4" using assms(2) by (simp add: pd_index_eq)
  with assms page_number[OF assms(2)] show ?thesis by (simp add: window_tables_def)
qed

lemma window_walk_entry:
  assumes "page_aligned pd" "window_dir m pd" "window_tables m" "unat va < 0x1000000"
  shows "walk_entry m pd va = Some (kpt_page (pd_index va) OR 7, page_base va OR 7)"
proof -
  have i: "pd_index va < 4" using assms(4) by (simp add: pd_index_eq)
  have "present (7 :: u32)" by (simp add: present_def)
  with i assms window_table_entry[OF assms(3,4)] show ?thesis
    by (simp add: walk_entry_def page_base_id window_dir_def page_base_entry present_entry)
qed

lemma window_walk:
  assumes "page_aligned pd" "window_dir m pd" "window_tables m" "unat va < 0x1000000"
  shows "walk m pd va = Some va" and "user_writable m pd va"
proof -
  have k: "pd_index va < 4" using assms(4) by (simp add: pd_index_eq)
  show "walk m pd va = Some va"
    by (simp add: walk_def window_walk_entry[OF assms] page_base_entry split_page)
  have "(kpt_page (pd_index va) OR 7) AND ((page_base va OR 7) AND 6) = 6"
    using k by (simp add: and_entry)
  then show "user_writable m pd va"
    by (simp add: user_writable_def window_walk_entry[OF assms] and.assoc)
qed

lemma in_space_window: "in_space pd c \<Longrightarrow> id_window c"
  by (simp add: in_space_def id_window_def translate_def window_walk)

text \<open>Memory outside the directory and the four window tables does not matter to the window.\<close>

lemma window_tables_agree: "agree_off p m m' \<Longrightarrow> p \<notin> window_pages \<Longrightarrow> window_tables m \<Longrightarrow> window_tables m'"
  by (auto simp: window_tables_def not_window_page ld32_agree_off)

lemma window_dir_agree: "agree_off p m m' \<Longrightarrow> page_aligned pd \<Longrightarrow> p \<noteq> pd \<Longrightarrow> window_dir m pd \<Longrightarrow> window_dir m' pd"
  by (auto simp: window_dir_def ld32_agree_off)

lemma in_space_agree:
  "in_space pd c \<Longrightarrow> agree_off p (mm_mem c) m' \<Longrightarrow> p \<notin> window_pages \<Longrightarrow> p \<noteq> pd \<Longrightarrow>
   in_space pd (c\<lparr>mm_mem := m'\<rparr>)"
  by (auto simp: in_space_def paging_on_def intro: window_tables_agree window_dir_agree)

section \<open>Zeroing a page\<close>

definition zero_page :: "mem \<Rightarrow> u32 \<Rightarrow> bool" where
  "zero_page m p \<longleftrightarrow> (\<forall>j<4096. m (p + of_nat j) = 0)"

lemma slot_as_byte: "slot p j = p + of_nat (4 * j)"
  by (simp add: slot_def)

lemma zero_page_ld32:
  assumes "zero_page m p" and "j < 1024"
  shows "ld32 m (slot p j) = 0"
proof -
  have "m (p + of_nat (4 * j + k)) = 0" if "k < 4" for k
    using assms(1)[unfolded zero_page_def, rule_format, of "4 * j + k"] assms(2) that by simp
  from this[of 0] this[of 1] this[of 2] this[of 3] show ?thesis
    by (simp add: ld32_def slot_as_byte add_ac)
qed

lemma memzero_page:
  assumes "page_aligned p" and "unat p < 0x1000000"
    and "\<And>m'. agree_off p (mm_mem c) m' \<Longrightarrow> id_window (c\<lparr>mm_mem := m'\<rparr>)"
  shows "\<exists>m'. memzero p 4096 c = Inr (c\<lparr>mm_mem := m'\<rparr>) \<and> agree_off p (mm_mem c) m' \<and> zero_page m' p"
proof -
  have "\<exists>m'. for_try 0 4096 (\<lambda>i. kst8 (p + of_nat i) 0) c = Inr (c\<lparr>mm_mem := m'\<rparr>) \<and>
      agree_off p (mm_mem c) m' \<and> (\<forall>j<4096. m' (p + of_nat j) = (if j < 4096 then 0 else mm_mem c (p + of_nat j)))"
    using assms by (intro byte_loop) simp_all
  then show ?thesis by (auto simp: memzero_def zero_page_def)
qed

section \<open>The kernel directory\<close>

lemma id_window_off: "\<not> paging_on c \<Longrightarrow> id_window (c\<lparr>mm_mem := m\<rparr>)"
  by (simp add: id_window_def translate_def paging_on_def)

lemma slot_kpt: "slot KERNEL_PT_ADDR (1024 * i + j) = slot (kpt_page i) j"
  by (simp add: kpt_page_def slot_def algebra_simps)

lemma kpt_index:
  assumes "n < 4096"
  shows "slot KERNEL_PT_ADDR n = slot (kpt_page (n div 1024)) (n mod 1024)" "n div 1024 < 4"
  using slot_kpt[of "n div 1024" "n mod 1024"] assms by simp_all

definition agree_outside :: "u32 set \<Rightarrow> mem \<Rightarrow> mem \<Rightarrow> bool" where
  "agree_outside P m m' \<longleftrightarrow> (\<forall>a. page_base a \<notin> P \<longrightarrow> m' a = m a)"

lemma agree_outside_refl [simp]: "agree_outside P m m"
  by (simp add: agree_outside_def)

lemma agree_outside_step: "agree_outside P m m1 \<Longrightarrow> agree_off p m1 m2 \<Longrightarrow> p \<in> P \<Longrightarrow> agree_outside P m m2"
  by (auto simp: agree_outside_def agree_off_def)

lemma ld32_agree_outside:
  assumes "agree_outside P m m'" and "page_aligned q" and "j < 1024" and "q \<notin> P"
  shows "ld32 m' (slot q j) = ld32 m (slot q j)"
  using assms page_base_slot by (intro ld32_cong slot_aligned) (auto simp: agree_outside_def)

text \<open>One round of the loop that fills the four window tables.\<close>

lemma identity_step:
  assumes off: "\<not> paging_on c" and i: "i < 4096" and ag: "agree_outside window_pages (mm_mem c) m"
    and filled: "\<forall>n<i. ld32 m (slot KERNEL_PT_ADDR n) = of_nat n * 4096 OR 7"
  defines "m' \<equiv> st32 m (slot KERNEL_PT_ADDR i) (of_nat i * 4096 OR 7)"
  shows "kst32 (slot KERNEL_PT_ADDR i) (of_nat i * 4096 OR 7) (c\<lparr>mm_mem := m\<rparr>) = Inr (c\<lparr>mm_mem := m'\<rparr>)"
    "agree_outside window_pages (mm_mem c) m'" "\<forall>n<Suc i. ld32 m' (slot KERNEL_PT_ADDR n) = of_nat n * 4096 OR 7"
proof -
  define p where "p = kpt_page (i div 1024)"
  have p: "page_aligned p" "p \<in> window_pages" "unat p < 0x1000000"
    using kpt_index(2)[OF i] by (auto simp: p_def window_pages_def unat_kpt_page)
  have sl: "slot KERNEL_PT_ADDR i = slot p (i mod 1024)" using kpt_index(1)[OF i] by (simp add: p_def)
  have al: "4 dvd unat (slot p (i mod 1024))" "unat (slot p (i mod 1024)) < 0x1000000"
    using p slot_aligned slot_in_window by simp_all
  show "kst32 (slot KERNEL_PT_ADDR i) (of_nat i * 4096 OR 7) (c\<lparr>mm_mem := m\<rparr>) = Inr (c\<lparr>mm_mem := m'\<rparr>)"
    using kst32_window[OF id_window_off[OF off] al, of _ m] by (simp add: sl m'_def)
  show "agree_outside window_pages (mm_mem c) m'"
    unfolding m'_def sl using ag agree_off_st32[OF p(1)] p(2) by (rule agree_outside_step) simp
  have "ld32 m' (slot KERNEL_PT_ADDR n) = of_nat n * 4096 OR 7" if n: "n < i" for n
  proof -
    have n4: "n < 4096" using n i by simp
    have "slot p (i mod 1024) \<noteq> slot (kpt_page (n div 1024)) (n mod 1024)"
      using n p(1) kpt_index(2)[OF i] kpt_index(2)[OF n4] unfolding p_def
      by (subst slot_eq_iff) (auto simp: kpt_page_inj, metis div_mult_mod_eq less_irrefl)
    then have "ld32 m' (slot KERNEL_PT_ADDR n) = ld32 m (slot KERNEL_PT_ADDR n)"
      using kpt_index[OF n4] al(1) by (simp add: m'_def sl ld32_st32_other slot_aligned)
    with filled n show ?thesis by simp
  qed
  then show "\<forall>n<Suc i. ld32 m' (slot KERNEL_PT_ADDR n) = of_nat n * 4096 OR 7" by (simp add: m'_def less_Suc_eq all_conj_distrib)
qed

lemma identity_loop:
  assumes off: "\<not> paging_on c"
  shows "\<exists>m'. for_try 0 (4 * 1024) (\<lambda>i (addr, c).
        bindo (kst32 (slot KERNEL_PT_ADDR i) (addr OR PAGE_PRESENT OR PAGE_WRITE OR PAGE_USER) c) (\<lambda>c.
        Inr (addr + 0x1000, c))) (0, c) = Inr (of_nat 4096 * 0x1000, c\<lparr>mm_mem := m'\<rparr>) \<and>
      agree_outside window_pages (mm_mem c) m' \<and> window_tables m'"
proof -
  let ?body = "\<lambda>i (addr, c).
    bindo (kst32 (slot KERNEL_PT_ADDR i) (addr OR PAGE_PRESENT OR PAGE_WRITE OR PAGE_USER) c) (\<lambda>c.
    Inr (addr + 0x1000, c))"
  let ?P = "\<lambda>i (addr, t). addr = of_nat i * 0x1000 \<and> (\<exists>m'. t = c\<lparr>mm_mem := m'\<rparr> \<and>
    agree_outside window_pages (mm_mem c) m' \<and>
    (\<forall>n<i. ld32 m' (slot KERNEL_PT_ADDR n) = of_nat n * 4096 OR 7))"
  have "\<exists>t. for_try 0 4096 ?body (0, c) = Inr t \<and> ?P 4096 t"
  proof (rule for_try_inv)
    have "c = c\<lparr>mm_mem := mm_mem c\<rparr>" by simp
    then show "?P 0 (0, c)" by (auto intro!: exI[of _ "mm_mem c"])
  next
    fix i :: nat and t :: "u32 \<times> mach"
    assume i: "0 \<le> i" "i < 4096" and "?P i t"
    then obtain m where t: "t = (of_nat i * 0x1000, c\<lparr>mm_mem := m\<rparr>)"
      and m: "agree_outside window_pages (mm_mem c) m" "\<forall>n<i. ld32 m (slot KERNEL_PT_ADDR n) = of_nat n * 4096 OR 7" by auto
    note s = identity_step[OF off i(2) m]
    let ?m = "st32 m (slot KERNEL_PT_ADDR i) (of_nat i * 4096 OR 7)"
    have "?body i t = Inr (of_nat (Suc i) * 0x1000, c\<lparr>mm_mem := ?m\<rparr>)" using s(1) by (simp add: t or.assoc algebra_simps)
    with s(2,3) show "\<exists>t'. ?body i t = Inr t' \<and> ?P (Suc i) t'"
      by (intro exI[of _ "(of_nat (Suc i) * 0x1000, c\<lparr>mm_mem := ?m\<rparr>)"]) (simp, blast)
  qed simp
  then obtain m' where "for_try 0 4096 ?body (0, c) = Inr (of_nat 4096 * 0x1000, c\<lparr>mm_mem := m'\<rparr>)"
    "agree_outside window_pages (mm_mem c) m'"
    "\<And>n. n < 4096 \<Longrightarrow> ld32 m' (slot KERNEL_PT_ADDR n) = of_nat n * 4096 OR 7" by auto
  moreover from this(3) have "window_tables m'" unfolding window_tables_def by (auto simp flip: slot_kpt)
  ultimately show ?thesis by auto
qed

definition kernel_dir_only :: "mem \<Rightarrow> bool" where
  "kernel_dir_only m \<longleftrightarrow> (\<forall>i<1024. 4 \<le> i \<longrightarrow> ld32 m (slot KERNEL_PD_ADDR i) = 0)"

lemma kpd_not_window [simp]: "KERNEL_PD_ADDR \<notin> window_pages"
  by (simp add: outside_window_pages)

lemma init_paging_state:
  assumes off: "\<not> paging_on c"
  shows "\<exists>m'. init_paging c =
      Inr (c\<lparr>mm_mem := m', mm_cr3 := KERNEL_PD_ADDR, mm_cr0 := mm_cr0 c OR 0x80000000\<rparr>) \<and>
    window_dir m' KERNEL_PD_ADDR \<and> window_tables m' \<and> kernel_dir_only m' \<and>
    agree_outside (insert KERNEL_PD_ADDR window_pages) (mm_mem c) m'"
proof -
  obtain m1 where m1: "memzero KERNEL_PD_ADDR 4096 c = Inr (c\<lparr>mm_mem := m1\<rparr>)"
    "agree_off KERNEL_PD_ADDR (mm_mem c) m1" "zero_page m1 KERNEL_PD_ADDR"
    using memzero_page[of KERNEL_PD_ADDR c] id_window_off[OF off] by auto
  obtain m2 where m2: "for_try 0 (4 * 1024) (\<lambda>i (addr, c).
      bindo (kst32 (slot KERNEL_PT_ADDR i) (addr OR PAGE_PRESENT OR PAGE_WRITE OR PAGE_USER) c) (\<lambda>c.
      Inr (addr + 0x1000, c))) (0, c\<lparr>mm_mem := m1\<rparr>) = Inr (of_nat 4096 * 0x1000, c\<lparr>mm_mem := m2\<rparr>)"
    "agree_outside window_pages m1 m2" "window_tables m2"
    using identity_loop[of "c\<lparr>mm_mem := m1\<rparr>"] off by (auto simp: paging_on_def)
  have "\<exists>m3. for_try 0 4 (\<lambda>i c. kst32 (slot KERNEL_PD_ADDR i)
        (slot KERNEL_PT_ADDR (i * 1024) OR PAGE_PRESENT OR PAGE_WRITE OR PAGE_USER) c) (c\<lparr>mm_mem := m2\<rparr>) =
        Inr ((c\<lparr>mm_mem := m2\<rparr>)\<lparr>mm_mem := m3\<rparr>) \<and> agree_off KERNEL_PD_ADDR (mm_mem (c\<lparr>mm_mem := m2\<rparr>)) m3 \<and>
      (\<forall>j<1024. ld32 m3 (slot KERNEL_PD_ADDR j) = (if j < 4 then kpt_page j OR 7
         else ld32 (mm_mem (c\<lparr>mm_mem := m2\<rparr>)) (slot KERNEL_PD_ADDR j)))"
    by (rule table_loop) (use id_window_off[OF off] in \<open>simp_all add: kpt_page_def or.assoc\<close>)
  then obtain m3 where m3: "for_try 0 4 (\<lambda>i c. kst32 (slot KERNEL_PD_ADDR i)
        (slot KERNEL_PT_ADDR (i * 1024) OR PAGE_PRESENT OR PAGE_WRITE OR PAGE_USER) c) (c\<lparr>mm_mem := m2\<rparr>) =
        Inr (c\<lparr>mm_mem := m3\<rparr>)" "agree_off KERNEL_PD_ADDR m2 m3"
      "\<And>j. j < 1024 \<Longrightarrow> ld32 m3 (slot KERNEL_PD_ADDR j) = (if j < 4 then kpt_page j OR 7 else ld32 m2 (slot KERNEL_PD_ADDR j))"
    by auto
  have "ld32 m2 (slot KERNEL_PD_ADDR j) = 0" if "j < 1024" for j
    using ld32_agree_outside[OF m2(2)] zero_page_ld32[OF m1(3)] that by simp
  with m3(3) have "window_dir m3 KERNEL_PD_ADDR" "kernel_dir_only m3"
    by (simp_all add: window_dir_def kernel_dir_only_def)
  moreover have "window_tables m3" using window_tables_agree[OF m3(2) _ m2(3)] by simp
  moreover have "agree_outside (insert KERNEL_PD_ADDR window_pages) (mm_mem c) m3"
    using m1(2) m2(2) m3(2) by (auto simp: agree_outside_def agree_off_def)
  moreover have "init_paging c =
      Inr (c\<lparr>mm_mem := m3, mm_cr3 := KERNEL_PD_ADDR, mm_cr0 := mm_cr0 c OR 0x80000000\<rparr>)"
    unfolding init_paging_def Let_def m1(1) bindo.simps m2(1) prod.case m3(1) by simp
  ultimately show ?thesis by blast
qed

lemma paging_on_set: "paging_on (c\<lparr>mm_cr0 := x OR 0x80000000\<rparr>)"
proof -
  have "(0x80000000 :: u32) = push_bit 31 1" by simp
  then show ?thesis unfolding paging_on_def by (simp only: mach.select_convs mach.simps bit_or_iff) (simp add: bit_simps)
qed

lemma kernel_dir_walk:
  assumes "window_dir m KERNEL_PD_ADDR" "window_tables m" "kernel_dir_only m"
  shows "walk m KERNEL_PD_ADDR va = (if unat va < 0x1000000 then Some va else None)"
proof (cases "unat va < 0x1000000")
  case True
  with assms show ?thesis by (simp add: window_walk)
next
  case False
  then have "4 \<le> pd_index va" by (simp add: pd_index_eq)
  with assms(3) have "ld32 m (slot KERNEL_PD_ADDR (pd_index va)) = 0" by (simp add: kernel_dir_only_def)
  with False show ?thesis by (simp add: walk_def walk_entry_def page_base_id present_def)
qed

text \<open>The kernel's own space, as it is from \<open>init_paging\<close> until the first task runs.\<close>

definition kernel_space :: "mach \<Rightarrow> bool" where
  "kernel_space c \<longleftrightarrow> in_space KERNEL_PD_ADDR c \<and> kernel_dir_only (mm_mem c)"

lemma kernel_space_window: "kernel_space c \<Longrightarrow> id_window c"
  using in_space_window by (auto simp: kernel_space_def)

lemma kernel_space_translate:
  "kernel_space c \<Longrightarrow> translate c va = (if unat va < 0x1000000 then Some va else None)"
  by (simp add: kernel_space_def in_space_def translate_def kernel_dir_walk)

lemma kernel_space_agree:
  "kernel_space c \<Longrightarrow> agree_off p (mm_mem c) m' \<Longrightarrow> p \<notin> window_pages \<Longrightarrow> p \<noteq> KERNEL_PD_ADDR \<Longrightarrow>
   kernel_space (c\<lparr>mm_mem := m'\<rparr>)"
  by (auto simp: kernel_space_def kernel_dir_only_def ld32_agree_off intro: in_space_agree)

lemma init_paging_kernel_space:
  assumes "\<not> paging_on c"
  shows "\<exists>c'. init_paging c = Inr c' \<and> kernel_space c' \<and>
    agree_outside (insert KERNEL_PD_ADDR window_pages) (mm_mem c) (mm_mem c')"
proof -
  obtain m' where m': "init_paging c =
      Inr (c\<lparr>mm_mem := m', mm_cr3 := KERNEL_PD_ADDR, mm_cr0 := mm_cr0 c OR 0x80000000\<rparr>)"
    "window_dir m' KERNEL_PD_ADDR" "window_tables m'" "kernel_dir_only m'"
    "agree_outside (insert KERNEL_PD_ADDR window_pages) (mm_mem c) m'"
    using init_paging_state[OF assms] by auto
  have "paging_on (c\<lparr>mm_mem := m', mm_cr3 := KERNEL_PD_ADDR, mm_cr0 := mm_cr0 c OR 0x80000000\<rparr>)"
    using paging_on_set[of "mm_cr0 c" "c\<lparr>mm_mem := m', mm_cr3 := KERNEL_PD_ADDR\<rparr>"] by simp
  with m' show ?thesis by (auto simp: kernel_space_def in_space_def)
qed

section \<open>Task spaces\<close>

text \<open>What the caller of \<open>create_task_space\<close> provides: two free pages inside the window, aligned
  frames, and code and stack addresses in one directory slot of the user half.\<close>

definition task_frame :: "u32 \<Rightarrow> bool" where
  "task_frame p \<longleftrightarrow> page_aligned p \<and> unat p < 0x1000000 \<and> p \<notin> window_pages \<and> p \<noteq> KERNEL_PD_ADDR"

lemma task_frame_write:
  assumes "kernel_space c" and "task_frame p" and "agree_off p (mm_mem c) m'"
  shows "kernel_space (c\<lparr>mm_mem := m'\<rparr>)"
  using assms by (auto simp: task_frame_def intro: kernel_space_agree)

lemma kst32_frame:
  assumes "kernel_space c" and "task_frame p" and "i < 1024"
  shows "kst32 (slot p i) v c = Inr (c\<lparr>mm_mem := st32 (mm_mem c) (slot p i) v\<rparr>)"
    and "kernel_space (c\<lparr>mm_mem := st32 (mm_mem c) (slot p i) v\<rparr>)"
  using assms
  by (auto simp: task_frame_def intro!: kst32_window kernel_space_window slot_aligned slot_in_window
      intro: task_frame_write[unfolded task_frame_def] agree_off_st32)

lemma memzero_frame:
  assumes "kernel_space c" and "task_frame p"
  shows "\<exists>m'. memzero p 4096 c = Inr (c\<lparr>mm_mem := m'\<rparr>) \<and> agree_off p (mm_mem c) m' \<and>
    zero_page m' p \<and> kernel_space (c\<lparr>mm_mem := m'\<rparr>)"
  using memzero_page[of p c] assms task_frame_write[OF assms] kernel_space_window
  by (auto simp: task_frame_def)

lemma table_loop_frame:
  assumes "kernel_space c" and "task_frame p" and "b + n \<le> 1024"
    and "\<And>i m'. i < n \<Longrightarrow> agree_off p (mm_mem c) m' \<Longrightarrow>
      body i (c\<lparr>mm_mem := m'\<rparr>) = kst32 (slot p (b + i)) (f i) (c\<lparr>mm_mem := m'\<rparr>)"
  shows "\<exists>m'. for_try 0 n body c = Inr (c\<lparr>mm_mem := m'\<rparr>) \<and> agree_off p (mm_mem c) m' \<and>
    (\<forall>j<1024. ld32 m' (slot p j) =
       (if b \<le> j \<and> j < b + n then f (j - b) else ld32 (mm_mem c) (slot p j))) \<and>
    kernel_space (c\<lparr>mm_mem := m'\<rparr>)"
proof -
  have p: "page_aligned p" "unat p < 0x1000000" using assms(2) by (simp_all add: task_frame_def)
  have "id_window (c\<lparr>mm_mem := m'\<rparr>)" if "agree_off p (mm_mem c) m'" for m'
    using task_frame_write[OF assms(1,2) that] by (rule kernel_space_window)
  from table_loop_at[where f = f, OF p assms(3) this assms(4)] task_frame_write[OF assms(1,2)]
  show ?thesis by blast
qed

definition task_dir_entry :: "u32 \<Rightarrow> nat \<Rightarrow> nat \<Rightarrow> u32" where
  "task_dir_entry pt code_dir i =
     (if i < 4 then kpt_page i OR 7
      else if 768 \<le> i \<and> i < 772 then kpt_page (i - 768) OR 3
      else if i = code_dir then pt OR 7 else 0)"

text \<open>The parts of \<open>create_task_space\<close>: the cleared tables, the three entries of the task, the entries of the kernel.\<close>

lemma task_tables_cleared:
  assumes ks: "kernel_space c" and pd: "task_frame pd" and pt: "task_frame pt" and ne: "pd \<noteq> pt"
  obtains m1 m where "memzero pd 4096 c = Inr (c\<lparr>mm_mem := m1\<rparr>)" and "memzero pt 4096 (c\<lparr>mm_mem := m1\<rparr>) = Inr (c\<lparr>mm_mem := m\<rparr>)"
    and "kernel_space (c\<lparr>mm_mem := m\<rparr>)" and "agree_outside {pd, pt} (mm_mem c) m"
    and "\<forall>i<1024. ld32 m (slot pd i) = 0" and "\<forall>i<1024. ld32 m (slot pt i) = 0"
proof -
  note A = pd[unfolded task_frame_def] pt[unfolded task_frame_def]
  obtain m1 where m1: "memzero pd 4096 c = Inr (c\<lparr>mm_mem := m1\<rparr>)" "agree_off pd (mm_mem c) m1"
    "zero_page m1 pd" "kernel_space (c\<lparr>mm_mem := m1\<rparr>)"
    using memzero_frame[OF ks pd] by blast
  obtain m where m: "memzero pt 4096 (c\<lparr>mm_mem := m1\<rparr>) = Inr (c\<lparr>mm_mem := m\<rparr>)" "agree_off pt m1 m"
    "zero_page m pt" "kernel_space (c\<lparr>mm_mem := m\<rparr>)"
    using memzero_frame[OF m1(4) pt] by auto
  show thesis
  proof (rule that[OF m1(1) m(1,4)])
    show "agree_outside {pd, pt} (mm_mem c) m" using m1(2) m(2) by (auto simp: agree_outside_def agree_off_def)
    show "\<forall>i<1024. ld32 m (slot pd i) = 0" "\<forall>i<1024. ld32 m (slot pt i) = 0"
      using zero_page_ld32[OF m1(3)] zero_page_ld32[OF m(3)] ld32_agree_off[OF m(2), of pd] A ne by auto
  qed
qed

lemma task_entries_stored:
  fixes v w u :: u32
  assumes ks: "kernel_space (c\<lparr>mm_mem := m\<rparr>)" and pd: "task_frame pd" and pt: "task_frame pt" and "pd \<noteq> pt"
    and ix: "a < 1024" "b < 1024" "d < 1024"
  defines "m' \<equiv> st32 (st32 (st32 m (slot pt a) v) (slot pt b) w) (slot pd d) u"
  shows "bindo (kst32 (slot pt a) v (c\<lparr>mm_mem := m\<rparr>)) (\<lambda>c. bindo (kst32 (slot pt b) w c) (\<lambda>c. bindo (kst32 (slot pd d) u c) f)) = f (c\<lparr>mm_mem := m'\<rparr>)"
    "kernel_space (c\<lparr>mm_mem := m'\<rparr>)" "agree_outside {pd, pt} m m'"
    "j < 1024 \<Longrightarrow> ld32 m' (slot pt j) = (if j = b then w else if j = a then v else ld32 m (slot pt j))"
    "j < 1024 \<Longrightarrow> ld32 m' (slot pd j) = (if j = d then u else ld32 m (slot pd j))"
proof -
  note A = pd[unfolded task_frame_def] pt[unfolded task_frame_def]
  define m3 where "m3 = st32 m (slot pt a) v"
  define m4 where "m4 = st32 m3 (slot pt b) w"
  have s3: "kst32 (slot pt a) v (c\<lparr>mm_mem := m\<rparr>) = Inr (c\<lparr>mm_mem := m3\<rparr>)" "kernel_space (c\<lparr>mm_mem := m3\<rparr>)"
    using kst32_frame[OF ks pt ix(1)] by (simp_all add: m3_def)
  have s4: "kst32 (slot pt b) w (c\<lparr>mm_mem := m3\<rparr>) = Inr (c\<lparr>mm_mem := m4\<rparr>)" "kernel_space (c\<lparr>mm_mem := m4\<rparr>)"
    using kst32_frame[OF s3(2) pt ix(2)] by (simp_all add: m4_def)
  have s5: "kst32 (slot pd d) u (c\<lparr>mm_mem := m4\<rparr>) = Inr (c\<lparr>mm_mem := m'\<rparr>)" "kernel_space (c\<lparr>mm_mem := m'\<rparr>)"
    using kst32_frame[OF s4(2) pd ix(3)] by (simp_all add: m'_def m4_def m3_def)
  show "bindo (kst32 (slot pt a) v (c\<lparr>mm_mem := m\<rparr>)) (\<lambda>c. bindo (kst32 (slot pt b) w c) (\<lambda>c. bindo (kst32 (slot pd d) u c) f)) = f (c\<lparr>mm_mem := m'\<rparr>)"
    "kernel_space (c\<lparr>mm_mem := m'\<rparr>)" using s3(1) s4(1) s5 by simp_all
  have "agree_off pt m m3" "agree_off pt m3 m4" "agree_off pd m4 m'"
    using A ix by (auto simp: m3_def m4_def m'_def intro: agree_off_st32)
  then show "agree_outside {pd, pt} m m'" by (auto simp: agree_outside_def agree_off_def)
  show "j < 1024 \<Longrightarrow> ld32 m' (slot pt j) = (if j = b then w else if j = a then v else ld32 m (slot pt j))"
    "j < 1024 \<Longrightarrow> ld32 m' (slot pd j) = (if j = d then u else ld32 m (slot pd j))"
    using A ix \<open>pd \<noteq> pt\<close> by (auto simp: m'_def)
qed

lemma kernel_entries_copied:
  assumes ks: "kernel_space (c\<lparr>mm_mem := m\<rparr>)" and pd: "task_frame pd"
  obtains m' where "for_try 0 4 (\<lambda>i c. bindo (kld32 (slot KERNEL_PD_ADDR i) c) (\<lambda>e. kst32 (slot pd i) e c)) (c\<lparr>mm_mem := m\<rparr>) = Inr (c\<lparr>mm_mem := m'\<rparr>)"
    and "agree_off pd m m'" and "\<forall>j<1024. ld32 m' (slot pd j) = (if j < 4 then kpt_page j OR 7 else ld32 m (slot pd j))"
    and "kernel_space (c\<lparr>mm_mem := m'\<rparr>)"
proof -
  note pdA = pd[unfolded task_frame_def]
  have kd: "ld32 m' (slot KERNEL_PD_ADDR i) = kpt_page i OR 7" if "agree_off pd m m'" "i < 4" for m' i
    using ks that pdA ld32_agree_off[OF that(1), of KERNEL_PD_ADDR i] by (simp add: kernel_space_def in_space_def window_dir_def)
  have "\<exists>m6. for_try 0 4 (\<lambda>i c. bindo (kld32 (slot KERNEL_PD_ADDR i) c) (\<lambda>e. kst32 (slot pd i) e c))
        (c\<lparr>mm_mem := m\<rparr>) = Inr (c\<lparr>mm_mem := m\<rparr>\<lparr>mm_mem := m6\<rparr>) \<and>
      agree_off pd (mm_mem (c\<lparr>mm_mem := m\<rparr>)) m6 \<and>
      (\<forall>j<1024. ld32 m6 (slot pd j) = (if 0 \<le> j \<and> j < 0 + 4 then (\<lambda>i. kpt_page i OR 7) (j - 0)
         else ld32 (mm_mem (c\<lparr>mm_mem := m\<rparr>)) (slot pd j))) \<and> kernel_space (c\<lparr>mm_mem := m\<rparr>\<lparr>mm_mem := m6\<rparr>)"
  proof (rule table_loop_frame[OF ks pd])
    fix i m' assume i: "i < (4::nat)" and "agree_off pd (mm_mem (c\<lparr>mm_mem := m\<rparr>)) m'"
    then have ag: "agree_off pd m m'" by simp
    have "kernel_space (c\<lparr>mm_mem := m'\<rparr>)" using task_frame_write[OF ks pd, of m'] ag by simp
    then have "kld32 (slot KERNEL_PD_ADDR i) (c\<lparr>mm_mem := m'\<rparr>) = Inr (kpt_page i OR 7)"
      using kld32_window[OF kernel_space_window slot_aligned slot_in_window] i kd[OF ag i] by simp
    then show "bindo (kld32 (slot KERNEL_PD_ADDR i) (c\<lparr>mm_mem := m\<rparr>\<lparr>mm_mem := m'\<rparr>))
        (\<lambda>e. kst32 (slot pd i) e (c\<lparr>mm_mem := m\<rparr>\<lparr>mm_mem := m'\<rparr>)) =
      kst32 (slot pd (0 + i)) (kpt_page i OR 7) (c\<lparr>mm_mem := m\<rparr>\<lparr>mm_mem := m'\<rparr>)" by simp
  qed simp
  then show thesis using that by auto
qed

lemma kernel_entries_aliased:
  assumes ks: "kernel_space (c\<lparr>mm_mem := m\<rparr>)" and pd: "task_frame pd"
  obtains m' where "for_try 0 4 (\<lambda>i c. kst32 (slot pd (768 + i)) (slot KERNEL_PT_ADDR (i * 1024) OR PAGE_PRESENT OR PAGE_WRITE) c)
      (c\<lparr>mm_mem := m\<rparr>) = Inr (c\<lparr>mm_mem := m'\<rparr>)"
    and "agree_off pd m m'" and "\<forall>j<1024. ld32 m' (slot pd j) = (if 768 \<le> j \<and> j < 772 then kpt_page (j - 768) OR 3 else ld32 m (slot pd j))"
    and "kernel_space (c\<lparr>mm_mem := m'\<rparr>)"
proof -
  have "\<exists>m7. for_try 0 4 (\<lambda>i c. kst32 (slot pd (768 + i))
          (slot KERNEL_PT_ADDR (i * 1024) OR PAGE_PRESENT OR PAGE_WRITE) c) (c\<lparr>mm_mem := m\<rparr>) =
        Inr (c\<lparr>mm_mem := m\<rparr>\<lparr>mm_mem := m7\<rparr>) \<and> agree_off pd (mm_mem (c\<lparr>mm_mem := m\<rparr>)) m7 \<and>
      (\<forall>j<1024. ld32 m7 (slot pd j) = (if 768 \<le> j \<and> j < 768 + 4 then (\<lambda>i. kpt_page i OR 3) (j - 768)
         else ld32 (mm_mem (c\<lparr>mm_mem := m\<rparr>)) (slot pd j))) \<and> kernel_space (c\<lparr>mm_mem := m\<rparr>\<lparr>mm_mem := m7\<rparr>)"
    by (rule table_loop_frame[OF ks pd]) (simp_all add: kpt_page_def or.assoc)
  then show thesis using that by auto
qed

lemma create_task_space_tables:
  assumes ks: "kernel_space c" and pd: "task_frame pd" and pt: "task_frame pt" and ne: "pd \<noteq> pt"
    and cd: "4 \<le> pd_index code_virt" "pd_index code_virt < 768"
    and ix: "pt_index stack_virt \<noteq> pt_index code_virt"
  shows "\<exists>m'. create_task_space code_phys stack_phys code_virt stack_virt pd pt c = Inr (c\<lparr>mm_mem := m'\<rparr>) \<and>
    kernel_space (c\<lparr>mm_mem := m'\<rparr>) \<and> agree_outside {pd, pt} (mm_mem c) m' \<and>
    (\<forall>i<1024. ld32 m' (slot pd i) = task_dir_entry pt (pd_index code_virt) i) \<and>
    (\<forall>j<1024. ld32 m' (slot pt j) = (if j = pt_index code_virt then code_phys OR 7
       else if j = pt_index stack_virt then stack_phys OR 7 else 0))"
proof -
  note ptA = pt[unfolded task_frame_def]
  have kv: "pd_index KERNEL_VIRTUAL = 768" by (simp add: pd_index_eq)
  obtain m1 m where m: "memzero pd 4096 c = Inr (c\<lparr>mm_mem := m1\<rparr>)" "memzero pt 4096 (c\<lparr>mm_mem := m1\<rparr>) = Inr (c\<lparr>mm_mem := m\<rparr>)"
    "kernel_space (c\<lparr>mm_mem := m\<rparr>)" "agree_outside {pd, pt} (mm_mem c) m"
    "\<forall>i<1024. ld32 m (slot pd i) = 0" "\<forall>i<1024. ld32 m (slot pt i) = 0"
    by (rule task_tables_cleared[OF ks pd pt ne])
  note e = task_entries_stored[OF m(3) pd pt ne pt_index_lt[of code_virt] pt_index_lt[of stack_virt] pd_index_lt[of code_virt],
    where v = "code_phys OR 1 OR 2 OR 4" and w = "stack_phys OR 1 OR 2 OR 4" and u = "pt OR 1 OR 2 OR 4"]
  define m5 where "m5 = st32 (st32 (st32 m (slot pt (pt_index code_virt)) (code_phys OR 1 OR 2 OR 4))
    (slot pt (pt_index stack_virt)) (stack_phys OR 1 OR 2 OR 4)) (slot pd (pd_index code_virt)) (pt OR 1 OR 2 OR 4)"
  note e = e[folded m5_def]
  obtain m6 where m6: "for_try 0 4 (\<lambda>i c. bindo (kld32 (slot KERNEL_PD_ADDR i) c) (\<lambda>e. kst32 (slot pd i) e c)) (c\<lparr>mm_mem := m5\<rparr>) = Inr (c\<lparr>mm_mem := m6\<rparr>)"
    "agree_off pd m5 m6" "\<forall>j<1024. ld32 m6 (slot pd j) = (if j < 4 then kpt_page j OR 7 else ld32 m5 (slot pd j))" "kernel_space (c\<lparr>mm_mem := m6\<rparr>)"
    by (rule kernel_entries_copied[OF e(2) pd])
  obtain m7 where m7: "for_try 0 4 (\<lambda>i c. kst32 (slot pd (768 + i)) (slot KERNEL_PT_ADDR (i * 1024) OR PAGE_PRESENT OR PAGE_WRITE) c) (c\<lparr>mm_mem := m6\<rparr>) =
      Inr (c\<lparr>mm_mem := m7\<rparr>)" "agree_off pd m6 m7"
    "\<forall>j<1024. ld32 m7 (slot pd j) = (if 768 \<le> j \<and> j < 772 then kpt_page (j - 768) OR 3 else ld32 m6 (slot pd j))" "kernel_space (c\<lparr>mm_mem := m7\<rparr>)"
    by (rule kernel_entries_aliased[OF m6(4) pd])
  have run: "create_task_space code_phys stack_phys code_virt stack_virt pd pt c = Inr (c\<lparr>mm_mem := m7\<rparr>)"
    unfolding create_task_space_def Let_def kv m(1,2) bindo.simps e(1) m6(1) m7(1) ..
  have dir: "ld32 m7 (slot pd i) = task_dir_entry pt (pd_index code_virt) i" if "i < 1024" for i
    using that cd m7(3) m6(3) m(5) by (auto simp: e(5) task_dir_entry_def or.assoc)
  have tab: "ld32 m7 (slot pt j) = (if j = pt_index code_virt then code_phys OR 7
       else if j = pt_index stack_virt then stack_phys OR 7 else 0)" if "j < 1024" for j
    using ld32_agree_off[OF m7(2), of pt j] ld32_agree_off[OF m6(2), of pt j] that ptA ne ix m(6) by (auto simp: e(4) or.assoc)
  have "agree_outside {pd, pt} (mm_mem c) m7" using m(4) e(3) m6(2) m7(2) by (auto simp: agree_outside_def agree_off_def)
  with run m7(4) dir tab show ?thesis by blast
qed

text \<open>The address space a task is promised, as a function on virtual addresses.\<close>

definition task_view :: "u32 \<Rightarrow> u32 \<Rightarrow> u32 \<Rightarrow> u32 \<Rightarrow> u32 \<Rightarrow> u32 option" where
  "task_view code_phys stack_phys code_virt stack_virt va =
     (if unat va < 0x1000000 then Some va
      else if 0xC0000000 \<le> unat va \<and> unat va < 0xC1000000 then Some (va - KERNEL_VIRTUAL)
      else if page_base va = page_base code_virt then Some (code_phys OR (va AND 0xFFF))
      else if page_base va = page_base stack_virt then Some (stack_phys OR (va AND 0xFFF))
      else None)"

definition task_user :: "u32 \<Rightarrow> u32 \<Rightarrow> u32 \<Rightarrow> bool" where
  "task_user code_virt stack_virt va \<longleftrightarrow>
     unat va < 0x1000000 \<or> page_base va = page_base code_virt \<or> page_base va = page_base stack_virt"

lemma dir_slot_range: "pd_index va < 4 \<longleftrightarrow> unat va < 0x1000000"
    "768 \<le> pd_index va \<and> pd_index va < 772 \<longleftrightarrow> 0xC0000000 \<le> unat va \<and> unat va < 0xC1000000"
  by (simp_all add: pd_index_eq less_eq_div_iff_mult_less_eq div_less_iff_less_mult)

lemma high_window_entry:
  assumes "window_tables m" and "768 \<le> pd_index va" "pd_index va < 772"
  shows "ld32 m (slot (kpt_page (pd_index va - 768)) (pt_index va)) = page_base (va - KERNEL_VIRTUAL) OR 7"
    and "va AND 0xFFF = (va - KERNEL_VIRTUAL) AND 0xFFF"
proof -
  let ?w = "va - KERNEL_VIRTUAL"
  have r: "0xC0000000 \<le> unat va" "unat va < 0xC1000000" using assms(2,3) dir_slot_range(2) by blast+
  note i = high_address[OF r]
  have w: "unat ?w < 0x1000000" using i(1) r by simp
  show "ld32 m (slot (kpt_page (pd_index va - 768)) (pt_index va)) = page_base ?w OR 7"
    using window_table_entry[OF assms(1) w] i by simp
  have "unat va = unat ?w + 4096 * 786432" using i(1) r by simp
  then have "unat va mod 4096 = unat ?w mod 4096" by (simp only: mod_mult_self2)
  then show "va AND 0xFFF = ?w AND 0xFFF" by (simp add: word_unat_eq_iff unat_and_FFF)
qed

text \<open>The walk in the space of a task: the kernel's second window, the task's table, and everything else.\<close>

lemma task_walk_window:
  assumes pd: "page_aligned pd" and win: "window_tables m" and high: "768 \<le> pd_index va" "pd_index va < 772"
    and dir: "ld32 m (slot pd (pd_index va)) = kpt_page (pd_index va - 768) OR 3"
  shows "walk m pd va = Some (va - KERNEL_VIRTUAL)" "\<not> user_writable m pd va"
proof -
  have pr: "present (7 :: u32)" "present (3 :: u32)" by (simp_all add: present_def)
  have we: "walk_entry m pd va = Some (kpt_page (pd_index va - 768) OR 3, page_base (va - KERNEL_VIRTUAL) OR 7)"
    using high_window_entry(1)[OF win high] pr high by (simp add: walk_entry_def page_base_id pd dir page_base_entry present_entry)
  have "(kpt_page (pd_index va - 768) OR 3) AND (page_base (va - KERNEL_VIRTUAL) OR 7) AND 6 = 2"
    using high by (simp add: and_entry and.assoc)
  then show "walk m pd va = Some (va - KERNEL_VIRTUAL)" "\<not> user_writable m pd va"
    using we by (simp_all add: walk_def user_writable_def page_base_entry high_window_entry(2)[OF win high] split_page)
qed

lemma task_walk_table:
  assumes pd: "page_aligned pd" and pt: "page_aligned pt" and pde: "ld32 m (slot pd (pd_index va)) = pt OR 7"
  shows "ld32 m (slot pt (pt_index va)) = x OR 7 \<Longrightarrow> page_aligned x \<Longrightarrow> walk m pd va = Some (x OR (va AND 0xFFF)) \<and> user_writable m pd va"
    and "ld32 m (slot pt (pt_index va)) = 0 \<Longrightarrow> walk m pd va = None \<and> \<not> user_writable m pd va"
proof -
  have pr: "present (7 :: u32)" "\<not> present 0" by (simp_all add: present_def)
  have "(pt OR 7) AND (x OR 7) AND 6 = 6" if "page_aligned x" using pt that by (simp add: and_entry and.assoc)
  with pd pt pde pr show
    "ld32 m (slot pt (pt_index va)) = x OR 7 \<Longrightarrow> page_aligned x \<Longrightarrow> walk m pd va = Some (x OR (va AND 0xFFF)) \<and> user_writable m pd va"
    "ld32 m (slot pt (pt_index va)) = 0 \<Longrightarrow> walk m pd va = None \<and> \<not> user_writable m pd va"
    by (simp_all add: walk_def walk_entry_def user_writable_def page_base_id page_base_entry present_entry Let_def)
qed

lemma task_space_walk:
  assumes pd: "page_aligned pd" and pt: "page_aligned pt" and win: "window_tables m"
    and cd: "4 \<le> pd_index code_virt" "pd_index code_virt < 768" "pd_index stack_virt = pd_index code_virt"
    and dir: "\<And>i. i < 1024 \<Longrightarrow> ld32 m (slot pd i) = task_dir_entry pt (pd_index code_virt) i"
    and tab: "\<And>j. j < 1024 \<Longrightarrow> ld32 m (slot pt j) = (if j = pt_index code_virt then code_phys OR 7
       else if j = pt_index stack_virt then stack_phys OR 7 else 0)"
    and phys: "page_aligned code_phys" "page_aligned stack_phys"
  shows "walk m pd va = task_view code_phys stack_phys code_virt stack_virt va \<and>
    (user_writable m pd va \<longleftrightarrow> task_user code_virt stack_virt va)"
proof -
  have wd: "window_dir m pd" using dir by (simp add: window_dir_def task_dir_entry_def)
  consider (low) "pd_index va < 4" | (high) "768 \<le> pd_index va" "pd_index va < 772"
    | (task) "pd_index va = pd_index code_virt"
    | (none) "\<not> pd_index va < 4" "\<not> (768 \<le> pd_index va \<and> pd_index va < 772)" "pd_index va \<noteq> pd_index code_virt" by fastforce
  then show ?thesis
  proof cases
    case low
    then have "unat va < 0x1000000" using dir_slot_range by blast
    with window_walk[OF pd wd win] show ?thesis by (simp add: task_view_def task_user_def)
  next
    case high
    have "ld32 m (slot pd (pd_index va)) = kpt_page (pd_index va - 768) OR 3" using high cd by (simp add: dir task_dir_entry_def)
    from task_walk_window[OF pd win high this] show ?thesis
      using high cd dir_slot_range[of va] by (auto simp: task_view_def task_user_def same_page_iff)
  next
    case task
    have out: "\<not> unat va < 0x1000000" "\<not> (0xC0000000 \<le> unat va \<and> unat va < 0xC1000000)"
      using task cd dir_slot_range[of va] by auto
    have "ld32 m (slot pd (pd_index va)) = pt OR 7" using task cd by (simp add: dir task_dir_entry_def)
    note w = task_walk_table[OF pd pt this]
    show ?thesis using out task cd phys tab[OF pt_index_lt, of va] w(1)[of code_phys] w(1)[of stack_phys] w(2)
      by (auto simp: task_view_def task_user_def same_page_iff split: if_splits)
  next
    case none
    then have "ld32 m (slot pd (pd_index va)) = 0" by (auto simp: dir task_dir_entry_def)
    with none cd dir_slot_range[of va] show ?thesis
      by (auto simp: walk_def walk_entry_def user_writable_def task_view_def task_user_def same_page_iff page_base_id pd present_def)
  qed
qed

lemma kernel_pages_range:
  "page_base a \<in> insert KERNEL_PD_ADDR window_pages \<Longrightarrow> 0x200000 \<le> unat a \<and> unat a < 0x205000"
proof -
  assume "page_base a \<in> insert KERNEL_PD_ADDR window_pages"
  then have "0x200000 \<le> unat (page_base a) \<and> unat (page_base a) \<le> 0x204000"
    by (auto simp: window_pages_def unat_kpt_page)
  moreover have "unat (page_base a) \<le> unat a" "unat a < unat (page_base a) + 4096"
    by (simp_all add: unat_page_base)
  ultimately show ?thesis by linarith
qed

section \<open>Properties\<close>

text \<open>C22: Started with paging off, \<open>init_paging\<close> returns with paging on and a translation that is
  the identity on the first 16 MB and a fault everywhere else; no byte outside the directory and
  the four tables (0x200000 to 0x204FFF) is written.\<close>

theorem init_paging_identity:
  assumes "\<not> paging_on c"
  shows "\<exists>c'. init_paging c = Inr c' \<and> paging_on c' \<and>
    (\<forall>va. translate c' va = (if unat va < 0x1000000 then Some va else None)) \<and>
    (\<forall>a. unat a < 0x200000 \<or> 0x205000 \<le> unat a \<longrightarrow> mm_mem c' a = mm_mem c a)"
proof -
  from init_paging_kernel_space[OF assms] obtain c' where c': "init_paging c = Inr c'" "kernel_space c'"
    "agree_outside (insert KERNEL_PD_ADDR window_pages) (mm_mem c) (mm_mem c')" by blast
  have "mm_mem c' a = mm_mem c a" if "unat a < 0x200000 \<or> 0x205000 \<le> unat a" for a
    using c'(3) kernel_pages_range[of a] that unfolding agree_outside_def by fastforce
  moreover have "paging_on c'" using c'(2) by (simp add: kernel_space_def in_space_def)
  ultimately show ?thesis using c'(1) kernel_space_translate[OF c'(2)] by blast
qed

theorem init_paging_identity_witness:
  "\<exists>c'. init_paging cold_machine = Inr c' \<and> translate c' 0xB8000 = Some 0xB8000 \<and>
     translate c' 0x1000000 = None"
proof -
  have "\<not> paging_on cold_machine" by (simp add: paging_on_def cold_machine_def bit_simps)
  from init_paging_identity[OF this] show ?thesis by force
qed

text \<open>C19: \<open>create_task_space\<close> builds exactly the promised address space: the walk of the new directory
  is \<open>task_view\<close>, ring 3 can write exactly the two task pages and the whole identity window (so the
  kernel's own first 16 MB are writable from user mode), and nothing outside the two pages given
  for the tables is written.\<close>

theorem create_task_space_view:
  assumes "kernel_space c" and "task_frame pd" "task_frame pt" "pd \<noteq> pt"
    and "4 \<le> pd_index code_virt" "pd_index code_virt < 768" "pd_index stack_virt = pd_index code_virt"
    and "pt_index stack_virt \<noteq> pt_index code_virt"
    and "page_aligned code_phys" "page_aligned stack_phys"
  shows "\<exists>c'. create_task_space code_phys stack_phys code_virt stack_virt pd pt c = Inr c' \<and>
    (\<forall>va. walk (mm_mem c') pd va = task_view code_phys stack_phys code_virt stack_virt va) \<and>
    (\<forall>va. user_writable (mm_mem c') pd va \<longleftrightarrow> task_user code_virt stack_virt va) \<and>
    agree_outside {pd, pt} (mm_mem c) (mm_mem c') \<and> kernel_space c'"
proof -
  obtain m' where m': "create_task_space code_phys stack_phys code_virt stack_virt pd pt c = Inr (c\<lparr>mm_mem := m'\<rparr>)"
    "kernel_space (c\<lparr>mm_mem := m'\<rparr>)" "agree_outside {pd, pt} (mm_mem c) m'"
    "\<And>i. i < 1024 \<Longrightarrow> ld32 m' (slot pd i) = task_dir_entry pt (pd_index code_virt) i"
    "\<And>j. j < 1024 \<Longrightarrow> ld32 m' (slot pt j) = (if j = pt_index code_virt then code_phys OR 7
       else if j = pt_index stack_virt then stack_phys OR 7 else 0)"
    using create_task_space_tables[OF assms(1-6,8)] by blast
  have "page_aligned pd" "page_aligned pt" "window_tables m'"
    using assms(2,3) m'(2) by (simp_all add: task_frame_def kernel_space_def in_space_def)
  from task_space_walk[OF this assms(5-7) m'(4,5) assms(9,10)] m'(1-3) show ?thesis
    by (intro exI[of _ "c\<lparr>mm_mem := m'\<rparr>"]) simp
qed

lemma task_frame_range:
  "page_aligned p \<Longrightarrow> 0x205000 \<le> unat p \<Longrightarrow> unat p < 0x1000000 \<Longrightarrow> task_frame p"
  by (auto simp: task_frame_def outside_window_pages)

theorem create_task_space_view_witness:
  "\<exists>c c'. create_task_space 0x300000 0x30F000 0x40000000 0x40001000 TASK_A_PD_ADDR TASK_A_PT_ADDR c = Inr c' \<and>
     walk (mm_mem c') TASK_A_PD_ADDR 0x40000ABC = Some 0x300ABC \<and>
     user_writable (mm_mem c') TASK_A_PD_ADDR 0x100000"
proof -
  have "\<not> paging_on cold_machine" by (simp add: paging_on_def cold_machine_def bit_simps)
  then obtain c where "kernel_space c" using init_paging_kernel_space by blast
  have "\<exists>c'. create_task_space 0x300000 0x30F000 0x40000000 0x40001000 TASK_A_PD_ADDR TASK_A_PT_ADDR c = Inr c' \<and>
    (\<forall>va. walk (mm_mem c') TASK_A_PD_ADDR va = task_view 0x300000 0x30F000 0x40000000 0x40001000 va) \<and>
    (\<forall>va. user_writable (mm_mem c') TASK_A_PD_ADDR va \<longleftrightarrow> task_user 0x40000000 0x40001000 va) \<and>
    agree_outside {TASK_A_PD_ADDR, TASK_A_PT_ADDR} (mm_mem c) (mm_mem c') \<and> kernel_space c'"
    by (rule create_task_space_view[OF \<open>kernel_space c\<close>])
       (simp_all add: task_frame_range pd_index_eq pt_index_eq)
  then obtain c' where c': "create_task_space 0x300000 0x30F000 0x40000000 0x40001000 TASK_A_PD_ADDR TASK_A_PT_ADDR c = Inr c'"
    "walk (mm_mem c') TASK_A_PD_ADDR 0x40000ABC = task_view 0x300000 0x30F000 0x40000000 0x40001000 0x40000ABC"
    "user_writable (mm_mem c') TASK_A_PD_ADDR 0x100000 \<longleftrightarrow> task_user 0x40000000 0x40001000 0x100000"
    by blast
  then have "walk (mm_mem c') TASK_A_PD_ADDR 0x40000ABC = Some 0x300ABC" "user_writable (mm_mem c') TASK_A_PD_ADDR 0x100000"
    by (simp_all add: task_view_def task_user_def page_base_def)
  with c'(1) show ?thesis by blast
qed

end
