(* ===== verification/VMM.thy ===== *)
theory VMM
  imports PMM Paging
begin

text \<open>
  \<^verbatim>\<open>mm/vmm.c\<close>: mapping and unmapping single pages of the kernel's directory, with page tables
  taken from the physical memory manager. The same steps on another directory are the ELF
  loader's \<^verbatim>\<open>proc_map_page\<close>, so the lemmas speak of any directory: \<open>map_page_at\<close> is the common
  routine, and an address space is seen as the function its page walk computes.
\<close>

section \<open>Operations\<close>

definition vmm_init :: "pmm \<Rightarrow> mach \<Rightarrow> (pmm \<times> mach) outcome" where
  "vmm_init p c = Inr (p, c)"

definition vmm_map_page :: "u32 \<Rightarrow> u32 \<Rightarrow> u32 \<Rightarrow> pmm \<Rightarrow> mach \<Rightarrow> (pmm \<times> mach) outcome" where
  "vmm_map_page virt phys flags p c =
     (let pd_idx = pd_index virt;
          pt_idx = pt_index virt;
          pd = KERNEL_PD_ADDR in
      bindo (kld32 (slot pd pd_idx) c) (\<lambda>e.
      bindo (if e AND PAGE_PRESENT = 0 then
               (let (pt_phys, p) = pmm_alloc_page p in
                bindo (for_try 0 1024 (\<lambda>i. kst32 (slot pt_phys i) 0) c) (\<lambda>c.
                bindo (kst32 (slot pd pd_idx) (pt_phys OR PAGE_PRESENT OR PAGE_WRITE) c) (\<lambda>c.
                Inr (p, c))))
             else Inr (p, c)) (\<lambda>(p, c).
      bindo (kld32 (slot pd pd_idx) c) (\<lambda>e.
      let pt = e AND NOT 0xFFF in
      bindo (kst32 (slot pt pt_idx) (phys OR flags) c) (\<lambda>c.
      Inr (p, c))))))"

definition vmm_unmap_page :: "u32 \<Rightarrow> mach \<Rightarrow> mach outcome" where
  "vmm_unmap_page virt c =
     (let pd_idx = pd_index virt;
          pt_idx = pt_index virt;
          pd = KERNEL_PD_ADDR in
      bindo (kld32 (slot pd pd_idx) c) (\<lambda>e.
      if e AND PAGE_PRESENT = 0 then Inr c
      else
        bindo (kld32 (slot pd pd_idx) c) (\<lambda>e.
        let pt = e AND NOT 0xFFF in
        kst32 (slot pt pt_idx) 0 c)))"

section \<open>Mapping a page in any directory\<close>

definition map_page_at :: "u32 \<Rightarrow> u32 \<Rightarrow> u32 \<Rightarrow> u32 \<Rightarrow> u32 \<Rightarrow> pmm \<Rightarrow> mach \<Rightarrow> (pmm \<times> mach) outcome" where
  "map_page_at pd tflags virt phys flags p c =
      bindo (kld32 (slot pd (pd_index virt)) c) (\<lambda>e.
      bindo (if \<not> present e then
               bindo (for_try 0 1024 (\<lambda>i. kst32 (slot (fst (pmm_alloc_page p)) i) 0) c) (\<lambda>c.
               bindo (kst32 (slot pd (pd_index virt)) (fst (pmm_alloc_page p) OR tflags) c) (\<lambda>c.
               Inr (snd (pmm_alloc_page p), c)))
             else Inr (p, c)) (\<lambda>(p, c).
      bindo (kld32 (slot pd (pd_index virt)) c) (\<lambda>e.
      bindo (kst32 (slot (page_base e) (pt_index virt)) (phys OR flags) c) (\<lambda>c.
      Inr (p, c)))))"

lemma not_present: "e AND 1 = 0 \<longleftrightarrow> \<not> present e"
  by (simp add: present_def)

lemma vmm_map_page_at: "vmm_map_page = map_page_at KERNEL_PD_ADDR (PAGE_PRESENT OR PAGE_WRITE)"
  by (intro ext) (simp add: vmm_map_page_def map_page_at_def not_present page_base_def Let_def case_prod_beta or.assoc cong: if_cong)

text \<open>
  A directory whose entries from the fifth on point to page tables of their own: allocated
  frames between 4 MB and 16 MB, each behind one entry only.
\<close>

definition dir_ok :: "u32 \<Rightarrow> mem \<Rightarrow> pmm \<Rightarrow> bool" where
  "dir_ok pd m p \<longleftrightarrow> page_aligned pd \<and> unat pd < 0x1000000 \<and> pd \<notin> window_pages \<and> pd \<notin> free_addrs p \<and>
     window_dir m pd \<and>
     (\<forall>i pt. 4 \<le> i \<longrightarrow> i < 1024 \<longrightarrow> table_of m pd i = Some pt \<longrightarrow>
        0x400000 \<le> unat pt \<and> unat pt < 0x1000000 \<and> pt \<noteq> pd \<and> pt \<notin> free_addrs p \<and>
        (\<forall>j<1024. table_of m pd j = Some pt \<longrightarrow> j = i))"

lemma dir_ok_pd: "dir_ok pd m p \<Longrightarrow> page_aligned pd \<and> unat pd < 0x1000000 \<and> pd \<notin> window_pages \<and> pd \<notin> free_addrs p"
  by (simp add: dir_ok_def)

lemma dir_okD:
  assumes "dir_ok pd m p" and "4 \<le> i" and "i < 1024" and "table_of m pd i = Some pt"
  shows "0x400000 \<le> unat pt" "unat pt < 0x1000000" "pt \<noteq> pd" "pt \<notin> free_addrs p" "page_aligned pt"
    "j < 1024 \<Longrightarrow> table_of m pd j = Some pt \<Longrightarrow> j = i" "pt \<notin> window_pages"
proof -
  from assms show r: "0x400000 \<le> unat pt" "unat pt < 0x1000000" "pt \<noteq> pd" "pt \<notin> free_addrs p"
    "j < 1024 \<Longrightarrow> table_of m pd j = Some pt \<Longrightarrow> j = i"
    by (auto simp: dir_ok_def)
  show "page_aligned pt" using assms(4) by (auto simp: table_of_def Let_def split: if_splits)
  show "pt \<notin> window_pages" using r(1) by (intro outside_window_pages) simp
qed

lemma in_space_st32_dir:
  assumes "in_space cur c" and "page_aligned pd" and "pd \<notin> window_pages" and "4 \<le> k" and "k < 1024"
  shows "in_space cur (c\<lparr>mm_mem := st32 (mm_mem c) (slot pd k) e\<rparr>)"
  using assms by (auto simp: in_space_def paging_on_def window_dir_def window_tables_def not_window_page)

lemma in_space_st32_table:
  assumes "in_space cur c" and "page_aligned pt" and "pt \<notin> window_pages" and "pt \<noteq> cur" and "k < 1024"
  shows "in_space cur (c\<lparr>mm_mem := st32 (mm_mem c) (slot pt k) e\<rparr>)"
  using in_space_agree[OF assms(1) agree_off_st32[OF assms(2,5)] assms(3,4)] .

text \<open>The entry of a page whose table exists is one store.\<close>

lemma map_page_at_present:
  assumes "in_space cur c" and "page_aligned pd" and "unat pd < 0x1000000"
    and "table_of (mm_mem c) pd (pd_index virt) = Some pt" and "unat pt < 0x1000000"
  shows "map_page_at pd tflags virt phys flags p c =
    Inr (p, c\<lparr>mm_mem := st32 (mm_mem c) (slot pt (pt_index virt)) (phys OR flags)\<rparr>)"
proof -
  note win = in_space_window[OF assms(1)]
  from assms(2,4) have pde: "present (ld32 (mm_mem c) (slot pd (pd_index virt)))"
    "page_base (ld32 (mm_mem c) (slot pd (pd_index virt))) = pt"
    by (auto simp: table_of_def Let_def page_base_id split: if_splits)
  then have "page_aligned pt" by (metis page_base_aligned)
  with assms pde show ?thesis
    by (simp add: map_page_at_def kld32_window[OF win] kst32_window[OF win] slot_aligned slot_in_window)
qed

text \<open>Zeroing a fresh table.\<close>

lemma zero_table:
  assumes "in_space cur c" and "page_aligned a" and "unat a < 0x1000000" and "a \<notin> window_pages" and "a \<noteq> cur"
  shows "\<exists>m'. for_try 0 1024 (\<lambda>i. kst32 (slot a i) 0) c = Inr (c\<lparr>mm_mem := m'\<rparr>) \<and>
    agree_off a (mm_mem c) m' \<and> (\<forall>j<1024. ld32 m' (slot a j) = 0)"
proof -
  have "\<exists>m'. for_try 0 1024 (\<lambda>i. kst32 (slot a i) 0) c = Inr (c\<lparr>mm_mem := m'\<rparr>) \<and>
      agree_off a (mm_mem c) m' \<and> (\<forall>j<1024. ld32 m' (slot a j) = (if j < 1024 then 0 else ld32 (mm_mem c) (slot a j)))"
    using assms in_space_agree[OF assms(1) _ assms(4,5)]
    by (intro table_loop) (auto intro: in_space_window)
  then show ?thesis by auto
qed

lemma map_page_at_absent:
  assumes "in_space cur c" and "page_aligned pd" and "unat pd < 0x1000000" and "pd \<notin> window_pages"
    and "table_of (mm_mem c) pd (pd_index virt) = None" and "4 \<le> pd_index virt"
    and "pmm_alloc_page p = (a, p')" and "page_aligned a" and "unat a < 0x1000000" and "a \<notin> window_pages"
    and "a \<noteq> cur" and "a \<noteq> pd" and "present tflags" and "unat tflags < 4096"
  shows "\<exists>m'. map_page_at pd tflags virt phys flags p c = Inr (p', c\<lparr>mm_mem := m'\<rparr>) \<and>
    in_space cur (c\<lparr>mm_mem := m'\<rparr>) \<and> agree_outside {a, pd} (mm_mem c) m' \<and>
    (\<forall>j<1024. ld32 m' (slot pd j) = (if j = pd_index virt then a OR tflags else ld32 (mm_mem c) (slot pd j))) \<and>
    (\<forall>j<1024. ld32 m' (slot a j) = (if j = pt_index virt then phys OR flags else 0))"
proof -
  let ?k = "pd_index virt"
  obtain m1 where m1: "for_try 0 1024 (\<lambda>i. kst32 (slot a i) 0) c = Inr (c\<lparr>mm_mem := m1\<rparr>)"
    "agree_off a (mm_mem c) m1" "\<And>j. j < 1024 \<Longrightarrow> ld32 m1 (slot a j) = 0"
    using zero_table[OF assms(1) assms(8-11)] by blast
  define m2 where "m2 = st32 m1 (slot pd ?k) (a OR tflags)"
  define m3 where "m3 = st32 m2 (slot a (pt_index virt)) (phys OR flags)"
  have s1: "in_space cur (c\<lparr>mm_mem := m1\<rparr>)" using in_space_agree[OF assms(1) m1(2) assms(10,11)] .
  have s2: "in_space cur (c\<lparr>mm_mem := m2\<rparr>)"
    using in_space_st32_dir[OF s1 assms(2,4,6) pd_index_lt] by (simp add: m2_def)
  have s3: "in_space cur (c\<lparr>mm_mem := m3\<rparr>)"
    using in_space_st32_table[OF s2 assms(8,10,11) pt_index_lt] by (simp add: m3_def)
  note w0 = in_space_window[OF assms(1)] and w1 = in_space_window[OF s1] and w2 = in_space_window[OF s2]
  have np: "\<not> present (ld32 (mm_mem c) (slot pd ?k))"
    using assms(2,5) by (auto simp: table_of_def Let_def page_base_id split: if_splits)
  have pb: "page_base (ld32 m2 (slot pd ?k)) = a" using assms(2,8,14) by (simp add: m2_def page_base_entry)
  have k: "4 dvd unat (slot pd ?k)" "unat (slot pd ?k) < 0x1000000"
    "4 dvd unat (slot a (pt_index virt))" "unat (slot a (pt_index virt)) < 0x1000000"
    using assms by (simp_all add: slot_aligned slot_in_window)
  have a: "fst (pmm_alloc_page p) = a" "snd (pmm_alloc_page p) = p'" using assms(7) by simp_all
  have "map_page_at pd tflags virt phys flags p c = Inr (p', c\<lparr>mm_mem := m3\<rparr>)"
    unfolding map_page_at_def kld32_window[OF w0 k(1,2)] bindo.simps if_P[OF np] a m1(1)
      kst32_window[OF w1 k(1,2)] prod.case
    using kld32_window[OF w2 k(1,2)] kst32_window[OF w2 k(3,4), of "phys OR flags"]
    by (simp add: pb m2_def[symmetric] m3_def)
  moreover have "agree_off pd m1 m2" "agree_off a m2 m3"
    using agree_off_st32 assms(2,8) by (simp_all add: m2_def m3_def)
  then have "agree_outside {a, pd} (mm_mem c) m3" using m1(2) by (auto simp: agree_outside_def agree_off_def)
  moreover have "ld32 m3 (slot pd j) = (if j = ?k then a OR tflags else ld32 (mm_mem c) (slot pd j))" if "j < 1024" for j
    using that assms(2,8,12) ld32_agree_off[OF m1(2)] by (auto simp: m2_def m3_def)
  moreover have "ld32 m3 (slot a j) = (if j = pt_index virt then phys OR flags else 0)" if "j < 1024" for j
    using that assms(2,8,12) m1(3) by (auto simp: m2_def m3_def)
  ultimately show ?thesis using s3 by blast
qed

section \<open>The address space as a function\<close>

definition maps :: "u32 \<Rightarrow> u32 \<Rightarrow> u32 \<Rightarrow> u32 option \<Rightarrow> mem \<Rightarrow> mem \<Rightarrow> bool" where
  "maps pd virt tfl e m m' \<longleftrightarrow> (\<forall>va. walk_entry m' pd va =
     (if page_base va = page_base virt
      then map_option (\<lambda>e. (ld32 m' (slot pd (pd_index virt)), e)) e else walk_entry m pd va))"

text \<open>
  One word written in the table behind \<open>virt\<close> changes the walk of that page only, because no
  other entry of the directory leads to the same table.
\<close>

lemma walk_store:
  assumes ok: "dir_ok pd m p" and k: "4 \<le> pd_index virt" and tab: "table_of m pd (pd_index virt) = Some pt"
  shows "walk_entry (st32 m (slot pt (pt_index virt)) e) pd va =
    (if page_base va = page_base virt
     then (if present e then Some (ld32 m (slot pd (pd_index virt)), e) else None)
     else walk_entry m pd va)"
proof (cases "page_base va = page_base virt")
  case True
  then have i: "pd_index va = pd_index virt" "pt_index va = pt_index virt" by (simp_all add: same_page_iff)
  with walk_entry_st32_same[of pd m va pt e] walk_entry_clear[of pd m va pt e] dir_ok_pd[OF ok]
    dir_okD(3)[OF ok k pd_index_lt tab] tab True
  show ?thesis by auto
next
  case False
  have "table_of m pd (pd_index va) = Some pt \<Longrightarrow> pt_index va \<noteq> pt_index virt"
    using dir_okD(6)[OF ok k pd_index_lt tab, of "pd_index va"] False by (auto simp: same_page_iff)
  with walk_entry_st32_other[of pd pt "pt_index virt" m va e] dir_ok_pd[OF ok]
    dir_okD(3,5)[OF ok k pd_index_lt tab] False
  show ?thesis by auto
qed

lemma table_of_store:
  assumes "page_aligned pd" and "page_aligned pt" and "pt \<noteq> pd" and "k < 1024" and "i < 1024"
  shows "table_of (st32 m (slot pt k) e) pd i = table_of m pd i"
  using assms by (simp add: table_of_def page_base_id)

lemma dir_ok_store:
  assumes ok: "dir_ok pd m p" and k: "4 \<le> pd_index virt" and tab: "table_of m pd (pd_index virt) = Some pt"
  shows "dir_ok pd (st32 m (slot pt (pt_index virt)) e) p"
proof -
  note d = dir_okD[OF ok k pd_index_lt tab] and pd = dir_ok_pd[OF ok]
  have "table_of (st32 m (slot pt (pt_index virt)) e) pd i = table_of m pd i" if "i < 1024" for i
    using table_of_store[of pd pt "pt_index virt" i m e] pd d(3,5) that by simp
  moreover have "window_dir (st32 m (slot pt (pt_index virt)) e) pd"
    using window_dir_agree[OF agree_off_st32[OF d(5)]] pd d(3) ok by (auto simp: dir_ok_def)
  ultimately show ?thesis using ok by (simp add: dir_ok_def)
qed

text \<open>A fresh table behind an entry that was not present.\<close>

lemma table_of_None: "page_aligned pd \<Longrightarrow> table_of m pd i = None \<longleftrightarrow> \<not> present (ld32 m (slot pd i))"
  by (simp add: table_of_def Let_def page_base_id)

lemma walk_fresh_table:
  assumes ok: "dir_ok pd m p" and k: "4 \<le> pd_index virt" and none: "table_of m pd (pd_index virt) = None"
    and a: "page_aligned a" "a \<in> free_addrs p" "a \<notin> window_pages" "a \<noteq> pd"
    and fl: "present tfl" "unat tfl < 4096"
    and agree: "agree_outside {a, pd} m m'"
    and dirs: "\<And>j. j < 1024 \<Longrightarrow> ld32 m' (slot pd j) = (if j = pd_index virt then a OR tfl else ld32 m (slot pd j))"
    and tabs: "\<And>j. j < 1024 \<Longrightarrow> ld32 m' (slot a j) = (if j = pt_index virt then e else 0)"
  shows "walk_entry m' pd va =
    (if page_base va = page_base virt then (if present e then Some (a OR tfl, e) else None)
     else walk_entry m pd va)"
proof (cases "pd_index va = pd_index virt")
  case True
  have pd: "page_aligned pd" using dir_ok_pd[OF ok] by simp
  have "walk_entry m pd va = None"
    using none True pd by (simp add: walk_entry_def table_of_None page_base_id)
  moreover have "\<not> present (0 :: u32)" by (simp add: present_def)
  ultimately show ?thesis
    using True dirs[OF pd_index_lt, of virt] tabs[OF pt_index_lt, of va] pd a(1) fl
    by (simp add: walk_entry_def page_base_id page_base_entry present_entry same_page_iff)
next
  case False
  have pd: "page_aligned pd" using dir_ok_pd[OF ok] by simp
  have "walk_entry m' pd va = walk_entry m pd va"
  proof (rule walk_entry_cong[OF pd])
    show "ld32 m' (slot pd (pd_index va)) = ld32 m (slot pd (pd_index va))" using dirs False by simp
    fix pt assume t: "table_of m pd (pd_index va) = Some pt"
    have "pt \<noteq> a \<and> pt \<noteq> pd \<and> page_aligned pt"
    proof (cases "4 \<le> pd_index va")
      case True
      with dir_okD(3,4,5)[OF ok True pd_index_lt t] a(2) show ?thesis by auto
    next
      case low: False
      then have "ld32 m (slot pd (pd_index va)) = kpt_page (pd_index va) OR 7"
        using ok by (simp add: dir_ok_def window_dir_def)
      with t low pd have "pt = kpt_page (pd_index va)"
        by (auto simp: table_of_def Let_def page_base_id page_base_entry split: if_splits)
      with low have "pt \<in> window_pages" "page_aligned pt" by (auto simp: window_pages_def)
      with a(3) dir_ok_pd[OF ok] show ?thesis by auto
    qed
    with ld32_agree_outside[OF agree] show "ld32 m' (slot pt (pt_index va)) = ld32 m (slot pt (pt_index va))"
      by simp
  qed
  with False show ?thesis by (simp add: same_page_iff)
qed

lemma dir_ok_fresh_table:
  assumes ok: "dir_ok pd m p" and k: "4 \<le> pd_index virt" and none: "table_of m pd (pd_index virt) = None"
    and a: "page_aligned a" "a \<in> free_addrs p" "a \<noteq> pd" "0x400000 \<le> unat a" "unat a < 0x1000000"
    and fl: "present tfl" "unat tfl < 4096"
    and dirs: "\<And>j. j < 1024 \<Longrightarrow> ld32 m' (slot pd j) = (if j = pd_index virt then a OR tfl else ld32 m (slot pd j))"
    and free: "free_addrs p' = free_addrs p - {a}"
  shows "dir_ok pd m' p'"
proof -
  have pd: "page_aligned pd" using dir_ok_pd[OF ok] by simp
  have t: "table_of m' pd j = (if j = pd_index virt then Some a else table_of m pd j)" if "j < 1024" for j
    using that dirs pd a(1) fl by (simp add: table_of_def page_base_id page_base_entry present_entry)
  have other: "table_of m pd j \<noteq> Some a" if "j < 1024" for j
  proof (cases "4 \<le> j")
    case True
    with dir_okD(4)[OF ok True that] a(2) show ?thesis by auto
  next
    case False
    then have "ld32 m (slot pd j) = kpt_page j OR 7" using ok by (simp add: dir_ok_def window_dir_def)
    then have "table_of m pd j = Some (kpt_page j)"
      using False pd by (simp add: table_of_def Let_def page_base_id page_base_entry present_entry) (simp add: present_def)
    moreover have "kpt_page j \<noteq> a"
    proof
      assume "kpt_page j = a"
      then have "unat a = 0x201000 + 4096 * j" using False unat_kpt_page[of j] by simp
      with a(4) False show False by simp
    qed
    ultimately show ?thesis by simp
  qed
  have "window_dir m' pd" using ok k dirs by (simp add: dir_ok_def window_dir_def)
  moreover have "0x400000 \<le> unat pt \<and> unat pt < 0x1000000 \<and> pt \<noteq> pd \<and> pt \<notin> free_addrs p' \<and>
      (\<forall>j<1024. table_of m' pd j = Some pt \<longrightarrow> j = i)"
    if i: "4 \<le> i" "i < 1024" "table_of m' pd i = Some pt" for i pt
  proof (cases "i = pd_index virt")
    case True
    with i t have "pt = a" by simp
    with True a free t other show ?thesis by auto
  next
    case False
    with i t have tab: "table_of m pd i = Some pt" by simp
    with dir_okD[OF ok i(1,2) tab] other[OF i(2)] t free False show ?thesis by auto
  qed
  ultimately show ?thesis using ok free by (auto simp: dir_ok_def)
qed

section \<open>Frames within reach\<close>

text \<open>A frame the kernel can write to: free, and inside the identity window.\<close>

definition frame_in_reach :: "pmm \<Rightarrow> bool" where
  "frame_in_reach p \<longleftrightarrow> (\<exists>a \<in> free_addrs p. unat a < 0x1000000)"

lemma alloc_in_reach:
  assumes "pmm_safe p" and "frame_in_reach p"
  shows "fst (pmm_alloc_page p) \<in> free_addrs p" "page_aligned (fst (pmm_alloc_page p))"
    "0x400000 \<le> unat (fst (pmm_alloc_page p))" "unat (fst (pmm_alloc_page p)) < 0x1000000"
    "free_addrs (snd (pmm_alloc_page p)) = free_addrs p - {fst (pmm_alloc_page p)}"
    "pmm_safe (snd (pmm_alloc_page p))" "fst (pmm_alloc_page p) \<notin> window_pages"
proof -
  from assms(2) have ne: "free_addrs p \<noteq> {}" by (auto simp: frame_in_reach_def)
  show t: "fst (pmm_alloc_page p) \<in> free_addrs p"
    and f: "free_addrs (snd (pmm_alloc_page p)) = free_addrs p - {fst (pmm_alloc_page p)}"
    using pmm.alloc_takes[OF assms(1) ne] by simp_all
  show "page_aligned (fst (pmm_alloc_page p))" and g: "0x400000 \<le> unat (fst (pmm_alloc_page p))"
    using pmm.avail_page[OF assms(1) t] by (simp_all add: page_aligned_def)
  show "fst (pmm_alloc_page p) \<notin> window_pages" using g by (intro outside_window_pages) simp
  show "pmm_safe (snd (pmm_alloc_page p))" using assms(1) by (rule pmm.alloc_ok)
  have inv: "pmm_inv p" and fne: "free_frames p \<noteq> {}" using assms(1) ne by (simp_all add: pmm_safe_def free_addrs_def)
  from assms(2) obtain n where n: "n \<in> free_frames p" "unat (of_nat n * 4096 :: u32) < 0x1000000"
    by (auto simp: frame_in_reach_def free_addrs_def)
  then have "Min (free_frames p) \<le> n" "n < 8192" using free_frame_lt[OF inv] by simp_all
  with n(2) have "Min (free_frames p) < 4096" by (simp add: frame_address)
  then show "unat (fst (pmm_alloc_page p)) < 0x1000000"
    by (simp add: pmm_alloc_some[OF inv fne] frame_address)
qed

text \<open>The page tables of a directory, other than those of the identity window.\<close>

definition tables_of :: "mem \<Rightarrow> u32 \<Rightarrow> u32 set" where
  "tables_of m pd = {pt. \<exists>i. 4 \<le> i \<and> i < 1024 \<and> table_of m pd i = Some pt}"

lemma tables_of_cong:
  "(\<And>i. 4 \<le> i \<Longrightarrow> i < 1024 \<Longrightarrow> table_of m' pd i = table_of m pd i) \<Longrightarrow> tables_of m' pd = tables_of m pd"
  by (auto simp: tables_of_def)

text \<open>
  What mapping \<open>virt\<close> in directory \<open>pd\<close> does, frames and memory included: \<open>T\<close> is the set of new
  tables, empty or of one frame.
\<close>

definition page_mapped :: "u32 \<Rightarrow> u32 \<Rightarrow> u32 \<Rightarrow> u32 \<Rightarrow> pmm \<Rightarrow> mem \<Rightarrow> pmm \<Rightarrow> mem \<Rightarrow> u32 set \<Rightarrow> bool" where
  "page_mapped pd tflags virt entry p m p' m' T \<longleftrightarrow> dir_ok pd m' p' \<and> pmm_safe p' \<and>
    (\<forall>va. walk_entry m' pd va =
       (if page_base va = page_base virt then Some (ld32 m' (slot pd (pd_index virt)), entry) else walk_entry m pd va)) \<and>
    agree_outside (insert pd (tables_of m' pd)) m m' \<and>
    tables_of m' pd = tables_of m pd \<union> T \<and> free_addrs p' = free_addrs p - T \<and> T \<subseteq> free_addrs p \<and>
    finite T \<and> card T \<le> 1 \<and>
    (\<forall>j<1024. j \<noteq> pd_index virt \<longrightarrow> ld32 m' (slot pd j) = ld32 m (slot pd j)) \<and>
    (table_of m pd (pd_index virt) = None \<longrightarrow> ld32 m' (slot pd (pd_index virt)) AND 0xFFF = tflags) \<and>
    (table_of m pd (pd_index virt) \<noteq> None \<longrightarrow> p' = p \<and> ld32 m' (slot pd (pd_index virt)) = ld32 m (slot pd (pd_index virt)))"

lemma page_mapped_old_table:
  assumes ok: "dir_ok pd m p" and pm: "pmm_safe p" and k: "4 \<le> pd_index virt" and pe: "present e"
    and tab: "table_of m pd (pd_index virt) = Some pt"
  shows "page_mapped pd tflags virt e p m p (st32 m (slot pt (pt_index virt)) e) {}"
proof -
  note d = dir_okD[OF ok k pd_index_lt tab] and pd = dir_ok_pd[OF ok]
  let ?m = "st32 m (slot pt (pt_index virt)) e"
  have tabs: "table_of ?m pd i = table_of m pd i" if "i < 1024" for i
    using table_of_store[of pd pt "pt_index virt" i] pd d(3,5) that by simp
  have "pt \<in> tables_of m pd" using tab k by (auto simp: tables_of_def)
  moreover have same: "tables_of ?m pd = tables_of m pd" using tabs by (intro tables_of_cong) simp
  ultimately have "agree_outside (insert pd (tables_of ?m pd)) m ?m"
    using agree_off_st32[OF d(5) pt_index_lt, of m virt e] by (auto simp: agree_outside_def agree_off_def)
  moreover have "ld32 ?m (slot pd j) = ld32 m (slot pd j)" if "j < 1024" for j using pd d(3,5) that by simp
  ultimately show ?thesis using dir_ok_store[OF ok k tab] walk_store[OF ok k tab] pm pe same tab by (simp add: page_mapped_def)
qed

lemma page_mapped_new_table:
  assumes ok: "dir_ok pd m p" and pm: "pmm_safe p'" and k: "4 \<le> pd_index virt" and pe: "present e" and none: "table_of m pd (pd_index virt) = None"
    and a: "page_aligned a" "a \<in> free_addrs p" "a \<notin> window_pages" "a \<noteq> pd" "0x400000 \<le> unat a" "unat a < 0x1000000"
    and tfl: "present tflags" "unat tflags < 4096" and agree: "agree_outside {a, pd} m m'"
    and dirs: "\<And>j. j < 1024 \<Longrightarrow> ld32 m' (slot pd j) = (if j = pd_index virt then a OR tflags else ld32 m (slot pd j))"
    and tabs: "\<And>j. j < 1024 \<Longrightarrow> ld32 m' (slot a j) = (if j = pt_index virt then e else 0)"
    and free: "free_addrs p' = free_addrs p - {a}"
  shows "page_mapped pd tflags virt e p m p' m' {a}"
proof -
  note pd = dir_ok_pd[OF ok]
  have t: "table_of m' pd j = (if j = pd_index virt then Some a else table_of m pd j)" if "j < 1024" for j
    using that dirs pd a(1) tfl by (simp add: table_of_def page_base_id page_base_entry present_entry)
  have tt: "tables_of m' pd = tables_of m pd \<union> {a}"
  proof (intro set_eqI iffI)
    fix pt assume "pt \<in> tables_of m pd \<union> {a}"
    then show "pt \<in> tables_of m' pd" using t none k by (fastforce simp: tables_of_def)
  qed (auto simp: tables_of_def t split: if_splits)
  have "tflags AND 0xFFF = tflags" using tfl(2) by (simp add: word_unat_eq_iff unat_and_FFF)
  then have "(a OR tflags) AND 0xFFF = tflags" using a(1) by (simp add: and_entry)
  moreover have "agree_outside (insert pd (tables_of m' pd)) m m'" using agree by (auto simp: agree_outside_def tt)
  ultimately show ?thesis
    using dir_ok_fresh_table[OF ok k none a(1,2,4-6) tfl dirs free] walk_fresh_table[OF ok k none a(1-4) tfl agree dirs tabs] pm pe none free tt a(2) dirs
    by (simp add: page_mapped_def)
qed

lemma map_page_at_maps:
  assumes sp: "in_space cur c" and cur: "unat cur < 0x400000" and ok: "dir_ok pd (mm_mem c) p" and pm: "pmm_safe p"
    and k: "4 \<le> pd_index virt" and fl: "present flags" "unat flags < 4096"
    and ph: "page_aligned phys" and tfl: "present tflags" "unat tflags < 4096"
    and room: "table_of (mm_mem c) pd (pd_index virt) \<noteq> None \<or> frame_in_reach p"
  shows "\<exists>p' m' T. map_page_at pd tflags virt phys flags p c = Inr (p', c\<lparr>mm_mem := m'\<rparr>) \<and>
    in_space cur (c\<lparr>mm_mem := m'\<rparr>) \<and> page_mapped pd tflags virt (phys OR flags) p (mm_mem c) p' m' T"
proof (cases "table_of (mm_mem c) pd (pd_index virt)")
  case (Some pt)
  note d = dir_okD[OF ok k pd_index_lt Some] and pd = dir_ok_pd[OF ok]
  have "present (phys OR flags)" using ph fl(1) by (simp add: present_entry)
  moreover have "pt \<noteq> cur" using d(1) cur by auto
  ultimately show ?thesis
    using map_page_at_present[OF sp _ _ Some d(2)] in_space_st32_table[OF sp d(5,7) _ pt_index_lt] page_mapped_old_table[OF ok pm k _ Some] pd
    by (intro exI[of _ p] exI[of _ "st32 (mm_mem c) (slot pt (pt_index virt)) (phys OR flags)"] exI[of _ "{}"]) simp
next
  case None
  with room have reach: "frame_in_reach p" by simp
  define a p' where "a = fst (pmm_alloc_page p)" and "p' = snd (pmm_alloc_page p)"
  note al = alloc_in_reach[OF pm reach, folded a_def p'_def] and pd = dir_ok_pd[OF ok]
  have ne: "a \<noteq> cur" "a \<noteq> pd" using al(1,3) cur pd by auto
  obtain m' where m': "map_page_at pd tflags virt phys flags p c = Inr (p', c\<lparr>mm_mem := m'\<rparr>)"
    "in_space cur (c\<lparr>mm_mem := m'\<rparr>)" "agree_outside {a, pd} (mm_mem c) m'"
    "\<And>j. j < 1024 \<Longrightarrow> ld32 m' (slot pd j) = (if j = pd_index virt then a OR tflags else ld32 (mm_mem c) (slot pd j))"
    "\<And>j. j < 1024 \<Longrightarrow> ld32 m' (slot a j) = (if j = pt_index virt then phys OR flags else 0)"
    using map_page_at_absent[OF sp _ _ _ None k _ al(2,4,7) ne tfl, of p p' phys flags] pd
    by (auto simp: a_def p'_def)
  have "present (phys OR flags)" using ph fl(1) by (simp add: present_entry)
  from page_mapped_new_table[OF ok al(6) k this None al(2,1,7) ne(2) al(3,4) tfl m'(3-5) al(5)] m'(1,2) show ?thesis by blast
qed

section \<open>The kernel's directory\<close>

definition vmm_inv :: "pmm \<Rightarrow> mach \<Rightarrow> bool" where
  "vmm_inv p c \<longleftrightarrow> in_space KERNEL_PD_ADDR c \<and> dir_ok KERNEL_PD_ADDR (mm_mem c) p \<and> pmm_safe p"

lemma vmm_inv_boot:
  assumes "kernel_space c" and "pmm_safe p"
  shows "vmm_inv p c"
proof -
  have "KERNEL_PD_ADDR \<notin> free_addrs p" using pmm.avail_page[OF assms(2), of KERNEL_PD_ADDR] by auto
  moreover have "table_of (mm_mem c) KERNEL_PD_ADDR i = None" if "4 \<le> i" "i < 1024" for i
    using assms(1) that by (simp add: kernel_space_def kernel_dir_only_def table_of_None) (simp add: present_def)
  ultimately show ?thesis using assms
    by (auto simp: vmm_inv_def dir_ok_def kernel_space_def in_space_def)
qed

lemma vmm_translate: "vmm_inv p c \<Longrightarrow> translate c va = walk (mm_mem c) KERNEL_PD_ADDR va"
  by (simp add: vmm_inv_def in_space_def translate_def)

lemma vmm_map_page_step:
  assumes inv: "vmm_inv p c" and k: "4 \<le> pd_index virt" and fl: "present flags" "unat flags < 4096"
    and ph: "page_aligned phys"
    and room: "table_of (mm_mem c) KERNEL_PD_ADDR (pd_index virt) \<noteq> None \<or> frame_in_reach p"
  shows "\<exists>p' c'. vmm_map_page virt phys flags p c = Inr (p', c') \<and> vmm_inv p' c' \<and>
    (\<forall>va. translate c' va = (if page_base va = page_base virt then Some (phys OR (va AND 0xFFF)) else translate c va)) \<and>
    (table_of (mm_mem c) KERNEL_PD_ADDR (pd_index virt) = None \<longrightarrow> \<not> user_writable (mm_mem c') KERNEL_PD_ADDR virt)"
proof -
  have sp: "in_space KERNEL_PD_ADDR c" and ok: "dir_ok KERNEL_PD_ADDR (mm_mem c) p" and pm: "pmm_safe p"
    using inv by (simp_all add: vmm_inv_def)
  have cur: "unat KERNEL_PD_ADDR < 0x400000" by simp
  have tfl: "present (PAGE_PRESENT OR PAGE_WRITE)" "unat (PAGE_PRESENT OR PAGE_WRITE) < 4096"
    by (simp_all add: present_def)
  obtain p' m' where r: "vmm_map_page virt phys flags p c = Inr (p', c\<lparr>mm_mem := m'\<rparr>)"
    "vmm_inv p' (c\<lparr>mm_mem := m'\<rparr>)"
    "\<And>va. walk_entry m' KERNEL_PD_ADDR va = (if page_base va = page_base virt
       then Some (ld32 m' (slot KERNEL_PD_ADDR (pd_index virt)), phys OR flags) else walk_entry (mm_mem c) KERNEL_PD_ADDR va)"
    "table_of (mm_mem c) KERNEL_PD_ADDR (pd_index virt) = None \<longrightarrow>
       ld32 m' (slot KERNEL_PD_ADDR (pd_index virt)) AND 0xFFF = PAGE_PRESENT OR PAGE_WRITE"
    using map_page_at_maps[OF sp cur ok pm k fl ph tfl room]
    unfolding vmm_map_page_at vmm_inv_def page_mapped_def by (auto simp: in_space_def)
  have w: "walk m' KERNEL_PD_ADDR va = (if page_base va = page_base virt then Some (phys OR (va AND 0xFFF))
      else walk (mm_mem c) KERNEL_PD_ADDR va)" for va
    using ph fl(2) by (simp add: walk_def r(3) page_base_entry)
  have "\<not> user_writable m' KERNEL_PD_ADDR virt" if "table_of (mm_mem c) KERNEL_PD_ADDR (pd_index virt) = None"
  proof -
    let ?e = "ld32 m' (slot KERNEL_PD_ADDR (pd_index virt))"
    have "?e AND 0xFFF = 3" using r(4) that by simp
    then have "bit (?e AND 0xFFF) 2 = bit (3 :: u32) 2" by simp
    then have b: "\<not> bit ?e 2" by (simp add: bit_simps)
    have "?e AND (phys OR flags) AND 6 \<noteq> 6"
    proof
      assume "?e AND (phys OR flags) AND 6 = 6"
      then have "bit (?e AND (phys OR flags) AND 6) 2 = bit (6 :: u32) 2" by simp
      with b show False by (simp add: bit_simps)
    qed
    then show ?thesis by (simp add: user_writable_def r(3) and.assoc)
  qed
  with r(1,2) w vmm_translate[OF inv] vmm_translate[OF r(2)] show ?thesis
    by (intro exI[of _ p'] exI[of _ "c\<lparr>mm_mem := m'\<rparr>"]) simp
qed

lemma vmm_unmap_page_step:
  assumes inv: "vmm_inv p c" and k: "4 \<le> pd_index virt"
  shows "\<exists>c'. vmm_unmap_page virt c = Inr c' \<and> vmm_inv p c' \<and>
    (\<forall>va. translate c' va = (if page_base va = page_base virt then None else translate c va))"
proof -
  let ?e = "ld32 (mm_mem c) (slot KERNEL_PD_ADDR (pd_index virt))"
  have sp: "in_space KERNEL_PD_ADDR c" and ok: "dir_ok KERNEL_PD_ADDR (mm_mem c) p" and pm: "pmm_safe p"
    using inv by (simp_all add: vmm_inv_def)
  note win = in_space_window[OF sp]
  have sl: "4 dvd unat (slot KERNEL_PD_ADDR (pd_index virt))" "unat (slot KERNEL_PD_ADDR (pd_index virt)) < 0x1000000"
    by (simp_all add: slot_aligned slot_in_window)
  show ?thesis
  proof (cases "table_of (mm_mem c) KERNEL_PD_ADDR (pd_index virt)")
    case None
    then have np: "\<not> present ?e" by (simp add: table_of_None)
    then have "vmm_unmap_page virt c = Inr c"
      by (simp add: vmm_unmap_page_def Let_def kld32_window[OF win sl] not_present)
    moreover have "translate c va = None" if "page_base va = page_base virt" for va
      using np that by (simp add: vmm_translate[OF inv] walk_def walk_entry_def page_base_id same_page_iff)
    ultimately show ?thesis using inv by (intro exI[of _ c]) simp
  next
    case (Some pt)
    note d = dir_okD[OF ok k pd_index_lt Some]
    let ?c = "c\<lparr>mm_mem := st32 (mm_mem c) (slot pt (pt_index virt)) 0\<rparr>"
    have e: "present ?e" "page_base ?e = pt"
      using Some by (auto simp: table_of_def Let_def page_base_id split: if_splits)
    have pt: "4 dvd unat (slot pt (pt_index virt))" "unat (slot pt (pt_index virt)) < 0x1000000"
      using d(2,5) by (simp_all add: slot_aligned slot_in_window)
    have "vmm_unmap_page virt c = Inr ?c"
      unfolding vmm_unmap_page_def Let_def kld32_window[OF win sl] bindo.simps not_present page_base_def[symmetric] e(2)
      using e(1) kst32_window[OF win pt, of 0] by simp
    moreover have inv': "vmm_inv p ?c"
      using in_space_st32_table[OF sp d(5,7,3) pt_index_lt] dir_ok_store[OF ok k Some] pm by (simp add: vmm_inv_def)
    moreover have "\<not> present (0 :: u32)" by (simp add: present_def)
    then have "translate ?c va = (if page_base va = page_base virt then None else translate c va)" for va
      unfolding vmm_translate[OF inv] vmm_translate[OF inv'] by (simp add: walk_def walk_store[OF ok k Some])
    ultimately show ?thesis by blast
  qed
qed

section \<open>Properties\<close>

lemma booted_vmm: "\<exists>c. vmm_inv (pmm_init 0x2000000 pmm_blank) c \<and> kernel_space c"
proof -
  have "\<not> paging_on cold_machine" by (simp add: paging_on_def cold_machine_def bit_simps)
  then obtain c where "kernel_space c" using init_paging_kernel_space by blast
  with vmm_inv_boot pmm_booted(1) show ?thesis by blast
qed

lemma booted_reach: "frame_in_reach (pmm_init 0x2000000 pmm_blank)"
proof -
  have "(1024 :: nat) \<in> free_frames (pmm_init 0x2000000 pmm_blank)" by (simp add: pmm_booted managed_pages_def)
  then have "of_nat 1024 * 4096 \<in> free_addrs (pmm_init 0x2000000 pmm_blank)" unfolding free_addrs_def by blast
  then show ?thesis by (force simp: frame_in_reach_def)
qed

text \<open>C24: \<open>vmm_map_page\<close> updates the kernel's address space at exactly one page: every address of
  \<open>virt\<close>'s page translates to the same offset of \<open>phys\<close>, every other address translates as before,
  whether or not a page table had to be allocated; directory and frame manager stay consistent.\<close>

theorem vmm_map_page_refines:
  assumes "vmm_inv p c" and "4 \<le> pd_index virt" and "present flags" and "unat flags < 4096"
    and "page_aligned phys"
    and "table_of (mm_mem c) KERNEL_PD_ADDR (pd_index virt) \<noteq> None \<or> frame_in_reach p"
  shows "\<exists>p' c'. vmm_map_page virt phys flags p c = Inr (p', c') \<and> vmm_inv p' c' \<and>
    (\<forall>va. translate c' va =
       (if page_base va = page_base virt then Some (phys OR (va AND 0xFFF)) else translate c va))"
  using vmm_map_page_step[OF assms] by blast

theorem vmm_map_page_refines_witness:
  "\<exists>p c p' c'. vmm_map_page 0xD0000000 0x500000 3 p c = Inr (p', c') \<and> translate c' 0xD0000ABC = Some 0x500ABC"
proof -
  obtain c where c: "vmm_inv (pmm_init 0x2000000 pmm_blank) c" using booted_vmm by blast
  have k: "4 \<le> pd_index 0xD0000000" by (simp add: pd_index_eq)
  have fl: "present (3 :: u32)" "unat (3 :: u32) < 4096" "page_aligned 0x500000"
    by (simp_all add: present_def page_aligned_def)
  obtain p' c' where r: "vmm_map_page 0xD0000000 0x500000 3 (pmm_init 0x2000000 pmm_blank) c = Inr (p', c')"
    "translate c' 0xD0000ABC = (if page_base 0xD0000ABC = page_base 0xD0000000
       then Some (0x500000 OR (0xD0000ABC AND 0xFFF)) else translate c 0xD0000ABC)"
    using vmm_map_page_refines[OF c k fl] booted_reach by blast
  then have "translate c' 0xD0000ABC = Some 0x500ABC" by (simp add: page_base_def)
  with r(1) show ?thesis by blast
qed

text \<open>C25: Unmapping undoes mapping: after \<open>vmm_map_page\<close> and \<open>vmm_unmap_page\<close> of a page that was not
  mapped, every address translates as it did before, though the page table that was allocated is
  kept.\<close>

theorem vmm_map_unmap_roundtrip:
  assumes "vmm_inv p c" and "4 \<le> pd_index virt" and "present flags" and "unat flags < 4096"
    and "page_aligned phys"
    and "table_of (mm_mem c) KERNEL_PD_ADDR (pd_index virt) \<noteq> None \<or> frame_in_reach p"
    and "\<forall>va. page_base va = page_base virt \<longrightarrow> translate c va = None"
  shows "\<exists>p' c' c''. vmm_map_page virt phys flags p c = Inr (p', c') \<and> vmm_unmap_page virt c' = Inr c'' \<and>
    (\<forall>va. translate c'' va = translate c va) \<and> vmm_inv p' c''"
proof -
  from vmm_map_page_step[OF assms(1-6)] obtain p' c' where m: "vmm_map_page virt phys flags p c = Inr (p', c')" "vmm_inv p' c'"
    "\<And>va. translate c' va = (if page_base va = page_base virt then Some (phys OR (va AND 0xFFF)) else translate c va)"
    by blast
  from vmm_unmap_page_step[OF m(2) assms(2)] obtain c'' where u: "vmm_unmap_page virt c' = Inr c''" "vmm_inv p' c''"
    "\<And>va. translate c'' va = (if page_base va = page_base virt then None else translate c' va)" by blast
  have "translate c'' va = translate c va" for va
    using m(3) u(3) assms(7) by simp
  with m(1) u(1,2) show ?thesis by blast
qed

theorem vmm_map_unmap_roundtrip_witness:
  "\<exists>p c p' c' c''. vmm_map_page 0xD0000000 0x500000 3 p c = Inr (p', c') \<and> vmm_unmap_page 0xD0000000 c' = Inr c'' \<and>
     translate c'' 0xD0000000 = None"
proof -
  let ?p = "pmm_init 0x2000000 pmm_blank"
  obtain c where c: "vmm_inv ?p c" "kernel_space c" using booted_vmm by blast
  have k: "4 \<le> pd_index 0xD0000000" by (simp add: pd_index_eq)
  have fl: "present (3 :: u32)" "unat (3 :: u32) < 4096" "page_aligned 0x500000"
    by (simp_all add: present_def page_aligned_def)
  have "unat va \<ge> 0x1000000" if "page_base va = page_base 0xD0000000" for va
  proof -
    have "unat (page_base va) = 0xD0000000" unfolding that unat_page_base by simp
    then show ?thesis by (simp add: unat_page_base)
  qed
  then have un: "\<forall>va. page_base va = page_base 0xD0000000 \<longrightarrow> translate c va = None"
    using kernel_space_translate[OF c(2)] by (metis linorder_not_le)
  obtain p' c' c'' where r: "vmm_map_page 0xD0000000 0x500000 3 ?p c = Inr (p', c')" "vmm_unmap_page 0xD0000000 c' = Inr c''"
    "translate c'' 0xD0000000 = translate c 0xD0000000"
    using vmm_map_unmap_roundtrip[OF c(1) k fl _ un] booted_reach by blast
  moreover from this un have "translate c'' 0xD0000000 = None" by simp
  ultimately show ?thesis by blast
qed

text \<open>C40: Out of memory is not checked: when a page table is needed and no frame is free, \<open>vmm_map_page\<close>
  takes the failure value 0 for a frame, zeroes physical page 0 (the live IDT at 0x500 and GDT at
  0xD00) and installs it as the page table.\<close>

theorem vmm_map_page_out_of_memory:
  assumes "vmm_inv p c" and "free_addrs p = {}" and "4 \<le> pd_index virt"
    and "table_of (mm_mem c) KERNEL_PD_ADDR (pd_index virt) = None"
  shows "\<exists>c'. vmm_map_page virt phys flags p c = Inr (p, c') \<and>
    ld32 (mm_mem c') (slot KERNEL_PD_ADDR (pd_index virt)) = PAGE_PRESENT OR PAGE_WRITE \<and>
    (\<forall>j<1024. j \<noteq> pt_index virt \<longrightarrow> ld32 (mm_mem c') (slot 0 j) = 0)"
proof -
  have sp: "in_space KERNEL_PD_ADDR c" and pm: "pmm_safe p" using assms(1) by (simp_all add: vmm_inv_def)
  have al: "pmm_alloc_page p = (0, p)" using pmm.alloc_exhausted[OF pm assms(2)] .
  have z: "page_aligned 0" "(0 :: u32) \<notin> window_pages" by (simp_all add: page_aligned_def outside_window_pages)
  have tfl: "present (PAGE_PRESENT OR PAGE_WRITE)" "unat (PAGE_PRESENT OR PAGE_WRITE) < 4096"
    by (simp_all add: present_def)
  obtain m' where "vmm_map_page virt phys flags p c = Inr (p, c\<lparr>mm_mem := m'\<rparr>)"
    "\<And>j. j < 1024 \<Longrightarrow> ld32 m' (slot KERNEL_PD_ADDR j) =
       (if j = pd_index virt then 0 OR (PAGE_PRESENT OR PAGE_WRITE) else ld32 (mm_mem c) (slot KERNEL_PD_ADDR j))"
    "\<And>j. j < 1024 \<Longrightarrow> ld32 m' (slot 0 j) = (if j = pt_index virt then phys OR flags else 0)"
    using map_page_at_absent[OF sp _ _ kpd_not_window assms(4,3) al z(1) _ z(2) _ _ tfl, of phys flags]
    unfolding vmm_map_page_at by auto
  then show ?thesis by (intro exI[of _ "c\<lparr>mm_mem := m'\<rparr>"]) simp
qed

definition no_memory :: pmm where
  "no_memory = pmm_init 0x400000 pmm_blank"

theorem vmm_map_page_out_of_memory_witness:
  "\<exists>c c'. vmm_map_page 0xD0000000 0x500000 3 no_memory c = Inr (no_memory, c') \<and> ld32 (mm_mem c') 0x500 = 0"
proof -
  have pm: "pmm_safe no_memory" "free_addrs no_memory = {}"
    unfolding no_memory_def free_addrs_def by (simp_all add: pmm_booted managed_pages_def)
  obtain c where c: "kernel_space c" using booted_vmm by blast
  have inv: "vmm_inv no_memory c" using vmm_inv_boot[OF c pm(1)] .
  have k: "4 \<le> pd_index 0xD0000000" by (simp add: pd_index_eq)
  have "table_of (mm_mem c) KERNEL_PD_ADDR (pd_index 0xD0000000) = None"
    using c k by (simp add: kernel_space_def kernel_dir_only_def table_of_None) (simp add: present_def)
  from vmm_map_page_out_of_memory[OF inv pm(2) k this, of "0x500000" 3] obtain c' where
    c': "vmm_map_page 0xD0000000 0x500000 3 no_memory c = Inr (no_memory, c')"
    "\<And>j. j < 1024 \<Longrightarrow> j \<noteq> pt_index 0xD0000000 \<Longrightarrow> ld32 (mm_mem c') (slot 0 j) = 0" by blast
  have "slot 0 320 = 0x500" by (simp add: slot_def)
  with c'(2)[of 320] have "ld32 (mm_mem c') 0x500 = 0" by (simp add: pt_index_eq)
  with c'(1) show ?thesis by blast
qed

text \<open>The frame manager hands out frames up to 32 MB but only 16 MB are mapped: a page table that
  falls in a frame outside the kernel's map cannot even be cleared, and the kernel stops with a
  page fault.\<close>

theorem vmm_map_page_frame_out_of_reach:
  assumes "vmm_inv p c" and "table_of (mm_mem c) KERNEL_PD_ADDR (pd_index virt) = None"
    and "translate c (fst (pmm_alloc_page p)) = None"
  shows "vmm_map_page virt phys flags p c = Inl PageFault"
proof -
  have win: "id_window c" using assms(1) in_space_window by (auto simp: vmm_inv_def)
  have sl: "4 dvd unat (slot KERNEL_PD_ADDR (pd_index virt))" "unat (slot KERNEL_PD_ADDR (pd_index virt)) < 0x1000000"
    by (simp_all add: slot_aligned slot_in_window)
  have np: "\<not> present (ld32 (mm_mem c) (slot KERNEL_PD_ADDR (pd_index virt)))"
    using assms(2) by (simp add: table_of_None)
  have "[0..<1024::nat] = 0 # [Suc 0..<1024]" by (rule upt_conv_Cons) simp
  then have "for_try 0 1024 (\<lambda>i. kst32 (slot (fst (pmm_alloc_page p)) i) 0) c = Inl PageFault"
    using assms(3) by (simp add: for_try_def kst32_def slot_def)
  then show ?thesis
    unfolding vmm_map_page_at map_page_at_def kld32_window[OF win sl] bindo.simps if_P[OF np] by simp
qed

text \<open>A manager whose frames below 16 MB are all taken.\<close>

definition low_taken :: pmm where
  "low_taken = \<lparr>pmm_bitmap = replicate 128 0xFFFFFFFF @ replicate 128 0, pmm_total_pages = 8192, pmm_free_pages = 4096\<rparr>"

lemma low_taken_state: "pmm_safe low_taken" "free_frames low_taken = {4096..<8192}"
proof -
  have b: "bit (0xFFFFFFFF :: u32) n" if "n < 32" for n
  proof -
    have "(0xFFFFFFFF :: u32) = - 1" by simp
    then show ?thesis using that by (simp only:) (simp add: bit_simps)
  qed
  have u: "frame_used low_taken n \<longleftrightarrow> n < 4096" if "n < 8192" for n
    using that b[of "n mod 32"] by (auto simp: frame_used_def low_taken_def nth_append)
  have t: "pmm_total_pages low_taken = 8192" "pmm_free_pages low_taken = 4096" "length (pmm_bitmap low_taken) = 256"
    by (simp_all add: low_taken_def)
  show ff: "free_frames low_taken = {4096..<8192}" using u by (auto simp: free_frames_def t)
  show "pmm_safe low_taken" using u by (simp add: pmm_safe_def pmm_inv_def pmm_reserved_def ff t)
qed

theorem vmm_map_page_frame_out_of_reach_witness:
  "\<exists>c. vmm_inv low_taken c \<and> vmm_map_page 0xD0000000 0x500000 3 low_taken c = Inl PageFault"
proof -
  obtain c where c: "kernel_space c" using booted_vmm by blast
  have inv: "vmm_inv low_taken c" using vmm_inv_boot[OF c low_taken_state(1)] .
  have k: "4 \<le> pd_index 0xD0000000" by (simp add: pd_index_eq)
  have none: "table_of (mm_mem c) KERNEL_PD_ADDR (pd_index 0xD0000000) = None"
    using c k by (simp add: kernel_space_def kernel_dir_only_def table_of_None) (simp add: present_def)
  have "Min {4096..<8192::nat} = 4096" by (rule Min_eqI) auto
  then have "fst (pmm_alloc_page low_taken) = 0x1000000"
    using low_taken_state pmm_alloc_some[of low_taken] by (simp add: pmm_safe_def)
  then have "translate c (fst (pmm_alloc_page low_taken)) = None" by (simp add: kernel_space_translate[OF c])
  from vmm_map_page_frame_out_of_reach[OF inv none this] inv show ?thesis by blast
qed

end
