(* ===== verification/Scheduler.thy ===== *)
theory Scheduler
  imports Linked_List Machine
begin

text \<open>
  \<^verbatim>\<open>process/scheduler.c\<close>: the pool of tasks, the circular list that orders them, the timer's
  \<open>do_switch\<close> and the delivery of signals. A task is named by its index in \<^verbatim>\<open>task_pool\<close>; the
  list nodes are the sentinel \<^verbatim>\<open>task_list\<close> and the nodes embedded in the tasks, so that
  \<^verbatim>\<open>list_entry\<close> of a task's node is its index. The frame \<^verbatim>\<open>ctx\<close> that the interrupt stub pushes
  is the list of its 13 dwords.
\<close>

section \<open>State\<close>

abbreviation (input) "MAX_TASKS \<equiv> (8 :: nat)"
abbreviation (input) "MAX_FD \<equiv> (8 :: nat)"
abbreviation (input) "NSIG \<equiv> (32 :: nat)"
abbreviation (input) "SIGINT \<equiv> (2 :: nat)"

text \<open>An open file of a task; a node is named by its index in the pool of the VFS.\<close>

record fd =
  fd_node :: "nat option"
  fd_offset :: u32
  fd_used :: bool

record task =
  t_regs :: "u32 list"
  t_cr3 :: u32
  t_kstack_top :: u32
  t_active :: bool
  t_files :: "fd list"
  t_sig_pending :: u32
  t_sig_handlers :: "u32 list"
  t_sig_saved_regs :: "u32 list"
  t_sig_in_handler :: bool

datatype lnode = TaskList | TaskNode nat

record sched =
  task_links :: "lnode links"
  task_pool :: "task list"
  ntasks :: nat
  cur_task :: "nat option"
  tss_esp0 :: u32

section \<open>Operations\<close>

definition update_task :: "nat \<Rightarrow> (task \<Rightarrow> task) \<Rightarrow> sched \<Rightarrow> sched" where
  "update_task i f s = s\<lparr>task_pool := (task_pool s)[i := f (task_pool s ! i)]\<rparr>"

definition sched_current_task :: "sched \<Rightarrow> nat option" where
  "sched_current_task s = cur_task s"

definition sched_signal :: "int \<Rightarrow> sched \<Rightarrow> sched" where
  "sched_signal signum s =
     (case cur_task s of
        None \<Rightarrow> s
      | Some c \<Rightarrow>
          if signum \<le> 0 \<or> signum \<ge> int NSIG then s
          else update_task c (\<lambda>t. t\<lparr>t_sig_pending := t_sig_pending t OR push_bit (nat signum) 1\<rparr>) s)"

definition sched_add_task :: "u32 \<Rightarrow> u32 \<Rightarrow> u32 \<Rightarrow> u32 \<Rightarrow> u32 \<Rightarrow> u32 \<Rightarrow> u32 \<Rightarrow> sched \<Rightarrow> sched outcome" where
  "sched_add_task eip cs eflags user_esp ss cr3 kstack_top s =
     (let n = ntasks s in
      if length (task_pool s) \<le> n then Inl OutOfBounds
      else
        let t = task_pool s ! n;
            r = for_range 0 13 (\<lambda>i r. r[i := 0]) (t_regs t);
            r = r[8 := eip, 9 := cs, 10 := eflags, 11 := user_esp, 12 := ss];
            t = t\<lparr>t_regs := r, t_cr3 := cr3, t_kstack_top := kstack_top, t_active := True\<rparr>;
            t = t\<lparr>t_files := for_range 0 MAX_FD
                   (\<lambda>i f. f[i := \<lparr>fd_node = None, fd_offset = 0, fd_used = False\<rparr>]) (t_files t)\<rparr>;
            t = t\<lparr>t_sig_pending := 0, t_sig_in_handler := False,
                  t_sig_handlers := for_range 0 NSIG (\<lambda>i h. h[i := 0]) (t_sig_handlers t),
                  t_sig_saved_regs := for_range 0 13 (\<lambda>i r. r[i := 0]) (t_sig_saved_regs t)\<rparr>;
            s = s\<lparr>task_pool := (task_pool s)[n := t],
                  task_links := list_add_tail (task_links s) TaskList (TaskNode n)\<rparr>;
            s = (if n = 0 then s\<lparr>cur_task := Some n\<rparr> else s)
        in Inr (s\<lparr>ntasks := n + 1\<rparr>))"

text \<open>\<^verbatim>\<open>for (i = 0; i < 13; i++) dst[i] = src[i]\<close>\<close>

definition copy_regs :: "u32 list \<Rightarrow> u32 list \<Rightarrow> u32 list" where
  "copy_regs src dst = for_range 0 13 (\<lambda>i d. d[i := src ! i]) dst"

text \<open>The scan of the pending mask; 32 when no bit from 1 to 31 is set.\<close>

definition pending_signal :: "u32 \<Rightarrow> nat" where
  "pending_signal pending =
     (case find (\<lambda>sig. pending AND push_bit sig 1 \<noteq> 0) [1..<NSIG] of Some sig \<Rightarrow> sig | None \<Rightarrow> NSIG)"

definition deliver_signal :: "nat \<Rightarrow> u32 list \<Rightarrow> sched \<Rightarrow> mach \<Rightarrow> (u32 list \<times> sched \<times> mach) outcome" where
  "deliver_signal n ctx s c =
     (let next = task_pool s ! n in
      if t_sig_pending next \<noteq> 0 \<and> \<not> t_sig_in_handler next then
        let sig = pending_signal (t_sig_pending next) in
        if sig < NSIG \<and> t_sig_handlers next ! sig \<noteq> 0 then
          let s = update_task n (\<lambda>t. t\<lparr>t_sig_saved_regs := copy_regs ctx (t_sig_saved_regs t)\<rparr>) s;
              ctx = ctx[11 := ctx ! 11 - 4] in
          bindo (kst32 (ctx ! 11) (of_nat sig) c) (\<lambda>c.
          let ctx = ctx[11 := ctx ! 11 - 4] in
          bindo (kst32 (ctx ! 11) 0 c) (\<lambda>c.
          let ctx = ctx[8 := t_sig_handlers next ! sig];
              s = update_task n (\<lambda>t. t\<lparr>t_sig_in_handler := True,
                    t_sig_pending := t_sig_pending t AND NOT (push_bit sig 1)\<rparr>) s
          in Inr (ctx, s, c)))
        else Inr (ctx, s, c)
      else Inr (ctx, s, c))"

definition do_switch :: "u32 list \<Rightarrow> sched \<Rightarrow> mach \<Rightarrow> (u32 list \<times> sched \<times> mach) outcome" where
  "do_switch ctx s c =
     (case cur_task s of
        None \<Rightarrow> Inr (ctx, s, c)
      | Some cur \<Rightarrow>
          if ctx ! 9 AND 3 = 0 then Inr (ctx, s, c)
          else
            let s = update_task cur (\<lambda>t. t\<lparr>t_regs := copy_regs ctx (t_regs t)\<rparr>) s;
                s = update_task cur (\<lambda>t. t\<lparr>t_cr3 := mm_cr3 c\<rparr>) s;
                next_node = next_of (task_links s) (TaskNode cur);
                next_node = (if next_node = TaskList then next_of (task_links s) next_node else next_node)
            in (case next_node of
                  TaskList \<Rightarrow> Inl OutOfBounds
                | TaskNode next \<Rightarrow>
                    let s = s\<lparr>cur_task := Some next\<rparr>;
                        ctx = copy_regs (t_regs (task_pool s ! next)) ctx;
                        c = c\<lparr>mm_cr3 := t_cr3 (task_pool s ! next)\<rparr>;
                        s = s\<lparr>tss_esp0 := t_kstack_top (task_pool s ! next)\<rparr>
                    in deliver_signal next ctx s c))"

section \<open>Well-formed schedulers\<close>

definition task_ok :: "task \<Rightarrow> bool" where
  "task_ok t \<longleftrightarrow> length (t_regs t) = 13 \<and> length (t_sig_saved_regs t) = 13 \<and>
     length (t_sig_handlers t) = NSIG \<and> length (t_files t) = MAX_FD"

definition sched_inv :: "sched \<Rightarrow> bool" where
  "sched_inv s \<longleftrightarrow> length (task_pool s) = MAX_TASKS \<and> (\<forall>t \<in> set (task_pool s). task_ok t) \<and>
     ntasks s \<le> MAX_TASKS \<and> circ (task_links s) TaskList (map TaskNode [0..<ntasks s]) \<and>
     (if ntasks s = 0 then cur_task s = None
      else \<exists>c<ntasks s. cur_task s = Some c)"

lemma task_okD: "sched_inv s \<Longrightarrow> i < MAX_TASKS \<Longrightarrow> task_ok (task_pool s ! i)"
  by (simp add: sched_inv_def)

lemma update_task_fields [simp]:
  "task_links (update_task i f s) = task_links s" "ntasks (update_task i f s) = ntasks s"
  "cur_task (update_task i f s) = cur_task s" "tss_esp0 (update_task i f s) = tss_esp0 s"
  "length (task_pool (update_task i f s)) = length (task_pool s)"
  by (simp_all add: update_task_def)

lemma update_task_nth:
  "i < length (task_pool s) \<Longrightarrow>
   task_pool (update_task i f s) ! j = (if j = i then f (task_pool s ! i) else task_pool s ! j)"
  by (auto simp: update_task_def)

lemma sched_inv_update_task:
  assumes "sched_inv s" and "\<And>t. task_ok t \<Longrightarrow> task_ok (f t)"
  shows "sched_inv (update_task i f s)"
proof -
  have "\<forall>t \<in> set ((task_pool s)[i := f (task_pool s ! i)]). task_ok t"
  proof (cases "i < length (task_pool s)")
    case True
    then have "task_pool s ! i \<in> set (task_pool s)" by simp
    with assms show ?thesis by (auto simp: sched_inv_def dest!: subsetD[OF set_update_subset_insert])
  next
    case False
    then have "(task_pool s)[i := f (task_pool s ! i)] = task_pool s" by (simp add: list_update_beyond)
    with assms(1) show ?thesis by (simp add: sched_inv_def)
  qed
  with assms(1) show ?thesis by (simp add: sched_inv_def update_task_def)
qed

text \<open>The copying and clearing loops are whole-list assignments.\<close>

lemma copy_regs_eq [simp]: "length src = 13 \<Longrightarrow> length dst = 13 \<Longrightarrow> copy_regs src dst = src"
  unfolding copy_regs_def by (subst for_range_fill) (simp_all, metis map_nth)

lemma length_for_range_update [simp]: "length (for_range 0 n (\<lambda>i d. d[i := f i]) xs) = length xs"
  by (rule for_range_inv[where P = "\<lambda>_ d. length d = length xs"]) simp_all

lemma length_copy_regs [simp]: "length (copy_regs src dst) = length dst"
  by (simp add: copy_regs_def)

section \<open>Registering tasks\<close>

definition idle_fd :: fd where
  "idle_fd = \<lparr>fd_node = None, fd_offset = 0, fd_used = False\<rparr>"

text \<open>The context a new task starts from: cleared registers and the interrupt frame given.\<close>

definition fresh_regs :: "u32 \<Rightarrow> u32 \<Rightarrow> u32 \<Rightarrow> u32 \<Rightarrow> u32 \<Rightarrow> u32 list" where
  "fresh_regs eip cs eflags user_esp ss = replicate 8 0 @ [eip, cs, eflags, user_esp, ss]"

definition fresh_task :: "u32 list \<Rightarrow> u32 \<Rightarrow> u32 \<Rightarrow> task" where
  "fresh_task r cr3 kstack_top =
     \<lparr>t_regs = r, t_cr3 = cr3, t_kstack_top = kstack_top, t_active = True,
      t_files = replicate MAX_FD idle_fd, t_sig_pending = 0, t_sig_handlers = replicate NSIG 0,
      t_sig_saved_regs = replicate 13 0, t_sig_in_handler = False\<rparr>"

lemma fresh_regs_eq:
  "(replicate 13 0)[8 := eip, 9 := cs, 10 := eflags, 11 := user_esp, 12 := ss] =
   fresh_regs eip cs eflags user_esp ss"
  by (simp add: fresh_regs_def numeral_eq_Suc)

lemma sched_add_task_state:
  assumes "sched_inv s" and "ntasks s < MAX_TASKS"
  shows "sched_add_task eip cs eflags user_esp ss cr3 kstack_top s =
    Inr (s\<lparr>task_pool := (task_pool s)[ntasks s := fresh_task (fresh_regs eip cs eflags user_esp ss) cr3 kstack_top],
           task_links := list_add_tail (task_links s) TaskList (TaskNode (ntasks s)),
           cur_task := (if ntasks s = 0 then Some 0 else cur_task s),
           ntasks := ntasks s + 1\<rparr>)"
proof -
  define t0 where "t0 = task_pool s ! ntasks s"
  have "task_ok t0" using task_okD assms by (simp add: t0_def)
  then have "length (t_regs t0) = 13" "length (t_files t0) = MAX_FD"
    "length (t_sig_handlers t0) = NSIG" "length (t_sig_saved_regs t0) = 13"
    by (simp_all add: task_ok_def)
  moreover have "length (task_pool s) = MAX_TASKS" using assms(1) by (simp add: sched_inv_def)
  ultimately show ?thesis using assms(2)
    unfolding sched_add_task_def Let_def t0_def[symmetric]
    by (cases t0; cases "ntasks s = 0") (simp_all add: fill_const fresh_regs_eq fresh_task_def idle_fd_def)
qed

lemma task_ok_fresh: "length r = 13 \<Longrightarrow> task_ok (fresh_task r cr3 kstack_top)"
  by (simp add: task_ok_def fresh_task_def)

lemma length_fresh_regs [simp]: "length (fresh_regs eip cs eflags user_esp ss) = 13"
  by (simp add: fresh_regs_def)

lemma sched_add_task_inv:
  assumes "sched_inv s" and "ntasks s < MAX_TASKS"
  shows "\<exists>s'. sched_add_task eip cs eflags user_esp ss cr3 kstack_top s = Inr s' \<and> sched_inv s' \<and>
    ntasks s' = ntasks s + 1"
proof -
  have "circ (list_add_tail (task_links s) TaskList (TaskNode (ntasks s))) TaskList
      (map TaskNode [0..<ntasks s] @ [TaskNode (ntasks s)])"
    using assms(1) by (intro circ_add_tail) (auto simp: sched_inv_def)
  moreover have "\<forall>t \<in> set ((task_pool s)[ntasks s := fresh_task (fresh_regs eip cs eflags user_esp ss) cr3 kstack_top]). task_ok t"
    using assms(1) task_ok_fresh[OF length_fresh_regs]
    by (auto simp: sched_inv_def dest!: subsetD[OF set_update_subset_insert])
  ultimately show ?thesis
    using assms by (auto simp: sched_add_task_state sched_inv_def)
qed

lemma registers_task:
  assumes "sched_inv s" and "ntasks s < MAX_TASKS"
  shows "\<exists>s'. sched_add_task eip cs eflags user_esp ss cr3 kstack_top s = Inr s' \<and> sched_inv s' \<and>
      ntasks s' = ntasks s + 1 \<and>
      task_pool s' ! ntasks s = fresh_task (fresh_regs eip cs eflags user_esp ss) cr3 kstack_top \<and>
      (\<forall>i<ntasks s. task_pool s' ! i = task_pool s ! i) \<and>
      cur_task s' = (if ntasks s = 0 then Some 0 else cur_task s)"
proof -
  have "length (task_pool s) = MAX_TASKS" using assms(1) by (simp add: sched_inv_def)
  then show ?thesis using sched_add_task_inv[OF assms, of eip cs eflags user_esp ss cr3 kstack_top] assms(2)
      sched_add_task_state[OF assms, of eip cs eflags user_esp ss cr3 kstack_top] by auto
qed

section \<open>Switching\<close>

definition succ_task :: "sched \<Rightarrow> nat \<Rightarrow> nat" where
  "succ_task s c = Suc c mod ntasks s"

definition from_user :: "u32 list \<Rightarrow> bool" where
  "from_user ctx \<longleftrightarrow> length ctx = 13 \<and> ctx ! 9 AND 3 \<noteq> 0"

definition save_task :: "nat \<Rightarrow> u32 list \<Rightarrow> u32 \<Rightarrow> sched \<Rightarrow> sched" where
  "save_task i ctx cr3 s = update_task i (\<lambda>t. t\<lparr>t_regs := ctx, t_cr3 := cr3\<rparr>) s"

definition run_task :: "nat \<Rightarrow> sched \<Rightarrow> sched" where
  "run_task i s = s\<lparr>cur_task := Some i, tss_esp0 := t_kstack_top (task_pool s ! i)\<rparr>"

lemma sched_cur: "sched_inv s \<Longrightarrow> cur_task s = Some c \<Longrightarrow> c < ntasks s \<and> ntasks s \<le> MAX_TASKS \<and> length (task_pool s) = MAX_TASKS"
  by (auto simp: sched_inv_def split: if_splits)

lemma succ_task_lt: "sched_inv s \<Longrightarrow> cur_task s = Some c \<Longrightarrow> succ_task s c < ntasks s"
  by (frule (1) sched_cur) (simp add: succ_task_def)

text \<open>The successor in the circular list, over the sentinel.\<close>

lemma list_successor:
  assumes "sched_inv s" and "cur_task s = Some c"
  shows "(if next_of (task_links s) (TaskNode c) = TaskList
          then next_of (task_links s) (next_of (task_links s) (TaskNode c))
          else next_of (task_links s) (TaskNode c)) = TaskNode (succ_task s c)"
proof -
  have c: "c < ntasks s" using sched_cur[OF assms] by simp
  then have nth: "map TaskNode [0..<ntasks s] ! c = TaskNode c" by simp
  have "circ (task_links s) TaskList (map TaskNode [0..<ntasks s])" using assms(1) by (simp add: sched_inv_def)
  from lh.step_skipping_sentinel[OF this, of c, unfolded nth] c
  have "(if next_of (task_links s) (TaskNode c) = TaskList
      then next_of (task_links s) TaskList else next_of (task_links s) (TaskNode c)) = TaskNode (succ_task s c)"
    using succ_task_lt[OF assms] by (simp add: succ_task_def)
  then show ?thesis by (simp cong: if_cong)
qed

lemma sched_inv_save: "sched_inv s \<Longrightarrow> length ctx = 13 \<Longrightarrow> sched_inv (save_task i ctx cr3 s)"
  unfolding save_task_def by (rule sched_inv_update_task) (simp_all add: task_ok_def)

lemma sched_inv_run: "sched_inv s \<Longrightarrow> i < ntasks s \<Longrightarrow> sched_inv (run_task i s)"
  by (auto simp: sched_inv_def run_task_def)

lemma do_switch_user:
  fixes m :: mach
  assumes "sched_inv s" and "cur_task s = Some c" and "from_user ctx"
  defines "n \<equiv> succ_task s c" and "s1 \<equiv> save_task c ctx (mm_cr3 m) s"
  shows "do_switch ctx s m =
    deliver_signal n (t_regs (task_pool s1 ! n)) (run_task n s1) (m\<lparr>mm_cr3 := t_cr3 (task_pool s1 ! n)\<rparr>)"
proof -
  have c: "c < MAX_TASKS" "length (task_pool s) = MAX_TASKS" using sched_cur[OF assms(1,2)] by simp_all
  have n: "n < MAX_TASKS" using succ_task_lt[OF assms(1,2)] sched_cur[OF assms(1,2)] by (simp add: n_def)
  have len: "length ctx = 13" using assms(3) by (simp add: from_user_def)
  have "length (t_regs (task_pool s ! c)) = 13" using task_okD[OF assms(1) c(1)] by (simp add: task_ok_def)
  then have s1: "update_task c (\<lambda>t. t\<lparr>t_cr3 := mm_cr3 m\<rparr>)
      (update_task c (\<lambda>t. t\<lparr>t_regs := copy_regs ctx (t_regs t)\<rparr>) s) = s1"
    using c len by (simp add: s1_def save_task_def update_task_def)
  have "sched_inv s1" unfolding s1_def using assms(1) len by (rule sched_inv_save)
  then have "length (t_regs (task_pool s1 ! n)) = 13" using task_okD[OF _ n] by (simp add: task_ok_def)
  moreover have "task_links s1 = task_links s" by (simp add: s1_def save_task_def)
  ultimately have cp: "copy_regs (t_regs (task_pool s1 ! n)) ctx = t_regs (task_pool s1 ! n)"
    and nn: "(if next_of (task_links s1) (TaskNode c) = TaskList
      then next_of (task_links s1) (next_of (task_links s1) (TaskNode c))
      else next_of (task_links s1) (TaskNode c)) = TaskNode n"
    using len list_successor[OF assms(1,2)] by (simp_all only: copy_regs_eq n_def)
  have u: "(ctx ! 9 AND 3 = 0) = False" using assms(3) by (simp add: from_user_def)
  show ?thesis
    unfolding do_switch_def assms(2) option.case u if_False Let_def s1 nn lnode.case
    by (simp add: cp run_task_def)
qed

section \<open>Signals\<close>

lemma and_single_bit: "(p :: u32) AND push_bit sig 1 \<noteq> 0 \<longleftrightarrow> bit p sig"
  by (simp only: bit_iff_and_push_bit_not_eq_0)

lemma and_single_power [simp]: "(p :: u32) AND 2 ^ sig = 0 \<longleftrightarrow> \<not> bit p sig"
  using and_single_bit[of p sig] unfolding push_bit_of_1 by blast

lemma pending_signal_lowest:
  "pending_signal p < 32 \<longleftrightarrow> (\<exists>i\<ge>1. i < 32 \<and> bit p i)"
  "pending_signal p < 32 \<Longrightarrow>
   1 \<le> pending_signal p \<and> bit p (pending_signal p) \<and> (\<forall>j. 1 \<le> j \<longrightarrow> j < pending_signal p \<longrightarrow> \<not> bit p j)"
proof -
  let ?P = "\<lambda>sig. p AND push_bit sig 1 \<noteq> 0"
  show "pending_signal p < 32 \<longleftrightarrow> (\<exists>i\<ge>1. i < 32 \<and> bit p i)"
  proof (cases "find ?P [1..<32]")
    case None
    then have "\<not> bit p i" if "1 \<le> i" "i < 32" for i
      using that by (auto simp: find_None_iff and_single_bit)
    with None show ?thesis by (auto simp: pending_signal_def)
  next
    case (Some sig)
    then have "sig \<in> set [1..<32]" "?P sig" by (auto simp: find_Some_iff in_set_conv_nth)
    with Some show ?thesis by (auto simp: pending_signal_def and_single_bit)
  qed
  assume lt: "pending_signal p < 32"
  then obtain sig where sig: "find ?P [1..<32] = Some sig" "pending_signal p = sig"
    by (auto simp: pending_signal_def split: option.splits)
  from sig(1) obtain i where i: "i < 31" "sig = Suc i" "bit p sig" "\<forall>j<i. \<not> bit p (Suc j)"
    unfolding find_Some_iff and_single_bit by auto
  have "\<not> bit p j" if "1 \<le> j" "j < sig" for j
    using i(4)[rule_format, of "j - 1"] that i(1,2) by simp
  with i sig(2) show "1 \<le> pending_signal p \<and> bit p (pending_signal p) \<and>
      (\<forall>j. 1 \<le> j \<longrightarrow> j < pending_signal p \<longrightarrow> \<not> bit p j)"
    by simp
qed

definition deliverable :: "task \<Rightarrow> bool" where
  "deliverable t \<longleftrightarrow> t_sig_pending t \<noteq> 0 \<and> \<not> t_sig_in_handler t \<and>
     pending_signal (t_sig_pending t) < NSIG \<and> t_sig_handlers t ! pending_signal (t_sig_pending t) \<noteq> 0"

text \<open>The user context at the entry of a handler, and the task that has entered it.\<close>

definition handler_ctx :: "u32 \<Rightarrow> u32 list \<Rightarrow> u32 list" where
  "handler_ctx handler ctx = ctx[11 := ctx ! 11 - 8, 8 := handler]"

definition enter_handler :: "nat \<Rightarrow> u32 list \<Rightarrow> task \<Rightarrow> task" where
  "enter_handler sig ctx t = t\<lparr>t_sig_saved_regs := ctx, t_sig_in_handler := True,
     t_sig_pending := t_sig_pending t AND NOT (push_bit sig 1)\<rparr>"

lemma deliver_signal_none: "\<not> deliverable (task_pool s ! n) \<Longrightarrow> deliver_signal n ctx s c = Inr (ctx, s, c)"
  by (auto simp: deliver_signal_def deliverable_def Let_def)

lemma update_task_twice: "update_task i f (update_task i g s) = update_task i (\<lambda>t. f (g t)) s"
  by (cases "i < length (task_pool s)") (simp_all add: update_task_def list_update_beyond)

lemma deliver_signal_some:
  assumes "deliverable (task_pool s ! n)" and "length ctx = 13" and "length (t_sig_saved_regs (task_pool s ! n)) = 13"
  defines "sig \<equiv> pending_signal (t_sig_pending (task_pool s ! n))"
  shows "deliver_signal n ctx s c =
    bindo (kst32 (ctx ! 11 - 4) (of_nat sig) c) (\<lambda>c.
    bindo (kst32 (ctx ! 11 - 8) 0 c) (\<lambda>c.
    Inr (handler_ctx (t_sig_handlers (task_pool s ! n) ! sig) ctx,
         update_task n (enter_handler sig ctx) s, c)))"
proof -
  let ?t = "task_pool s ! n"
  have d: "t_sig_pending ?t \<noteq> 0 \<and> \<not> t_sig_in_handler ?t" "sig < NSIG \<and> t_sig_handlers ?t ! sig \<noteq> 0"
    using assms(1) by (simp_all add: deliverable_def sig_def)
  have u: "update_task n (\<lambda>t. t\<lparr>t_sig_in_handler := True, t_sig_pending := t_sig_pending t AND NOT (push_bit sig 1)\<rparr>)
      (update_task n (\<lambda>t. t\<lparr>t_sig_saved_regs := copy_regs ctx (t_sig_saved_regs t)\<rparr>) s) =
    update_task n (enter_handler sig ctx) s"
    using assms(2,3) by (simp only: update_task_twice) (simp add: update_task_def enter_handler_def)
  have e: "ctx[11 := ctx ! 11 - 4] ! 11 = ctx ! 11 - 4"
    "(ctx[11 := ctx ! 11 - 4])[11 := ctx[11 := ctx ! 11 - 4] ! 11 - 4] = ctx[11 := ctx ! 11 - 8]"
    using assms(2) by simp_all
  show ?thesis
    unfolding deliver_signal_def Let_def sig_def[symmetric] if_P[OF d(1)] if_P[OF d(2)] u e
    using assms(2) by (simp add: handler_ctx_def)
qed

lemma task_ok_enter [simp]: "task_ok t \<Longrightarrow> length ctx = 13 \<Longrightarrow> task_ok (enter_handler sig ctx t)"
  by (simp add: task_ok_def enter_handler_def)

text \<open>What a switch leaves in the CPU: the context saved for the current task, or its handler's.\<close>

definition resumed :: "u32 list \<Rightarrow> sched \<Rightarrow> mach \<Rightarrow> nat \<Rightarrow> bool" where
  "resumed ctx s m i \<longleftrightarrow> mm_cr3 m = t_cr3 (task_pool s ! i) \<and>
     (ctx = t_regs (task_pool s ! i) \<or>
      t_sig_in_handler (task_pool s ! i) \<and> t_sig_saved_regs (task_pool s ! i) = t_regs (task_pool s ! i))"

definition same_contexts :: "sched \<Rightarrow> sched \<Rightarrow> bool" where
  "same_contexts s s' \<longleftrightarrow> task_links s' = task_links s \<and> ntasks s' = ntasks s \<and> cur_task s' = cur_task s \<and>
     (\<forall>i. t_regs (task_pool s' ! i) = t_regs (task_pool s ! i) \<and> t_cr3 (task_pool s' ! i) = t_cr3 (task_pool s ! i))"

lemma same_contexts_refl [simp]: "same_contexts s s"
  by (simp add: same_contexts_def)

lemma same_contexts_trans: "same_contexts s t \<Longrightarrow> same_contexts t u \<Longrightarrow> same_contexts s u"
  by (simp add: same_contexts_def)

lemma nth_list_update_cases: "xs[i := x] ! j = (if i = j \<and> j < length xs then x else xs ! j)"
  by (cases "i < length xs") (auto simp: nth_list_update list_update_beyond)

lemma same_contexts_update:
  "(\<And>t. t_regs (f t) = t_regs t \<and> t_cr3 (f t) = t_cr3 t) \<Longrightarrow> same_contexts s (update_task i f s)"
  by (auto simp: same_contexts_def update_task_def nth_list_update_cases)

lemma deliver_signal_result:
  assumes "sched_inv s" and "n < MAX_TASKS"
    and "deliver_signal n (t_regs (task_pool s ! n)) s c = Inr (ctx', s', c')"
  shows "sched_inv s' \<and> same_contexts s s' \<and> length ctx' = 13 \<and>
    (mm_cr3 c = t_cr3 (task_pool s ! n) \<longrightarrow> resumed ctx' s' c' n)"
proof (cases "deliverable (task_pool s ! n)")
  case False
  with assms task_okD[OF assms(1,2)] show ?thesis by (auto simp: deliver_signal_none resumed_def task_ok_def)
next
  case True
  have ok: "length (t_regs (task_pool s ! n)) = 13" "length (t_sig_saved_regs (task_pool s ! n)) = 13"
    "length (task_pool s) = MAX_TASKS"
    using task_okD[OF assms(1,2)] assms(1) by (simp_all add: task_ok_def sched_inv_def)
  define sig where "sig = pending_signal (t_sig_pending (task_pool s ! n))"
  obtain c1 where "kst32 (t_regs (task_pool s ! n) ! 11 - 4) (of_nat sig) c = Inr c1"
    "kst32 (t_regs (task_pool s ! n) ! 11 - 8) 0 c1 = Inr c'"
    and r: "s' = update_task n (enter_handler sig (t_regs (task_pool s ! n))) s" "length ctx' = 13"
    using assms(3) ok unfolding deliver_signal_some[OF True ok(1,2)] sig_def by (auto simp: handler_ctx_def)
  then have "mm_cr3 c' = mm_cr3 c" by (auto dest!: kst32_regs)
  then have "mm_cr3 c = t_cr3 (task_pool s ! n) \<longrightarrow> resumed ctx' s' c' n"
    using assms(2) ok(3) by (simp add: r resumed_def update_task_nth enter_handler_def)
  moreover have "sched_inv s'" unfolding r using assms(1) ok(1) by (intro sched_inv_update_task) simp_all
  moreover have "same_contexts s s'" unfolding r by (rule same_contexts_update) (simp add: enter_handler_def)
  ultimately show ?thesis using r(2) by blast
qed

section \<open>Runs of the timer\<close>

lemma save_task_nth:
  assumes "sched_inv s" and "cur_task s = Some c"
  shows "task_pool (save_task c ctx cr3 s) ! i =
    (if i = c then (task_pool s ! c)\<lparr>t_regs := ctx, t_cr3 := cr3\<rparr> else task_pool s ! i)"
  using sched_cur[OF assms] by (simp add: save_task_def update_task_nth)

lemma do_switch_result:
  assumes "sched_inv s" and "cur_task s = Some c" and "from_user ctx"
    and "do_switch ctx s m = Inr (ctx', s', m')"
  shows "sched_inv s'" "cur_task s' = Some (succ_task s c)" "ntasks s' = ntasks s"
    "resumed ctx' s' m' (succ_task s c)"
    "t_regs (task_pool s' ! i) = (if i = c then ctx else t_regs (task_pool s ! i))"
    "t_cr3 (task_pool s' ! i) = (if i = c then mm_cr3 m else t_cr3 (task_pool s ! i))"
proof -
  define n s1 where "n = succ_task s c" and "s1 = save_task c ctx (mm_cr3 m) s"
  have n: "n < ntasks s" "ntasks s \<le> MAX_TASKS"
    using succ_task_lt[OF assms(1,2)] sched_cur[OF assms(1,2)] by (simp_all add: n_def)
  have i1: "sched_inv s1"
    unfolding s1_def using assms(1,3) by (intro sched_inv_save) (simp_all add: from_user_def)
  have nt: "ntasks s1 = ntasks s" by (simp add: s1_def save_task_def)
  have pool: "task_pool (run_task n s1) = task_pool s1" by (simp add: run_task_def)
  have ir: "sched_inv (run_task n s1)" using i1 n nt by (intro sched_inv_run) simp_all
  have ds: "deliver_signal n (t_regs (task_pool (run_task n s1) ! n)) (run_task n s1)
      (m\<lparr>mm_cr3 := t_cr3 (task_pool s1 ! n)\<rparr>) = Inr (ctx', s', m')"
    using assms(4) unfolding pool unfolding do_switch_user[OF assms(1-3)] n_def s1_def .
  have r: "sched_inv s'" "same_contexts (run_task n s1) s'" "resumed ctx' s' m' n"
    using deliver_signal_result[OF ir _ ds] n by (simp_all add: pool)
  show "sched_inv s'" by (rule r(1))
  show "cur_task s' = Some (succ_task s c)" "ntasks s' = ntasks s" "resumed ctx' s' m' (succ_task s c)"
    using r(2,3) nt by (simp_all add: same_contexts_def run_task_def n_def)
  show "t_regs (task_pool s' ! i) = (if i = c then ctx else t_regs (task_pool s ! i))"
    "t_cr3 (task_pool s' ! i) = (if i = c then mm_cr3 m else t_cr3 (task_pool s ! i))"
    using r(2)[unfolded same_contexts_def pool] by (simp_all add: s1_def save_task_nth[OF assms(1,2)])
qed

text \<open>
  \<open>k\<close> timer ticks that find the CPU in ring 3. Between two ticks the running program changes its
  registers and memory at will, and the kernel does any work that leaves the saved contexts and
  the list alone.
\<close>

type_synonym cpu = "u32 list \<times> sched \<times> mach"

inductive ticks :: "nat \<Rightarrow> cpu \<Rightarrow> cpu \<Rightarrow> bool" where
  start: "ticks 0 \<sigma> \<sigma>"
| tick: "ticks k \<sigma> (ctx, s, m) \<Longrightarrow> same_contexts s s1 \<Longrightarrow> sched_inv s1 \<Longrightarrow>
    from_user ctx1 \<Longrightarrow> mm_cr3 m1 = mm_cr3 m \<Longrightarrow> do_switch ctx1 s1 m1 = Inr (ctx2, s2, m2) \<Longrightarrow>
    ticks (Suc k) \<sigma> (ctx2, s2, m2)"

inductive_cases ticks_0: "ticks 0 \<sigma> \<tau>"
inductive_cases ticks_Suc: "ticks (Suc k) \<sigma> \<tau>"

lemma ticks_current:
  assumes "ticks k (ctx, s, m) (ctx', s', m')" and "sched_inv s" and "cur_task s = Some c"
  shows "sched_inv s' \<and> ntasks s' = ntasks s \<and> cur_task s' = Some ((c + k) mod ntasks s)"
  using assms
proof (induction k "(ctx, s, m)" "(ctx', s', m')" arbitrary: ctx' s' m' rule: ticks.induct)
  case start
  then show ?case using sched_cur by simp
next
  case (tick k ctx0 s0 m0 s1 ctx1 m1 ctx2 s2 m2)
  then have IH: "sched_inv s0" "ntasks s0 = ntasks s" "cur_task s0 = Some ((c + k) mod ntasks s)" by blast+
  with tick.hyps have s1: "cur_task s1 = Some ((c + k) mod ntasks s)" "ntasks s1 = ntasks s"
    by (simp_all add: same_contexts_def)
  have "succ_task s1 ((c + k) mod ntasks s) = (c + Suc k) mod ntasks s"
    by (simp add: succ_task_def s1 mod_Suc_eq)
  with do_switch_result(1-3)[OF _ s1(1)] tick.hyps s1 show ?case by simp
qed

text \<open>While other tasks run, the context of a preempted task stays in its slot.\<close>

lemma ticks_keep_context:
  assumes "ticks k (ctx, s, m) (ctx', s', m')" and "sched_inv s" and "cur_task s = Some (Suc c mod ntasks s)"
    and "c < ntasks s" and "k < ntasks s"
  shows "t_regs (task_pool s' ! c) = t_regs (task_pool s ! c) \<and> t_cr3 (task_pool s' ! c) = t_cr3 (task_pool s ! c)"
  using assms
proof (induction k "(ctx, s, m)" "(ctx', s', m')" arbitrary: ctx' s' m' rule: ticks.induct)
  case (tick k ctx0 s0 m0 s1 ctx1 m1 ctx2 s2 m2)
  then have IH: "t_regs (task_pool s0 ! c) = t_regs (task_pool s ! c)" "t_cr3 (task_pool s0 ! c) = t_cr3 (task_pool s ! c)"
    by simp_all
  have cur: "cur_task s0 = Some ((Suc c mod ntasks s + k) mod ntasks s)"
    using ticks_current[OF tick.hyps(1) tick.prems(1,2)] by simp
  have "(Suc c mod ntasks s + k) mod ntasks s = (Suc c + k) mod ntasks s" by (simp add: mod_add_left_eq)
  also have "\<dots> \<noteq> c"
  proof (cases "Suc c + k < ntasks s")
    case False
    with tick.prems(3,4) have "(Suc c + k) mod ntasks s = Suc c + k - ntasks s"
      by (simp add: mod_if)
    with False tick.prems(4) show ?thesis by linarith
  qed simp
  finally have ne: "c \<noteq> (Suc c mod ntasks s + k) mod ntasks s" by simp
  have s1: "cur_task s1 = Some ((Suc c mod ntasks s + k) mod ntasks s)"
    "t_regs (task_pool s1 ! c) = t_regs (task_pool s0 ! c)" "t_cr3 (task_pool s1 ! c) = t_cr3 (task_pool s0 ! c)"
    using tick.hyps(3) cur by (simp_all add: same_contexts_def)
  show ?case
    using do_switch_result(5,6)[OF tick.hyps(4) s1(1) tick.hyps(5,7), of c] ne s1 IH by simp
qed simp

lemma ticks_resumed:
  assumes "ticks (Suc k) (ctx, s, m) (ctx', s', m')" and "sched_inv s" and "cur_task s = Some c"
  shows "resumed ctx' s' m' ((c + Suc k) mod ntasks s)"
  using assms(1)
proof (rule ticks_Suc)
  fix ctx0 s0 m0 s1 ctx1 m1 ctx2 s2 m2
  assume \<tau>: "(ctx', s', m') = (ctx2, s2, m2)" and run: "ticks k (ctx, s, m) (ctx0, s0, m0)"
    and h: "same_contexts s0 s1" "sched_inv s1" "from_user ctx1" "do_switch ctx1 s1 m1 = Inr (ctx2, s2, m2)"
  have s1: "cur_task s1 = Some ((c + k) mod ntasks s)" "ntasks s1 = ntasks s"
    using ticks_current[OF run assms(2,3)] h(1) by (simp_all add: same_contexts_def)
  have "succ_task s1 ((c + k) mod ntasks s) = (c + Suc k) mod ntasks s"
    by (simp add: succ_task_def s1 mod_Suc_eq)
  with do_switch_result(4)[OF h(2) s1(1) h(3,4)] \<tau> show ?thesis by simp
qed

section \<open>Properties\<close>

text \<open>A machine with \<open>n\<close> registered tasks, for concrete instances.\<close>

definition blank_task :: task where
  "blank_task = fresh_task (replicate 13 0) 0 0"

definition blank_sched :: sched where
  "blank_sched = \<lparr>task_links = list_init \<lparr>next_of = (\<lambda>_. TaskList), prev_of = (\<lambda>_. TaskList)\<rparr> TaskList,
     task_pool = replicate MAX_TASKS blank_task, ntasks = 0, cur_task = None, tss_esp0 = 0\<rparr>"

lemma blank_sched_inv: "sched_inv blank_sched" and blank_sched_fields [simp]: "ntasks blank_sched = 0" "cur_task blank_sched = None"
  by (simp_all add: sched_inv_def blank_sched_def circ_init blank_task_def task_ok_fresh)

definition two_tasks :: sched where
  "two_tasks = projr (bindo (sched_add_task 0x40000000 0x23 0x202 0x40001FF0 0x33 0x205000 0x321000 blank_sched)
     (sched_add_task 0x40000000 0x23 0x202 0x40001FF0 0x33 0x207000 0x323000))"

lemma two_tasks_state:
  "sched_inv two_tasks" "ntasks two_tasks = 2" "cur_task two_tasks = Some 0"
  "task_pool two_tasks ! 0 = fresh_task (fresh_regs 0x40000000 0x23 0x202 0x40001FF0 0x33) 0x205000 0x321000"
  "task_pool two_tasks ! 1 = fresh_task (fresh_regs 0x40000000 0x23 0x202 0x40001FF0 0x33) 0x207000 0x323000"
proof -
  have lt: "ntasks blank_sched < MAX_TASKS" by simp
  obtain s1 where s1: "sched_add_task 0x40000000 0x23 0x202 0x40001FF0 0x33 0x205000 0x321000 blank_sched = Inr s1"
    "sched_inv s1" "ntasks s1 = 1"
    using sched_add_task_inv[OF blank_sched_inv lt] by force
  have l8: "length (task_pool s1) = 8" using s1(2) by (simp add: sched_inv_def)
  have p1: "cur_task s1 = Some 0"
    "task_pool s1 ! 0 = fresh_task (fresh_regs 0x40000000 0x23 0x202 0x40001FF0 0x33) 0x205000 0x321000"
    using s1(1) unfolding sched_add_task_state[OF blank_sched_inv lt] by (auto simp: blank_sched_def)
  have lt1: "ntasks s1 < MAX_TASKS" using s1 by simp
  obtain s2 where s2: "sched_add_task 0x40000000 0x23 0x202 0x40001FF0 0x33 0x207000 0x323000 s1 = Inr s2"
    "sched_inv s2" "ntasks s2 = 2"
    using sched_add_task_inv[OF s1(2) lt1] s1(3) by force
  have p2: "cur_task s2 = Some 0" "task_pool s2 ! 0 = task_pool s1 ! 0"
    "task_pool s2 ! 1 = fresh_task (fresh_regs 0x40000000 0x23 0x202 0x40001FF0 0x33) 0x207000 0x323000"
    using s2(1) s1(3) p1(1) l8 unfolding sched_add_task_state[OF s1(2) lt1] by auto
  have "two_tasks = s2" by (simp add: two_tasks_def s1(1) s2(1))
  with s2 p1 p2
  show "sched_inv two_tasks" "ntasks two_tasks = 2" "cur_task two_tasks = Some 0"
    "task_pool two_tasks ! 0 = fresh_task (fresh_regs 0x40000000 0x23 0x202 0x40001FF0 0x33) 0x205000 0x321000"
    "task_pool two_tasks ! 1 = fresh_task (fresh_regs 0x40000000 0x23 0x202 0x40001FF0 0x33) 0x207000 0x323000"
    by simp_all
qed

definition user_ctx :: "u32 list" where
  "user_ctx = fresh_regs 0x40000010 0x23 0x202 0x40001F00 0x33"

lemma user_ctx_user: "from_user user_ctx"
  by (simp add: from_user_def user_ctx_def fresh_regs_def nth_append)

definition task_machine :: mach where
  "task_machine = \<lparr>mm_mem = (\<lambda>_. 0), mm_cr3 = 0x205000, mm_cr0 = 0x80000011\<rparr>"

definition switched :: "sched" where
  "switched = run_task 1 (save_task 0 user_ctx 0x205000 two_tasks)"

lemma two_tasks_switch:
  "do_switch user_ctx two_tasks task_machine =
     Inr (fresh_regs 0x40000000 0x23 0x202 0x40001FF0 0x33, switched, task_machine\<lparr>mm_cr3 := 0x207000\<rparr>)"
proof -
  have n: "succ_task two_tasks 0 = 1" by (simp add: succ_task_def two_tasks_state)
  have t: "task_pool (save_task 0 user_ctx 0x205000 two_tasks) ! 1 =
      fresh_task (fresh_regs 0x40000000 0x23 0x202 0x40001FF0 0x33) 0x207000 0x323000"
    by (simp add: save_task_nth[OF two_tasks_state(1,3)] two_tasks_state(5)[simplified])
  then have "\<not> deliverable (task_pool (run_task 1 (save_task 0 user_ctx 0x205000 two_tasks)) ! 1)"
    by (simp add: run_task_def deliverable_def fresh_task_def)
  then show ?thesis
    unfolding do_switch_user[OF two_tasks_state(1,3) user_ctx_user] n
    using t by (simp add: deliver_signal_none switched_def fresh_task_def task_machine_def)
qed

lemma two_tasks_tick: "ticks 1 (user_ctx, two_tasks, task_machine)
    (fresh_regs 0x40000000 0x23 0x202 0x40001FF0 0x33, switched, task_machine\<lparr>mm_cr3 := 0x207000\<rparr>)"
  using ticks.tick[OF ticks.start same_contexts_refl two_tasks_state(1) user_ctx_user refl two_tasks_switch]
  by simp

text \<open>Registering a task while the pool has room appends it to the circular list with exactly the
  given start context, no open files and no signals, leaves the other tasks alone and makes the
  first one current; with eight tasks registered the code indexes past \<^verbatim>\<open>task_pool\<close>.\<close>

theorem sched_add_task_registers:
  assumes "sched_inv s"
  shows "if ntasks s < MAX_TASKS
    then \<exists>s'. sched_add_task eip cs eflags user_esp ss cr3 kstack_top s = Inr s' \<and> sched_inv s' \<and>
      ntasks s' = ntasks s + 1 \<and>
      task_pool s' ! ntasks s = fresh_task (fresh_regs eip cs eflags user_esp ss) cr3 kstack_top \<and>
      (\<forall>i<ntasks s. task_pool s' ! i = task_pool s ! i) \<and>
      cur_task s' = (if ntasks s = 0 then Some 0 else cur_task s)
    else sched_add_task eip cs eflags user_esp ss cr3 kstack_top s = Inl OutOfBounds"
proof (cases "ntasks s < MAX_TASKS")
  case True
  with registers_task[OF assms True] show ?thesis by simp
next
  case False
  with assms show ?thesis by (simp add: sched_inv_def sched_add_task_def)
qed

theorem sched_add_task_registers_witness:
  "\<exists>s'. sched_add_task 1 0x23 0x202 2 0x33 3 4 two_tasks = Inr s' \<and> ntasks s' = 3 \<and> cur_task s' = Some 0"
  using sched_add_task_registers[of two_tasks 1 "0x23" "0x202" 2 "0x33" 3 4] two_tasks_state(1,2,3) by auto

text \<open>C3: Round robin. Whatever the programs do between the ticks, after \<open>k\<close> timer ticks in ring 3 the
  current task is the one \<open>k\<close> places further round the list, and the scheduler is still
  well-formed; so each of the \<open>n\<close> registered tasks is reached within \<open>n\<close> ticks.\<close>

theorem do_switch_round_robin:
  assumes "sched_inv s" and "cur_task s = Some c" and "ticks k (ctx, s, m) (ctx', s', m')"
  shows "cur_task s' = Some ((c + k) mod ntasks s) \<and> sched_inv s' \<and>
    (\<forall>i<ntasks s. \<exists>j<ntasks s. (c + j) mod ntasks s = i)"
proof -
  have c: "c < ntasks s" using sched_cur[OF assms(1,2)] by simp
  have "\<exists>j<ntasks s. (c + j) mod ntasks s = i" if "i < ntasks s" for i
    using that c by (intro exI[of _ "(i + (ntasks s - c)) mod ntasks s"]) (simp add: mod_add_right_eq)
  with ticks_current[OF assms(3,1,2)] show ?thesis by blast
qed

theorem do_switch_round_robin_witness:
  "\<exists>ctx s m. do_switch user_ctx two_tasks task_machine = Inr (ctx, s, m) \<and>
     ticks 1 (user_ctx, two_tasks, task_machine) (ctx, s, m) \<and> cur_task two_tasks = Some 0 \<and> cur_task s = Some 1"
proof -
  have "cur_task switched = Some 1"
    using do_switch_round_robin[OF two_tasks_state(1,3) two_tasks_tick] by (simp add: two_tasks_state)
  then show ?thesis using two_tasks_switch two_tasks_tick two_tasks_state(3) by blast
qed

text \<open>C2: Context switching is transparent: a task preempted with context \<open>ctx\<close> and CR3 \<open>cr3\<close> gets both
  back, unchanged, when its turn comes after a full round, or, when a signal is delivered to it at that
  moment, its handler runs first and \<open>ctx\<close> is what is kept for \<^verbatim>\<open>sigreturn\<close>.\<close>

theorem do_switch_context_survives:
  assumes "sched_inv s" and "cur_task s = Some c" and "from_user ctx"
    and "do_switch ctx s m = Inr (ctx1, s1, m1)"
    and "ticks (ntasks s - 1) (ctx1, s1, m1) (ctx2, s2, m2)"
  shows "cur_task s2 = Some c \<and> mm_cr3 m2 = mm_cr3 m \<and>
    (ctx2 = ctx \<or> t_sig_in_handler (task_pool s2 ! c) \<and> t_sig_saved_regs (task_pool s2 ! c) = ctx)"
proof -
  note r = do_switch_result[OF assms(1-4)]
  have c: "c < ntasks s" using sched_cur[OF assms(1,2)] by simp
  have cur1: "cur_task s1 = Some (Suc c mod ntasks s1)" using r(2,3) by (simp add: succ_task_def)
  have round: "(Suc c mod ntasks s1 + (ntasks s - 1)) mod ntasks s1 = c"
  proof -
    have "Suc c + (ntasks s - 1) = c + ntasks s" using c by simp
    then have "(Suc c mod ntasks s + (ntasks s - 1)) mod ntasks s = (c + ntasks s) mod ntasks s"
      by (simp only: mod_add_left_eq)
    with c r(3) show ?thesis by simp
  qed
  have cur: "cur_task s2 = Some c" using ticks_current[OF assms(5) r(1) cur1] round by simp
  have keep: "t_regs (task_pool s2 ! c) = ctx" "t_cr3 (task_pool s2 ! c) = mm_cr3 m"
    using ticks_keep_context[OF assms(5) r(1) cur1] c r(3) r(5,6)[of c] by simp_all
  have "resumed ctx2 s2 m2 c"
  proof (cases "ntasks s - 1")
    case 0
    then have "(ctx2, s2, m2) = (ctx1, s1, m1)" using assms(5) by (auto elim: ticks_0)
    moreover have "ntasks s = 1" "c = 0" using 0 c by linarith+
    then have "succ_task s c = c" by (simp add: succ_task_def)
    ultimately show ?thesis using r(4) by simp
  next
    case (Suc k)
    have "resumed ctx2 s2 m2 ((Suc c mod ntasks s1 + Suc k) mod ntasks s1)"
      using assms(5) unfolding Suc by (rule ticks_resumed[OF _ r(1) cur1])
    then show ?thesis using round by (simp only: Suc)
  qed
  with cur keep show ?thesis by (auto simp: resumed_def)
qed

lemma switched_state:
  "sched_inv switched" "ntasks switched = 2" "cur_task switched = Some 1"
  "task_pool switched ! 0 = (fresh_task (fresh_regs 0x40000000 0x23 0x202 0x40001FF0 0x33) 0x205000 0x321000)
     \<lparr>t_regs := user_ctx, t_cr3 := 0x205000\<rparr>"
proof -
  have len: "length user_ctx = 13" using user_ctx_user by (simp add: from_user_def)
  show "sched_inv switched"
    unfolding switched_def using two_tasks_state(2)
    by (intro sched_inv_run sched_inv_save[OF two_tasks_state(1) len]) (simp_all add: save_task_def)
  show "ntasks switched = 2" "cur_task switched = Some 1"
    by (simp_all add: switched_def run_task_def save_task_def two_tasks_state)
  show "task_pool switched ! 0 = (fresh_task (fresh_regs 0x40000000 0x23 0x202 0x40001FF0 0x33) 0x205000 0x321000)
     \<lparr>t_regs := user_ctx, t_cr3 := 0x205000\<rparr>"
    by (simp add: switched_def run_task_def save_task_nth[OF two_tasks_state(1,3)] two_tasks_state)
qed

theorem do_switch_context_survives_witness:
  "\<exists>s2 m2. ticks 1 (fresh_regs 0x40000000 0x23 0x202 0x40001FF0 0x33, switched, task_machine\<lparr>mm_cr3 := 0x207000\<rparr>)
     (user_ctx, s2, m2) \<and> cur_task s2 = Some 0 \<and> mm_cr3 m2 = 0x205000"
proof -
  let ?m = "task_machine\<lparr>mm_cr3 := 0x207000\<rparr>"
  have n: "succ_task switched 1 = 0" by (simp add: succ_task_def switched_state)
  let ?s1 = "save_task 1 user_ctx 0x207000 switched"
  have t: "task_pool ?s1 ! 0 = task_pool switched ! 0" by (subst save_task_nth[OF switched_state(1,3)]) simp
  then have "\<not> deliverable (task_pool (run_task 0 ?s1) ! 0)"
    by (simp add: run_task_def deliverable_def switched_state(4) fresh_task_def)
  then have "do_switch user_ctx switched ?m = Inr (user_ctx, run_task 0 ?s1, ?m\<lparr>mm_cr3 := 0x205000\<rparr>)"
    unfolding do_switch_user[OF switched_state(1,3) user_ctx_user] n
    using t by (simp add: deliver_signal_none switched_state(4) fresh_task_def)
  from ticks.tick[OF ticks.start same_contexts_refl switched_state(1) user_ctx_user refl this]
  have run: "ticks 1 (fresh_regs 0x40000000 0x23 0x202 0x40001FF0 0x33, switched, ?m)
      (user_ctx, run_task 0 ?s1, ?m\<lparr>mm_cr3 := 0x205000\<rparr>)" by simp
  have one: "ntasks two_tasks - 1 = 1" by (simp add: two_tasks_state)
  have "cur_task (run_task 0 ?s1) = Some 0 \<and> mm_cr3 (?m\<lparr>mm_cr3 := 0x205000\<rparr>) = mm_cr3 task_machine"
    using do_switch_context_survives[OF two_tasks_state(1,3) user_ctx_user two_tasks_switch, unfolded one, OF run]
    by blast
  then have "cur_task (run_task 0 ?s1) = Some 0" "mm_cr3 (?m\<lparr>mm_cr3 := 0x205000\<rparr>) = 0x205000"
    by (simp_all add: task_machine_def)
  with run show ?thesis by blast
qed

text \<open>
  The task a switch from \<open>c\<close> turns to, as the switch finds it, and its address space.
\<close>

definition next_task :: "u32 list \<Rightarrow> sched \<Rightarrow> mach \<Rightarrow> nat \<Rightarrow> task" where
  "next_task ctx s m c = task_pool (save_task c ctx (mm_cr3 m) s) ! succ_task s c"

lemma next_task_ok:
  assumes "sched_inv s" and "cur_task s = Some c" and "from_user ctx"
  shows "task_ok (next_task ctx s m c)"
proof -
  have "sched_inv (save_task c ctx (mm_cr3 m) s)"
    using assms(1,3) by (intro sched_inv_save) (simp_all add: from_user_def)
  moreover have "succ_task s c < MAX_TASKS"
    using succ_task_lt[OF assms(1,2)] sched_cur[OF assms(1,2)] by linarith
  ultimately show ?thesis by (simp add: next_task_def task_okD)
qed

lemma do_switch_next:
  assumes "sched_inv s" and "cur_task s = Some c" and "from_user ctx"
  shows "do_switch ctx s m =
    deliver_signal (succ_task s c) (t_regs (next_task ctx s m c))
      (run_task (succ_task s c) (save_task c ctx (mm_cr3 m) s)) (m\<lparr>mm_cr3 := t_cr3 (next_task ctx s m c)\<rparr>)"
  unfolding next_task_def by (rule do_switch_user[OF assms])

lemma run_task_next: "task_pool (run_task i (save_task c ctx (mm_cr3 m) s)) ! succ_task s c = next_task ctx s m c"
  by (simp add: run_task_def next_task_def)

text \<open>The second of two tasks with SIGINT and SIGUSR1 pending, for concrete instances.\<close>

definition signalled :: "u32 list \<Rightarrow> sched" where
  "signalled handlers = update_task 1 (\<lambda>t. t\<lparr>t_sig_pending := 0x404, t_sig_handlers := handlers\<rparr>) two_tasks"

definition idle_b :: task where
  "idle_b = fresh_task (fresh_regs 0x40000000 0x23 0x202 0x40001FF0 0x33) 0x207000 0x323000"

lemma signalled_state:
  assumes "length handlers = NSIG"
  shows "sched_inv (signalled handlers)" "cur_task (signalled handlers) = Some 0"
    "next_task user_ctx (signalled handlers) m 0 = idle_b\<lparr>t_sig_pending := 0x404, t_sig_handlers := handlers\<rparr>"
proof -
  show inv: "sched_inv (signalled handlers)"
    unfolding signalled_def using two_tasks_state(1) assms
    by (rule_tac sched_inv_update_task) (simp_all add: task_ok_def)
  show cur: "cur_task (signalled handlers) = Some 0" by (simp add: signalled_def two_tasks_state)
  have n: "succ_task (signalled handlers) 0 = 1" by (simp add: signalled_def succ_task_def two_tasks_state)
  have l: "length (task_pool two_tasks) = 8" using two_tasks_state(1) by (simp add: sched_inv_def)
  have "task_pool (signalled handlers) ! 1 = idle_b\<lparr>t_sig_pending := 0x404, t_sig_handlers := handlers\<rparr>"
    using l two_tasks_state(5) by (simp add: signalled_def update_task_nth idle_b_def)
  then show "next_task user_ctx (signalled handlers) m 0 =
      idle_b\<lparr>t_sig_pending := 0x404, t_sig_handlers := handlers\<rparr>"
    by (simp only: next_task_def n save_task_nth[OF inv cur]) simp
qed

lemma pending_0x404: "pending_signal 0x404 = 2"
proof -
  have u: "[1..<32] = 1 # 2 # [3..<32::nat]" by (simp add: upt_conv_Cons)
  show ?thesis unfolding pending_signal_def u by simp
qed

lemma idle_b_fields [simp]:
  "t_regs idle_b ! 11 = 0x40001FF0" "t_cr3 idle_b = 0x207000" "t_sig_in_handler idle_b = False"
  by (simp_all add: idle_b_def fresh_task_def fresh_regs_def nth_append)

lemma idle_b_deliverable:
  "handlers ! 2 \<noteq> 0 \<Longrightarrow> deliverable (idle_b\<lparr>t_sig_pending := 0x404, t_sig_handlers := handlers\<rparr>)"
  by (simp add: deliverable_def pending_0x404)

text \<open>C5: Signal delivery. When the next task has a deliverable signal and the two words below its stack
  pointer are mapped, the lowest pending signal is taken: its number and a null return address are
  pushed, the task resumes at its handler with every other register as saved, the interrupted
  context is kept, the handler flag is set and exactly that signal's bit is cleared.\<close>

theorem do_switch_delivers_signal:
  assumes "sched_inv s" and "cur_task s = Some c" and "from_user ctx"
    and "deliverable (next_task ctx s m c)"
    and "sig = pending_signal (t_sig_pending (next_task ctx s m c))"
    and "kst32 (t_regs (next_task ctx s m c) ! 11 - 4) (of_nat sig) (m\<lparr>mm_cr3 := t_cr3 (next_task ctx s m c)\<rparr>) = Inr m1"
    and "kst32 (t_regs (next_task ctx s m c) ! 11 - 8) 0 m1 = Inr m2"
  shows "\<exists>ctx' s'. do_switch ctx s m = Inr (ctx', s', m2) \<and>
    ctx' ! 8 = t_sig_handlers (next_task ctx s m c) ! sig \<and>
    ctx' ! 11 = t_regs (next_task ctx s m c) ! 11 - 8 \<and>
    (\<forall>i<13. i \<noteq> 8 \<longrightarrow> i \<noteq> 11 \<longrightarrow> ctx' ! i = t_regs (next_task ctx s m c) ! i) \<and>
    task_pool s' ! succ_task s c = enter_handler sig (t_regs (next_task ctx s m c)) (next_task ctx s m c) \<and>
    1 \<le> sig \<and> bit (t_sig_pending (next_task ctx s m c)) sig \<and>
    (\<forall>j. 1 \<le> j \<longrightarrow> j < sig \<longrightarrow> \<not> bit (t_sig_pending (next_task ctx s m c)) j)"
proof -
  let ?t = "next_task ctx s m c" and ?n = "succ_task s c"
  let ?s = "run_task ?n (save_task c ctx (mm_cr3 m) s)"
  have ok: "length (t_regs ?t) = 13" "length (t_sig_saved_regs ?t) = 13"
    using next_task_ok[OF assms(1-3), of m] by (simp_all add: task_ok_def)
  have n: "?n < length (task_pool ?s)"
    using succ_task_lt[OF assms(1,2)] sched_cur[OF assms(1,2)] by (simp add: run_task_def save_task_def)
  have "do_switch ctx s m = Inr (handler_ctx (t_sig_handlers ?t ! sig) (t_regs ?t),
      update_task ?n (enter_handler sig (t_regs ?t)) ?s, m2)"
    unfolding do_switch_next[OF assms(1-3)]
    using assms(4-7) ok by (subst deliver_signal_some) (simp_all add: run_task_next)
  moreover have "task_pool (update_task ?n (enter_handler sig (t_regs ?t)) ?s) ! ?n = enter_handler sig (t_regs ?t) ?t"
    using n by (simp add: update_task_nth run_task_next)
  moreover have "pending_signal (t_sig_pending ?t) < 32" using assms(4) by (simp add: deliverable_def)
  note pending_signal_lowest(2)[OF this]
  ultimately show ?thesis using ok(1) assms(5) by (auto simp: handler_ctx_def)
qed

theorem do_switch_delivers_signal_witness:
  "\<exists>ctx' s' m'. do_switch user_ctx (signalled (replicate 32 0x40000500)) (task_machine\<lparr>mm_cr0 := 0x11\<rparr>) = Inr (ctx', s', m') \<and>
     ctx' ! 8 = 0x40000500 \<and> ctx' ! 11 = 0x40001FE8"
proof -
  let ?h = "replicate 32 (0x40000500 :: u32)" and ?m = "task_machine\<lparr>mm_cr0 := 0x11\<rparr>"
  have h: "length ?h = NSIG" by simp
  note st = signalled_state[OF h]
  have w: "\<exists>m'. kst32 va v c = Inr m' \<and> \<not> paging_on m'" if "\<not> paging_on c" for va v c
    using that by (simp add: kst32_def translate_def paging_on_def)
  have "\<not> paging_on (?m\<lparr>mm_cr3 := 0x207000\<rparr>)" by (simp add: paging_on_def bit_simps)
  from w[OF this] obtain m1 where m1: "kst32 0x40001FEC 2 (?m\<lparr>mm_cr3 := 0x207000\<rparr>) = Inr m1" "\<not> paging_on m1" by blast
  from w[OF m1(2)] obtain m2 where m2: "kst32 0x40001FE8 0 m1 = Inr m2" by blast
  have d: "deliverable (next_task user_ctx (signalled ?h) ?m 0)" unfolding st(3) by (rule idle_b_deliverable) simp
  have k1: "kst32 (t_regs (next_task user_ctx (signalled ?h) ?m 0) ! 11 - 4) (of_nat 2)
      (?m\<lparr>mm_cr3 := t_cr3 (next_task user_ctx (signalled ?h) ?m 0)\<rparr>) = Inr m1"
    using m1(1) by (simp add: st(3))
  have k2: "kst32 (t_regs (next_task user_ctx (signalled ?h) ?m 0) ! 11 - 8) 0 m1 = Inr m2"
    using m2 by (simp add: st(3))
  have sig: "2 = pending_signal (t_sig_pending (next_task user_ctx (signalled ?h) ?m 0))"
    by (simp add: st(3) pending_0x404)
  show ?thesis
    using do_switch_delivers_signal[OF st(1,2) user_ctx_user d sig k1 k2]
    by (force simp: st(3))
qed

text \<open>The kernel does not check the stack pointer of the program it signals: if the word below it is
  not mapped, the store faults in ring 0 and the whole system stops.\<close>

theorem do_switch_signal_fault:
  assumes "sched_inv s" and "cur_task s = Some c" and "from_user ctx"
    and "deliverable (next_task ctx s m c)"
    and "translate (m\<lparr>mm_cr3 := t_cr3 (next_task ctx s m c)\<rparr>) (t_regs (next_task ctx s m c) ! 11 - 4) = None"
  shows "do_switch ctx s m = Inl PageFault"
proof -
  have "length (t_regs (next_task ctx s m c)) = 13" "length (t_sig_saved_regs (next_task ctx s m c)) = 13"
    using next_task_ok[OF assms(1-3), of m] by (simp_all add: task_ok_def)
  then show ?thesis
    unfolding do_switch_next[OF assms(1-3)]
    using assms(4,5) by (subst deliver_signal_some) (simp_all add: run_task_next kst32_def)
qed

theorem do_switch_signal_fault_witness:
  "do_switch user_ctx (signalled (replicate 32 0x40000500)) task_machine = Inl PageFault"
proof -
  have h: "length (replicate 32 (0x40000500 :: u32)) = NSIG" by simp
  note st = signalled_state[OF h]
  have tr: "translate (task_machine\<lparr>mm_cr3 := cr3\<rparr>) va = None" for cr3 va
    by (simp add: translate_def paging_on_def task_machine_def walk_def walk_entry_def ld32_def present_def bit_simps)
  show ?thesis
    by (rule do_switch_signal_fault[OF st(1,2) user_ctx_user])
       (simp_all only: st(3) tr, rule idle_b_deliverable, simp)
qed

text \<open>C37: No reentrancy, and starvation: while a handler runs, and also while the lowest pending signal
  has no handler installed, the next task resumes its plain context and stays as it is, so every
  higher-numbered signal, with a handler or not, stays pending.\<close>

theorem do_switch_blocks_signals:
  assumes "sched_inv s" and "cur_task s = Some c" and "from_user ctx"
    and "t_sig_in_handler (next_task ctx s m c) \<or>
      (\<exists>i. 1 \<le> i \<and> i < 32 \<and> bit (t_sig_pending (next_task ctx s m c)) i \<and> t_sig_handlers (next_task ctx s m c) ! i = 0 \<and>
        (\<forall>j. 1 \<le> j \<longrightarrow> j < i \<longrightarrow> \<not> bit (t_sig_pending (next_task ctx s m c)) j))"
  shows "\<exists>s'. do_switch ctx s m =
      Inr (t_regs (next_task ctx s m c), s', m\<lparr>mm_cr3 := t_cr3 (next_task ctx s m c)\<rparr>) \<and>
    task_pool s' ! succ_task s c = next_task ctx s m c"
proof -
  let ?t = "next_task ctx s m c"
  have "\<not> deliverable ?t"
  proof (cases "t_sig_in_handler ?t")
    case False
    with assms(4) obtain i where i: "1 \<le> i" "i < 32" "bit (t_sig_pending ?t) i" "t_sig_handlers ?t ! i = 0"
      "\<And>j. 1 \<le> j \<Longrightarrow> j < i \<Longrightarrow> \<not> bit (t_sig_pending ?t) j" by blast
    then have lt: "pending_signal (t_sig_pending ?t) < 32" using pending_signal_lowest(1) by blast
    have "pending_signal (t_sig_pending ?t) = i"
      using pending_signal_lowest(2)[OF lt] i by (metis linorder_neqE_nat)
    with i(4) show ?thesis by (simp add: deliverable_def)
  qed (simp add: deliverable_def)
  then show ?thesis
    unfolding do_switch_next[OF assms(1-3)] by (simp add: deliver_signal_none run_task_next)
qed

theorem do_switch_blocks_signals_witness:
  "\<exists>s' m'. do_switch user_ctx (signalled ((replicate 32 0)[10 := 0x40000500])) task_machine = Inr (t_regs idle_b, s', m') \<and>
     t_sig_pending (task_pool s' ! 1) = 0x404"
proof -
  let ?h = "(replicate 32 0)[10 := (0x40000500 :: u32)]"
  have h: "length ?h = NSIG" by simp
  note st = signalled_state[OF h]
  have n: "succ_task (signalled ?h) 0 = 1" by (simp add: signalled_def succ_task_def two_tasks_state)
  have j: "\<not> bit (0x404 :: u32) j" if "1 \<le> j" "j < 2" for j
    using that by (cases "j = 1") simp_all
  have "t_sig_in_handler (next_task user_ctx (signalled ?h) task_machine 0) \<or>
      (\<exists>i. 1 \<le> i \<and> i < 32 \<and> bit (t_sig_pending (next_task user_ctx (signalled ?h) task_machine 0)) i \<and>
        t_sig_handlers (next_task user_ctx (signalled ?h) task_machine 0) ! i = 0 \<and>
        (\<forall>j. 1 \<le> j \<longrightarrow> j < i \<longrightarrow> \<not> bit (t_sig_pending (next_task user_ctx (signalled ?h) task_machine 0)) j))"
    by (intro disjI2 exI[of _ 2]) (use j in \<open>simp add: st(3)\<close>)
  from do_switch_blocks_signals[OF st(1,2) user_ctx_user this] show ?thesis
    unfolding n by (force simp: st(3))
qed

end
