(* ===== verification/Screen.thy ===== *)
theory Screen
  imports Pepin_Prelude "HOL-Library.Signed_Division"
begin

text \<open>
  \<^verbatim>\<open>drivers/screen.c\<close>: the text console. The cursor is two signed \<^verbatim>\<open>char\<close>s and every cell is
  written through a computed address, as in the code; the bytes at and around the text buffer
  are a function from addresses. The abstract view is a terminal of 2000 cells with a row and a
  column, which \<open>putcar\<close> and \<open>print\<close> are shown to implement.
\<close>

section \<open>State and operations\<close>

abbreviation (input) "RAMSCREEN \<equiv> (0xB8000 :: u32)"
abbreviation (input) "SCREENLIM \<equiv> (0xB8FA0 :: u32)"

record screen =
  kX :: u8
  kY :: u8
  kattr :: u8
  vga :: "u32 \<Rightarrow> u8"
  crtc_index :: u8
  crtc_reg :: "u8 \<Rightarrow> u8"

text \<open>The two ports of the cursor hardware: an index register and the register it selects.\<close>

definition screen_outb :: "u16 \<Rightarrow> u8 \<Rightarrow> screen \<Rightarrow> screen" where
  "screen_outb port val s =
     (if port = 0x3D4 then s\<lparr>crtc_index := val\<rparr>
      else if port = 0x3D5 then s\<lparr>crtc_reg := (crtc_reg s)(crtc_index s := val)\<rparr> else s)"

definition update_cursor :: "screen \<Rightarrow> screen" where
  "update_cursor s =
     (let pos = (word_of_int (sint (kY s) * 80 + sint (kX s)) :: u16);
          s = screen_outb 0x3D4 0x0F s;
          s = screen_outb 0x3D5 (ucast (pos AND 0xFF)) s;
          s = screen_outb 0x3D4 0x0E s
      in screen_outb 0x3D5 (ucast (drop_bit 8 pos AND 0xFF)) s)"

definition scroll_cell :: "u32 \<Rightarrow> nat \<Rightarrow> (u32 \<Rightarrow> u8) \<Rightarrow> u32 \<Rightarrow> u8" where
  "scroll_cell n i v =
     (let video = RAMSCREEN + 2 * of_nat i;
          tmp = video + n * 160
      in if tmp < SCREENLIM then
           (let v = v(video := v tmp) in v(video + 1 := v (tmp + 1)))
         else v(video := 0, video + 1 := 0x07))"

definition scrollup :: "u32 \<Rightarrow> screen \<Rightarrow> screen" where
  "scrollup n s =
     (let s = s\<lparr>vga := for_range 0 2000 (scroll_cell n) (vga s)\<rparr>;
          s = s\<lparr>kY := kY s - ucast n\<rparr>
      in if sint (kY s) < 0 then s\<lparr>kY := 0\<rparr> else s)"

definition putcar :: "u8 \<Rightarrow> screen \<Rightarrow> screen" where
  "putcar c s =
     (let s =
        (if c = 10 then s\<lparr>kX := 0, kY := kY s + 1\<rparr>
         else if c = 9 then s\<lparr>kX := word_of_int (sint (kX s) + 8 - sint (kX s) smod 8)\<rparr>
         else if c = 13 then s\<lparr>kX := 0\<rparr>
         else
           let video = word_of_int (0xB8000 + 2 * sint (kX s) + 160 * sint (kY s));
               s = s\<lparr>vga := (vga s)(video := c)\<rparr>;
               s = s\<lparr>vga := (vga s)(video + 1 := kattr s)\<rparr>;
               s = s\<lparr>kX := kX s + 1\<rparr>
           in if sint (kX s) > 79 then s\<lparr>kX := 0, kY := kY s + 1\<rparr> else s);
      s = (if sint (kY s) > 24 then scrollup (word_of_int (sint (kY s) - 24)) s else s)
      in update_cursor s)"

text \<open>A C string is the list of its bytes; printing stops at the first null byte.\<close>

primrec print :: "u8 list \<Rightarrow> screen \<Rightarrow> screen" where
  "print [] s = s"
| "print (c # cs) s = (if c = 0 then s else print cs (putcar c s))"

definition cstr :: "string \<Rightarrow> u8 list" where
  "cstr s = map of_char s"

definition set_kattr :: "u8 \<Rightarrow> screen \<Rightarrow> screen" where
  "set_kattr a s = s\<lparr>kattr := a\<rparr>"

section \<open>The terminal it implements\<close>

record console =
  cell :: "nat \<Rightarrow> u8 \<times> u8"
  col :: nat
  row :: nat

definition scroll_term :: "console \<Rightarrow> console" where
  "scroll_term t = t\<lparr>cell := (\<lambda>p. if p + 80 < 2000 then cell t (p + 80)
     else if p < 2000 then (0, 0x07) else cell t p), row := row t - 1\<rparr>"

definition term_put :: "u8 \<Rightarrow> u8 \<Rightarrow> console \<Rightarrow> console" where
  "term_put a c t =
     (let t = (if c = 10 then t\<lparr>col := 0, row := row t + 1\<rparr>
        else if c = 9 then t\<lparr>col := (col t div 8 + 1) * 8\<rparr>
        else if c = 13 then t\<lparr>col := 0\<rparr>
        else let t' = t\<lparr>cell := (cell t)(80 * row t + col t := (c, a))\<rparr>
             in if col t = 79 then t'\<lparr>col := 0, row := row t + 1\<rparr> else t'\<lparr>col := col t + 1\<rparr>)
      in if row t = 25 then scroll_term t else t)"

definition cell_addr :: "nat \<Rightarrow> u32" where
  "cell_addr p = RAMSCREEN + 2 * of_nat p"

definition vga_cells :: "(u32 \<Rightarrow> u8) \<Rightarrow> nat \<Rightarrow> u8 \<times> u8" where
  "vga_cells v p = (if p < 2000 then (v (cell_addr p), v (cell_addr p + 1)) else (0, 0))"

definition term_of :: "screen \<Rightarrow> console" where
  "term_of s = \<lparr>cell = vga_cells (vga s), col = unat (kX s), row = unat (kY s)\<rparr>"

definition screen_ok :: "screen \<Rightarrow> bool" where
  "screen_ok s \<longleftrightarrow> unat (kX s) < 80 \<and> unat (kY s) < 25"

definition off_screen :: "u32 \<Rightarrow> bool" where
  "off_screen a \<longleftrightarrow> a < RAMSCREEN \<or> SCREENLIM \<le> a"

lemma unat_cell_addr: "p < 4096 \<Longrightarrow> unat (cell_addr p) = 0xB8000 + 2 * p" "p < 4096 \<Longrightarrow> unat (cell_addr p + 1) = 0xB8001 + 2 * p"
  by (simp_all add: cell_addr_def unat_word_ariths unat_of_nat)

lemma cell_addr_inj:
  assumes "p < 4096" "q < 4096"
  shows "cell_addr p = cell_addr q \<longleftrightarrow> p = q" "cell_addr p + 1 = cell_addr q + 1 \<longleftrightarrow> p = q"
    "cell_addr p \<noteq> cell_addr q + 1" "cell_addr p + 1 \<noteq> cell_addr q"
proof -
  note u = unat_cell_addr(1)[OF assms(1)] unat_cell_addr(1)[OF assms(2)]
    unat_cell_addr(2)[OF assms(1)] unat_cell_addr(2)[OF assms(2)]
  show e: "cell_addr p = cell_addr q \<longleftrightarrow> p = q"
  proof
    assume "cell_addr p = cell_addr q"
    then have "unat (cell_addr p) = unat (cell_addr q)" by (rule arg_cong)
    then show "p = q" unfolding u by linarith
  qed (rule arg_cong)
  show "cell_addr p + 1 = cell_addr q + 1 \<longleftrightarrow> p = q" using e by (simp only: add_right_cancel)
  show "cell_addr p \<noteq> cell_addr q + 1"
  proof
    assume "cell_addr p = cell_addr q + 1"
    then have "unat (cell_addr p) = unat (cell_addr q + 1)" by (rule arg_cong)
    then show False unfolding u by presburger
  qed
  show "cell_addr p + 1 \<noteq> cell_addr q"
  proof
    assume "cell_addr p + 1 = cell_addr q"
    then have "unat (cell_addr p + 1) = unat (cell_addr q)" by (rule arg_cong)
    then show False unfolding u by presburger
  qed
qed

lemma vga_cells_put:
  "p < 2000 \<Longrightarrow> vga_cells (v(cell_addr p := x, cell_addr p + 1 := y)) = (vga_cells v)(p := (x, y))"
  by (rule ext) (simp add: vga_cells_def cell_addr_inj)

lemma off_screen_cell: "p < 2000 \<Longrightarrow> off_screen a \<Longrightarrow> a \<noteq> cell_addr p \<and> a \<noteq> cell_addr p + 1"
  by (auto simp: off_screen_def word_less_nat_alt word_le_nat_alt unat_cell_addr)

lemma off_screen_put:
  "p < 2000 \<Longrightarrow> off_screen a \<Longrightarrow> (v(cell_addr p := x, cell_addr p + 1 := y)) a = v a"
  by (auto simp: off_screen_def word_less_nat_alt word_le_nat_alt unat_cell_addr)

section \<open>The operations on the terminal\<close>

lemma sint_u8: "unat (w :: u8) < 128 \<Longrightarrow> sint w = int (unat w)"
proof -
  assume "unat w < 128"
  moreover have u: "uint w = int (unat w)" by simp
  ultimately have "0 \<le> uint w" "uint w < 128" by linarith+
  then have "signed_take_bit 7 (uint w) = uint w" by (intro signed_take_bit_int_eq_self) (auto intro: order_trans[of _ 0])
  then show ?thesis by (simp add: sint_uint u del: of_nat_unat)
qed

lemma update_cursor_fields [simp]:
  "kX (update_cursor s) = kX s" "kY (update_cursor s) = kY s" "kattr (update_cursor s) = kattr s"
  "vga (update_cursor s) = vga s"
  by (simp_all add: update_cursor_def screen_outb_def Let_def)

lemma update_cursor_regs:
  "crtc_reg (update_cursor s) 0x0F = ucast (word_of_int (sint (kY s) * 80 + sint (kX s)) :: u16)"
  "crtc_reg (update_cursor s) 0x0E = ucast (drop_bit 8 (word_of_int (sint (kY s) * 80 + sint (kX s)) :: u16))"
proof -
  have b: "ucast (w AND 0xFF :: u16) = (ucast w :: u8)" for w
  proof -
    have "w AND 0xFF = w AND mask 8" by (simp add: mask_eq_exp_minus_1)
    moreover have "ucast (w AND mask 8) = (ucast w :: u8)" by (rule bit_word_eqI) (auto simp: bit_simps)
    ultimately show ?thesis by (simp only:)
  qed
  show "crtc_reg (update_cursor s) 0x0F = ucast (word_of_int (sint (kY s) * 80 + sint (kX s)) :: u16)"
    "crtc_reg (update_cursor s) 0x0E = ucast (drop_bit 8 (word_of_int (sint (kY s) * 80 + sint (kX s)) :: u16))"
    by (simp_all add: update_cursor_def screen_outb_def Let_def b)
qed

text \<open>Scrolling by one row.\<close>

lemma scroll_cell_one:
  assumes "i < 2000"
  shows "scroll_cell 1 i v = v(cell_addr i := fst (if i + 80 < 2000 then (v (cell_addr (i + 80)), v (cell_addr (i + 80) + 1)) else (0, 0x07)),
    cell_addr i + 1 := snd (if i + 80 < 2000 then (v (cell_addr (i + 80)), v (cell_addr (i + 80) + 1)) else (0, 0x07)))"
proof -
  have t: "RAMSCREEN + 2 * of_nat i + 1 * 160 = cell_addr (i + 80)" by (simp add: cell_addr_def algebra_simps)
  have "cell_addr (i + 80) < SCREENLIM \<longleftrightarrow> i + 80 < 2000"
    using assms by (simp add: word_less_nat_alt unat_cell_addr)
  then show ?thesis
    using assms unfolding scroll_cell_def Let_def t by (simp add: cell_addr_def[symmetric] cell_addr_inj)
qed

lemma scroll_cell_view:
  assumes "i < 2000"
  shows "vga_cells (scroll_cell 1 i w) = (vga_cells w)(i := (if i + 80 < 2000 then vga_cells w (i + 80) else (0, 0x07)))"
    and "off_screen a \<Longrightarrow> scroll_cell 1 i w a = w a"
proof -
  let ?c = "if i + 80 < 2000 then (w (cell_addr (i + 80)), w (cell_addr (i + 80) + 1)) else (0, 0x07)"
  have c: "?c = (if i + 80 < 2000 then vga_cells w (i + 80) else (0, 0x07))"
    by (cases "i + 80 < 2000") (simp_all add: vga_cells_def)
  show "vga_cells (scroll_cell 1 i w) = (vga_cells w)(i := (if i + 80 < 2000 then vga_cells w (i + 80) else (0, 0x07)))"
    unfolding scroll_cell_one[OF assms] vga_cells_put[OF assms] c prod.collapse ..
  show "off_screen a \<Longrightarrow> scroll_cell 1 i w a = w a"
    unfolding scroll_cell_one[OF assms] by (rule off_screen_put[OF assms])
qed

definition scrolled :: "nat \<Rightarrow> (nat \<Rightarrow> u8 \<times> u8) \<Rightarrow> nat \<Rightarrow> u8 \<times> u8" where
  "scrolled i g p = (if p < i then (if p + 80 < 2000 then g (p + 80) else (0, 0x07)) else g p)"

lemma scrolled_Suc:
  "(scrolled i g)(i := (if i + 80 < 2000 then scrolled i g (i + 80) else (0, 0x07))) = scrolled (Suc i) g"
  by (rule ext) (simp add: scrolled_def less_Suc_eq)

lemma scroll_loop:
  "vga_cells (for_range 0 2000 (scroll_cell 1) v) = scrolled 2000 (vga_cells v)"
  "off_screen a \<Longrightarrow> for_range 0 2000 (scroll_cell 1) v a = v a"
proof -
  let ?P = "\<lambda>i w. vga_cells w = scrolled i (vga_cells v) \<and> (\<forall>a. off_screen a \<longrightarrow> w a = v a)"
  have "?P 2000 (for_range 0 2000 (scroll_cell 1) v)"
  proof (rule for_range_inv[where P = ?P])
    fix i w assume i: "i < (2000 :: nat)" and P: "?P i w"
    then show "?P (Suc i) (scroll_cell 1 i w)"
      by (simp only: scroll_cell_view(1)[OF i] scrolled_Suc) (simp add: scroll_cell_view(2)[OF i])
  next
    show "?P 0 v" by (simp add: scrolled_def fun_eq_iff)
  qed simp
  then show "vga_cells (for_range 0 2000 (scroll_cell 1) v) = scrolled 2000 (vga_cells v)"
    "off_screen a \<Longrightarrow> for_range 0 2000 (scroll_cell 1) v a = v a" by blast+
qed

lemma scrollup_one:
  assumes "unat (kY s) = 25" and "unat (kX s) < 80"
  shows "term_of (scrollup 1 s) = scroll_term (term_of s)" "screen_ok (scrollup 1 s)"
    "kattr (scrollup 1 s) = kattr s" "off_screen a \<Longrightarrow> vga (scrollup 1 s) a = vga s a"
proof -
  have k: "kY s = 25" using assms(1) by (simp add: word_unat_eq_iff)
  have s: "scrollup 1 s = s\<lparr>vga := for_range 0 2000 (scroll_cell 1) (vga s), kY := 24\<rparr>"
    by (simp add: scrollup_def Let_def k)
  show "term_of (scrollup 1 s) = scroll_term (term_of s)"
    by (simp add: s term_of_def scroll_term_def scroll_loop(1) scrolled_def fun_eq_iff k cong: if_cong)
  show "screen_ok (scrollup 1 s)" using assms(2) by (simp add: s screen_ok_def)
  show "kattr (scrollup 1 s) = kattr s" "off_screen a \<Longrightarrow> vga (scrollup 1 s) a = vga s a"
    by (simp_all add: s scroll_loop(2))
qed

section \<open>Printing a character\<close>

text \<open>What is left of \<open>putcar\<close> after the cursor has moved: at most one row of scrolling.\<close>

definition settle :: "screen \<Rightarrow> screen" where
  "settle s = update_cursor (if sint (kY s) > 24 then scrollup (word_of_int (sint (kY s) - 24)) s else s)"

lemma settle_term:
  assumes "unat (kX s) < 80" and "unat (kY s) \<le> 25"
  shows "term_of (settle s) = (if row (term_of s) = 25 then scroll_term (term_of s) else term_of s)"
    "screen_ok (settle s)" "kattr (settle s) = kattr s" "off_screen a \<Longrightarrow> vga (settle s) a = vga s a"
proof -
  have y: "sint (kY s) = int (unat (kY s))" using assms(2) by (intro sint_u8) simp
  have up: "term_of (update_cursor t) = term_of t" "screen_ok (update_cursor t) = screen_ok t" for t
    by (simp_all add: term_of_def screen_ok_def)
  have "settle s = update_cursor (if unat (kY s) = 25 then scrollup 1 s else s)"
  proof (cases "unat (kY s) = 25")
    case True
    then show ?thesis by (simp add: settle_def y)
  next
    case False
    with assms(2) have "\<not> sint (kY s) > 24" unfolding y by linarith
    with False show ?thesis by (simp add: settle_def)
  qed
  then show "term_of (settle s) = (if row (term_of s) = 25 then scroll_term (term_of s) else term_of s)"
    "screen_ok (settle s)" "kattr (settle s) = kattr s" "off_screen a \<Longrightarrow> vga (settle s) a = vga s a"
    using scrollup_one(1,2,3)[OF _ assms(1)] scrollup_one(4)[OF _ assms(1), of a] assms
    by (auto simp: up) (auto simp: screen_ok_def term_of_def)
qed

lemma tab_word:
  assumes "unat (x :: u8) < 120"
  shows "unat (word_of_int (sint x + 8 - sint x smod 8) :: u8) = (unat x div 8 + 1) * 8"
proof -
  have s: "sint x = int (unat x)" using assms by (intro sint_u8) simp
  have m: "sint x smod 8 = int (unat x mod 8)" unfolding s by (simp add: smod_mod_positive zmod_int)
  have "int n + 8 - int (n mod 8) = int ((n div 8 + 1) * 8)" for n by presburger
  then have "sint x + 8 - sint x smod 8 = int ((unat x div 8 + 1) * 8)" unfolding m unfolding s .
  then have "word_of_int (sint x + 8 - sint x smod 8) = (of_nat ((unat x div 8 + 1) * 8) :: u8)"
    by (simp only: of_int_of_nat_eq)
  moreover have "(unat x div 8 + 1) * 8 < 2 ^ LENGTH(8)" using assms by simp
  from unat_of_nat_lt[OF this] have "unat (of_nat ((unat x div 8 + 1) * 8) :: u8) = (unat x div 8 + 1) * 8" .
  ultimately show ?thesis by (simp only:)
qed

lemma putcar_settle:
  "putcar c s = settle
    (if c = 10 then s\<lparr>kX := 0, kY := kY s + 1\<rparr>
     else if c = 9 then s\<lparr>kX := word_of_int (sint (kX s) + 8 - sint (kX s) smod 8)\<rparr>
     else if c = 13 then s\<lparr>kX := 0\<rparr>
     else
       let video = word_of_int (0xB8000 + 2 * sint (kX s) + 160 * sint (kY s));
           s = s\<lparr>vga := (vga s)(video := c, video + 1 := kattr s), kX := kX s + 1\<rparr>
       in if sint (kX s) > 79 then s\<lparr>kX := 0, kY := kY s + 1\<rparr> else s)"
  unfolding putcar_def settle_def Let_def by simp

lemma incr_u8: "unat (w :: u8) < 255 \<Longrightarrow> unat (w + 1) = unat w + 1"
  by (simp add: unat_add_no_wrap)

lemma cell_position:
  assumes "unat (x :: u8) < 80" and "unat (y :: u8) < 25"
  shows "word_of_int (0xB8000 + 2 * sint x + 160 * sint y) = cell_addr (80 * unat y + unat x)"
proof -
  have "sint x = int (unat x)" "sint y = int (unat y)" using assms by (intro sint_u8; simp)+
  then have "0xB8000 + 2 * sint x + 160 * sint y = int (0xB8000 + 2 * (80 * unat y + unat x))" by simp
  then have "word_of_int (0xB8000 + 2 * sint x + 160 * sint y) = (of_nat (0xB8000 + 2 * (80 * unat y + unat x)) :: u32)"
    by (simp only: of_int_of_nat_eq)
  then show ?thesis by (simp add: cell_addr_def del: of_nat_unat)
qed

lemma putcar_plain:
  assumes ok: "screen_ok s" and c: "c \<noteq> 10" "c \<noteq> 9" "c \<noteq> 13"
  defines "p \<equiv> 80 * unat (kY s) + unat (kX s)"
  defines "v \<equiv> (vga s)(cell_addr p := c, cell_addr p + 1 := kattr s)"
  shows "putcar c s = settle (if unat (kX s) = 79 then s\<lparr>vga := v, kX := 0, kY := kY s + 1\<rparr>
    else s\<lparr>vga := v, kX := kX s + 1\<rparr>)"
proof -
  have xy: "unat (kX s) < 80" "unat (kY s) < 25" using ok by (simp_all add: screen_ok_def)
  have u: "unat (kX s + 1) = unat (kX s) + 1" using xy(1) by (intro incr_u8) simp
  have "sint (kX s + 1) = int (unat (kX s) + 1)" using sint_u8[of "kX s + 1"] u xy(1) by simp
  then have x: "sint (kX s + 1) > 79 \<longleftrightarrow> unat (kX s) = 79" using xy(1) by linarith
  show ?thesis
    using c x unfolding putcar_settle cell_position[OF xy] p_def[symmetric] Let_def
    by (simp add: v_def)
qed

text \<open>The state \<open>t\<close> just before \<open>putcar\<close> wraps, scrolls and moves the cursor.\<close>

definition unsettled :: "u8 \<Rightarrow> screen \<Rightarrow> screen \<Rightarrow> bool" where
  "unsettled c s t \<longleftrightarrow> putcar c s = settle t \<and> unat (kX t) < 80 \<and> unat (kY t) \<le> 25 \<and> kattr t = kattr s \<and>
     (\<forall>a. off_screen a \<longrightarrow> vga t a = vga s a) \<and>
     term_put (kattr s) c (term_of s) = (if row (term_of t) = 25 then scroll_term (term_of t) else term_of t)"

lemma putcar_control:
  assumes ok: "screen_ok s" and c: "c = 10 \<or> c = 13 \<or> c = 9 \<and> unat (kX s) < 72"
  shows "\<exists>t. unsettled c s t"
proof -
  have xy: "unat (kX s) < 80" "unat (kY s) < 25" using ok by (simp_all add: screen_ok_def)
  have y: "unat (kY s + 1) = unat (kY s) + 1" using xy(2) by (intro incr_u8) simp
  consider (nl) "c = 10" | (cr) "c = 13" | (tab) "c = 9" "unat (kX s) < 72" using c by blast
  then show ?thesis
  proof cases
    case nl
    with xy y show ?thesis
      by (intro exI[of _ "s\<lparr>kX := 0, kY := kY s + 1\<rparr>"]) (simp add: unsettled_def putcar_settle term_put_def term_of_def)
  next
    case cr
    with xy show ?thesis by (intro exI[of _ "s\<lparr>kX := 0\<rparr>"]) (simp add: unsettled_def putcar_settle term_put_def term_of_def)
  next
    case tab
    define w where "w = (word_of_int (sint (kX s) + 8 - sint (kX s) smod 8) :: u8)"
    have "putcar c s = settle (s\<lparr>kX := w\<rparr>)" unfolding putcar_settle w_def tab by simp
    moreover have "unat w = (unat (kX s) div 8 + 1) * 8" unfolding w_def using tab(2) by (intro tab_word) simp
    ultimately show ?thesis using tab xy
      by (intro exI[of _ "s\<lparr>kX := w\<rparr>"]) (simp add: unsettled_def term_put_def term_of_def)
  qed
qed

lemma putcar_char:
  assumes ok: "screen_ok s" and c: "c \<noteq> 10" "c \<noteq> 9" "c \<noteq> 13"
  shows "\<exists>t. unsettled c s t"
proof -
  have xy: "unat (kX s) < 80" "unat (kY s) < 25" using ok by (simp_all add: screen_ok_def)
  have inc: "unat (kY s + 1) = unat (kY s) + 1" "unat (kX s + 1) = unat (kX s) + 1" using xy by (intro incr_u8, simp)+
  define p where "p = 80 * unat (kY s) + unat (kX s)"
  have p: "p < 2000" using xy by (simp add: p_def)
  have pos: "80 * row (term_of s) + col (term_of s) = p" by (simp add: p_def term_of_def)
  note cells = vga_cells_put[OF p] and off_p = off_screen_cell[OF p]
  let ?s = "s\<lparr>vga := (vga s)(cell_addr p := c, cell_addr p + 1 := kattr s)\<rparr>"
  define t where "t = (if unat (kX s) = 79 then ?s\<lparr>kX := 0, kY := kY s + 1\<rparr> else ?s\<lparr>kX := kX s + 1\<rparr>)"
  have "term_of t = (term_of s)\<lparr>cell := (cell (term_of s))(p := (c, kattr s)),
      col := (if unat (kX s) = 79 then 0 else col (term_of s) + 1), row := (if unat (kX s) = 79 then row (term_of s) + 1 else row (term_of s))\<rparr>"
    by (simp add: t_def term_of_def cells inc)
  then have "term_put (kattr s) c (term_of s) = (if row (term_of t) = 25 then scroll_term (term_of t) else term_of t)"
    using c xy by (simp add: term_put_def pos) (simp add: term_of_def)
  moreover have "putcar c s = settle t" using putcar_plain[OF ok c, folded p_def] by (simp add: t_def)
  moreover have "vga t a = vga s a" if "off_screen a" for a using off_p[OF that] by (simp add: t_def)
  moreover have "unat (kX t) < 80" "unat (kY t) \<le> 25" "kattr t = kattr s" using xy by (simp_all add: t_def inc)
  ultimately show ?thesis by (auto simp: unsettled_def)
qed

lemma putcar_term:
  assumes ok: "screen_ok s" and c: "c \<noteq> 9 \<or> unat (kX s) < 72"
  shows "term_of (putcar c s) = term_put (kattr s) c (term_of s)" "screen_ok (putcar c s)"
    "kattr (putcar c s) = kattr s" "off_screen a \<Longrightarrow> vga (putcar c s) a = vga s a"
proof -
  obtain t where u: "unsettled c s t" using putcar_control[OF ok, of c] putcar_char[OF ok, of c] c by auto
  then have t: "putcar c s = settle t" "unat (kX t) < 80" "unat (kY t) \<le> 25" "kattr t = kattr s" "off_screen a \<Longrightarrow> vga t a = vga s a"
    "term_put (kattr s) c (term_of s) = (if row (term_of t) = 25 then scroll_term (term_of t) else term_of t)"
    by (simp_all add: unsettled_def)
  show "term_of (putcar c s) = term_put (kattr s) c (term_of s)" "screen_ok (putcar c s)"
    "kattr (putcar c s) = kattr s" "off_screen a \<Longrightarrow> vga (putcar c s) a = vga s a"
    using settle_term(1-3)[OF t(2,3)] settle_term(4)[OF t(2,3), of a] t by simp_all
qed

text \<open>A tab in the last eight columns leaves the cursor right of the screen.\<close>

lemma putcar_late_tab:
  assumes ok: "screen_ok s" and x: "72 \<le> unat (kX s)"
  shows "putcar 9 s = update_cursor (s\<lparr>kX := 80\<rparr>)"
proof -
  have xy: "unat (kX s) < 80" "unat (kY s) < 25" using ok by (simp_all add: screen_ok_def)
  have "unat (kX s) div 8 = 9" using x xy(1) by simp
  define w where "w = (word_of_int (sint (kX s) + 8 - sint (kX s) smod 8) :: u8)"
  have "unat w = 80" using tab_word[of "kX s"] xy(1) \<open>unat (kX s) div 8 = 9\<close> unfolding w_def by simp
  then have w: "w = 80" by (simp add: word_unat_eq_iff)
  have "sint (kY s) = int (unat (kY s))" using xy(2) by (intro sint_u8) simp
  then have "\<not> sint (kY s) > 24" using xy(2) by linarith
  moreover have "putcar 9 s = settle (s\<lparr>kX := w\<rparr>)" unfolding putcar_settle w_def by simp
  ultimately show ?thesis by (simp add: w settle_def)
qed

lemma late_tab_term:
  assumes ok: "screen_ok s" and x: "72 \<le> unat (kX s)"
  shows "term_of (putcar 9 s) = term_put a 9 (term_of s)" "\<not> screen_ok (putcar 9 s)" "vga (putcar 9 s) = vga s"
    "crtc_reg (putcar 9 s) = crtc_reg (update_cursor (s\<lparr>kX := 80\<rparr>))" "unat (kX (putcar 9 s)) = 80" "kY (putcar 9 s) = kY s"
proof -
  have xy: "unat (kX s) < 80" "unat (kY s) \<noteq> 25" using ok by (simp_all add: screen_ok_def)
  have "unat (kX s) div 8 = 9" using x xy(1) by simp
  with xy(2) show "term_of (putcar 9 s) = term_put a 9 (term_of s)" by (simp add: putcar_late_tab[OF assms] term_of_def term_put_def)
qed (simp_all add: putcar_late_tab[OF assms] screen_ok_def)

lemma update_cursor_position:
  assumes "unat (kX s) \<le> 80" and "unat (kY s) < 25"
  shows "ucast (crtc_reg (update_cursor s) 0x0E) * 256 + ucast (crtc_reg (update_cursor s) 0x0F) =
    (of_nat (80 * unat (kY s) + unat (kX s)) :: u16)"
proof -
  have "sint (kX s) = int (unat (kX s))" "sint (kY s) = int (unat (kY s))"
    using assms by (intro sint_u8; simp)+
  then have "sint (kY s) * 80 + sint (kX s) = int (80 * unat (kY s) + unat (kX s))" by simp
  then have pos: "word_of_int (sint (kY s) * 80 + sint (kX s)) = (of_nat (80 * unat (kY s) + unat (kX s)) :: u16)"
    by (simp only: of_int_of_nat_eq)
  have "ucast (ucast (drop_bit 8 w) :: u8) * 256 + ucast (ucast w :: u8) = w" for w :: u16
  proof -
    have "ucast (ucast (drop_bit 8 w) :: u8) * 256 = push_bit 8 (ucast (ucast (drop_bit 8 w) :: u8) :: u16)"
      by (simp add: push_bit_eq_mult)
    moreover have "push_bit 8 (ucast (ucast (drop_bit 8 w) :: u8)) AND ucast (ucast w :: u8) = (0 :: u16)"
      by (rule bit_word_eqI) (auto simp: bit_simps)
    then have "push_bit 8 (ucast (ucast (drop_bit 8 w) :: u8)) + ucast (ucast w :: u8) =
        push_bit 8 (ucast (ucast (drop_bit 8 w) :: u8)) OR (ucast (ucast w :: u8) :: u16)"
      by (rule disjunctive_add_eq_or)
    moreover have "push_bit 8 (ucast (ucast (drop_bit 8 w) :: u8)) OR (ucast (ucast w :: u8)) = w"
      by (rule bit_word_eqI) (auto simp: bit_simps)
    ultimately show ?thesis by (simp only:)
  qed
  then show ?thesis unfolding update_cursor_regs pos .
qed

lemma settle_cursor:
  "crtc_reg (settle s) r = crtc_reg (update_cursor (settle s)) r" if "r = 0x0E \<or> r = 0x0F"
  using that by (auto simp: settle_def update_cursor_regs)

section \<open>Printing strings\<close>

primrec plain_text :: "u8 list \<Rightarrow> bool" where
  "plain_text [] \<longleftrightarrow> True"
| "plain_text (c # cs) \<longleftrightarrow> c \<noteq> 9 \<and> c \<noteq> 0 \<and> plain_text cs"

lemma print_term:
  "screen_ok s \<Longrightarrow> plain_text cs \<Longrightarrow>
   term_of (print cs s) = fold (term_put (kattr s)) cs (term_of s) \<and> screen_ok (print cs s) \<and>
   kattr (print cs s) = kattr s \<and> (\<forall>a. off_screen a \<longrightarrow> vga (print cs s) a = vga s a)"
proof (induction cs arbitrary: s)
  case (Cons c cs)
  then show ?case using putcar_term[of s c] by simp
qed simp

lemma print_append: "plain_text cs \<Longrightarrow> print (cs @ ds) s = print ds (print cs s)"
  by (induction cs arbitrary: s) auto

section \<open>Properties\<close>

definition blank_screen :: screen where
  "blank_screen = \<lparr>kX = 0, kY = 0, kattr = 0x07, vga = (\<lambda>_. 0), crtc_index = 0, crtc_reg = (\<lambda>_. 0)\<rparr>"

lemma blank_screen_ok: "screen_ok blank_screen"
  by (simp add: screen_ok_def blank_screen_def)

text \<open>The row and the column the registers of the hardware cursor stand for.\<close>

definition cursor_at :: "screen \<Rightarrow> u16" where
  "cursor_at s = ucast (crtc_reg s 0x0E) * 256 + ucast (crtc_reg s 0x0F)"

text \<open>C26: From a screen with the cursor on it, \<open>putcar\<close> does what a terminal of 25 rows and 80 columns
  does with any character: newline, carriage return, tab stops, wrapping at the last column and
  scrolling by one row included. It writes no byte outside the text buffer, and the hardware cursor
  shows the new position. The cursor is on the screen again, so that the next character may follow,
  except after a tab in the last eight columns, which leaves it in column 80.\<close>

theorem putcar_refines_terminal:
  assumes ok: "screen_ok s"
  shows "term_of (putcar c s) = term_put (kattr s) c (term_of s) \<and> (\<forall>a. off_screen a \<longrightarrow> vga (putcar c s) a = vga s a) \<and>
    cursor_at (putcar c s) = of_nat (80 * row (term_of (putcar c s)) + col (term_of (putcar c s))) \<and>
    (screen_ok (putcar c s) \<longleftrightarrow> \<not> (c = 9 \<and> 72 \<le> unat (kX s)))"
proof (cases "c = 9 \<and> 72 \<le> unat (kX s)")
  case True
  with late_tab_term[OF ok] update_cursor_position[of "s\<lparr>kX := 80\<rparr>"] ok show ?thesis
    by (simp add: cursor_at_def screen_ok_def) (simp add: term_of_def)
next
  case False
  then have "c \<noteq> 9 \<or> unat (kX s) < 72" by auto
  note p = putcar_term[OF ok this]
  have "crtc_reg (putcar c s) r = crtc_reg (update_cursor (putcar c s)) r" if "r = 0x0E \<or> r = 0x0F" for r
    unfolding putcar_settle using that by (rule settle_cursor)
  then have "crtc_reg (putcar c s) 0x0E = crtc_reg (update_cursor (putcar c s)) 0x0E"
    "crtc_reg (putcar c s) 0x0F = crtc_reg (update_cursor (putcar c s)) 0x0F" by blast+
  moreover have "row (term_of (putcar c s)) = unat (kY (putcar c s))" "col (term_of (putcar c s)) = unat (kX (putcar c s))"
    by (simp_all add: term_of_def)
  moreover have "unat (kX (putcar c s)) \<le> 80" "unat (kY (putcar c s)) < 25" using p(2) by (simp_all add: screen_ok_def)
  ultimately have "cursor_at (putcar c s) = of_nat (80 * row (term_of (putcar c s)) + col (term_of (putcar c s)))"
    using update_cursor_position[of "putcar c s"] by (simp only: cursor_at_def)
  with p False show ?thesis by blast
qed

theorem putcar_refines_terminal_witness:
  "term_of (putcar 0x41 blank_screen) = term_put 0x07 0x41 (term_of blank_screen) \<and> screen_ok (putcar 0x41 blank_screen)"
  using putcar_refines_terminal[OF blank_screen_ok, of "0x41"] by (simp add: blank_screen_def)

text \<open>Printing a string without tabs puts its characters on the terminal one after the other with
  the current attribute, scrolling as needed, and leaves everything outside the text buffer alone.\<close>

theorem print_refines_terminal:
  assumes "screen_ok s" and "plain_text cs"
  shows "term_of (print cs s) = fold (term_put (kattr s)) cs (term_of s) \<and> screen_ok (print cs s) \<and>
    (\<forall>a. off_screen a \<longrightarrow> vga (print cs s) a = vga s a)"
  using print_term[OF assms] by blast

theorem print_refines_terminal_witness:
  "screen_ok (print (cstr ''hola'') blank_screen) \<and> cell (term_of (print (cstr ''hola'') blank_screen)) 1 = (0x6F, 0x07)"
proof -
  have t: "plain_text (cstr ''hola'')" by (simp add: cstr_def of_char_def)
  from print_refines_terminal[OF blank_screen_ok t] show ?thesis
    by (simp add: term_of_def blank_screen_def cstr_def of_char_def term_put_def Let_def)
qed

text \<open>A tab in the last eight columns is not bounded: on the last row the next character is written
  at the first address past the text buffer, outside the screen's memory.\<close>

theorem putcar_tab_leaves_screen:
  assumes "screen_ok s" and "72 \<le> unat (kX s)" and "kY s = 24" and "c \<noteq> 10" and "c \<noteq> 9" and "c \<noteq> 13"
  shows "vga (putcar c (putcar 9 s)) SCREENLIM = c \<and> off_screen SCREENLIM"
proof -
  have tab: "putcar 9 s = update_cursor (s\<lparr>kX := 80\<rparr>)" by (rule putcar_late_tab[OF assms(1,2)])
  have put: "putcar c u = settle (u\<lparr>vga := (vga u)(SCREENLIM := c, SCREENLIM + 1 := kattr u), kX := 0, kY := 25\<rparr>)"
    if "kX u = 80" "kY u = 24" for u
    using assms(4-6) that unfolding putcar_settle by simp
  have off: "off_screen SCREENLIM" by (simp add: off_screen_def)
  have "vga (settle (u\<lparr>vga := v, kX := 0, kY := 25\<rparr>)) SCREENLIM = v SCREENLIM" for u v
    using settle_term(4)[OF _ _ off, of "u\<lparr>vga := v, kX := 0, kY := 25\<rparr>"] by simp
  with off assms(3) show ?thesis by (simp add: tab put)
qed

theorem putcar_tab_leaves_screen_witness:
  "vga (putcar 0x41 (putcar 9 (blank_screen\<lparr>kX := 75, kY := 24\<rparr>))) SCREENLIM = 0x41"
  using putcar_tab_leaves_screen[of "blank_screen\<lparr>kX := 75, kY := 24\<rparr>" "0x41"] by (simp add: screen_ok_def)

end
