(* ===== verification/Keyboard.thy ===== *)
theory Keyboard
  imports Screen Scheduler
begin

text \<open>
  \<^verbatim>\<open>drivers/keyboard.c\<close>: the ring buffer between the keyboard interrupt and \<^verbatim>\<open>sys_getchar\<close>, the
  scancode table and the handler, with its echo and its Ctrl+C. The locale \<open>bounded_queue\<close> is
  what a producer and a consumer rely on; the ring buffer is its model.
\<close>

section \<open>State and operations\<close>

abbreviation (input) "KB_BUF_SIZE \<equiv> (64 :: nat)"

record keyboard =
  kb_buf :: "u8 list"
  kb_head :: nat
  kb_tail :: nat
  ctrl_held :: bool

definition kb_getchar :: "keyboard \<Rightarrow> u8 \<times> keyboard" where
  "kb_getchar k =
     (if kb_head k = kb_tail k then (0, k)
      else (kb_buf k ! kb_tail k, k\<lparr>kb_tail := (kb_tail k + 1) mod KB_BUF_SIZE\<rparr>))"

definition kbmap :: "u8 list" where
  "kbmap =
     [0, 0] @ cstr ''123456'' @
     cstr ''7890-='' @ [0, 0] @
     cstr ''qwertyui'' @
     cstr ''op[]'' @ [10, 0] @ cstr ''as'' @
     cstr ''dfghjkl;'' @
     [0x27] @ cstr ''`'' @ [0, 0x5C] @ cstr ''zxcv'' @
     cstr ''bnm,./'' @ [0] @ cstr ''*'' @
     [0] @ cstr '' '' @ [0, 0, 0, 0, 0, 0] @
     [0, 0, 0, 0, 0, 0, 0] @ cstr ''7'' @
     cstr ''89-456+1'' @
     cstr ''230.'' @ [0, 0, 0, 0]"

text \<open>\<^verbatim>\<open>next = (kb_head + 1) % KB_BUF_SIZE; if (next != kb_tail) ...\<close>\<close>

definition kb_put :: "u8 \<Rightarrow> keyboard \<Rightarrow> keyboard" where
  "kb_put c k =
     (let next = (kb_head k + 1) mod KB_BUF_SIZE
      in if next \<noteq> kb_tail k then k\<lparr>kb_buf := (kb_buf k)[kb_head k := c], kb_head := next\<rparr> else k)"

definition keyboard_handler :: "u8 \<Rightarrow> keyboard \<times> screen \<times> sched \<Rightarrow> keyboard \<times> screen \<times> sched" where
  "keyboard_handler scancode = (\<lambda>(k, d, s).
     if scancode = 0x1D then (k\<lparr>ctrl_held := True\<rparr>, d, s)
     else if scancode = 0x9D then (k\<lparr>ctrl_held := False\<rparr>, d, s)
     else if scancode AND 0x80 \<noteq> 0 then (k, d, s)
     else if length kbmap \<le> unat scancode then (k, d, s)
     else
       let c = kbmap ! unat scancode in
       if c = 0 then (k, d, s)
       else if ctrl_held k \<and> c = of_char (CHR ''c'') then
         let d = set_kattr 0x0C d;
             d = putcar (of_char (CHR ''^'')) d;
             d = putcar (of_char (CHR ''C'')) d;
             d = putcar 10 d
         in (k, d, sched_signal (int SIGINT) s)
       else (kb_put c k, putcar c (set_kattr 0x0F d), s))"

definition init_keyboard :: "keyboard \<Rightarrow> keyboard" where
  "init_keyboard k = k"

section \<open>The queue it implements\<close>

definition kb_inv :: "keyboard \<Rightarrow> bool" where
  "kb_inv k \<longleftrightarrow> length (kb_buf k) = 64 \<and> kb_head k < 64 \<and> kb_tail k < 64"

definition kb_count :: "keyboard \<Rightarrow> nat" where
  "kb_count k = (kb_head k + 64 - kb_tail k) mod 64"

definition kb_queue :: "keyboard \<Rightarrow> u8 list" where
  "kb_queue k = map (\<lambda>i. kb_buf k ! ((kb_tail k + i) mod 64)) [0..<kb_count k]"

primrec drain :: "('q \<Rightarrow> u8 \<times> 'q) \<Rightarrow> nat \<Rightarrow> 'q \<Rightarrow> u8 list \<times> 'q" where
  "drain get 0 q = ([], q)"
| "drain get (Suc n) q = (let (c, q1) = get q; (cs, q2) = drain get n q1 in (c # cs, q2))"

text \<open>A queue of bounded capacity that drops what does not fit, and reads 0 when it is empty.\<close>

locale bounded_queue =
  fixes ok :: "'q \<Rightarrow> bool" and contents :: "'q \<Rightarrow> u8 list" and capacity :: nat
    and put :: "u8 \<Rightarrow> 'q \<Rightarrow> 'q" and get :: "'q \<Rightarrow> u8 \<times> 'q"
  assumes ok_put: "ok q \<Longrightarrow> ok (put c q)"
    and ok_get: "ok q \<Longrightarrow> ok (snd (get q))"
    and put_contents: "ok q \<Longrightarrow> contents (put c q) =
      (if length (contents q) < capacity then contents q @ [c] else contents q)"
    and get_cons: "ok q \<Longrightarrow> contents q = c # cs \<Longrightarrow> fst (get q) = c \<and> contents (snd (get q)) = cs"
    and get_nil: "ok q \<Longrightarrow> contents q = [] \<Longrightarrow> get q = (0, q)"
begin

lemma put_all:
  "ok q \<Longrightarrow> ok (fold put cs q) \<and> contents (fold put cs q) = contents q @ take (capacity - length (contents q)) cs"
proof (induction cs arbitrary: q)
  case (Cons c cs)
  show ?case
  proof (cases "length (contents q) < capacity")
    case True
    then have "capacity - length (contents q) = Suc (capacity - Suc (length (contents q)))" by simp
    then show ?thesis using Cons.IH[OF ok_put[OF Cons.prems]] Cons.prems True by (simp add: put_contents)
  next
    case False
    then show ?thesis using Cons.IH[OF ok_put[OF Cons.prems]] Cons.prems by (simp add: put_contents)
  qed
qed simp

text \<open>Any number of reads delivers what is waiting, in order, and then 0.\<close>

lemma drain_all: "ok q \<Longrightarrow> fst (drain get n q) = take n (contents q @ replicate n 0)"
proof (induction n arbitrary: q)
  case (Suc n)
  show ?case
  proof (cases "contents q")
    case Nil
    then show ?thesis using Suc.IH[OF Suc.prems] get_nil[OF Suc.prems Nil] by (simp add: case_prod_beta)
  next
    case (Cons c cs)
    then have "fst (get q) = c" "contents (snd (get q)) = cs" using get_cons[OF Suc.prems] by simp_all
    moreover have "take n (cs @ replicate n 0) = take n (cs @ replicate (Suc n) (0 :: u8))" by (simp only: take_append take_replicate) (simp add: min_def)
    ultimately show ?thesis using Suc.IH[OF ok_get[OF Suc.prems]] Cons by (simp only: drain.simps) (simp add: case_prod_beta)
  qed
qed simp

lemma fifo: "ok q \<Longrightarrow> length (contents q) \<le> capacity \<Longrightarrow>
  fst (drain get n (fold put cs q)) = take n (take capacity (contents q @ cs) @ replicate n 0)"
  using put_all[of q cs] drain_all[of "fold put cs q" n] by (simp del: take_append add: take_append[of capacity])

lemma contents_subset: "ok q \<Longrightarrow> set (contents (put c q)) \<subseteq> insert c (set (contents q))"
  by (auto simp: put_contents split: if_splits)

end

lemma kb_count_lt: "kb_count k < 64"
  by (simp add: kb_count_def)

lemma length_kb_queue [simp]: "length (kb_queue k) = kb_count k"
  by (simp add: kb_queue_def)

lemma kb_inv_put: "kb_inv k \<Longrightarrow> kb_inv (kb_put c k)"
  by (simp add: kb_inv_def kb_put_def Let_def)

lemma kb_inv_getchar: "kb_inv k \<Longrightarrow> kb_inv (snd (kb_getchar k))"
  by (simp add: kb_inv_def kb_getchar_def)

lemma ring_dist:
  assumes "h < 64" "t < 64"
  shows "(h + 64 - t) mod 64 = (if t \<le> h then h - t else h + 64 - t :: nat)"
proof (cases "t \<le> h")
  case True
  then have "h + 64 - t = h - t + 64" by linarith
  then have "(h + 64 - t) mod 64 = (h - t) mod 64" by (simp only: mod_add_self2)
  also have "\<dots> = h - t" using assms by (intro mod_less) linarith
  finally show ?thesis using True by (simp only: if_True)
next
  case False
  then have "(h + 64 - t) mod 64 = h + 64 - t" using assms by (intro mod_less) linarith
  with False show ?thesis by (simp only: if_False)
qed

lemma ring_Suc: "n < 64 \<Longrightarrow> (n + 1) mod 64 = (if n = 63 then 0 else n + 1 :: nat)"
proof (cases "n = 63")
  case False
  assume "n < 64"
  with False have "n + 1 < 64" by linarith
  with False show ?thesis by (simp only: mod_less if_False)
qed simp

lemma ring_index:
  assumes "h < 64" "t < 64"
  shows "(t + (h + 64 - t) mod 64) mod 64 = (h :: nat)"
    and "(h + 1) mod 64 = t \<longleftrightarrow> (h + 64 - t) mod 64 = (63 :: nat)"
    and "h = t \<longleftrightarrow> (h + 64 - t) mod 64 = (0 :: nat)"
    and "(h + 1) mod 64 \<noteq> t \<Longrightarrow> ((h + 1) mod 64 + 64 - t) mod 64 = (h + 64 - t) mod 64 + 1"
    and "h \<noteq> t \<Longrightarrow> (h + 64 - (t + 1) mod 64) mod 64 = (h + 64 - t) mod 64 - 1"
proof -
  have lt: "(n + 1) mod 64 < 64" for n :: nat by simp
  show "(t + (h + 64 - t) mod 64) mod 64 = h"
  proof (cases "t \<le> h")
    case True
    then show ?thesis unfolding ring_dist[OF assms] using assms by simp
  next
    case False
    then have "t + (h + 64 - t) = h + 64" using assms by linarith
    with False show ?thesis unfolding ring_dist[OF assms] using assms by (simp only: if_False mod_add_self2 mod_less)
  qed
  show "(h + 1) mod 64 = t \<longleftrightarrow> (h + 64 - t) mod 64 = 63"
    unfolding ring_dist[OF assms] ring_Suc[OF assms(1)] using assms by (cases "h = 63"; cases "t \<le> h") auto
  show "h = t \<longleftrightarrow> (h + 64 - t) mod 64 = 0"
    unfolding ring_dist[OF assms] using assms by auto
  show "(h + 1) mod 64 \<noteq> t \<Longrightarrow> ((h + 1) mod 64 + 64 - t) mod 64 = (h + 64 - t) mod 64 + 1"
    unfolding ring_dist[OF lt assms(2)] ring_dist[OF assms] unfolding ring_Suc[OF assms(1)]
    using assms by (cases "h = 63"; cases "t \<le> h") auto
  show "h \<noteq> t \<Longrightarrow> (h + 64 - (t + 1) mod 64) mod 64 = (h + 64 - t) mod 64 - 1"
    unfolding ring_dist[OF assms(1) lt] ring_dist[OF assms] unfolding ring_Suc[OF assms(2)]
    using assms by (cases "t = 63"; cases "t \<le> h") auto
qed

lemma ring_inj:
  assumes "i < j" "j < 64"
  shows "(t + i) mod 64 \<noteq> (t + j) mod (64 :: nat)"
proof
  assume "(t + i) mod 64 = (t + j) mod 64"
  then have "64 dvd (t + j) - (t + i)" using assms(1) by (subst mod_eq_dvd_iff_nat[symmetric]) simp_all
  then have "64 dvd j - i" by simp
  then have "64 \<le> j - i" using assms(1) by (intro dvd_imp_le) simp_all
  with assms show False by linarith
qed

lemma kb_queue_put:
  assumes "kb_inv k"
  shows "kb_queue (kb_put c k) = (if length (kb_queue k) < 63 then kb_queue k @ [c] else kb_queue k)"
proof -
  have k: "kb_head k < 64" "kb_tail k < 64" "length (kb_buf k) = 64" using assms by (simp_all add: kb_inv_def)
  note r = ring_index[OF k(1,2)]
  show ?thesis
  proof (cases "(kb_head k + 1) mod 64 = kb_tail k")
    case True
    then have "kb_count k = 63" using r(2) by (simp add: kb_count_def)
    with True show ?thesis by (simp add: kb_put_def Let_def)
  next
    case False
    then have "kb_count k \<noteq> 63" using r(2) by (simp add: kb_count_def)
    with kb_count_lt[of k] have n: "kb_count k < 63" by linarith
    let ?k = "k\<lparr>kb_buf := (kb_buf k)[kb_head k := c], kb_head := (kb_head k + 1) mod 64\<rparr>"
    have p: "kb_put c k = ?k" using False by (simp add: kb_put_def Let_def)
    have cnt: "kb_count ?k = kb_count k + 1" using r(4)[OF False] by (simp add: kb_count_def)
    have h: "(kb_tail k + kb_count k) mod 64 = kb_head k" using r(1) by (simp add: kb_count_def)
    have "(kb_buf k)[kb_head k := c] ! ((kb_tail k + i) mod 64) = kb_buf k ! ((kb_tail k + i) mod 64)" if "i < kb_count k" for i
      using ring_inj[OF that kb_count_lt, of "kb_tail k"] h by simp
    moreover have "(kb_buf k)[kb_head k := c] ! ((kb_tail k + kb_count k) mod 64) = c"
      unfolding h using k by simp
    ultimately have "kb_queue ?k = kb_queue k @ [c]"
      unfolding kb_queue_def cnt by simp
    with n p show ?thesis by simp
  qed
qed

lemma kb_queue_getchar:
  assumes "kb_inv k"
  shows "if kb_queue k = [] then kb_getchar k = (0, k)
    else fst (kb_getchar k) = hd (kb_queue k) \<and> kb_queue (snd (kb_getchar k)) = tl (kb_queue k)"
proof -
  have k: "kb_head k < 64" "kb_tail k < 64" "length (kb_buf k) = 64" using assms by (simp_all add: kb_inv_def)
  note r = ring_index[OF k(1,2)]
  have nil: "kb_queue k = [] \<longleftrightarrow> kb_head k = kb_tail k"
    using r(3) by (simp add: kb_queue_def kb_count_def)
  show ?thesis
  proof (cases "kb_head k = kb_tail k")
    case False
    let ?k = "k\<lparr>kb_tail := (kb_tail k + 1) mod 64\<rparr>"
    have n0: "kb_count k \<noteq> 0" using False r(3) by (simp add: kb_count_def)
    then obtain n where n: "kb_count k = Suc n" by (cases "kb_count k") auto
    have cnt: "kb_count ?k = n" using r(5)[OF False] n by (simp add: kb_count_def)
    have u: "[0..<Suc n] = 0 # map Suc [0..<n]" by (simp only: map_Suc_upt upt_conv_Cons zero_less_Suc)
    have i: "(Suc (kb_tail k) mod 64 + i) mod 64 = Suc (kb_tail k + i) mod 64" for i
      by (simp add: mod_add_left_eq)
    have "kb_queue k = kb_buf k ! kb_tail k # kb_queue ?k"
      unfolding kb_queue_def cnt n u using k(2) by (simp add: i)
    with False show ?thesis by (simp add: kb_getchar_def)
  qed (simp add: nil kb_getchar_def)
qed

interpretation kbq: bounded_queue kb_inv kb_queue 63 kb_put kb_getchar
proof unfold_locales
  fix q c cs assume ok: "kb_inv q"
  show "kb_inv (kb_put c q)" using ok by (rule kb_inv_put)
  show "kb_inv (snd (kb_getchar q))" using ok by (rule kb_inv_getchar)
  show "kb_queue (kb_put c q) = (if length (kb_queue q) < 63 then kb_queue q @ [c] else kb_queue q)"
    using ok by (rule kb_queue_put)
  show "kb_queue q = c # cs \<Longrightarrow> fst (kb_getchar q) = c \<and> kb_queue (snd (kb_getchar q)) = cs"
    using kb_queue_getchar[OF ok] by simp
  show "kb_queue q = [] \<Longrightarrow> kb_getchar q = (0, q)"
    using kb_queue_getchar[OF ok] by simp
qed

section \<open>Properties\<close>

definition idle_keyboard :: keyboard where
  "idle_keyboard = \<lparr>kb_buf = replicate 64 0, kb_head = 0, kb_tail = 0, ctrl_held = False\<rparr>"

lemma idle_keyboard: "kb_inv idle_keyboard" "kb_queue idle_keyboard = []"
  by (simp_all add: idle_keyboard_def kb_inv_def kb_queue_def kb_count_def)

text \<open>The character of a key press that is echoed and queued, if any.\<close>

definition key_char :: "u8 \<Rightarrow> u8 option" where
  "key_char sc = (if sc \<noteq> 0x1D \<and> sc \<noteq> 0x9D \<and> sc AND 0x80 = 0 \<and> unat sc < length kbmap \<and> kbmap ! unat sc \<noteq> 0
     then Some (kbmap ! unat sc) else None)"

lemma handler_key:
  "key_char sc = Some c \<Longrightarrow> \<not> (ctrl_held k \<and> c = of_char (CHR ''c'')) \<Longrightarrow>
   keyboard_handler sc (k, d, s) = (kb_put c k, putcar c (set_kattr 0x0F d), s)"
  by (auto simp: key_char_def keyboard_handler_def Let_def split: if_splits)

lemma handler_no_key:
  "key_char sc = None \<Longrightarrow> keyboard_handler sc (k, d, s) =
     (k\<lparr>ctrl_held := (if sc = 0x1D then True else if sc = 0x9D then False else ctrl_held k)\<rparr>, d, s)"
  by (auto simp: key_char_def keyboard_handler_def Let_def split: if_splits)

lemma handler_ctrl_c:
  "key_char sc = Some (of_char (CHR ''c'')) \<Longrightarrow> ctrl_held k \<Longrightarrow>
   keyboard_handler sc (k, d, s) = (k, print (cstr ''^C'' @ [10]) (set_kattr 0x0C d), sched_signal (int SIGINT) s)"
  by (auto simp: key_char_def keyboard_handler_def Let_def cstr_def of_char_def split: if_splits)

text \<open>Key presses, with no Ctrl among them: the characters of the keys that have one are put in order.\<close>

lemma handler_presses:
  "\<lbrakk>kb_inv k; \<not> ctrl_held k; 0x1D \<notin> set scs\<rbrakk> \<Longrightarrow> fst (fold keyboard_handler scs (k, d, s)) = fold kb_put (List.map_filter key_char scs) k"
proof (induction scs arbitrary: k d)
  case (Cons sc scs)
  show ?case
  proof (cases "key_char sc")
    case None
    have "k\<lparr>ctrl_held := (if sc = 0x1D then True else if sc = 0x9D then False else ctrl_held k)\<rparr> = k" using Cons.prems(2,3) by simp
    then have "keyboard_handler sc (k, d, s) = (k, d, s)" using handler_no_key[OF None, of k d s] by metis
    then show ?thesis using Cons None by (simp add: map_filter_simps)
  next
    case (Some c)
    have "\<not> ctrl_held (kb_put c k)" using Cons.prems(2) by (simp add: kb_put_def Let_def)
    then show ?thesis using Cons.IH[OF kb_inv_put[OF Cons.prems(1)]] Cons.prems handler_key[OF Some] Some by (simp add: map_filter_simps)
  qed
qed (simp add: map_filter_simps)

text \<open>C27: The ring buffer is a first-in first-out queue of 63 characters that drops what does not fit:
  whatever was waiting and whatever scancodes arrive while Ctrl is up, any number of reads returns the
  characters that were waiting, then those of the keys pressed in the order pressed, of all these the
  first 63 only, and 0 from then on.\<close>

theorem keyboard_fifo:
  assumes "kb_inv k" and "\<not> ctrl_held k" and "0x1D \<notin> set scs"
  shows "fst (drain kb_getchar n (fst (fold keyboard_handler scs (k, d, s)))) =
    take n (take 63 (kb_queue k @ List.map_filter key_char scs) @ replicate n 0)"
proof -
  have "length (kb_queue k) \<le> 63" using kb_count_lt[of k] by simp
  then show ?thesis unfolding handler_presses[OF assms] by (rule kbq.fifo[OF assms(1)])
qed

theorem keyboard_fifo_witness:
  "fst (drain kb_getchar 65 (fst (fold keyboard_handler (replicate 64 0x26 @ [0x1F]) (idle_keyboard, blank_screen, blank_sched)))) =
   replicate 63 (of_char (CHR ''l'')) @ [0, 0]"
proof -
  have k: "key_char 0x26 = Some (of_char (CHR ''l''))" "key_char 0x1F = Some (of_char (CHR ''s''))"
    by (simp_all add: key_char_def kbmap_def cstr_def of_char_def)
  have "List.map_filter key_char (replicate n 0x26) = replicate n (of_char (CHR ''l''))" for n
    by (induction n) (simp_all add: k map_filter_simps)
  then have m: "List.map_filter key_char (replicate 64 0x26 @ [0x1F]) = replicate 64 (of_char (CHR ''l'')) @ [of_char (CHR ''s'')]"
    by (simp add: map_filter_def k)
  have "\<not> ctrl_held idle_keyboard" "0x1D \<notin> set (replicate 64 0x26 @ [0x1F :: u8])" by (simp_all add: idle_keyboard_def)
  note f = keyboard_fifo[OF idle_keyboard(1) this, of 65 blank_screen blank_sched, unfolded m idle_keyboard(2) append_Nil]
  have "take 65 (take 63 (replicate 64 a @ [b]) @ replicate 65 0) = replicate 63 a @ [0, 0]" for a b :: u8
    by (simp only: take_append take_replicate) (simp add: numeral_2_eq_2)
  then show ?thesis unfolding f .
qed

text \<open>Ctrl+C does not reach the reader: with Ctrl held, the key \<^verbatim>\<open>c\<close> echoes \<^verbatim>\<open>^C\<close> and a newline in
  red, marks SIGINT pending for the running task and leaves the ring buffer as it was; Ctrl itself and
  key releases only change the Ctrl flag.\<close>

theorem keyboard_ctrl_c_signals:
  assumes "sched_inv s" and "cur_task s = Some c" and "kb_inv k"
  shows "\<exists>k1. keyboard_handler 0x1D (k, d, s) = (k1, d, s) \<and> kb_queue k1 = kb_queue k \<and>
    (\<exists>d' s'. keyboard_handler 0x2E (k1, d, s) = (k1, d', s') \<and>
      d' = print (cstr ''^C'' @ [10]) (set_kattr 0x0C d) \<and> cur_task s' = Some c \<and>
      bit (t_sig_pending (task_pool s' ! c)) 2 \<and> sched_inv s' \<and> same_contexts s s')"
proof -
  let ?k = "k\<lparr>ctrl_held := True\<rparr>" and ?s = "sched_signal (int SIGINT) s"
  have key: "key_char 0x2E = Some (of_char (CHR ''c''))"
    by (simp add: key_char_def kbmap_def cstr_def of_char_def)
  have c: "c < length (task_pool s)" using sched_cur[OF assms(1,2)] by simp
  have sg: "?s = update_task c (\<lambda>t. t\<lparr>t_sig_pending := t_sig_pending t OR push_bit 2 1\<rparr>) s"
    by (simp add: sched_signal_def assms(2))
  have "sched_inv ?s" unfolding sg using assms(1) by (rule sched_inv_update_task) (simp add: task_ok_def)
  moreover have "same_contexts s ?s" unfolding sg by (rule same_contexts_update) simp
  moreover have "bit (t_sig_pending (task_pool ?s ! c)) 2"
    unfolding sg update_task_nth[OF c] by (simp add: bit_simps)
  moreover have "cur_task ?s = Some c" unfolding sg by (simp add: assms(2))
  moreover have "keyboard_handler 0x1D (k, d, s) = (?k, d, s)" by (simp add: keyboard_handler_def)
  moreover have "kb_queue ?k = kb_queue k" by (simp add: kb_queue_def kb_count_def)
  moreover have "keyboard_handler 0x2E (?k, d, s) = (?k, print (cstr ''^C'' @ [10]) (set_kattr 0x0C d), ?s)"
    using handler_ctrl_c[OF key, of ?k d s] by simp
  ultimately show ?thesis by blast
qed

theorem keyboard_ctrl_c_signals_witness:
  "bit (t_sig_pending (task_pool (snd (snd (fold keyboard_handler [0x1D, 0x2E] (idle_keyboard, blank_screen, two_tasks)))) ! 0)) 2"
  using keyboard_ctrl_c_signals[OF two_tasks_state(1,3) idle_keyboard(1), of blank_screen] by force

text \<open>No key produces a backspace: whatever is typed, the characters waiting in the ring buffer are
  never 8 or 127, the two codes the shell's line editor deletes on.\<close>

theorem keyboard_never_backspace:
  assumes "kb_inv k" and "kb_queue k = []"
  shows "8 \<notin> set (kb_queue (fst (fold keyboard_handler scs (k, d, s)))) \<and>
    127 \<notin> set (kb_queue (fst (fold keyboard_handler scs (k, d, s))))"
proof -
  have step: "kb_inv (fst (keyboard_handler sc \<sigma>)) \<and>
      set (kb_queue (fst (keyboard_handler sc \<sigma>))) \<subseteq> set (kb_queue (fst \<sigma>)) \<union> set kbmap"
    if "kb_inv (fst \<sigma>)" for sc \<sigma>
  proof -
    obtain k d s where \<sigma>: "\<sigma> = (k, d, s)" by (cases \<sigma>) auto
    have u: "kb_queue (k\<lparr>ctrl_held := b\<rparr>) = kb_queue k" "kb_inv (k\<lparr>ctrl_held := b\<rparr>) = kb_inv k" for b
      by (simp_all add: kb_queue_def kb_count_def kb_inv_def)
    show ?thesis
    proof (cases "key_char sc")
      case None
      with that show ?thesis by (simp add: \<sigma> handler_no_key u)
    next
      case (Some c)
      then have c: "c \<in> set kbmap" by (auto simp: key_char_def split: if_splits)
      have "fst (keyboard_handler sc \<sigma>) = k \<or> fst (keyboard_handler sc \<sigma>) = kb_put c k"
        using handler_key[OF Some] handler_ctrl_c[of sc k] Some by (cases "ctrl_held k \<and> c = of_char (CHR ''c'')") (auto simp: \<sigma>)
      with that c kbq.contents_subset[of k c] kb_inv_put[of k c] show ?thesis by (auto simp: \<sigma>)
    qed
  qed
  have "kb_inv (fst \<sigma>) \<Longrightarrow> set (kb_queue (fst (fold keyboard_handler scs \<sigma>))) \<subseteq> set (kb_queue (fst \<sigma>)) \<union> set kbmap" for \<sigma>
  proof (induction scs arbitrary: \<sigma>)
    case (Cons sc scs)
    from step[OF Cons.prems, of sc] Cons.IH[of "keyboard_handler sc \<sigma>"] show ?case by auto
  qed simp
  from this[of "(k, d, s)"] assms have "set (kb_queue (fst (fold keyboard_handler scs (k, d, s)))) \<subseteq> set kbmap" by simp
  moreover have "8 \<notin> set kbmap" "127 \<notin> set kbmap" by (simp_all add: kbmap_def cstr_def of_char_def)
  ultimately show ?thesis by blast
qed

theorem keyboard_never_backspace_witness:
  "8 \<notin> set (kb_queue (fst (fold keyboard_handler [0x26, 0x0E] (idle_keyboard, blank_screen, blank_sched))))"
  using keyboard_never_backspace[OF idle_keyboard] by blast

end
