(* ===== verification/IDE.thy ===== *)
theory IDE
  imports Pepin_Prelude
begin

text \<open>
  \<^verbatim>\<open>drivers/ide.c\<close>: reading and writing one sector by programmed I/O. The disk is not part of
  the program: it is a bus of port operations over a device state, an argument of every
  function. What the driver relies on is the documented behaviour of an ATA device, the
  hypothesis \<open>ata_device\<close>, which promises something only where the driver keeps to the protocol
  (drive 0, LBA mode, one sector, no register written during a transfer); a waiting loop that
  never ends is \<open>None\<close>.
\<close>

section \<open>Operations\<close>

record 'd bus =
  bus_inb :: "u16 \<Rightarrow> 'd \<Rightarrow> u8 \<times> 'd"
  bus_outb :: "u16 \<Rightarrow> u8 \<Rightarrow> 'd \<Rightarrow> 'd"
  bus_inw :: "u16 \<Rightarrow> 'd \<Rightarrow> u16 \<times> 'd"
  bus_outw :: "u16 \<Rightarrow> u16 \<Rightarrow> 'd \<Rightarrow> 'd"

abbreviation (input) "IDE_DATA \<equiv> (0x1F0 :: u16)"
abbreviation (input) "IDE_SECCOUNT \<equiv> (0x1F2 :: u16)"
abbreviation (input) "IDE_LBA_LO \<equiv> (0x1F3 :: u16)"
abbreviation (input) "IDE_LBA_MID \<equiv> (0x1F4 :: u16)"
abbreviation (input) "IDE_LBA_HI \<equiv> (0x1F5 :: u16)"
abbreviation (input) "IDE_DRIVE_HEAD \<equiv> (0x1F6 :: u16)"
abbreviation (input) "IDE_STATUS \<equiv> (0x1F7 :: u16)"
abbreviation (input) "IDE_COMMAND \<equiv> (0x1F7 :: u16)"
abbreviation (input) "IDE_SR_BSY \<equiv> (0x80 :: u8)"
abbreviation (input) "IDE_SR_DRQ \<equiv> (0x08 :: u8)"
abbreviation (input) "IDE_SR_ERR \<equiv> (0x01 :: u8)"
abbreviation (input) "IDE_CMD_READ \<equiv> (0x20 :: u8)"
abbreviation (input) "IDE_CMD_WRITE \<equiv> (0x30 :: u8)"
abbreviation (input) "IDE_CMD_FLUSH \<equiv> (0xE7 :: u8)"

partial_function (option) ide_wait_ready :: "'d bus \<Rightarrow> 'd \<Rightarrow> 'd option" where
  "ide_wait_ready b d =
     (let (st, d) = bus_inb b IDE_STATUS d
      in if st AND IDE_SR_BSY \<noteq> 0 then ide_wait_ready b d else Some d)"

partial_function (option) ide_wait_drq :: "'d bus \<Rightarrow> 'd \<Rightarrow> 'd option" where
  "ide_wait_drq b d =
     (let (st, d) = bus_inb b IDE_STATUS d
      in if st AND IDE_SR_BSY \<noteq> 0 \<or> st AND IDE_SR_DRQ = 0 then ide_wait_drq b d else Some d)"

definition ide_select_sector :: "'d bus \<Rightarrow> u32 \<Rightarrow> 'd \<Rightarrow> 'd option" where
  "ide_select_sector b lba d =
     (case ide_wait_ready b d of
        None \<Rightarrow> None
      | Some d \<Rightarrow>
          let d = bus_outb b IDE_DRIVE_HEAD (ucast (0xE0 OR (drop_bit 24 lba AND 0x0F))) d;
              d = bus_outb b IDE_SECCOUNT 1 d;
              d = bus_outb b IDE_LBA_LO (ucast (lba AND 0xFF)) d;
              d = bus_outb b IDE_LBA_MID (ucast (drop_bit 8 lba AND 0xFF)) d;
              d = bus_outb b IDE_LBA_HI (ucast (drop_bit 16 lba AND 0xFF)) d
          in Some d)"

text \<open>A store of a 16-bit word into the buffer puts its low byte first.\<close>

definition put16 :: "u8 list \<Rightarrow> nat \<Rightarrow> u16 \<Rightarrow> u8 list" where
  "put16 buf i w = buf[2 * i := ucast w, 2 * i + 1 := ucast (drop_bit 8 w)]"

definition get16 :: "u8 list \<Rightarrow> nat \<Rightarrow> u16" where
  "get16 buf i = ucast (buf ! (2 * i)) OR push_bit 8 (ucast (buf ! (2 * i + 1)))"

definition ide_read_sector :: "'d bus \<Rightarrow> u32 \<Rightarrow> u8 list \<Rightarrow> 'd \<Rightarrow> (u8 list \<times> 'd) option" where
  "ide_read_sector b lba buf d =
     (case ide_select_sector b lba d of
        None \<Rightarrow> None
      | Some d \<Rightarrow>
          let d = bus_outb b IDE_COMMAND IDE_CMD_READ d in
          (case ide_wait_drq b d of
             None \<Rightarrow> None
           | Some d \<Rightarrow> Some (for_range 0 256
               (\<lambda>i (buf, d). let (w, d) = bus_inw b IDE_DATA d in (put16 buf i w, d)) (buf, d))))"

definition ide_write_sector :: "'d bus \<Rightarrow> u32 \<Rightarrow> u8 list \<Rightarrow> 'd \<Rightarrow> 'd option" where
  "ide_write_sector b lba buf d =
     (case ide_select_sector b lba d of
        None \<Rightarrow> None
      | Some d \<Rightarrow>
          let d = bus_outb b IDE_COMMAND IDE_CMD_WRITE d in
          (case ide_wait_drq b d of
             None \<Rightarrow> None
           | Some d \<Rightarrow>
               let d = for_range 0 256 (\<lambda>i d. bus_outw b IDE_DATA (get16 buf i) d) d;
                   d = bus_outb b IDE_COMMAND IDE_CMD_FLUSH d
               in ide_wait_ready b d))"

section \<open>The documented device\<close>

text \<open>
  The registers of an ATA drive as its host sees them: the number of its sectors and their contents,
  the registers a command takes its address and its sector count from, the ERR bit of its status, and
  the transfer in progress, which is the words still to be read or the words of a write so far.
\<close>

record ata =
  ata_sectors :: u32
  ata_disk :: "u32 \<Rightarrow> u8 list"
  ata_lo :: u8
  ata_mid :: u8
  ata_hi :: u8
  ata_head :: u8
  ata_count :: u8
  ata_err :: bool
  ata_data :: "u16 list"
  ata_fill :: "u16 list option"

definition ata_lba :: "ata \<Rightarrow> u32" where
  "ata_lba a = ucast (ata_lo a) OR push_bit 8 (ucast (ata_mid a)) OR push_bit 16 (ucast (ata_hi a)) OR
     push_bit 24 (ucast (ata_head a AND 0x0F))"

definition sector_words :: "u8 list \<Rightarrow> u16 list" where
  "sector_words bs = map (get16 bs) [0..<256]"

definition word_bytes :: "u16 list \<Rightarrow> u8 list" where
  "word_bytes ws = concat (map (\<lambda>w. [ucast w, ucast (drop_bit 8 w)]) ws)"

definition ata_reg :: "u16 \<Rightarrow> u8 \<Rightarrow> ata \<Rightarrow> ata" where
  "ata_reg port v a =
     (if port = IDE_SECCOUNT then a\<lparr>ata_count := v\<rparr>
      else if port = IDE_LBA_LO then a\<lparr>ata_lo := v\<rparr>
      else if port = IDE_LBA_MID then a\<lparr>ata_mid := v\<rparr>
      else if port = IDE_LBA_HI then a\<lparr>ata_hi := v\<rparr>
      else if port = IDE_DRIVE_HEAD then a\<lparr>ata_head := v\<rparr>
      else a)"

text \<open>The commands, for one sector: past the last sector they set ERR and transfer nothing.\<close>

definition ata_command :: "u8 \<Rightarrow> ata \<Rightarrow> ata" where
  "ata_command v a =
     (if v = IDE_CMD_FLUSH then a\<lparr>ata_err := False\<rparr>
      else if ata_sectors a \<le> ata_lba a then a\<lparr>ata_err := True\<rparr>
      else if v = IDE_CMD_READ then a\<lparr>ata_err := False, ata_data := sector_words (ata_disk a (ata_lba a))\<rparr>
      else a\<lparr>ata_err := False, ata_fill := Some []\<rparr>)"

definition ata_outw :: "u16 \<Rightarrow> ata \<Rightarrow> ata" where
  "ata_outw w a =
     (case ata_fill a of
        None \<Rightarrow> a
      | Some ws \<Rightarrow>
          if length ws < 255 then a\<lparr>ata_fill := Some (ws @ [w])\<rparr>
          else a\<lparr>ata_fill := None, ata_disk := (ata_disk a)(ata_lba a := word_bytes (ws @ [w]))\<rparr>)"

text \<open>
  Bit 4 of the drive register chooses between the two drives of the channel and bit 6 the LBA mode.
  The drive meant here is number 0. Its registers may be written while it is selected and no transfer
  is in progress, and a transfer command is for one sector when the register asks for LBA mode on
  drive 0 and the sector count is 1.
\<close>

definition ata_selected :: "ata \<Rightarrow> bool" where
  "ata_selected a \<longleftrightarrow> ata_head a AND 0x10 = 0"

definition ata_busy_with :: "ata \<Rightarrow> bool" where
  "ata_busy_with a \<longleftrightarrow> ata_data a \<noteq> [] \<or> ata_fill a \<noteq> None"

definition ata_idle :: "ata \<Rightarrow> bool" where
  "ata_idle a \<longleftrightarrow> ata_selected a \<and> \<not> ata_busy_with a"

definition ata_single :: "ata \<Rightarrow> bool" where
  "ata_single a \<longleftrightarrow> ata_head a AND 0x50 = 0x40 \<and> ata_count a = 1"

text \<open>
  \<open>st\<close> reads the registers off the device's state and \<open>busy\<close> counts the status reads that will
  still show BSY: a command may take any finite number of polls. A selected device that is not busy
  shows DRQ exactly while a transfer is in progress and ERR after a command that failed, and answers
  its data port at once. After the last word of a write it may be busy again. Of any other command,
  of CHS mode, of several sectors and of writes out of turn nothing is promised.
\<close>

definition ata_device :: "'d bus \<Rightarrow> ('d \<Rightarrow> ata) \<Rightarrow> ('d \<Rightarrow> nat) \<Rightarrow> bool" where
  "ata_device b st busy \<longleftrightarrow>
     (\<forall>port v d. busy d = 0 \<longrightarrow> ata_idle (st d) \<longrightarrow>
        port \<in> {IDE_SECCOUNT, IDE_LBA_LO, IDE_LBA_MID, IDE_LBA_HI, IDE_DRIVE_HEAD} \<longrightarrow> ata_selected (ata_reg port v (st d)) \<longrightarrow>
        st (bus_outb b port v d) = ata_reg port v (st d) \<and> busy (bus_outb b port v d) = 0) \<and>
     (\<forall>v d. busy d = 0 \<longrightarrow> ata_idle (st d) \<longrightarrow>
        v = IDE_CMD_FLUSH \<or> v \<in> {IDE_CMD_READ, IDE_CMD_WRITE} \<and> ata_single (st d) \<longrightarrow>
        st (bus_outb b IDE_COMMAND v d) = ata_command v (st d)) \<and>
     (\<forall>d. ata_selected (st d) \<longrightarrow> st (snd (bus_inb b IDE_STATUS d)) = st d \<and>
        (if busy d = 0
         then fst (bus_inb b IDE_STATUS d) AND IDE_SR_BSY = 0 \<and> busy (snd (bus_inb b IDE_STATUS d)) = 0 \<and>
              (fst (bus_inb b IDE_STATUS d) AND IDE_SR_DRQ \<noteq> 0 \<longleftrightarrow> ata_busy_with (st d)) \<and>
              (fst (bus_inb b IDE_STATUS d) AND IDE_SR_ERR \<noteq> 0 \<longleftrightarrow> ata_err (st d))
         else fst (bus_inb b IDE_STATUS d) AND IDE_SR_BSY \<noteq> 0 \<and>
              busy (snd (bus_inb b IDE_STATUS d)) < busy d)) \<and>
     (\<forall>d w ws. busy d = 0 \<longrightarrow> ata_data (st d) = w # ws \<longrightarrow>
        fst (bus_inw b IDE_DATA d) = w \<and> st (snd (bus_inw b IDE_DATA d)) = (st d)\<lparr>ata_data := ws\<rparr> \<and>
        busy (snd (bus_inw b IDE_DATA d)) = 0) \<and>
     (\<forall>d w ws. busy d = 0 \<longrightarrow> ata_fill (st d) = Some ws \<longrightarrow>
        st (bus_outw b IDE_DATA w d) = ata_outw w (st d) \<and> (length ws < 255 \<longrightarrow> busy (bus_outw b IDE_DATA w d) = 0))"

text \<open>\<^verbatim>\<open>ide_write_sector\<close> sends its FLUSH without waiting for the end of the write: it needs a drive that
  takes the last word without becoming busy.\<close>

definition ata_prompt :: "'d bus \<Rightarrow> ('d \<Rightarrow> ata) \<Rightarrow> ('d \<Rightarrow> nat) \<Rightarrow> bool" where
  "ata_prompt b st busy \<longleftrightarrow> (\<forall>d w. busy d = 0 \<longrightarrow> ata_fill (st d) \<noteq> None \<longrightarrow> busy (bus_outw b IDE_DATA w d) = 0)"

lemma ata_deviceD:
  assumes "ata_device b st busy"
  shows "busy d = 0 \<Longrightarrow> ata_idle (st d) \<Longrightarrow> port \<in> {IDE_SECCOUNT, IDE_LBA_LO, IDE_LBA_MID, IDE_LBA_HI, IDE_DRIVE_HEAD} \<Longrightarrow>
       ata_selected (ata_reg port v (st d)) \<Longrightarrow> st (bus_outb b port v d) = ata_reg port v (st d) \<and> busy (bus_outb b port v d) = 0"
    "busy d = 0 \<Longrightarrow> ata_idle (st d) \<Longrightarrow> v = IDE_CMD_FLUSH \<or> v \<in> {IDE_CMD_READ, IDE_CMD_WRITE} \<and> ata_single (st d) \<Longrightarrow>
       st (bus_outb b IDE_COMMAND v d) = ata_command v (st d)"
    "ata_selected (st d) \<Longrightarrow> st (snd (bus_inb b IDE_STATUS d)) = st d"
    "ata_selected (st d) \<Longrightarrow> busy d = 0 \<Longrightarrow> fst (bus_inb b IDE_STATUS d) AND IDE_SR_BSY = 0 \<and> busy (snd (bus_inb b IDE_STATUS d)) = 0 \<and>
       (fst (bus_inb b IDE_STATUS d) AND IDE_SR_DRQ \<noteq> 0 \<longleftrightarrow> ata_busy_with (st d))"
    "ata_selected (st d) \<Longrightarrow> busy d \<noteq> 0 \<Longrightarrow> fst (bus_inb b IDE_STATUS d) AND IDE_SR_BSY \<noteq> 0 \<and> busy (snd (bus_inb b IDE_STATUS d)) < busy d"
    "busy d = 0 \<Longrightarrow> ata_data (st d) = w # ws \<Longrightarrow> bus_inw b IDE_DATA d = (w, snd (bus_inw b IDE_DATA d)) \<and>
       st (snd (bus_inw b IDE_DATA d)) = (st d)\<lparr>ata_data := ws\<rparr> \<and> busy (snd (bus_inw b IDE_DATA d)) = 0"
    "busy d = 0 \<Longrightarrow> ata_fill (st d) = Some fs \<Longrightarrow> st (bus_outw b IDE_DATA w' d) = ata_outw w' (st d)"
proof -
  note dev = assms[unfolded ata_device_def]
  note R = dev[THEN conjunct1] and C = dev[THEN conjunct2, THEN conjunct1] and S = dev[THEN conjunct2, THEN conjunct2, THEN conjunct1, rule_format, of d]
    and W = dev[THEN conjunct2, THEN conjunct2, THEN conjunct2]
  show "busy d = 0 \<Longrightarrow> ata_idle (st d) \<Longrightarrow> port \<in> {IDE_SECCOUNT, IDE_LBA_LO, IDE_LBA_MID, IDE_LBA_HI, IDE_DRIVE_HEAD} \<Longrightarrow>
       ata_selected (ata_reg port v (st d)) \<Longrightarrow> st (bus_outb b port v d) = ata_reg port v (st d) \<and> busy (bus_outb b port v d) = 0" by (rule R[rule_format])
  show "busy d = 0 \<Longrightarrow> ata_idle (st d) \<Longrightarrow> v = IDE_CMD_FLUSH \<or> v \<in> {IDE_CMD_READ, IDE_CMD_WRITE} \<and> ata_single (st d) \<Longrightarrow>
       st (bus_outb b IDE_COMMAND v d) = ata_command v (st d)" by (rule C[rule_format])
  show "ata_selected (st d) \<Longrightarrow> st (snd (bus_inb b IDE_STATUS d)) = st d" using S by (rule conjunct1)
  show "ata_selected (st d) \<Longrightarrow> busy d = 0 \<Longrightarrow> fst (bus_inb b IDE_STATUS d) AND IDE_SR_BSY = 0 \<and> busy (snd (bus_inb b IDE_STATUS d)) = 0 \<and>
       (fst (bus_inb b IDE_STATUS d) AND IDE_SR_DRQ \<noteq> 0 \<longleftrightarrow> ata_busy_with (st d))"
    using S[THEN conjunct2] by (simp only: if_True simp_thms)
  show "ata_selected (st d) \<Longrightarrow> busy d \<noteq> 0 \<Longrightarrow> fst (bus_inb b IDE_STATUS d) AND IDE_SR_BSY \<noteq> 0 \<and> busy (snd (bus_inb b IDE_STATUS d)) < busy d"
    using S[THEN conjunct2] by (simp only: if_False simp_thms)
  show "busy d = 0 \<Longrightarrow> ata_data (st d) = w # ws \<Longrightarrow> bus_inw b IDE_DATA d = (w, snd (bus_inw b IDE_DATA d)) \<and>
       st (snd (bus_inw b IDE_DATA d)) = (st d)\<lparr>ata_data := ws\<rparr> \<and> busy (snd (bus_inw b IDE_DATA d)) = 0"
    using W[THEN conjunct1, rule_format, of d w ws] by (simp add: prod_eq_iff)
  show "busy d = 0 \<Longrightarrow> ata_fill (st d) = Some fs \<Longrightarrow> st (bus_outw b IDE_DATA w' d) = ata_outw w' (st d)"
    by (rule W[THEN conjunct2, rule_format, THEN conjunct1])
qed

section \<open>Waiting ends\<close>

lemma ide_wait_ready_returns:
  assumes dev: "ata_device b st busy" and sel: "ata_selected (st d)"
  shows "\<exists>d'. ide_wait_ready b d = Some d' \<and> st d' = st d \<and> busy d' = 0"
  using sel
proof (induction "busy d" arbitrary: d rule: less_induct)
  case less
  let ?d = "snd (bus_inb b IDE_STATUS d)"
  have u: "ide_wait_ready b d = (if fst (bus_inb b IDE_STATUS d) AND IDE_SR_BSY \<noteq> 0 then ide_wait_ready b ?d else Some ?d)"
    by (subst ide_wait_ready.simps) (simp add: case_prod_beta Let_def)
  show ?case
  proof (cases "busy d = 0")
    case True
    with ata_deviceD(3,4)[OF dev less.prems] show ?thesis unfolding u by simp
  next
    case False
    with ata_deviceD(3,5)[OF dev less.prems] less.hyps[of ?d] less.prems show ?thesis unfolding u by simp
  qed
qed

lemma ide_wait_drq_step:
  "ide_wait_drq b d = (if fst (bus_inb b IDE_STATUS d) AND IDE_SR_BSY \<noteq> 0 \<or> fst (bus_inb b IDE_STATUS d) AND IDE_SR_DRQ = 0
      then ide_wait_drq b (snd (bus_inb b IDE_STATUS d)) else Some (snd (bus_inb b IDE_STATUS d)))"
  by (subst ide_wait_drq.simps) (simp add: case_prod_beta Let_def)

lemma ide_wait_drq_returns:
  assumes dev: "ata_device b st busy" and sel: "ata_selected (st d)" "ata_busy_with (st d)"
  shows "\<exists>d'. ide_wait_drq b d = Some d' \<and> st d' = st d \<and> busy d' = 0"
  using sel
proof (induction "busy d" arbitrary: d rule: less_induct)
  case less
  let ?d = "snd (bus_inb b IDE_STATUS d)"
  show ?case
  proof (cases "busy d = 0")
    case True
    with ata_deviceD(3,4)[OF dev less.prems(1)] less.prems(2) show ?thesis by (subst ide_wait_drq_step) simp
  next
    case False
    with ata_deviceD(3,5)[OF dev less.prems(1)] less.hyps[of ?d] less.prems show ?thesis by (subst ide_wait_drq_step) simp
  qed
qed

text \<open>Without a transfer DRQ never comes, and \<^verbatim>\<open>ide_wait_drq\<close> does not look at ERR.\<close>

lemma ide_wait_drq_stuck:
  assumes dev: "ata_device b st busy" and idle: "ata_idle (st d)"
  shows "ide_wait_drq b d = None"
proof -
  have "b' = b \<longrightarrow> \<not> ata_idle (st d)" if "ide_wait_drq b' d = Some r" for b' d r
  proof (rule ide_wait_drq.raw_induct[where P = "\<lambda>b' d r. b' = b \<longrightarrow> \<not> ata_idle (st d)", OF _ that], intro impI notI)
    fix f b' d r
    assume IH: "\<And>b' d r. f b' d = Some r \<Longrightarrow> b' = b \<longrightarrow> \<not> ata_idle (st d)" and e: "b' = b" and i: "ata_idle (st d)"
      and r: "(let (st, d) = bus_inb b' IDE_STATUS d in if st AND IDE_SR_BSY \<noteq> 0 \<or> st AND IDE_SR_DRQ = 0 then f b' d else Some d) = Some r"
    let ?d = "snd (bus_inb b IDE_STATUS d)" and ?st = "fst (bus_inb b IDE_STATUS d)"
    have sel: "ata_selected (st d)" "\<not> ata_busy_with (st d)" using i by (simp_all add: ata_idle_def)
    have "?st AND IDE_SR_BSY \<noteq> 0 \<or> ?st AND IDE_SR_DRQ = 0"
      using ata_deviceD(4,5)[OF dev sel(1)] sel(2) by (cases "busy d = 0") simp_all
    then have "f b ?d = Some r" using r by (simp add: case_prod_beta Let_def e)
    with IH have "\<not> ata_idle (st ?d)" by blast
    with i ata_deviceD(3)[OF dev sel(1)] show False by simp
  qed
  then show ?thesis using idle by (cases "ide_wait_drq b d") auto
qed

lemma lba_bytes:
  "ucast (ucast (lba AND 0xFF) :: u8) OR push_bit 8 (ucast (ucast (drop_bit 8 lba AND 0xFF) :: u8)) OR
   push_bit 16 (ucast (ucast (drop_bit 16 lba AND 0xFF) :: u8)) OR
   push_bit 24 (ucast ((ucast (0xE0 OR (drop_bit 24 lba AND 0x0F)) :: u8) AND 0x0F)) = (lba AND 0x0FFFFFFF :: u32)"
proof -
  have m: "(0xFF :: u32) = mask 8" "(0x0FFFFFFF :: u32) = mask 28" "(0x0F :: u32) = mask 4" "(0x0F :: u8) = mask 4"
    by (simp_all add: mask_eq_exp_minus_1)
  have e: "(0xE0 :: u32) = push_bit 5 (mask 3)" by (simp add: mask_eq_exp_minus_1)
  show ?thesis unfolding m e
  proof (rule bit_word_eqI)
    fix n assume "n < LENGTH(32)"
    then consider "n < 8" | "8 \<le> n" "n < 16" | "16 \<le> n" "n < 24" | "24 \<le> n" "n < 28" | "28 \<le> n" "n < 32" by fastforce
    then show "bit (ucast (ucast (lba AND mask 8) :: u8) OR push_bit 8 (ucast (ucast (drop_bit 8 lba AND mask 8) :: u8)) OR
       push_bit 16 (ucast (ucast (drop_bit 16 lba AND mask 8) :: u8)) OR
       push_bit 24 (ucast ((ucast (push_bit 5 (mask 3) OR (drop_bit 24 lba AND mask 4)) :: u8) AND mask 4)) :: u32) n =
      bit (lba AND mask 28) n"
      by cases (auto simp: bit_simps)
  qed
qed

lemma head_bits:
  "(ucast (0xE0 OR (drop_bit 24 lba AND 0x0F) :: u32) :: u8) AND 0x50 = 0x40" "(ucast (0xE0 OR (drop_bit 24 lba AND 0x0F) :: u32) :: u8) AND 0x10 = 0"
proof -
  have m: "(0x0F :: u32) = mask 4" by (simp add: mask_eq_exp_minus_1)
  have "bit (ucast (0xE0 OR (drop_bit 24 lba AND mask 4) :: u32) AND (0x50 :: u8)) n = bit (0x40 :: u8) n \<and>
      bit (ucast (0xE0 OR (drop_bit 24 lba AND mask 4) :: u32) AND (0x10 :: u8)) n = bit (0 :: u8) n" if "n < LENGTH(8)" for n
  proof -
    from that have "n = 0 \<or> n = 1 \<or> n = 2 \<or> n = 3 \<or> n = 4 \<or> n = 5 \<or> n = 6 \<or> n = 7" by simp linarith
    then show ?thesis by (elim disjE) (simp_all add: bit_simps)
  qed
  then show "(ucast (0xE0 OR (drop_bit 24 lba AND 0x0F) :: u32) :: u8) AND 0x50 = 0x40" "(ucast (0xE0 OR (drop_bit 24 lba AND 0x0F) :: u32) :: u8) AND 0x10 = 0"
    unfolding m by (intro bit_word_eqI; blast)+
qed

text \<open>A register written to an idle drive that stays selected.\<close>

lemma ata_write_reg:
  assumes dev: "ata_device b st busy" and d: "busy d = 0" "ata_idle (st d)" and port: "port \<in> {IDE_SECCOUNT, IDE_LBA_LO, IDE_LBA_MID, IDE_LBA_HI}"
  shows "st (bus_outb b port v d) = ata_reg port v (st d)" "busy (bus_outb b port v d) = 0" "ata_idle (st (bus_outb b port v d))"
proof -
  have "ata_idle (ata_reg port v (st d))" using d(2) port by (auto simp: ata_idle_def ata_selected_def ata_busy_with_def ata_reg_def)
  moreover from this have "ata_selected (ata_reg port v (st d))" by (simp add: ata_idle_def)
  moreover have p: "port \<in> {IDE_SECCOUNT, IDE_LBA_LO, IDE_LBA_MID, IDE_LBA_HI, IDE_DRIVE_HEAD}" using port by auto
  ultimately show "st (bus_outb b port v d) = ata_reg port v (st d)" "busy (bus_outb b port v d) = 0" "ata_idle (st (bus_outb b port v d))"
    using ata_deviceD(1)[OF dev d p] by simp_all
qed

lemma ide_select_sector_returns:
  assumes dev: "ata_device b st busy" and idle: "ata_idle (st d)"
  shows "\<exists>d'. ide_select_sector b lba d = Some d' \<and> busy d' = 0 \<and> ata_idle (st d') \<and> ata_single (st d') \<and> ata_disk (st d') = ata_disk (st d) \<and>
    ata_sectors (st d') = ata_sectors (st d) \<and> ata_lba (st d') = lba AND 0x0FFFFFFF"
proof -
  obtain d0 where d0: "ide_wait_ready b d = Some d0" "st d0 = st d" "busy d0 = 0"
    using ide_wait_ready_returns[OF dev, of d] idle by (auto simp: ata_idle_def)
  let ?h = "ucast (0xE0 OR (drop_bit 24 lba AND 0x0F)) :: u8"
  define d1 where "d1 = bus_outb b IDE_DRIVE_HEAD ?h d0"
  define d2 where "d2 = bus_outb b IDE_SECCOUNT 1 d1"
  define d3 where "d3 = bus_outb b IDE_LBA_LO (ucast (lba AND 0xFF)) d2"
  define d4 where "d4 = bus_outb b IDE_LBA_MID (ucast (drop_bit 8 lba AND 0xFF)) d3"
  define d5 where "d5 = bus_outb b IDE_LBA_HI (ucast (drop_bit 16 lba AND 0xFF)) d4"
  have h: "ata_idle (ata_reg IDE_DRIVE_HEAD ?h (st d0))"
    using idle head_bits(2)[of lba] by (simp add: ata_idle_def ata_selected_def ata_busy_with_def ata_reg_def d0(2))
  then have "st d1 = ata_reg IDE_DRIVE_HEAD ?h (st d) \<and> busy d1 = 0"
    using ata_deviceD(1)[OF dev d0(3), of IDE_DRIVE_HEAD ?h] idle by (simp add: d1_def d0(2) ata_idle_def)
  with h have 1: "busy d1 = 0" "ata_idle (st d1)" "st d1 = ata_reg IDE_DRIVE_HEAD ?h (st d)" by (simp_all add: d0(2))
  note 2 = ata_write_reg[OF dev 1(1,2), of IDE_SECCOUNT 1, folded d2_def]
  note 3 = ata_write_reg[OF dev 2(2,3), of IDE_LBA_LO "ucast (lba AND 0xFF)", folded d3_def]
  note 4 = ata_write_reg[OF dev 3(2,3), of IDE_LBA_MID "ucast (drop_bit 8 lba AND 0xFF)", folded d4_def]
  note 5 = ata_write_reg[OF dev 4(2,3), of IDE_LBA_HI "ucast (drop_bit 16 lba AND 0xFF)", folded d5_def]
  have s: "st d5 = (st d)\<lparr>ata_head := ?h, ata_count := 1,
      ata_lo := ucast (lba AND 0xFF), ata_mid := ucast (drop_bit 8 lba AND 0xFF), ata_hi := ucast (drop_bit 16 lba AND 0xFF)\<rparr>"
    using 1(3) 2(1) 3(1) 4(1) 5(1) by (simp add: ata_reg_def)
  have "ide_select_sector b lba d = Some d5"
    by (simp add: ide_select_sector_def d0(1) Let_def d1_def d2_def d3_def d4_def d5_def)
  moreover have "ata_lba (st d5) = lba AND 0x0FFFFFFF"
    unfolding ata_lba_def s using lba_bytes[of lba] by simp
  moreover have "ata_single (st d5)" unfolding ata_single_def s using head_bits(1)[of lba] by simp
  moreover have "busy d5 = 0" "ata_idle (st d5)" using 5(2,3) by simp_all
  ultimately show ?thesis by (intro exI[of _ d5]) (simp add: s)
qed

section \<open>Transfers\<close>

lemma length_word_bytes [simp]: "length (word_bytes ws) = 2 * length ws"
  by (induction ws) (simp_all add: word_bytes_def)

lemma word_bytes_append: "word_bytes (us @ ws) = word_bytes us @ word_bytes ws"
  by (simp add: word_bytes_def)

lemma get16_bytes: "ucast (get16 bs i) = bs ! (2 * i)" "ucast (drop_bit 8 (get16 bs i)) = bs ! (2 * i + 1)"
  unfolding get16_def by (rule bit_word_eqI, auto simp: bit_simps dest: bit_imp_le_length)+

lemma word_bytes_words: "2 * n \<le> length bs \<Longrightarrow> word_bytes (map (get16 bs) [0..<n]) = take (2 * n) bs"
proof (induction n)
  case (Suc n)
  then have "take (2 * Suc n) bs = take (2 * n) bs @ [bs ! (2 * n), bs ! (2 * n + 1)]"
    by (simp add: take_Suc_conv_app_nth)
  moreover have "word_bytes [get16 bs n] = [bs ! (2 * n), bs ! (2 * n + 1)]"
    by (simp add: word_bytes_def get16_bytes[simplified])
  ultimately show ?case using Suc by (simp add: word_bytes_append)
qed (simp add: word_bytes_def)

lemma word_bytes_sector: "length bs = 512 \<Longrightarrow> word_bytes (sector_words bs) = bs"
  by (simp add: sector_words_def word_bytes_words)

lemma put16_next:
  assumes "length us = 2 * i" and "2 * Suc i \<le> length us + length vs"
  shows "put16 (us @ vs) i w = (us @ word_bytes [w]) @ drop 2 vs"
proof -
  obtain x y zs where v: "vs = x # y # zs" using assms by (cases vs; cases "tl vs") auto
  have "2 * i = length us" "2 * i + 1 = length (us @ [ucast w])" using assms(1) by simp_all
  then show ?thesis unfolding put16_def v
    by (simp add: list_update_append word_bytes_def)
qed

lemma read_loop:
  assumes dev: "ata_device b st busy" and bsy: "busy d = 0" and data: "ata_data (st d) = ws"
    and len: "length ws = 256" "length buf = 512"
  shows "\<exists>d'. for_range 0 256 (\<lambda>i (buf, d). let (w, d) = bus_inw b IDE_DATA d in (put16 buf i w, d)) (buf, d) =
      (word_bytes ws, d') \<and> busy d' = 0 \<and> st d' = (st d)\<lparr>ata_data := []\<rparr>"
proof -
  let ?body = "\<lambda>i (buf, d). let (w, d) = bus_inw b IDE_DATA d in (put16 buf i w, d)"
  let ?P = "\<lambda>i (bf, d'). bf = word_bytes (take i ws) @ drop (2 * i) buf \<and> busy d' = 0 \<and>
    st d' = (st d)\<lparr>ata_data := drop i ws\<rparr>"
  have "?P 256 (for_range 0 256 ?body (buf, d))"
  proof (rule for_range_inv[where P = ?P])
    fix i :: nat and t assume i: "i < 256" and "?P i t"
    then obtain d' where t: "t = (word_bytes (take i ws) @ drop (2 * i) buf, d')" and b: "busy d' = 0"
      and s: "st d' = (st d)\<lparr>ata_data := drop i ws\<rparr>" by auto
    have "drop i ws = ws ! i # drop (Suc i) ws" using i len by (simp add: Cons_nth_drop_Suc)
    then have "ata_data (st d') = ws ! i # drop (Suc i) ws" by (simp add: s)
    note w = ata_deviceD(6)[OF dev b this]
    have "put16 (word_bytes (take i ws) @ drop (2 * i) buf) i (ws ! i) =
        (word_bytes (take i ws) @ word_bytes [ws ! i]) @ drop 2 (drop (2 * i) buf)"
      using i len by (intro put16_next) simp_all
    moreover have "take (Suc i) ws = take i ws @ [ws ! i]" using i len by (simp add: take_Suc_conv_app_nth)
    ultimately have "put16 (word_bytes (take i ws) @ drop (2 * i) buf) i (ws ! i) =
        word_bytes (take (Suc i) ws) @ drop (2 * Suc i) buf"
      by (simp add: word_bytes_append)
    moreover have "fst (bus_inw b IDE_DATA d') = ws ! i" using w by (metis fst_conv)
    ultimately show "?P (Suc i) (?body i t)" using w by (simp add: t s case_prod_beta)
  next
    show "?P 0 (buf, d)" using bsy data by (simp add: word_bytes_def)
  qed simp
  moreover obtain bf d' where r: "for_range 0 256 ?body (buf, d) = (bf, d')" by (rule prod.exhaust)
  moreover have "drop (2 * 256) buf = []" "take 256 ws = ws" "drop 256 ws = []" using len by simp_all
  ultimately have "bf = word_bytes ws" "busy d' = 0" "st d' = (st d)\<lparr>ata_data := []\<rparr>" by simp_all
  with r show ?thesis by blast
qed

lemma write_loop:
  assumes dev: "ata_device b st busy" and prompt: "ata_prompt b st busy" and bsy: "busy d = 0" and fill: "ata_fill (st d) = Some []"
  shows "busy (for_range 0 256 (\<lambda>i d. bus_outw b IDE_DATA (f i) d) d) = 0 \<and>
    st (for_range 0 256 (\<lambda>i d. bus_outw b IDE_DATA (f i) d) d) =
      (st d)\<lparr>ata_fill := None, ata_disk := (ata_disk (st d))(ata_lba (st d) := word_bytes (map f [0..<256]))\<rparr>"
proof -
  let ?P = "\<lambda>i d'. busy d' = 0 \<and> st d' = (if i < 256 then (st d)\<lparr>ata_fill := Some (map f [0..<i])\<rparr>
    else (st d)\<lparr>ata_fill := None, ata_disk := (ata_disk (st d))(ata_lba (st d) := word_bytes (map f [0..<256]))\<rparr>)"
  have "?P 256 (for_range 0 256 (\<lambda>i d. bus_outw b IDE_DATA (f i) d) d)"
  proof (rule for_range_inv[where P = ?P])
    fix i :: nat and d' assume i: "i < 256" and P: "?P i d'"
    then have s: "st d' = (st d)\<lparr>ata_fill := Some (map f [0..<i])\<rparr>" "busy d' = 0" by simp_all
    then have w: "st (bus_outw b IDE_DATA (f i) d') = ata_outw (f i) (st d')" "busy (bus_outw b IDE_DATA (f i) d') = 0"
      using ata_deviceD(7)[OF dev, of d'] prompt by (simp_all add: ata_prompt_def)
    show "?P (Suc i) (bus_outw b IDE_DATA (f i) d')"
    proof (cases "i = 255")
      case True
      have u: "map f [0..<256] = map f [0..<255] @ [f 255]" using upt_Suc_append[of 0 255] by simp
      from True show ?thesis using w by (simp add: s ata_outw_def ata_lba_def u del: upt_Suc)
    next
      case False
      with i have "i < 255" by simp
      then show ?thesis using w by (simp add: s ata_outw_def)
    qed
  next
    have "st d = (st d)\<lparr>ata_fill := Some []\<rparr>" using fill by simp
    with bsy show "?P 0 d" by simp
  qed simp
  then show ?thesis by simp
qed

lemma sector_words_ne: "sector_words bs \<noteq> []"
  by (simp add: sector_words_def)

lemma ata_command_single:
  assumes dev: "ata_device b st busy" and d: "busy d = 0" "ata_idle (st d)" "ata_single (st d)" and v: "v \<in> {IDE_CMD_READ, IDE_CMD_WRITE}"
  shows "st (bus_outb b IDE_COMMAND v d) = ata_command v (st d)"
  using ata_deviceD(2)[OF dev d(1,2), of v] d(3) v by blast

lemma ide_read_sector_step:
  assumes dev: "ata_device b st busy" and idle: "ata_idle (st d)" and inside: "lba AND 0x0FFFFFFF < ata_sectors (st d)"
    and len: "length buf = 512" "length (ata_disk (st d) (lba AND 0x0FFFFFFF)) = 512"
  shows "\<exists>d'. ide_read_sector b lba buf d = Some (ata_disk (st d) (lba AND 0x0FFFFFFF), d') \<and>
    ata_disk (st d') = ata_disk (st d) \<and> ata_sectors (st d') = ata_sectors (st d) \<and> ata_idle (st d')"
proof -
  obtain d1 where d1: "ide_select_sector b lba d = Some d1" "busy d1 = 0" "ata_idle (st d1)" "ata_single (st d1)" "ata_disk (st d1) = ata_disk (st d)"
    "ata_sectors (st d1) = ata_sectors (st d)" "ata_lba (st d1) = lba AND 0x0FFFFFFF" using ide_select_sector_returns[OF dev idle] by blast
  let ?d2 = "bus_outb b IDE_COMMAND IDE_CMD_READ d1" and ?s = "ata_disk (st d) (lba AND 0x0FFFFFFF)"
  have s2: "st ?d2 = (st d1)\<lparr>ata_err := False, ata_data := sector_words ?s\<rparr>"
    using ata_command_single[OF dev d1(2-4), of IDE_CMD_READ] inside by (simp add: ata_command_def d1 not_le[symmetric])
  then have "ata_selected (st ?d2)" "ata_busy_with (st ?d2)" using d1(3) by (simp_all add: ata_busy_with_def ata_idle_def ata_selected_def sector_words_ne)
  from ide_wait_drq_returns[OF dev this] obtain d3 where
    d3: "ide_wait_drq b ?d2 = Some d3" "st d3 = st ?d2" "busy d3 = 0" by blast
  obtain d4 where d4: "for_range 0 256 (\<lambda>i (buf, d). let (w, d) = bus_inw b IDE_DATA d in (put16 buf i w, d)) (buf, d3) =
      (word_bytes (sector_words ?s), d4)" "st d4 = (st d3)\<lparr>ata_data := []\<rparr>"
    using read_loop[OF dev d3(3) refl, of buf] len by (auto simp: d3 s2 sector_words_def)
  have "ide_read_sector b lba buf d = Some (?s, d4)"
    unfolding ide_read_sector_def d1(1) option.case Let_def d3(1)
    by (simp add: d4(1)[unfolded Let_def] word_bytes_sector[OF len(2)])
  moreover have "ata_idle (st d4)" using d1(3) by (simp add: d4(2) d3(2) s2 ata_idle_def ata_selected_def ata_busy_with_def)
  ultimately show ?thesis using d1(5,6) by (auto simp: d4(2) d3(2) s2)
qed

lemma ide_read_sector_outside:
  assumes dev: "ata_device b st busy" and idle: "ata_idle (st d)" and outside: "ata_sectors (st d) \<le> lba AND 0x0FFFFFFF"
  shows "ide_read_sector b lba buf d = None"
proof -
  obtain d1 where d1: "ide_select_sector b lba d = Some d1" "busy d1 = 0" "ata_idle (st d1)" "ata_single (st d1)"
    "ata_sectors (st d1) = ata_sectors (st d)" "ata_lba (st d1) = lba AND 0x0FFFFFFF" using ide_select_sector_returns[OF dev idle] by blast
  have "st (bus_outb b IDE_COMMAND IDE_CMD_READ d1) = (st d1)\<lparr>ata_err := True\<rparr>"
    using ata_command_single[OF dev d1(2-4), of IDE_CMD_READ] outside by (simp add: ata_command_def d1)
  then have "ata_idle (st (bus_outb b IDE_COMMAND IDE_CMD_READ d1))" using d1(3) by (simp add: ata_idle_def ata_selected_def ata_busy_with_def)
  from ide_wait_drq_stuck[OF dev this] show ?thesis by (simp add: ide_read_sector_def d1(1) Let_def)
qed

lemma ide_write_sector_step:
  assumes dev: "ata_device b st busy" "ata_prompt b st busy" and idle: "ata_idle (st d)" and inside: "lba AND 0x0FFFFFFF < ata_sectors (st d)"
    and len: "length buf = 512"
  shows "\<exists>d'. ide_write_sector b lba buf d = Some d' \<and> ata_idle (st d') \<and> ata_sectors (st d') = ata_sectors (st d) \<and>
    ata_disk (st d') = (ata_disk (st d))(lba AND 0x0FFFFFFF := buf)"
proof -
  obtain d1 where d1: "ide_select_sector b lba d = Some d1" "busy d1 = 0" "ata_idle (st d1)" "ata_single (st d1)" "ata_disk (st d1) = ata_disk (st d)"
    "ata_sectors (st d1) = ata_sectors (st d)" "ata_lba (st d1) = lba AND 0x0FFFFFFF" using ide_select_sector_returns[OF dev(1) idle] by blast
  let ?d2 = "bus_outb b IDE_COMMAND IDE_CMD_WRITE d1"
  have s2: "st ?d2 = (st d1)\<lparr>ata_err := False, ata_fill := Some []\<rparr>"
    using ata_command_single[OF dev(1) d1(2-4), of IDE_CMD_WRITE] inside by (simp add: ata_command_def d1 not_le[symmetric])
  then have "ata_selected (st ?d2)" "ata_busy_with (st ?d2)" using d1(3) by (simp_all add: ata_busy_with_def ata_idle_def ata_selected_def)
  from ide_wait_drq_returns[OF dev(1) this] obtain d3 where
    d3: "ide_wait_drq b ?d2 = Some d3" "st d3 = st ?d2" "busy d3 = 0" by blast
  let ?d4 = "for_range 0 256 (\<lambda>i d. bus_outw b IDE_DATA (get16 buf i) d) d3"
  let ?d5 = "bus_outb b IDE_COMMAND IDE_CMD_FLUSH ?d4"
  have "ata_fill (st d3) = Some []" by (simp add: d3 s2)
  note w = write_loop[OF dev d3(3) this, of "get16 buf"]
  have lba: "ata_lba (st d3) = lba AND 0x0FFFFFFF" using d1(7) by (simp add: d3 s2 ata_lba_def)
  have wb: "word_bytes (map (get16 buf) [0..<256]) = buf" using word_bytes_words[of 256 buf] len by simp
  have s4: "st ?d4 = (st d1)\<lparr>ata_err := False, ata_fill := None, ata_disk := (ata_disk (st d))(lba AND 0x0FFFFFFF := buf)\<rparr>"
    unfolding w[THEN conjunct2] lba wb by (simp add: d3 s2 d1(5))
  then have i4: "ata_idle (st ?d4)" using d1(3) by (simp add: ata_idle_def ata_selected_def ata_busy_with_def)
  have s5: "st ?d5 = (st ?d4)\<lparr>ata_err := False\<rparr>"
    using ata_deviceD(2)[OF dev(1) w[THEN conjunct1] i4, of IDE_CMD_FLUSH] by (simp add: ata_command_def)
  then have i5: "ata_idle (st ?d5)" using i4 by (simp add: ata_idle_def ata_selected_def ata_busy_with_def)
  then obtain d6 where "ide_wait_ready b ?d5 = Some d6" "st d6 = st ?d5"
    using ide_wait_ready_returns[OF dev(1), of ?d5] by (auto simp: ata_idle_def)
  then show ?thesis using s4 s5 i5 d1(6) by (auto simp: ide_write_sector_def d1(1) d3(1) Let_def)
qed

section \<open>Properties\<close>

text \<open>
  A drive for concrete instances: its own registers, and a countdown that shows BSY on the three
  status reads after each command.
\<close>

definition drive_bus :: "(ata \<times> nat) bus" where
  "drive_bus = \<lparr>
     bus_inb = (\<lambda>port (a, n). if n = 0
        then ((if ata_busy_with a then 0x48 else 0x40) OR (if ata_err a then 1 else 0), (a, 0))
        else (0x80, (a, n - 1))),
     bus_outb = (\<lambda>port v (a, n). if port = IDE_COMMAND then (ata_command v a, 3) else (ata_reg port v a, n)),
     bus_inw = (\<lambda>port (a, n). (hd (ata_data a), (a\<lparr>ata_data := tl (ata_data a)\<rparr>, n))),
     bus_outw = (\<lambda>port w (a, n). (ata_outw w a, n))\<rparr>"

lemma drive_is_ata: "ata_device drive_bus fst snd" "ata_prompt drive_bus fst snd"
  by (simp_all add: ata_device_def ata_prompt_def drive_bus_def case_prod_beta)

definition zero_drive :: "ata \<times> nat" where
  "zero_drive = (\<lparr>ata_sectors = 1000, ata_disk = (\<lambda>_. replicate 512 0), ata_lo = 0, ata_mid = 0, ata_hi = 0, ata_head = 0,
     ata_count = 0, ata_err = False, ata_data = [], ata_fill = None\<rparr>, 1)"

lemma zero_drive_idle: "ata_idle (fst zero_drive)"
  by (simp add: zero_drive_def ata_idle_def ata_selected_def ata_busy_with_def)

text \<open>C28: On any device that keeps what the ATA standard promises a driver that selects drive 0, LBA
  mode and one sector, however many polls its commands take: \<open>ide_read_sector\<close> returns, with exactly the
  512 bytes of the sector addressed by the low 28 bits of the number in the buffer, the disk unchanged
  and the drive ready for the next transfer, when that sector exists; when it lies past the end of the
  drive the function never returns, since it waits for DRQ and does not look at the error bit.\<close>

theorem ide_read_sector_correct:
  assumes "ata_device b st busy" and "ata_idle (st d)" and "length buf = 512" and "\<forall>l < ata_sectors (st d). length (ata_disk (st d) l) = 512"
  shows "if lba AND 0x0FFFFFFF < ata_sectors (st d)
    then \<exists>d'. ide_read_sector b lba buf d = Some (ata_disk (st d) (lba AND 0x0FFFFFFF), d') \<and>
      ata_disk (st d') = ata_disk (st d) \<and> ata_sectors (st d') = ata_sectors (st d) \<and> ata_idle (st d')
    else ide_read_sector b lba buf d = None"
  using ide_read_sector_step[OF assms(1,2) _ assms(3), of lba] ide_read_sector_outside[OF assms(1,2), of lba buf] assms(4) by (auto simp: not_less)

theorem ide_read_sector_correct_witness:
  "(\<exists>d'. ide_read_sector drive_bus 5 (replicate 512 7) zero_drive = Some (replicate 512 0, d')) \<and>
   ide_read_sector drive_bus 1000 (replicate 512 7) zero_drive = None"
  using ide_read_sector_correct[OF drive_is_ata(1) zero_drive_idle, of "replicate 512 7" 5]
    ide_read_sector_correct[OF drive_is_ata(1) zero_drive_idle, of "replicate 512 7" 1000] by (auto simp: zero_drive_def)

text \<open>A sector written by \<open>ide_write_sector\<close> is what \<open>ide_read_sector\<close> then returns, and reading
  any sector that differs from it in its low 28 bits returns what it held before, on a drive that takes
  the last word of a write without becoming busy.\<close>

theorem ide_write_read_roundtrip:
  assumes dev: "ata_device b st busy" "ata_prompt b st busy" and idle: "ata_idle (st d)" and len: "length buf = 512" "length buf2 = 512"
    and disk: "\<forall>l < ata_sectors (st d). length (ata_disk (st d) l) = 512" and inside: "lba AND 0x0FFFFFFF < ata_sectors (st d)"
  shows "\<exists>d1. ide_write_sector b lba buf d = Some d1 \<and>
    (\<exists>d2. ide_read_sector b lba buf2 d1 = Some (buf, d2)) \<and>
    (\<forall>lba'. lba' AND 0x0FFFFFFF \<noteq> lba AND 0x0FFFFFFF \<longrightarrow> lba' AND 0x0FFFFFFF < ata_sectors (st d) \<longrightarrow>
       (\<exists>d2. ide_read_sector b lba' buf2 d1 = Some (ata_disk (st d) (lba' AND 0x0FFFFFFF), d2)))"
proof -
  obtain d1 where d1: "ide_write_sector b lba buf d = Some d1" "ata_idle (st d1)" "ata_sectors (st d1) = ata_sectors (st d)"
    "ata_disk (st d1) = (ata_disk (st d))(lba AND 0x0FFFFFFF := buf)"
    using ide_write_sector_step[OF dev idle inside len(1)] by blast
  have r: "\<exists>d2. ide_read_sector b l buf2 d1 = Some (ata_disk (st d1) (l AND 0x0FFFFFFF), d2)" if "l AND 0x0FFFFFFF < ata_sectors (st d)" for l
    using ide_read_sector_step[OF dev(1) d1(2) _ len(2), of l] that disk len(1) by (auto simp: d1(3,4))
  have "\<exists>d2. ide_read_sector b lba buf2 d1 = Some (buf, d2)" using r[OF inside] by (simp add: d1(4))
  moreover have "\<exists>d2. ide_read_sector b l buf2 d1 = Some (ata_disk (st d) (l AND 0x0FFFFFFF), d2)"
    if "l AND 0x0FFFFFFF \<noteq> lba AND 0x0FFFFFFF" "l AND 0x0FFFFFFF < ata_sectors (st d)" for l
    using r[OF that(2)] that(1) by (simp add: d1(4))
  ultimately show ?thesis using d1(1) by blast
qed

theorem ide_write_read_roundtrip_witness:
  "\<exists>d1 d2. ide_write_sector drive_bus 5 (replicate 512 7) zero_drive = Some d1 \<and>
     ide_read_sector drive_bus 5 (replicate 512 1) d1 = Some (replicate 512 7, d2)"
  using ide_write_read_roundtrip[OF drive_is_ata zero_drive_idle, of "replicate 512 7" "replicate 512 1" 5]
  by (auto simp: zero_drive_def)

end
