(* ===== verification/Ext2.thy ===== *)
theory Ext2
  imports Screen IDE
begin

text \<open>
  \<^verbatim>\<open>fs/ext2.c\<close>: mounting, directory search and listing, and reading of files. The contents
  of the disk are an argument: a sector read through the driver is \<open>disk_sector\<close>, which is what
  \<open>ide_read_sector\<close> is shown to return. The block buffers and the fields taken from the disk are
  the record \<open>ext2\<close>; every access outside a buffer and every division by zero is an outcome.
\<close>

section \<open>State and accesses\<close>

type_synonym disk = "u32 \<Rightarrow> u8 list"

definition disk_sector :: "disk \<Rightarrow> u32 \<Rightarrow> u8 list" where
  "disk_sector disk lba = disk (lba AND 0x0FFFFFFF)"

record ext2 =
  block_size :: u32
  inode_size :: u32
  inodes_per_group :: u32
  bgd :: "u8 list"
  part_lba :: u32
  blk_a :: "u8 list"
  blk_b :: "u8 list"

definition get8 :: "u8 list \<Rightarrow> nat \<Rightarrow> u8 outcome" where
  "get8 b i = (if i < length b then Inr (b ! i) else Inl OutOfBounds)"

definition get_u16 :: "u8 list \<Rightarrow> nat \<Rightarrow> u16 outcome" where
  "get_u16 b i = (if i + 2 \<le> length b then Inr (le16 b i) else Inl OutOfBounds)"

definition get_u32 :: "u8 list \<Rightarrow> nat \<Rightarrow> u32 outcome" where
  "get_u32 b i = (if i + 4 \<le> length b then Inr (le32 b i) else Inl OutOfBounds)"

definition udiv :: "u32 \<Rightarrow> u32 \<Rightarrow> u32 outcome" where
  "udiv a b = (if b = 0 then Inl DivideError else Inr (a div b))"

definition splice :: "u8 list \<Rightarrow> nat \<Rightarrow> u8 list \<Rightarrow> u8 list" where
  "splice buf off src = take off buf @ src @ drop (off + length src) buf"

text \<open>
  A C string as its reader sees it: the byte at each index from the pointer, or the fault of
  reading it. A literal ends with its null byte.
\<close>

type_synonym cptr = "nat \<Rightarrow> u8 outcome"

definition literal :: "u8 list \<Rightarrow> cptr" where
  "literal s i = get8 (s @ [0]) i"

section \<open>Operations\<close>

definition ext2_set_partition :: "u32 \<Rightarrow> ext2 \<Rightarrow> ext2" where
  "ext2_set_partition lba_start e = e\<lparr>part_lba := lba_start\<rparr>"

definition ext2_read_block :: "disk \<Rightarrow> ext2 \<Rightarrow> u32 \<Rightarrow> u8 list \<Rightarrow> u8 list outcome" where
  "ext2_read_block disk e block buf =
     (let sects = block_size e div 512;
          lba = part_lba e + block * sects
      in for_try 0 (unat sects) (\<lambda>i buf.
           if length buf < i * 512 + 512 then Inl OutOfBounds
           else Inr (splice buf (i * 512) (disk_sector disk (lba + of_nat i)))) buf)"

definition ext2_init :: "disk \<Rightarrow> ext2 \<Rightarrow> screen \<Rightarrow> (ext2 \<times> screen) outcome" where
  "ext2_init disk e d =
     (let sb = disk_sector disk (part_lba e + 2);
          magic = le16 sb 56;
          log_bsz = le32 sb 24;
          rev = le32 sb 76;
          first_data = le32 sb 20;
          sb_inode_sz = le16 sb 88;
          e = e\<lparr>inodes_per_group := le32 sb 40\<rparr> in
      if magic \<noteq> 0xEF53 then
        Inr (e, print (cstr ''  [!!] Ext2: magic invalido '' @ [0xE2, 0x80, 0x94] @ cstr '' no es ext2'' @ [10]) d)
      else if 32 \<le> log_bsz then Inl BadShift
      else
        let e = e\<lparr>block_size := push_bit (unat log_bsz) 1024,
                  inode_size := (if 1 \<le> rev \<and> 128 \<le> sb_inode_sz then ucast sb_inode_sz else 128)\<rparr>;
            bgdt_block = first_data + 1 in
        bindo (ext2_read_block disk e bgdt_block (blk_a e)) (\<lambda>a.
        let e = e\<lparr>blk_a := a\<rparr> in
        bindo (for_try 0 32 (\<lambda>i b. bindo (get8 (blk_a e) i) (\<lambda>v. Inr (b[i := v]))) (bgd e)) (\<lambda>b.
        Inr (e\<lparr>bgd := b\<rparr>, print (cstr ''  [OK] Ext2: filesystem montado'' @ [10]) d))))"

definition bg_inode_table :: "ext2 \<Rightarrow> u32" where
  "bg_inode_table e = le32 (bgd e) 8"

text \<open>An inode as the 128 bytes copied into \<^verbatim>\<open>ext2_inode_t\<close>, and the fields the driver reads.\<close>

definition i_size :: "u8 list \<Rightarrow> u32" where
  "i_size inode = le32 inode 4"

definition i_block :: "u8 list \<Rightarrow> nat \<Rightarrow> u32" where
  "i_block inode n = le32 inode (40 + 4 * n)"

definition ext2_read_inode :: "disk \<Rightarrow> u32 \<Rightarrow> ext2 \<Rightarrow> (u8 list \<times> ext2) outcome" where
  "ext2_read_inode disk inum e =
     (let idx = inum - 1 in
      bindo (udiv (block_size e) (inode_size e)) (\<lambda>ipb.
      bindo (udiv idx ipb) (\<lambda>q.
      let block = bg_inode_table e + q;
          offset = (idx mod ipb) * inode_size e in
      bindo (ext2_read_block disk e block (blk_a e)) (\<lambda>a.
      let e = e\<lparr>blk_a := a\<rparr> in
      bindo (for_try 0 128 (\<lambda>i raw. bindo (get8 (blk_a e) (unat offset + i)) (\<lambda>v. Inr (raw @ [v]))) []) (\<lambda>raw.
      Inr (raw, e))))))"

text \<open>The directory entry at \<open>off\<close> of the block: inode, record length, name length, name.\<close>

abbreviation (input) "de_inode b off \<equiv> get_u32 b off"
abbreviation (input) "de_rec_len b off \<equiv> get_u16 b (off + 4)"
abbreviation (input) "de_name_len b off \<equiv> get8 b (off + 6)"

fun ext2_match :: "u8 list \<Rightarrow> nat \<Rightarrow> cptr \<Rightarrow> nat \<Rightarrow> nat \<Rightarrow> bool outcome" where
  "ext2_match b name_ptr p j 0 = bindo (p j) (\<lambda>c. Inr (c = 0))"
| "ext2_match b name_ptr p j (Suc n) =
     bindo (p j) (\<lambda>c.
     if c = 0 then Inr False
     else bindo (get8 b (name_ptr + j)) (\<lambda>v.
       if c \<noteq> v then Inr False else ext2_match b name_ptr p (j + 1) n))"

function ext2_find_from :: "u8 list \<Rightarrow> u32 \<Rightarrow> u32 \<Rightarrow> cptr \<Rightarrow> nat \<Rightarrow> u32 outcome" where
  "ext2_find_from b isize bsize name off =
     (if \<not> (off < unat isize \<and> off < unat bsize) then Inr 0
      else (case de_rec_len b off of
          Inl x \<Rightarrow> Inl x
        | Inr rec_len \<Rightarrow>
            if rec_len = 0 then Inr 0
            else bindo (de_inode b off) (\<lambda>ino.
              bindo (if ino \<noteq> 0
                     then bindo (de_name_len b off) (\<lambda>n. ext2_match b (off + 8) name 0 (unat n))
                     else Inr False) (\<lambda>match.
              if match then Inr ino else ext2_find_from b isize bsize name (off + unat rec_len)))))"
  by pat_completeness auto
termination
  by (relation "measure (\<lambda>(b, isize, bsize, name, off). length b - off)")
     (auto simp: get_u16_def word_unat_eq_iff split: if_splits)

definition ext2_find :: "disk \<Rightarrow> u32 \<Rightarrow> cptr \<Rightarrow> ext2 \<Rightarrow> (u32 \<times> ext2) outcome" where
  "ext2_find disk dir_ino name e =
     bindo (ext2_read_inode disk dir_ino e) (\<lambda>(inode, e).
     bindo (ext2_read_block disk e (i_block inode 0) (blk_b e)) (\<lambda>b.
     let e = e\<lparr>blk_b := b\<rparr> in
     bindo (ext2_find_from (blk_b e) (i_size inode) (block_size e) name 0) (\<lambda>r.
     Inr (r, e))))"

function ext2_ls_from :: "u8 list \<Rightarrow> u32 \<Rightarrow> u32 \<Rightarrow> nat \<Rightarrow> screen \<Rightarrow> screen outcome" where
  "ext2_ls_from b isize bsize off d =
     (if \<not> (off < unat isize \<and> off < unat bsize) then Inr d
      else (case de_rec_len b off of
          Inl x \<Rightarrow> Inl x
        | Inr rec_len \<Rightarrow>
            if rec_len = 0 then Inr d
            else bindo (de_inode b off) (\<lambda>ino.
              bindo (if ino \<noteq> 0
                     then bindo (de_name_len b off) (\<lambda>n.
                       bindo (for_try 0 (unat n) (\<lambda>j name. bindo (get8 b (off + 8 + j)) (\<lambda>v. Inr (name @ [v]))) []) (\<lambda>name.
                       Inr (print [10] (print name (print (cstr ''    '') d)))))
                     else Inr d) (\<lambda>d.
              ext2_ls_from b isize bsize (off + unat rec_len) d))))"
  by pat_completeness auto
termination
  by (relation "measure (\<lambda>(b, isize, bsize, off, d). length b - off)")
     (auto simp: get_u16_def word_unat_eq_iff split: if_splits)

definition ext2_ls :: "disk \<Rightarrow> u32 \<Rightarrow> ext2 \<Rightarrow> screen \<Rightarrow> (ext2 \<times> screen) outcome" where
  "ext2_ls disk dir_ino e d =
     bindo (ext2_read_inode disk dir_ino e) (\<lambda>(inode, e).
     bindo (ext2_read_block disk e (i_block inode 0) (blk_b e)) (\<lambda>b.
     let e = e\<lparr>blk_b := b\<rparr> in
     bindo (ext2_ls_from (blk_b e) (i_size inode) (block_size e) 0 d) (\<lambda>d.
     Inr (e, d))))"

definition ext2_inode_size :: "disk \<Rightarrow> u32 \<Rightarrow> ext2 \<Rightarrow> (u32 \<times> ext2) outcome" where
  "ext2_inode_size disk inum e = bindo (ext2_read_inode disk inum e) (\<lambda>(inode, e). Inr (i_size inode, e))"

text \<open>
  Reading a file into a buffer that is reached by stores: \<open>wr a v\<close> stores byte \<open>v\<close> at address
  \<open>a\<close> of whatever memory the buffer lies in, or faults.
\<close>

type_synonym 'm store = "u32 \<Rightarrow> u8 \<Rightarrow> 'm \<Rightarrow> 'm outcome"

function pread_copy :: "'m store \<Rightarrow> u32 \<Rightarrow> (nat \<Rightarrow> u8 outcome) \<Rightarrow> nat \<Rightarrow> nat \<Rightarrow> nat \<Rightarrow> nat \<Rightarrow> 'm \<Rightarrow> (nat \<times> 'm) outcome" where
  "pread_copy wr buf src bsize sz j copied m =
     (if j < bsize \<and> copied < sz then
        bindo (src j) (\<lambda>v.
        bindo (wr (buf + of_nat copied) v m) (\<lambda>m.
        pread_copy wr buf src bsize sz (j + 1) (copied + 1) m))
      else Inr (copied, m))"
  by pat_completeness auto
termination
  by (relation "measure (\<lambda>(wr, buf, src, bsize, sz, j, copied, m). bsize - j)") auto

function pread_blocks :: "disk \<Rightarrow> 'm store \<Rightarrow> u32 \<Rightarrow> u8 list \<Rightarrow> nat \<Rightarrow> nat \<Rightarrow> nat \<Rightarrow> nat \<Rightarrow> ext2 \<Rightarrow> 'm \<Rightarrow>
    (nat \<times> ext2 \<times> 'm) outcome" where
  "pread_blocks disk wr buf inode sz blk blk_off copied e m =
     (if copied < sz \<and> blk < 12 then
        bindo (if i_block inode blk = 0 then
                 bindo (pread_copy wr buf (\<lambda>_. Inr 0) (unat (block_size e)) sz blk_off copied m) (\<lambda>(copied, m).
                 Inr (copied, e, m))
               else
                 bindo (ext2_read_block disk e (i_block inode blk) (blk_a e)) (\<lambda>a.
                 let e = e\<lparr>blk_a := a\<rparr> in
                 bindo (pread_copy wr buf (get8 (blk_a e)) (unat (block_size e)) sz blk_off copied m) (\<lambda>(copied, m).
                 Inr (copied, e, m)))) (\<lambda>(copied, e, m).
        pread_blocks disk wr buf inode sz (blk + 1) 0 copied e m)
      else Inr (copied, e, m))"
  by pat_completeness auto
termination
  by (relation "measure (\<lambda>(disk, wr, buf, inode, sz, blk, blk_off, copied, e, m). 12 - blk)") auto

definition ext2_pread :: "disk \<Rightarrow> 'm store \<Rightarrow> u32 \<Rightarrow> u32 \<Rightarrow> u32 \<Rightarrow> u32 \<Rightarrow> ext2 \<Rightarrow> 'm \<Rightarrow> (u32 \<times> ext2 \<times> 'm) outcome" where
  "ext2_pread disk wr inum buf offset sz e m =
     bindo (ext2_read_inode disk inum e) (\<lambda>(inode, e).
     let file_size = i_size inode in
     if offset \<ge> file_size then Inr (0, e, m)
     else
       let sz = (if offset + sz > file_size then file_size - offset else sz) in
       bindo (udiv offset (block_size e)) (\<lambda>blk.
       let blk_off = offset mod block_size e in
       bindo (pread_blocks disk wr buf inode (unat sz) (unat blk) (unat blk_off) 0 e m) (\<lambda>(copied, e, m).
       Inr (of_nat copied, e, m))))"

text \<open>\<^verbatim>\<open>ext2_read_file\<close> fills an array of the kernel.\<close>

definition put8 :: "u8 list \<Rightarrow> nat \<Rightarrow> u8 \<Rightarrow> u8 list outcome" where
  "put8 b i v = (if i < length b then Inr (b[i := v]) else Inl OutOfBounds)"

function read_file_blocks :: "disk \<Rightarrow> u8 list \<Rightarrow> u32 \<Rightarrow> nat \<Rightarrow> u32 \<Rightarrow> ext2 \<Rightarrow> u8 list \<Rightarrow> (u32 \<times> ext2 \<times> u8 list) outcome" where
  "read_file_blocks disk inode sz blk copied e buf =
     (if blk < 12 \<and> copied < sz then
        let bytes = (if copied + block_size e > sz then sz - copied else block_size e) in
        bindo (if i_block inode blk = 0 then
                 bindo (for_try 0 (unat bytes) (\<lambda>j buf. put8 buf (unat copied + j) 0) buf) (\<lambda>buf. Inr (e, buf))
               else
                 bindo (ext2_read_block disk e (i_block inode blk) (blk_a e)) (\<lambda>a.
                 let e = e\<lparr>blk_a := a\<rparr> in
                 bindo (for_try 0 (unat bytes) (\<lambda>j buf. bindo (get8 (blk_a e) j) (put8 buf (unat copied + j))) buf) (\<lambda>buf.
                 Inr (e, buf)))) (\<lambda>(e, buf).
        read_file_blocks disk inode sz (blk + 1) (copied + bytes) e buf)
      else Inr (copied, e, buf))"
  by pat_completeness auto
termination
  by (relation "measure (\<lambda>(disk, inode, sz, blk, copied, e, buf). 12 - blk)") auto

definition ext2_read_file :: "disk \<Rightarrow> u32 \<Rightarrow> u8 list \<Rightarrow> u32 \<Rightarrow> ext2 \<Rightarrow> (u32 \<times> ext2 \<times> u8 list) outcome" where
  "ext2_read_file disk inum buf max_size e =
     bindo (ext2_read_inode disk inum e) (\<lambda>(inode, e).
     let sz = (if i_size inode < max_size then i_size inode else max_size)
     in read_file_blocks disk inode sz 0 0 e buf)"

declare ext2_find_from.simps [simp del] ext2_ls_from.simps [simp del] pread_copy.simps [simp del]
  pread_blocks.simps [simp del] read_file_blocks.simps [simp del]

section \<open>Blocks and inodes of a mounted disk\<close>

definition disk_ok :: "disk \<Rightarrow> bool" where
  "disk_ok disk \<longleftrightarrow> (\<forall>l. length (disk l) = 512)"

definition bsize :: "ext2 \<Rightarrow> nat" where
  "bsize e = unat (block_size e)"

definition ext2_ok :: "ext2 \<Rightarrow> bool" where
  "ext2_ok e \<longleftrightarrow> 512 dvd bsize e \<and> bsize e \<le> 4096 \<and> 128 \<le> unat (inode_size e) \<and> unat (inode_size e) \<le> bsize e \<and>
     length (blk_a e) = 4096 \<and> length (blk_b e) = 4096 \<and> length (bgd e) = 32"

text \<open>Everything but the contents of the two block buffers.\<close>

definition same_fs :: "ext2 \<Rightarrow> ext2 \<Rightarrow> bool" where
  "same_fs e e' \<longleftrightarrow> block_size e' = block_size e \<and> inode_size e' = inode_size e \<and>
     inodes_per_group e' = inodes_per_group e \<and> bgd e' = bgd e \<and> part_lba e' = part_lba e \<and>
     length (blk_a e') = length (blk_a e) \<and> length (blk_b e') = length (blk_b e)"

definition block_data :: "disk \<Rightarrow> ext2 \<Rightarrow> u32 \<Rightarrow> u8 list" where
  "block_data disk e block = concat (map
     (\<lambda>i. disk_sector disk (part_lba e + block * (block_size e div 512) + of_nat i)) [0..<bsize e div 512])"

lemma same_fs_refl [simp]: "same_fs e e"
  by (simp add: same_fs_def)

lemma same_fs_trans: "same_fs e e1 \<Longrightarrow> same_fs e1 e2 \<Longrightarrow> same_fs e e2"
  by (simp add: same_fs_def)

lemma same_fs_bsize: "same_fs e e' \<Longrightarrow> bsize e' = bsize e"
  by (simp add: same_fs_def bsize_def)

lemma same_fs_ok: "same_fs e e' \<Longrightarrow> ext2_ok e \<Longrightarrow> ext2_ok e'"
  by (simp add: same_fs_def ext2_ok_def bsize_def)

lemma same_fs_block: "same_fs e e' \<Longrightarrow> block_data disk e' = block_data disk e"
  by (simp add: same_fs_def block_data_def bsize_def fun_eq_iff)

lemma bsize_pos: "ext2_ok e \<Longrightarrow> 0 < bsize e"
  by (auto simp: ext2_ok_def)

lemma concat_sectors: "(\<And>i. length (f i) = (512 :: nat)) \<Longrightarrow> length (concat (map f [0..<n])) = n * 512"
  by (induction n) simp_all

lemma length_block_data:
  assumes "ext2_ok e" and "disk_ok disk"
  shows "length (block_data disk e block) = bsize e"
proof -
  have "length (block_data disk e block) = bsize e div 512 * 512"
    using assms(2) unfolding block_data_def by (intro concat_sectors) (simp add: disk_ok_def disk_sector_def)
  with assms(1) show ?thesis by (simp add: ext2_ok_def dvd_div_mult_self)
qed

lemma ext2_read_block_data:
  assumes ok: "ext2_ok e" and disk: "disk_ok disk" and buf: "length buf = 4096"
  shows "ext2_read_block disk e block buf = Inr (block_data disk e block @ drop (bsize e) buf)"
proof -
  let ?f = "\<lambda>i. disk_sector disk (part_lba e + block * (block_size e div 512) + of_nat i)"
  let ?st = "\<lambda>i. concat (map ?f [0..<i]) @ drop (i * 512) buf"
  have len: "length (?f i) = 512" for i using disk by (simp add: disk_ok_def disk_sector_def)
  have n: "bsize e div 512 * 512 = bsize e" "bsize e \<le> 4096" using ok by (auto simp: ext2_ok_def dvd_div_mult_self)
  have s: "unat (block_size e div 512) = bsize e div 512" by (simp add: bsize_def unat_div)
  have "for_try 0 (bsize e div 512) (\<lambda>i buf. if length buf < i * 512 + 512 then Inl OutOfBounds
      else Inr (splice buf (i * 512) (?f i))) buf = Inr (?st (bsize e div 512))"
  proof (rule for_try_states)
    fix i assume "i < bsize e div 512"
    then have "i + 1 \<le> bsize e div 512" by simp
    then have "(i + 1) * 512 \<le> bsize e div 512 * 512" by (rule mult_le_mono1)
    then have le: "i * 512 + 512 \<le> 4096" using n by simp
    have l: "length (concat (map ?f [0..<i])) = i * 512" using concat_sectors[of ?f i] len by blast
    then have "length (?st i) = 4096" using le buf by simp
    moreover have "splice (?st i) (i * 512) (?f i) = ?st (Suc i)"
      using l len[of i] by (simp add: splice_def add_ac)
    ultimately show "(if length (?st i) < i * 512 + 512 then Inl OutOfBounds
        else Inr (splice (?st i) (i * 512) (?f i))) = Inr (?st (Suc i))" using le by (simp del: upt_Suc)
  qed simp_all
  then show ?thesis by (simp add: ext2_read_block_def s block_data_def n)
qed

lemma gather:
  "off + n \<le> length b \<Longrightarrow>
   for_try 0 n (\<lambda>i raw. bindo (get8 b (off + i)) (\<lambda>v. Inr (raw @ [v]))) [] = Inr (take n (drop off b))"
  by (rule for_try_states) (simp_all add: get8_def take_Suc_conv_app_nth)

definition inode_block :: "ext2 \<Rightarrow> u32 \<Rightarrow> u32" where
  "inode_block e inum = bg_inode_table e + (inum - 1) div (block_size e div inode_size e)"

definition inode_offset :: "ext2 \<Rightarrow> u32 \<Rightarrow> nat" where
  "inode_offset e inum = unat (inum - 1) mod (bsize e div unat (inode_size e)) * unat (inode_size e)"

definition inode_bytes :: "disk \<Rightarrow> ext2 \<Rightarrow> u32 \<Rightarrow> u8 list" where
  "inode_bytes disk e inum = take 128 (drop (inode_offset e inum) (block_data disk e (inode_block e inum)))"

lemma inode_offset_bound:
  assumes "ext2_ok e"
  shows "inode_offset e inum + unat (inode_size e) \<le> bsize e"
proof -
  let ?z = "unat (inode_size e)" and ?p = "bsize e div unat (inode_size e)"
  have "0 < ?z" "?z \<le> bsize e" using assms by (auto simp: ext2_ok_def)
  then have "0 < ?p" by (simp add: div_greater_zero_iff)
  then have "unat (inum - 1) mod ?p + 1 \<le> ?p" using mod_less_divisor[of ?p "unat (inum - 1)"] by linarith
  then have "(unat (inum - 1) mod ?p + 1) * ?z \<le> ?p * ?z" by (rule mult_le_mono1)
  also have "\<dots> \<le> bsize e" by (rule div_times_less_eq_dividend)
  finally show ?thesis by (simp add: inode_offset_def)
qed

lemma ext2_read_inode_bytes:
  assumes ok: "ext2_ok e" and disk: "disk_ok disk"
  shows "\<exists>e'. ext2_read_inode disk inum e = Inr (inode_bytes disk e inum, e') \<and> same_fs e e' \<and> blk_b e' = blk_b e"
proof -
  let ?z = "inode_size e"
  have z: "?z \<noteq> 0" "unat ?z \<le> bsize e" "128 \<le> unat ?z" using ok by (auto simp: ext2_ok_def)
  have "unat (block_size e div ?z) = bsize e div unat ?z" by (simp add: bsize_def unat_div)
  moreover have "0 < bsize e div unat ?z" using z by (simp add: div_greater_zero_iff)
  ultimately have ipb: "block_size e div ?z \<noteq> 0" "unat (block_size e div ?z) = bsize e div unat ?z" by auto
  have b: "inode_offset e inum + unat ?z \<le> bsize e" using ok by (rule inode_offset_bound)
  then have "unat ((inum - 1) mod (block_size e div ?z)) * unat ?z < 2 ^ LENGTH(32)"
    using ok unfolding inode_offset_def unat_mod ipb by (simp add: ext2_ok_def)
  then have off: "unat ((inum - 1) mod (block_size e div ?z) * ?z) = inode_offset e inum"
    by (simp only: unat_mult_lem[THEN iffD1] inode_offset_def unat_mod ipb)
  let ?a = "block_data disk e (inode_block e inum) @ drop (bsize e) (blk_a e)"
  have a: "ext2_read_block disk e (inode_block e inum) (blk_a e) = Inr ?a"
    using ext2_read_block_data[OF ok disk] ok by (simp add: ext2_ok_def)
  have l: "length (block_data disk e (inode_block e inum)) = bsize e" by (rule length_block_data[OF ok disk])
  have b': "inode_offset e inum + 128 \<le> bsize e" using b z by linarith
  then have g: "for_try 0 128 (\<lambda>i raw. bindo (get8 ?a (inode_offset e inum + i)) (\<lambda>v. Inr (raw @ [v]))) [] = Inr (inode_bytes disk e inum)"
    using gather[of "inode_offset e inum" 128 ?a] by (simp add: l inode_bytes_def)
  have "ext2_read_inode disk inum e = Inr (inode_bytes disk e inum, e\<lparr>blk_a := ?a\<rparr>)"
    using z(1) ipb(1) a g by (simp add: ext2_read_inode_def Let_def udiv_def off inode_block_def[symmetric])
  moreover have "same_fs e (e\<lparr>blk_a := ?a\<rparr>)" using ok l by (simp add: same_fs_def ext2_ok_def)
  ultimately show ?thesis by auto
qed

text \<open>Whatever the disk holds, an operation that returns leaves the mount as it was.\<close>

lemma read_into_blk_b:
  assumes "ext2_ok e" and "disk_ok disk" and "same_fs e e1" and "ext2_read_block disk e1 blk (blk_b e1) = Inr b"
  shows "same_fs e (e1\<lparr>blk_b := b\<rparr>)"
proof -
  have ok: "ext2_ok e1" using assms(1,3) same_fs_ok by blast
  then have "b = block_data disk e1 blk @ drop (bsize e1) (blk_b e1)"
    using ext2_read_block_data[OF ok assms(2), of "blk_b e1" blk] assms(4) by (simp add: ext2_ok_def)
  then have "length b = length (blk_b e1)"
    using ok length_block_data[OF ok assms(2)] by (simp add: ext2_ok_def)
  with assms(3) show ?thesis by (simp add: same_fs_def)
qed

lemma ext2_find_same_fs:
  assumes "ext2_ok e" and "disk_ok disk" and "ext2_find disk ino p e = Inr (r, e')"
  shows "same_fs e e'"
proof -
  obtain e1 where e1: "ext2_read_inode disk ino e = Inr (inode_bytes disk e ino, e1)" "same_fs e e1"
    using ext2_read_inode_bytes[OF assms(1,2)] by blast
  with assms(3) show ?thesis using read_into_blk_b[OF assms(1,2) e1(2)] by (auto simp: ext2_find_def)
qed

lemma ext2_ls_same_fs:
  assumes "ext2_ok e" and "disk_ok disk" and "ext2_ls disk ino e d = Inr (e', d')"
  shows "same_fs e e'"
proof -
  obtain e1 where e1: "ext2_read_inode disk ino e = Inr (inode_bytes disk e ino, e1)" "same_fs e e1"
    using ext2_read_inode_bytes[OF assms(1,2)] by blast
  with assms(3) show ?thesis using read_into_blk_b[OF assms(1,2) e1(2)] by (auto simp: ext2_ls_def)
qed

lemma ext2_inode_size_same_fs:
  assumes "ext2_ok e" and "disk_ok disk" and "ext2_inode_size disk ino e = Inr (r, e')"
  shows "same_fs e e'"
  using ext2_read_inode_bytes[OF assms(1,2), of ino] assms(3) by (auto simp: ext2_inode_size_def)

section \<open>Directories\<close>

text \<open>
  A directory as a list of entries, and its bytes on disk: inode number, record length, length
  and type bytes, the name, and padding up to the record length.
\<close>

record dirent =
  de_ino :: u32
  de_type :: u8
  de_name :: "u8 list"
  de_pad :: "u8 list"

definition de_len :: "dirent \<Rightarrow> nat" where
  "de_len x = 8 + length (de_name x) + length (de_pad x)"

definition dirent_bytes :: "dirent \<Rightarrow> u8 list" where
  "dirent_bytes x = bytes32 (de_ino x) @ bytes16 (of_nat (de_len x)) @
     [of_nat (length (de_name x)), de_type x] @ de_name x @ de_pad x"

definition dirent_ok :: "dirent \<Rightarrow> bool" where
  "dirent_ok x \<longleftrightarrow> length (de_name x) < 256 \<and> de_len x < 65536"

definition layout :: "dirent list \<Rightarrow> u8 list" where
  "layout xs = concat (map dirent_bytes xs)"

definition dir_lookup :: "dirent list \<Rightarrow> u8 list \<Rightarrow> u32" where
  "dir_lookup xs nm = (case find (\<lambda>x. de_ino x \<noteq> 0 \<and> de_name x = nm) xs of Some x \<Rightarrow> de_ino x | None \<Rightarrow> 0)"

text \<open>The pointer \<open>p\<close> leads to the C string \<open>nm\<close>.\<close>

definition names :: "cptr \<Rightarrow> u8 list \<Rightarrow> bool" where
  "names p nm \<longleftrightarrow> 0 \<notin> set nm \<and> (\<forall>i<length nm. p i = Inr (nm ! i)) \<and> p (length nm) = Inr 0"

lemma names_literal: "0 \<notin> set s \<Longrightarrow> names (literal s) s"
  by (simp add: names_def literal_def get8_def nth_append)

lemma names_nth: "names p nm \<Longrightarrow> j < length nm \<Longrightarrow> p j = Inr (nm ! j) \<and> nm ! j \<noteq> 0"
  unfolding names_def by (metis nth_mem)

lemma length_dirent_bytes [simp]: "length (dirent_bytes x) = de_len x"
  by (simp add: dirent_bytes_def de_len_def bytes16_def bytes32_def)

lemma get_dirent:
  assumes "dirent_ok x"
  shows "get_u32 (pre @ dirent_bytes x @ rest) (length pre) = Inr (de_ino x)"
    "get_u16 (pre @ dirent_bytes x @ rest) (length pre + 4) = Inr (of_nat (de_len x))"
    "get8 (pre @ dirent_bytes x @ rest) (length pre + 6) = Inr (of_nat (length (de_name x)))"
    "take (length (de_name x)) (drop (length pre + 8) (pre @ dirent_bytes x @ rest)) = de_name x"
    "length pre + 8 + length (de_name x) \<le> length (pre @ dirent_bytes x @ rest)"
    "unat (of_nat (de_len x) :: u16) = de_len x" "unat (of_nat (length (de_name x)) :: u8) = length (de_name x)"
    "(of_nat (de_len x) :: u16) \<noteq> 0"
proof -
  let ?b = "pre @ dirent_bytes x @ rest"
  have d: "dirent_bytes x = bytes32 (de_ino x) @ bytes16 (of_nat (de_len x)) @
      [of_nat (length (de_name x)), de_type x] @ de_name x @ de_pad x" by (rule dirent_bytes_def)
  have nth: "?b ! (length pre + k) = (dirent_bytes x @ rest) ! k" for k by simp
  show "get_u32 ?b (length pre) = Inr (de_ino x)"
    unfolding get_u32_def le32_def nth nth[of 0, simplified]
    by (simp add: d bytes32_def de_len_def le32_bytes nth_append)
  show "get_u16 ?b (length pre + 4) = Inr (of_nat (de_len x))"
  proof -
    have "le16 ?b (length pre + 4) = of_nat (de_len x)"
      unfolding le16_def add.assoc nth by (simp add: d bytes32_def bytes16_def le16_bytes)
    moreover have "length pre + 4 + 2 \<le> length ?b" by (simp add: de_len_def)
    ultimately show ?thesis by (simp only: get_u16_def if_True)
  qed
  show "get8 ?b (length pre + 6) = Inr (of_nat (length (de_name x)))"
    unfolding get8_def nth by (simp add: d bytes32_def bytes16_def de_len_def)
  show "take (length (de_name x)) (drop (length pre + 8) ?b) = de_name x"
    by (simp add: d bytes32_def bytes16_def)
  show "length pre + 8 + length (de_name x) \<le> length ?b" by (simp add: de_len_def)
  show u: "unat (of_nat (de_len x) :: u16) = de_len x" "unat (of_nat (length (de_name x)) :: u8) = length (de_name x)"
    using assms by (simp_all add: dirent_ok_def)
  show "(of_nat (de_len x) :: u16) \<noteq> 0"
  proof
    assume "(of_nat (de_len x) :: u16) = 0"
    then have "unat (of_nat (de_len x) :: u16) = 0" by simp
    then show False using u(1) by (simp add: de_len_def)
  qed
qed

lemma ext2_match_names:
  assumes "names p nm" and "np + j + n \<le> length b" and "j \<le> length nm"
  shows "ext2_match b np p j n = Inr (drop j nm = take n (drop (np + j) b))"
  using assms(2,3)
proof (induction n arbitrary: j)
  case 0
  show ?case
  proof (cases "j = length nm")
    case True
    then show ?thesis using assms(1) by (simp add: names_def)
  next
    case False
    with 0 have "j < length nm" by simp
    then have "p j = Inr (nm ! j)" "nm ! j \<noteq> 0" using names_nth[OF assms(1)] by simp_all
    with \<open>j < length nm\<close> show ?thesis by simp
  qed
next
  case (Suc n)
  then have b: "take (Suc n) (drop (np + j) b) = b ! (np + j) # take n (drop (np + (j + 1)) b)" "np + j < length b"
    by (simp_all add: Cons_nth_drop_Suc[symmetric])
  show ?case
  proof (cases "j = length nm")
    case True
    then have "p j = Inr 0" using assms(1) by (simp add: names_def)
    then show ?thesis unfolding b(1) using True by simp
  next
    case False
    with Suc.prems have j: "j < length nm" by simp
    then have "p j = Inr (nm ! j)" "nm ! j \<noteq> 0" using names_nth[OF assms(1)] by simp_all
    moreover have "drop j nm = nm ! j # drop (j + 1) nm" using j by (simp add: Cons_nth_drop_Suc)
    ultimately show ?thesis using Suc.IH[of "j + 1"] Suc.prems j b by (simp add: get8_def)
  qed
qed

lemma ext2_find_layout:
  assumes nm: "names p nm"
  shows "\<forall>x \<in> set xs. dirent_ok x \<Longrightarrow> unat isize = length pre + length (layout xs) \<Longrightarrow> unat isize \<le> unat bs \<Longrightarrow>
    ext2_find_from (pre @ layout xs @ rest) isize bs p (length pre) = Inr (dir_lookup xs nm)"
proof (induction xs arbitrary: pre)
  case Nil
  then show ?case by (subst ext2_find_from.simps) (simp add: layout_def dir_lookup_def)
next
  case (Cons x xs)
  let ?b = "pre @ layout (x # xs) @ rest"
  have b: "?b = pre @ dirent_bytes x @ (layout xs @ rest)" by (simp add: layout_def)
  have ok: "dirent_ok x" using Cons.prems by simp
  note g = get_dirent(1-5)[OF ok, of pre "layout xs @ rest", folded b] get_dirent(6-8)[OF ok]
  have "?b = (pre @ dirent_bytes x) @ layout xs @ rest" by (simp add: layout_def)
  then have IH: "ext2_find_from ?b isize bs p (length pre + de_len x) = Inr (dir_lookup xs nm)"
    using Cons.IH[of "pre @ dirent_bytes x"] Cons.prems by (simp add: layout_def)
  have "length pre < unat isize" using Cons.prems(2) by (simp add: layout_def de_len_def)
  then have lt: "length pre < unat isize \<and> length pre < unat bs" using Cons.prems(3) by linarith
  have m: "ext2_match ?b (length pre + 8) p 0 (length (de_name x)) = Inr (nm = de_name x)"
    using ext2_match_names[OF nm, of "length pre + 8" 0 "length (de_name x)" ?b] g(4,5) by simp
  show ?case
    using lt g(1-3,6-8) m IH
    by (subst ext2_find_from.simps) (auto simp: dir_lookup_def)
qed

definition ls_line :: "dirent \<Rightarrow> screen \<Rightarrow> screen" where
  "ls_line x d = (if de_ino x = 0 then d else print [10] (print (de_name x) (print (cstr ''    '') d)))"

lemma ext2_ls_layout:
  "\<forall>x \<in> set xs. dirent_ok x \<Longrightarrow> unat isize = length pre + length (layout xs) \<Longrightarrow> unat isize \<le> unat bs \<Longrightarrow>
    ext2_ls_from (pre @ layout xs @ rest) isize bs (length pre) d = Inr (fold ls_line xs d)"
proof (induction xs arbitrary: pre d)
  case Nil
  then show ?case by (subst ext2_ls_from.simps) (simp add: layout_def)
next
  case (Cons x xs)
  let ?b = "pre @ layout (x # xs) @ rest"
  have b: "?b = pre @ dirent_bytes x @ (layout xs @ rest)" by (simp add: layout_def)
  have ok: "dirent_ok x" using Cons.prems by simp
  note g = get_dirent(1-5)[OF ok, of pre "layout xs @ rest", folded b] get_dirent(6-8)[OF ok]
  have "?b = (pre @ dirent_bytes x) @ layout xs @ rest" by (simp add: layout_def)
  then have IH: "ext2_ls_from ?b isize bs (length pre + de_len x) d' = Inr (fold ls_line xs d')" for d'
    using Cons.IH[of "pre @ dirent_bytes x"] Cons.prems by (simp add: layout_def)
  have "length pre < unat isize" using Cons.prems(2) by (simp add: layout_def de_len_def)
  then have lt: "length pre < unat isize \<and> length pre < unat bs" using Cons.prems(3) by linarith
  have m: "for_try 0 (length (de_name x)) (\<lambda>j name. bindo (get8 ?b (length pre + 8 + j)) (\<lambda>v. Inr (name @ [v]))) [] = Inr (de_name x)"
    using gather[OF g(5)] g(4) by simp
  show ?case
    using lt g(1-3,6-8) m IH
    by (subst ext2_ls_from.simps) (auto simp: ls_line_def)
qed

section \<open>Files\<close>

fun store_bytes :: "'m store \<Rightarrow> u32 \<Rightarrow> u8 list \<Rightarrow> 'm \<Rightarrow> 'm outcome" where
  "store_bytes wr a [] m = Inr m"
| "store_bytes wr a (v # vs) m = bindo (wr a v m) (store_bytes wr (a + 1) vs)"

lemma store_bytes_append:
  "store_bytes wr a (us @ vs) m = bindo (store_bytes wr a us m) (store_bytes wr (a + of_nat (length us)) vs)"
proof (induction us arbitrary: a m)
  case (Cons u us)
  then show ?case by (cases "wr a u m") (simp_all add: add_ac)
qed simp

text \<open>The byte at position \<open>i\<close> of the first twelve blocks of a file; a hole reads as zeros.\<close>

definition file_byte :: "disk \<Rightarrow> ext2 \<Rightarrow> u8 list \<Rightarrow> nat \<Rightarrow> u8" where
  "file_byte disk e inode i =
     (let blk = i_block inode (i div bsize e) in if blk = 0 then 0 else block_data disk e blk ! (i mod bsize e))"

lemma same_fs_file: "same_fs e e' \<Longrightarrow> file_byte disk e' = file_byte disk e"
  by (simp add: fun_eq_iff file_byte_def same_fs_block same_fs_bsize Let_def)

lemma pread_copy_stores:
  assumes "\<And>k. j \<le> k \<Longrightarrow> k < bs \<Longrightarrow> src k = Inr (f k)" and "j \<le> bs" and "copied \<le> sz"
  shows "pread_copy wr buf src bs sz j copied m =
    bindo (store_bytes wr (buf + of_nat copied) (map f [j..<j + min (bs - j) (sz - copied)]) m)
      (\<lambda>m. Inr (copied + min (bs - j) (sz - copied), m))"
  using assms
proof (induction "bs - j" arbitrary: j copied m)
  case 0
  then show ?case by (subst pread_copy.simps) simp
next
  case (Suc n)
  show ?case
  proof (cases "copied < sz")
    case True
    have n: "n = bs - (j + 1)" "j < bs" using Suc.hyps(2) by simp_all
    define k where "k = min (bs - Suc j) (sz - Suc copied)"
    have mn: "min (bs - j) (sz - copied) = Suc k" using n True by (simp add: k_def)
    have u: "[j..<j + Suc k] = j # [Suc j..<Suc j + k]" by (simp add: upt_conv_Cons del: upt_Suc)
    have IH: "pread_copy wr buf src bs sz (Suc j) (Suc copied) m' =
        bindo (store_bytes wr (buf + of_nat copied + 1) (map f [Suc j..<Suc j + k]) m') (\<lambda>m. Inr (Suc copied + k, m))" for m'
      using Suc.hyps(1)[of "Suc j" "Suc copied" m'] n Suc.prems True by (simp add: k_def add_ac del: upt_Suc)
    show ?thesis
      unfolding mn u using n True Suc.prems(1)[of j] IH
      by (subst pread_copy.simps) (cases "wr (buf + of_nat copied) (f j) m"; simp del: upt_Suc)
  qed (use Suc.prems in \<open>subst pread_copy.simps, simp\<close>)
qed

lemma file_byte_block:
  assumes "k < bsize e"
  shows "file_byte disk e inode (blk * bsize e + k) =
    (if i_block inode blk = 0 then 0 else block_data disk e (i_block inode blk) ! k)"
  using assms by (simp add: file_byte_def Let_def)

lemma map_file_bytes:
  "(\<And>k. k < n \<Longrightarrow> f (j + k) = g (p + k)) \<Longrightarrow> map f [j..<j + n] = map g [p..<p + n :: nat]"
  by (rule nth_equalityI) simp_all

definition blocks_len :: "nat \<Rightarrow> nat \<Rightarrow> nat \<Rightarrow> nat \<Rightarrow> nat" where
  "blocks_len bs p copied sz = min (sz - copied) (12 * bs - p)"

lemma blocks_split:
  assumes "blk < 12" and "blk_off < bs" and "copied < sz"
  defines "p \<equiv> blk * bs + blk_off" and "n \<equiv> min (bs - blk_off) (sz - copied)" and "p' \<equiv> (blk + 1) * bs"
  shows "blocks_len bs p copied sz = n + blocks_len bs p' (copied + n) sz"
    and "map f [p..<p + blocks_len bs p copied sz] =
      map f [p..<p + n] @ map f [p'..<p' + blocks_len bs p' (copied + n) sz]"
proof -
  have "(blk + 1) * bs \<le> 12 * bs" using assms(1) by (intro mult_le_mono1) simp
  then have le: "p' \<le> 12 * bs" by (simp add: p'_def)
  have pp: "p + (bs - blk_off) = p'" using assms(2) by (simp add: p_def p'_def)
  show N: "blocks_len bs p copied sz = n + blocks_len bs p' (copied + n) sz"
  proof (cases "sz - copied \<le> bs - blk_off")
    case True
    moreover have "bs - blk_off \<le> 12 * bs - p" using le pp by linarith
    ultimately show ?thesis using assms(3) by (simp add: blocks_len_def n_def)
  next
    case False
    then have n: "n = bs - blk_off" by (simp add: n_def)
    have "12 * bs - p = n + (12 * bs - p')" using le pp n by linarith
    moreover have "sz - copied = n + (sz - (copied + n))" using False n by linarith
    ultimately have "min (sz - copied) (12 * bs - p) = min (n + (sz - (copied + n))) (n + (12 * bs - p'))"
      by (simp only:)
    then show ?thesis by (simp add: blocks_len_def min_add_distrib_right[symmetric])
  qed
  show "map f [p..<p + blocks_len bs p copied sz] =
      map f [p..<p + n] @ map f [p'..<p' + blocks_len bs p' (copied + n) sz]"
  proof (cases "sz - copied \<le> bs - blk_off")
    case True
    then have "blocks_len bs p' (copied + n) sz = 0" by (simp add: blocks_len_def n_def)
    with N show ?thesis by simp
  next
    case False
    then have "p' = p + n" using pp by (simp add: n_def)
    then show ?thesis unfolding N using upt_add_eq_append[of p "p + n" "blocks_len bs p' (copied + n) sz"]
      by (simp add: add.assoc)
  qed
qed

text \<open>The driver after a block has been looked at: a block number of 0 reads nothing.\<close>

definition after_block :: "disk \<Rightarrow> u32 \<Rightarrow> ext2 \<Rightarrow> ext2" where
  "after_block disk blk e = (if blk = 0 then e else e\<lparr>blk_a := block_data disk e blk @ drop (bsize e) (blk_a e)\<rparr>)"

lemma after_block:
  assumes "ext2_ok e" and "disk_ok disk"
  shows "same_fs e (after_block disk blk e)" "blk_b (after_block disk blk e) = blk_b e"
    "blk \<noteq> 0 \<Longrightarrow> ext2_read_block disk e blk (blk_a e) = Inr (blk_a (after_block disk blk e))"
    "blk \<noteq> 0 \<Longrightarrow> e\<lparr>blk_a := blk_a (after_block disk blk e)\<rparr> = after_block disk blk e"
    "blk \<noteq> 0 \<Longrightarrow> k < bsize e \<Longrightarrow> get8 (blk_a (after_block disk blk e)) k = Inr (block_data disk e blk ! k)"
  using length_block_data[OF assms, of blk] ext2_read_block_data[OF assms, of "blk_a e" blk] assms(1)
  by (auto simp: after_block_def same_fs_def ext2_ok_def get8_def nth_append)

text \<open>One block of a positioned read, and the whole of it.\<close>

lemma pread_block_copied:
  fixes blk :: nat and inode :: "u8 list"
  assumes ok: "ext2_ok e" and disk: "disk_ok disk" and off: "blk_off < bsize e" and c: "copied \<le> sz"
  defines "n \<equiv> min (bsize e - blk_off) (sz - copied)" and "p \<equiv> blk * bsize e + blk_off"
    and "src \<equiv> (if i_block inode blk = 0 then (\<lambda>_. Inr 0) else get8 (blk_a (after_block disk (i_block inode blk) e)))"
  shows "pread_copy wr buf src (bsize e) sz blk_off copied m =
    bindo (store_bytes wr (buf + of_nat copied) (map (file_byte disk e inode) [p..<p + n]) m) (\<lambda>m. Inr (copied + n, m))"
proof -
  let ?f = "\<lambda>k. file_byte disk e inode (blk * bsize e + k)"
  have "src k = Inr (?f k)" if "k < bsize e" for k
    using after_block(5)[OF ok disk _ that] by (simp add: src_def file_byte_block[OF that])
  moreover have "map ?f [blk_off..<blk_off + n] = map (file_byte disk e inode) [p..<p + n]"
    by (rule map_file_bytes) (simp add: p_def add.assoc)
  ultimately show ?thesis
    using pread_copy_stores[of blk_off "bsize e" src ?f copied sz wr buf m] off c by (simp add: n_def)
qed

lemma pread_blocks_step:
  assumes ok: "ext2_ok e" and disk: "disk_ok disk" and blk: "blk < 12" and off: "blk_off < bsize e" and c: "copied < sz"
  defines "n \<equiv> min (bsize e - blk_off) (sz - copied)" and "p \<equiv> blk * bsize e + blk_off"
  shows "pread_blocks disk wr buf inode sz blk blk_off copied e m =
    bindo (store_bytes wr (buf + of_nat copied) (map (file_byte disk e inode) [p..<p + n]) m)
      (\<lambda>m. pread_blocks disk wr buf inode sz (blk + 1) 0 (copied + n) (after_block disk (i_block inode blk) e) m)"
  using pread_block_copied[OF ok disk off less_imp_le[OF c], where inode = inode and blk = blk and wr = wr and buf = buf and m = m] after_block(3,4)[OF ok disk, of "i_block inode blk"]
    same_fs_bsize[OF after_block(1)[OF ok disk], of "i_block inode blk"] blk c unfolding n_def[symmetric] p_def[symmetric]
  by (subst pread_blocks.simps) (cases "i_block inode blk = 0"; simp add: after_block_def[of _ 0] bsize_def[symmetric] bindo_assoc Let_def)

lemma pread_blocks_stores:
  assumes disk: "disk_ok disk"
  shows "\<lbrakk>ext2_ok e; blk \<le> 12; blk_off < bsize e; copied \<le> sz\<rbrakk> \<Longrightarrow>
    \<exists>e'. same_fs e e' \<and> blk_b e' = blk_b e \<and> (\<forall>m.
      pread_blocks disk wr buf inode sz blk blk_off copied e m =
        bindo (store_bytes wr (buf + of_nat copied)
            (map (file_byte disk e inode)
              [blk * bsize e + blk_off..<blk * bsize e + blk_off + blocks_len (bsize e) (blk * bsize e + blk_off) copied sz]) m)
          (\<lambda>m. Inr (copied + blocks_len (bsize e) (blk * bsize e + blk_off) copied sz, e', m)))"
proof (induction "12 - blk" arbitrary: blk blk_off copied e)
  case 0
  then have "blk = 12" by simp
  then show ?case by (intro exI[of _ e]) (simp add: blocks_len_def pread_blocks.simps)
next
  case (Suc d)
  let ?bs = "bsize e" and ?e1 = "after_block disk (i_block inode blk) e" and ?fb = "file_byte disk e inode"
  have blk: "blk < 12" "d = 12 - (blk + 1)" using Suc.hyps(2) by simp_all
  show ?case
  proof (cases "copied < sz")
    case False
    with Suc.prems have "sz = copied" by simp
    then show ?thesis by (intro exI[of _ e]) (simp add: blocks_len_def pread_blocks.simps)
  next
    case True
    let ?n = "min (?bs - blk_off) (sz - copied)"
    note s1 = after_block(1,2)[OF Suc.prems(1) disk, of "i_block inode blk"]
    have "copied + ?n \<le> sz" "blk + 1 \<le> 12" "0 < bsize ?e1"
      using Suc.prems blk True same_fs_bsize[OF s1(1)] by auto
    from Suc.hyps(1)[OF blk(2) same_fs_ok[OF s1(1) Suc.prems(1)] this(2,3,1)]
    obtain e' where e': "same_fs ?e1 e'" "blk_b e' = blk_b ?e1"
      "\<And>m. pread_blocks disk wr buf inode sz (blk + 1) 0 (copied + ?n) ?e1 m =
        bindo (store_bytes wr (buf + of_nat (copied + ?n))
            (map ?fb [(blk + 1) * ?bs..<(blk + 1) * ?bs + blocks_len ?bs ((blk + 1) * ?bs) (copied + ?n) sz]) m)
          (\<lambda>m. Inr (copied + ?n + blocks_len ?bs ((blk + 1) * ?bs) (copied + ?n) sz, e', m))"
      unfolding same_fs_bsize[OF s1(1)] same_fs_file[OF s1(1)] add_0_right by blast
    note sp = blocks_split(1)[OF blk(1) Suc.prems(3) True] blocks_split(2)[OF blk(1) Suc.prems(3) True, of ?fb]
    show ?thesis
      unfolding pread_blocks_step[OF Suc.prems(1) disk blk(1) Suc.prems(3) True] e'(3) sp(2) store_bytes_append
      unfolding sp(1) using same_fs_trans[OF s1(1) e'(1)] e'(2) s1(2)
      by (intro exI[of _ e']) (simp add: bindo_assoc add_ac)
  qed
qed

text \<open>The number of bytes a positioned read returns.\<close>

definition pread_len :: "disk \<Rightarrow> ext2 \<Rightarrow> u32 \<Rightarrow> u32 \<Rightarrow> u32 \<Rightarrow> nat" where
  "pread_len disk e inum offset sz =
     min (unat sz) (min (unat (i_size (inode_bytes disk e inum))) (12 * bsize e) - unat offset)"

lemma ext2_pread_stores:
  fixes sz :: u32
  assumes ok: "ext2_ok e" and disk: "disk_ok disk" and lt: "offset < i_size (inode_bytes disk e inum)"
  defines "inode \<equiv> inode_bytes disk e inum"
  defines "sz' \<equiv> (if offset + sz > i_size inode then i_size inode - offset else sz)"
  defines "n \<equiv> blocks_len (bsize e) (unat offset) 0 (unat sz')"
  shows "\<exists>e'. same_fs e e' \<and> (\<forall>m. ext2_pread disk wr inum buf offset sz e m =
    bindo (store_bytes wr buf (map (file_byte disk e inode) [unat offset..<unat offset + n]) m) (\<lambda>m. Inr (of_nat n, e', m)))"
proof -
  obtain e1 where e1: "ext2_read_inode disk inum e = Inr (inode, e1)" "same_fs e e1"
    using ext2_read_inode_bytes[OF ok disk, of inum] unfolding inode_def by blast
  have bs: "block_size e1 = block_size e" using e1(2) by (simp add: same_fs_def)
  have pos: "0 < bsize e" using ok by (rule bsize_pos)
  then have nz: "block_size e \<noteq> 0" by (auto simp: bsize_def)
  have nle: "\<not> i_size inode \<le> offset" using lt by (simp add: inode_def)
  let ?q = "unat offset div bsize e" and ?r = "unat offset mod bsize e"
  have "\<exists>e'. same_fs e1 e' \<and> (\<forall>m. pread_blocks disk wr buf inode (unat sz') ?q ?r 0 e1 m =
    bindo (store_bytes wr buf (map (file_byte disk e inode) [unat offset..<unat offset + n]) m) (\<lambda>m. Inr (n, e', m)))"
  proof (cases "?q \<le> 12")
    case True
    have "?r < bsize e1" using pos same_fs_bsize[OF e1(2)] by simp
    from pread_blocks_stores[OF disk same_fs_ok[OF e1(2) ok] True this, of 0 "unat sz'" wr buf inode]
    show ?thesis unfolding same_fs_bsize[OF e1(2)] same_fs_file[OF e1(2)] n_def by simp blast
  next
    case False
    then have "12 * bsize e \<le> unat offset"
      by (meson div_le_mono le_trans nat_le_linear nonzero_mult_div_cancel_right less_mult_imp_div_less not_le)
    then have "n = 0" by (simp add: n_def blocks_len_def)
    with False show ?thesis by (intro exI[of _ e1]) (simp add: pread_blocks.simps)
  qed
  then obtain e' where e': "same_fs e1 e'" "\<And>m. pread_blocks disk wr buf inode (unat sz') ?q ?r 0 e1 m =
    bindo (store_bytes wr buf (map (file_byte disk e inode) [unat offset..<unat offset + n]) m) (\<lambda>m. Inr (n, e', m))" by blast
  have "ext2_pread disk wr inum buf offset sz e m =
    bindo (store_bytes wr buf (map (file_byte disk e inode) [unat offset..<unat offset + n]) m) (\<lambda>m. Inr (of_nat n, e', m))" for m
    using nle nz e'(2)[of m]
    by (simp add: ext2_pread_def e1(1) bs udiv_def sz'_def[symmetric] unat_div unat_mod bsize_def Let_def bindo_assoc)
  then show ?thesis using same_fs_trans[OF e1(2) e'(1)] by blast
qed

lemma ext2_pread_same_fs:
  assumes "ext2_ok e" and "disk_ok disk" and "ext2_pread disk wr inum buf offset sz e m = Inr (n, e', m')"
  shows "same_fs e e'"
proof (cases "offset < i_size (inode_bytes disk e inum)")
  case True
  from ext2_pread_stores[OF assms(1,2) this, where sz = sz and wr = wr and buf = buf] assms(3) show ?thesis by auto
next
  case False
  obtain e1 where "ext2_read_inode disk inum e = Inr (inode_bytes disk e inum, e1)" "same_fs e e1"
    using ext2_read_inode_bytes[OF assms(1,2)] by blast
  with False assms(3) show ?thesis by (simp add: ext2_pread_def not_less)
qed

section \<open>Whole files\<close>

lemma fill_array:
  assumes "\<And>j. j < n \<Longrightarrow> src j = Inr (g j)" and "c + n \<le> length buf"
  shows "for_try 0 n (\<lambda>j buf. bindo (src j) (put8 buf (c + j))) buf =
    Inr (take c buf @ map g [0..<n] @ drop (c + n) buf)"
proof (rule for_try_states)
  fix j assume j: "j < n"
  then have "drop (c + j) buf = buf ! (c + j) # drop (c + Suc j) buf"
    using assms(2) by (simp add: Cons_nth_drop_Suc)
  then show "bindo (src j) (put8 (take c buf @ map g [0..<j] @ drop (c + j) buf) (c + j)) =
      Inr (take c buf @ map g [0..<Suc j] @ drop (c + Suc j) buf)"
    using j assms by (simp add: put8_def list_update_append)
qed (use assms in simp_all)

text \<open>The array when the first \<open>c\<close> bytes of the file are in it.\<close>

definition filled :: "disk \<Rightarrow> ext2 \<Rightarrow> u8 list \<Rightarrow> u8 list \<Rightarrow> nat \<Rightarrow> u8 list" where
  "filled disk e inode buf c = map (file_byte disk e inode) [0..<c] @ drop c buf"

lemma filled_step:
  assumes "c + n \<le> length buf" and "\<And>j. j < n \<Longrightarrow> g j = file_byte disk e inode (c + j)"
  shows "take c (filled disk e inode buf c) @ map g [0..<n] @ drop (c + n) (filled disk e inode buf c) =
    filled disk e inode buf (c + n)"
proof -
  have "map g [0..<n] = map (file_byte disk e inode) [c..<c + n]"
    using assms(2) by (intro nth_equalityI) simp_all
  then show ?thesis using assms(1) upt_add_eq_append[of 0 c n] by (simp add: filled_def add.commute)
qed

text \<open>One block of a file: the number of bytes taken, and the array after them.\<close>

lemma read_file_bytes_left:
  assumes bs: "bs \<le> 4096" "unat (block_size e) = bs" and blk: "blk < 12" and c: "c = blk * bs" "c < unat sz"
  defines "bytes \<equiv> (if of_nat c + block_size e > sz then sz - of_nat c else block_size e)"
  shows "unat (of_nat c :: u32) = c" "of_nat c < sz" "unat bytes = min bs (unat sz - c)" "c + unat bytes = min (unat sz) ((blk + 1) * bs)"
proof -
  show uc: "unat (of_nat c :: u32) = c" using c(2) unat_lt32[of sz] by (intro unat_of_nat_lt) simp
  then show lt: "of_nat c < sz" using c(2) by (simp add: word_less_nat_alt)
  have "(blk + 1) * bs \<le> 12 * 4096" using blk bs(1) by (intro mult_le_mono) simp_all
  then have "c + bs \<le> 49152" by (simp add: c(1))
  then have "unat (of_nat c :: u32) + unat (block_size e) < 2 ^ LENGTH(32)" unfolding uc bs(2) by simp
  then have u1: "unat (of_nat c + block_size e) = c + bs" by (simp only: unat_add_no_wrap uc bs(2))
  show n: "unat bytes = min bs (unat sz - c)"
    using lt u1 bs(2) by (auto simp: bytes_def word_less_nat_alt unat_sub word_le_nat_alt uc)
  show "c + unat bytes = min (unat sz) ((blk + 1) * bs)" using n c by auto
qed

lemma read_file_block_filled:
  fixes inode :: "u8 list"
  assumes ok: "ext2_ok e" and disk: "disk_ok disk" and n: "n \<le> bsize e" and fits: "blk * bsize e + n \<le> length buf"
  defines "c \<equiv> blk * bsize e"
    and "src \<equiv> (if i_block inode blk = 0 then (\<lambda>_. Inr 0) else get8 (blk_a (after_block disk (i_block inode blk) e)))"
  shows "for_try 0 n (\<lambda>j buf. bindo (src j) (put8 buf (c + j))) (filled disk e inode buf c) = Inr (filled disk e inode buf (c + n))"
proof -
  let ?g = "\<lambda>j. file_byte disk e inode (c + j)"
  have "src j = Inr (?g j)" if "j < n" for j
  proof -
    have "j < bsize e" using that n by simp
    then show ?thesis using after_block(5)[OF ok disk] by (simp add: src_def c_def file_byte_block)
  qed
  then show ?thesis
    using fill_array[of n src ?g c "filled disk e inode buf c"] filled_step[of c n buf ?g disk e inode] fits
    by (simp add: c_def filled_def)
qed

lemma read_file_blocks_step:
  assumes ok: "ext2_ok e" and disk: "disk_ok disk" and blk: "blk < 12" and c: "c = blk * bsize e" "c < unat sz"
    and fits: "min (unat sz) ((blk + 1) * bsize e) \<le> length buf"
  defines "c' \<equiv> min (unat sz) ((blk + 1) * bsize e)"
  shows "read_file_blocks disk inode sz blk (of_nat c) e (filled disk e inode buf c) =
    read_file_blocks disk inode sz (blk + 1) (of_nat c') (after_block disk (i_block inode blk) e) (filled disk e inode buf c')"
proof -
  let ?e1 = "after_block disk (i_block inode blk) e"
  define bytes where "bytes = (if of_nat c + block_size e > sz then sz - of_nat c else block_size e)"
  have "bsize e \<le> 4096" "unat (block_size e) = bsize e" using ok by (simp_all add: ext2_ok_def bsize_def)
  note b = read_file_bytes_left[OF this blk c, folded bytes_def]
  have cc: "of_nat c' = of_nat c + bytes" unfolding c'_def b(4)[symmetric] by simp
  have f: "for_try 0 (unat bytes) (\<lambda>j buf. bindo (if i_block inode blk = 0 then Inr 0 else get8 (blk_a ?e1) j) (put8 buf (c + j)))
      (filled disk e inode buf c) = Inr (filled disk e inode buf c')"
    using read_file_block_filled[OF ok disk, of "unat bytes" blk buf inode] b(3,4) fits
    by (cases "i_block inode blk = 0") (simp_all add: c'_def c(1)[symmetric])
  show ?thesis unfolding cc using f b(1,2) blk after_block(3,4)[OF ok disk, of "i_block inode blk"]
    by (subst read_file_blocks.simps)
       (cases "i_block inode blk = 0"; simp add: bytes_def[symmetric] Let_def after_block_def[of _ 0])
qed

lemma read_file_blocks_filled:
  assumes disk: "disk_ok disk" and buf: "min (unat sz) (12 * bs) \<le> length buf"
  shows "\<lbrakk>ext2_ok e; bsize e = bs; blk \<le> 12; c = min (unat sz) (blk * bs)\<rbrakk> \<Longrightarrow>
    \<exists>e'. same_fs e e' \<and> read_file_blocks disk inode sz blk (of_nat c) e (filled disk e inode buf c) =
      Inr (of_nat (min (unat sz) (12 * bs)), e', filled disk e inode buf (min (unat sz) (12 * bs)))"
proof (induction "12 - blk" arbitrary: blk c e)
  case 0
  then have "blk = 12" by simp
  with 0 show ?case by (intro exI[of _ e]) (simp add: read_file_blocks.simps)
next
  case (Suc d)
  let ?e1 = "after_block disk (i_block inode blk) e"
  have blk: "blk < 12" "d = 12 - (blk + 1)" using Suc.hyps(2) by simp_all
  have mono: "blk * bs \<le> 12 * bs" "(blk + 1) * bs \<le> 12 * bs" using blk(1) by (intro mult_le_mono1, simp)+
  show ?case
  proof (cases "c < unat sz")
    case False
    with Suc.prems(4) have "c = unat sz" "unat sz \<le> blk * bs" by simp_all
    moreover have "min (unat sz) (12 * bs) = unat sz" using mono(1) calculation(2) by linarith
    ultimately show ?thesis by (intro exI[of _ e]) (simp add: read_file_blocks.simps)
  next
    case True
    then have c: "c = blk * bs" using Suc.prems(4) by (simp add: min_def split: if_splits)
    note s1 = after_block(1)[OF Suc.prems(1) disk, of "i_block inode blk"]
    have "min (unat sz) ((blk + 1) * bs) \<le> length buf" using mono(2) buf by linarith
    note step = read_file_blocks_step[OF Suc.prems(1) disk blk(1), unfolded Suc.prems(2), OF c True this, of inode]
    have "filled disk ?e1 inode buf = filled disk e inode buf" by (simp add: fun_eq_iff filled_def same_fs_file[OF s1])
    then show ?thesis unfolding step
      using Suc.hyps(1)[OF blk(2) same_fs_ok[OF s1 Suc.prems(1)] _ _ refl] same_fs_bsize[OF s1] Suc.prems(2) blk(1) same_fs_trans[OF s1]
      by fastforce
  qed
qed

section \<open>Mounting\<close>

definition superblock :: "disk \<Rightarrow> ext2 \<Rightarrow> u8 list" where
  "superblock disk e = disk_sector disk (part_lba e + 2)"

definition buffers_ok :: "ext2 \<Rightarrow> bool" where
  "buffers_ok e \<longleftrightarrow> length (blk_a e) = 4096 \<and> length (blk_b e) = 4096 \<and> length (bgd e) = 32"

lemma copy_bgd:
  assumes "length a = 4096" and "length b = 32"
  shows "for_try 0 32 (\<lambda>i b. bindo (get8 a i) (\<lambda>v. Inr (b[i := v]))) b = Inr (take 32 a)"
proof -
  have "for_try 0 32 (\<lambda>i b. bindo (get8 a i) (\<lambda>v. Inr (b[i := v]))) b = Inr (take 32 a @ drop 32 b)"
  proof (rule for_try_states)
    fix i :: nat assume i: "i < 32"
    then have "drop i b = b ! i # drop (Suc i) b" using assms(2) by (simp add: Cons_nth_drop_Suc)
    then show "bindo (get8 a i) (\<lambda>v. Inr ((take i a @ drop i b)[i := v])) = Inr (take (Suc i) a @ drop (Suc i) b)"
      using i assms by (simp add: get8_def take_Suc_conv_app_nth list_update_append)
  qed simp_all
  then show ?thesis using assms(2) by simp
qed

lemma block_size_log:
  assumes "k \<le> 2"
  shows "unat (push_bit k 1024 :: u32) = 1024 * 2 ^ k"
proof -
  from assms consider "k = 0" | "k = 1" | "k = 2" by linarith
  then show ?thesis by cases (simp_all add: push_bit_eq_mult)
qed

text \<open>
  A small file system to compute with: superblock in sector 2, group descriptors in block 2,
  inode table in block 5, the root directory (inode 2) in block 6 with two entries, and inode 3,
  a file of 1100 bytes whose first block is block 7 and whose second block is a hole.
\<close>

definition sample_dir :: "dirent list" where
  "sample_dir = [\<lparr>de_ino = 3, de_type = 1, de_name = [97], de_pad = [0, 0, 0]\<rparr>,
     \<lparr>de_ino = 0, de_type = 0, de_name = [98], de_pad = [0, 0, 0]\<rparr>,
     \<lparr>de_ino = 4, de_type = 1, de_name = [98], de_pad = [0, 0, 0]\<rparr>]"

definition sample_inode :: "u32 \<Rightarrow> u32 \<Rightarrow> u8 list" where
  "sample_inode len blk = replicate 4 0 @ bytes32 len @ replicate 32 0 @ bytes32 blk @ replicate 84 0"

definition sample_disk :: disk where
  "sample_disk l =
     (if l = 2 then replicate 20 0 @ bytes32 1 @ bytes32 0 @ replicate 12 0 @ bytes32 8 @ replicate 12 0 @
        bytes16 0xEF53 @ replicate 454 0
      else if l = 4 then replicate 8 0 @ bytes32 5 @ replicate 500 0
      else if l = 10 then replicate 128 0 @ sample_inode 36 6 @ sample_inode 1100 7 @ replicate 128 0
      else if l = 12 then layout sample_dir @ replicate 476 0
      else if l = 14 then replicate 512 7
      else if l = 15 then replicate 512 9
      else replicate 512 0)"

definition cold_fs :: ext2 where
  "cold_fs = \<lparr>block_size = 0, inode_size = 0, inodes_per_group = 0, bgd = replicate 32 0, part_lba = 0,
     blk_a = replicate 4096 0, blk_b = replicate 4096 0\<rparr>"

definition sample_fs :: ext2 where
  "sample_fs = cold_fs\<lparr>block_size := 1024, inode_size := 128, inodes_per_group := 8,
     bgd := replicate 8 0 @ bytes32 5 @ replicate 20 0\<rparr>"

lemma sample_disk_ok: "disk_ok sample_disk"
  by (simp add: disk_ok_def sample_disk_def sample_inode_def sample_dir_def layout_def dirent_bytes_def
      bytes32_def bytes16_def)

lemma sample_fs_ok: "ext2_ok sample_fs" "bsize sample_fs = 1024"
  by (simp_all add: ext2_ok_def sample_fs_def cold_fs_def bsize_def bytes32_def)

lemma sample_inodes:
  "inode_bytes sample_disk sample_fs 2 = sample_inode 36 6"
  "inode_bytes sample_disk sample_fs 3 = sample_inode 1100 7"
  by (simp_all add: inode_bytes_def inode_offset_def inode_block_def bg_inode_table_def block_data_def
      sample_fs_def cold_fs_def bsize_def le32_def bytes32_def disk_sector_def sample_disk_def sample_inode_def
      nth_append upt_rec)

lemma sample_inode_fields:
  "i_size (sample_inode 36 6) = 36" "i_block (sample_inode 36 6) 0 = 6"
  "i_size (sample_inode 1100 7) = 1100" "i_block (sample_inode 1100 7) 0 = 7" "i_block (sample_inode 1100 7) (Suc 0) = 0"
  by (simp_all add: i_size_def i_block_def le32_def sample_inode_def bytes32_def nth_append)

lemma sample_blocks:
  "block_data sample_disk sample_fs 6 = layout sample_dir @ replicate 988 0"
  "block_data sample_disk sample_fs 7 = replicate 512 7 @ replicate 512 9"
  by (simp_all add: block_data_def sample_fs_def cold_fs_def bsize_def disk_sector_def sample_disk_def upt_rec
      flip: replicate_add)

section \<open>Properties\<close>

text \<open>The directory with inode \<open>ino\<close> consists of the entries \<open>xs\<close>, in its first block.\<close>

definition holds_dir :: "disk \<Rightarrow> ext2 \<Rightarrow> u32 \<Rightarrow> dirent list \<Rightarrow> bool" where
  "holds_dir disk e ino xs \<longleftrightarrow> (\<forall>x \<in> set xs. dirent_ok x) \<and>
     unat (i_size (inode_bytes disk e ino)) = length (layout xs) \<and> length (layout xs) \<le> bsize e \<and>
     take (length (layout xs)) (block_data disk e (i_block (inode_bytes disk e ino) 0)) = layout xs"

text \<open>What both directory walks start from: the inode and the first block in the second buffer.\<close>

lemma open_dir:
  assumes ok: "ext2_ok e" and disk: "disk_ok disk" and dir: "holds_dir disk e ino xs"
  obtains e1 rest where "ext2_read_inode disk ino e = Inr (inode_bytes disk e ino, e1)"
    "ext2_read_block disk e1 (i_block (inode_bytes disk e ino) 0) (blk_b e1) = Inr (layout xs @ rest)"
    "same_fs e (e1\<lparr>blk_b := layout xs @ rest\<rparr>)" "block_size e1 = block_size e"
proof -
  let ?blk = "block_data disk e (i_block (inode_bytes disk e ino) 0)"
  obtain e1 where e1: "ext2_read_inode disk ino e = Inr (inode_bytes disk e ino, e1)" "same_fs e e1"
    using ext2_read_inode_bytes[OF ok disk] by blast
  have ok1: "ext2_ok e1" using same_fs_ok[OF e1(2) ok] .
  then have b: "ext2_read_block disk e1 (i_block (inode_bytes disk e ino) 0) (blk_b e1) =
      Inr (?blk @ drop (bsize e) (blk_b e1))"
    using ext2_read_block_data[OF ok1 disk] by (simp add: ext2_ok_def same_fs_block[OF e1(2)] same_fs_bsize[OF e1(2)])
  have "?blk = layout xs @ drop (length (layout xs)) ?blk"
    using dir unfolding holds_dir_def by (metis append_take_drop_id)
  then have blk: "?blk @ drop (bsize e) (blk_b e1) =
      layout xs @ (drop (length (layout xs)) ?blk @ drop (bsize e) (blk_b e1))" (is "?b = layout xs @ ?rest")
    by (metis append_assoc)
  have "length ?b = length (blk_b e1)"
    using length_block_data[OF ok disk] ok1 same_fs_bsize[OF e1(2)] by (simp add: ext2_ok_def)
  then have "same_fs e (e1\<lparr>blk_b := layout xs @ ?rest\<rparr>)" using e1(2) by (simp add: same_fs_def blk)
  moreover have "block_size e1 = block_size e" using e1(2) by (simp add: same_fs_def)
  ultimately show ?thesis using that[of e1 ?rest] e1(1) b unfolding blk by blast
qed

lemma find_in_dir:
  assumes "ext2_ok e" and "disk_ok disk" and "holds_dir disk e ino xs" and "names p nm"
  shows "\<exists>e'. ext2_find disk ino p e = Inr (dir_lookup xs nm, e') \<and> same_fs e e'"
proof -
  obtain e1 rest where e1: "ext2_read_inode disk ino e = Inr (inode_bytes disk e ino, e1)"
    "ext2_read_block disk e1 (i_block (inode_bytes disk e ino) 0) (blk_b e1) = Inr (layout xs @ rest)"
    "same_fs e (e1\<lparr>blk_b := layout xs @ rest\<rparr>)" "block_size e1 = block_size e"
    using open_dir[OF assms(1-3)] .
  have "ext2_find_from (layout xs @ rest) (i_size (inode_bytes disk e ino)) (block_size e) p 0 = Inr (dir_lookup xs nm)"
    using ext2_find_layout[OF assms(4), of xs "i_size (inode_bytes disk e ino)" "[]" "block_size e" rest] assms(3)
    by (simp add: holds_dir_def bsize_def)
  with e1 show ?thesis by (simp add: ext2_find_def)
qed

text \<open>C20: Looking a name up in a directory of a mounted disk returns the inode number of the first
  live entry with exactly that name, or 0 when there is none. Deleted entries (inode 0) are
  skipped, no byte outside the block buffer is read, and the mount is unchanged.
\<close>

theorem ext2_find_refines:
  assumes "ext2_ok e" and "disk_ok disk" and "holds_dir disk e ino xs" and "names p nm"
  shows "\<exists>e'. ext2_find disk ino p e = Inr (dir_lookup xs nm, e') \<and> same_fs e e'"
  using find_in_dir[OF assms] .

lemma sample_holds_dir: "holds_dir sample_disk sample_fs 2 sample_dir"
  by (simp add: holds_dir_def sample_inodes sample_inode_fields sample_blocks sample_fs_ok)
     (simp add: sample_dir_def dirent_ok_def de_len_def layout_def)

theorem ext2_find_refines_witness:
  "\<exists>e'. ext2_find sample_disk 2 (literal [98]) sample_fs = Inr (4, e') \<and> same_fs sample_fs e'"
  using ext2_find_refines[OF sample_fs_ok(1) sample_disk_ok sample_holds_dir names_literal[of "[98]"]]
  by (simp add: dir_lookup_def sample_dir_def)

lemma ls_in_dir:
  assumes "ext2_ok e" and "disk_ok disk" and "holds_dir disk e ino xs"
  shows "\<exists>e'. ext2_ls disk ino e d = Inr (e', fold ls_line xs d) \<and> same_fs e e'"
proof -
  obtain e1 rest where e1: "ext2_read_inode disk ino e = Inr (inode_bytes disk e ino, e1)"
    "ext2_read_block disk e1 (i_block (inode_bytes disk e ino) 0) (blk_b e1) = Inr (layout xs @ rest)"
    "same_fs e (e1\<lparr>blk_b := layout xs @ rest\<rparr>)" "block_size e1 = block_size e"
    using open_dir[OF assms] .
  have "ext2_ls_from (layout xs @ rest) (i_size (inode_bytes disk e ino)) (block_size e) 0 d = Inr (fold ls_line xs d)"
    using ext2_ls_layout[of xs "i_size (inode_bytes disk e ino)" "[]" "block_size e" rest] assms(3)
    by (simp add: holds_dir_def bsize_def)
  with e1 show ?thesis by (simp add: ext2_ls_def)
qed

text \<open>Listing a directory of a mounted disk prints one indented line for each live entry, in the
  order of the directory, and nothing else.
\<close>

theorem ext2_ls_refines:
  assumes "ext2_ok e" and "disk_ok disk" and "holds_dir disk e ino xs"
  shows "\<exists>e'. ext2_ls disk ino e d = Inr (e', fold ls_line xs d) \<and> same_fs e e'"
  using ls_in_dir[OF assms] .

theorem ext2_ls_refines_witness:
  "\<exists>e'. ext2_ls sample_disk 2 sample_fs blank_screen = Inr (e',
     print [10] (print [98] (print (cstr ''    '') (print [10] (print [97] (print (cstr ''    '') blank_screen)))))) \<and>
     same_fs sample_fs e'"
  using ext2_ls_refines[OF sample_fs_ok(1) sample_disk_ok sample_holds_dir, of blank_screen]
  by (simp add: sample_dir_def ls_line_def)

text \<open>How much a read delivers: \<open>pread_len\<close>, unless offset plus length wraps around to a position inside
  the file, which switches the end-of-file check off.\<close>

definition served_len :: "disk \<Rightarrow> ext2 \<Rightarrow> u32 \<Rightarrow> u32 \<Rightarrow> u32 \<Rightarrow> nat" where
  "served_len disk e inum offset sz =
     (let size = i_size (inode_bytes disk e inum)
      in if offset < size \<and> 2 ^ 32 \<le> unat offset + unat sz \<and> offset + sz \<le> size then 12 * bsize e - unat offset
         else pread_len disk e inum offset sz)"

lemma served_len_nowrap: "unat offset + unat sz < 2 ^ 32 \<Longrightarrow> served_len disk e inum offset sz = pread_len disk e inum offset sz"
  by (simp add: served_len_def Let_def)

lemma served_blocks:
  assumes ok: "ext2_ok e" and lt: "offset < i_size (inode_bytes disk e inum)"
  shows "blocks_len (bsize e) (unat offset) 0 (unat (if offset + sz > i_size (inode_bytes disk e inum)
      then i_size (inode_bytes disk e inum) - offset else sz)) = served_len disk e inum offset sz"
proof -
  let ?size = "i_size (inode_bytes disk e inum)"
  have u: "unat (?size - offset) = unat ?size - unat offset" using lt by (simp add: unat_sub order_less_imp_le)
  show ?thesis
  proof (cases "unat offset + unat sz < 2 ^ 32")
    case True
    then have "unat (offset + sz) = unat offset + unat sz" by (intro unat_add_no_wrap) simp
    then show ?thesis using lt by (auto simp: served_len_nowrap[OF True] blocks_len_def pread_len_def word_less_nat_alt u)
  next
    case False
    have "bsize e \<le> 4096" "unat ?size < 2 ^ 32" using ok unat_lt32[of ?size] by (simp_all add: ext2_ok_def)
    with False lt show ?thesis by (auto simp: served_len_def Let_def blocks_len_def pread_len_def word_less_nat_alt word_le_nat_alt u)
  qed
qed

lemma ext2_pread_slice:
  assumes ok: "ext2_ok e" and disk: "disk_ok disk"
  shows "\<exists>e'. same_fs e e' \<and> (\<forall>m. ext2_pread disk wr inum buf offset sz e m =
    bindo (store_bytes wr buf (map (file_byte disk e (inode_bytes disk e inum))
        [unat offset..<unat offset + served_len disk e inum offset sz]) m)
      (\<lambda>m. Inr (of_nat (served_len disk e inum offset sz), e', m)))"
proof (cases "offset < i_size (inode_bytes disk e inum)")
  case True
  with ext2_pread_stores[OF ok disk True, where sz = sz and wr = wr and buf = buf] show ?thesis by (simp only: served_blocks[OF ok True])
next
  case False
  obtain e' where "ext2_read_inode disk inum e = Inr (inode_bytes disk e inum, e')" "same_fs e e'"
    using ext2_read_inode_bytes[OF ok disk] by blast
  moreover have "served_len disk e inum offset sz = 0" using False by (simp add: served_len_def pread_len_def word_less_nat_alt)
  ultimately show ?thesis using False by (intro exI[of _ e']) (simp add: ext2_pread_def not_less)
qed

text \<open>C18: A positioned read stores, from the buffer's address on and in order, exactly the bytes of the
  file from the offset: as many as asked for, but none past the end of the file or past its twelve
  direct blocks. Holes read as zeros. It returns the number of bytes stored, and fails only where a
  store fails. The one exception, part of \<open>served_len\<close>: when offset plus length wraps around to a
  position inside the file, the end of the file is not noticed and everything up to the end of the
  twelfth block is delivered.
\<close>

theorem ext2_pread_refines:
  assumes ok: "ext2_ok e" and disk: "disk_ok disk"
  shows "\<exists>e'. same_fs e e' \<and> (\<forall>m. ext2_pread disk wr inum buf offset sz e m =
    bindo (store_bytes wr buf (map (file_byte disk e (inode_bytes disk e inum))
        [unat offset..<unat offset + served_len disk e inum offset sz]) m)
      (\<lambda>m. Inr (of_nat (served_len disk e inum offset sz), e', m)))"
  using ext2_pread_slice[OF assms] .

text \<open>Storing into a plain list of bytes, for concrete runs.\<close>

definition log_store :: "(u32 \<times> u8) list store" where
  "log_store a v m = Inr (m @ [(a, v)])"

theorem ext2_pread_refines_witness:
  "\<exists>e'. ext2_pread sample_disk log_store 3 0x1000 1023 4 sample_fs [] =
     Inr (4, e', [(0x1000, 9), (0x1001, 0), (0x1002, 0), (0x1003, 0)])"
proof -
  have n: "served_len sample_disk sample_fs 3 1023 4 = 4"
    by (simp add: served_len_nowrap pread_len_def sample_inodes sample_inode_fields sample_fs_ok)
  let ?fb = "file_byte sample_disk sample_fs (sample_inode 1100 7)"
  have f: "?fb 1023 = 9" "?fb 1024 = 0" "?fb 1025 = 0" "?fb 1026 = 0"
    by (simp_all add: file_byte_def sample_inode_fields sample_fs_ok sample_blocks nth_append)
  show ?thesis
    using ext2_pread_refines[OF sample_fs_ok(1) sample_disk_ok, where offset = 1023 and sz = 4 and wr = log_store and inum = 3 and buf = "0x1000"]
    by (auto simp: n sample_inodes f log_store_def)
qed

text \<open>A length so large that offset plus length wraps around to a value within the file switches
  the end-of-file check off: the read then stores, and counts as read, every byte up to the end
  of the twelfth block, whatever the size of the file.
\<close>

theorem ext2_pread_wrap_ignores_size:
  assumes ok: "ext2_ok e" and disk: "disk_ok disk" and lt: "offset < i_size (inode_bytes disk e inum)"
    and wrap: "2 ^ 32 \<le> unat offset + unat sz" "offset + sz \<le> i_size (inode_bytes disk e inum)"
    and within: "unat offset < 12 * bsize e"
  shows "\<exists>e'. same_fs e e' \<and> (\<forall>m. ext2_pread disk wr inum buf offset sz e m =
    bindo (store_bytes wr buf (map (file_byte disk e (inode_bytes disk e inum)) [unat offset..<12 * bsize e]) m)
      (\<lambda>m. Inr (of_nat (12 * bsize e - unat offset), e', m)))"
proof -
  have "served_len disk e inum offset sz = 12 * bsize e - unat offset" using lt wrap by (simp add: served_len_def Let_def)
  with ext2_pread_slice[OF ok disk, where wr = wr and inum = inum and buf = buf and offset = offset and sz = sz] within show ?thesis by simp
qed

theorem ext2_pread_wrap_ignores_size_witness:
  "i_size (inode_bytes sample_disk sample_fs 2) = 36 \<and>
   (\<exists>e'. \<forall>m :: unit. ext2_pread sample_disk (\<lambda>a v m. Inr m) 2 0x1000 1 0xFFFFFFFF sample_fs m = Inr (12287, e', m))"
proof -
  have st: "store_bytes (\<lambda>a v m. Inr m) a vs m = Inr m" for a vs m
    by (induction vs arbitrary: a) simp_all
  show ?thesis
    using ext2_pread_wrap_ignores_size[OF sample_fs_ok(1) sample_disk_ok, of 1 2 "0xFFFFFFFF" "\<lambda>a v (m :: unit). Inr m" "0x1000"]
    by (simp add: sample_inodes sample_inode_fields sample_fs_ok st) blast
qed

text \<open>The driver's state after mounting, but for the block buffers.\<close>

definition mounted :: "disk \<Rightarrow> ext2 \<Rightarrow> ext2" where
  "mounted disk e =
     (let sb = superblock disk e;
          e = e\<lparr>inodes_per_group := le32 sb 40, block_size := push_bit (unat (le32 sb 24)) 1024,
            inode_size := (if 1 \<le> le32 sb 76 \<and> 128 \<le> le16 sb 88 then ucast (le16 sb 88) else 128)\<rparr>
      in e\<lparr>bgd := take 32 (block_data disk e (le32 sb 20 + 1))\<rparr>)"

lemma ext2_init_mounted:
  assumes disk: "disk_ok disk" and bufs: "buffers_ok e" and magic: "le16 (superblock disk e) 56 = 0xEF53"
    and log: "le32 (superblock disk e) 24 \<le> 2" and inodes: "unat (le16 (superblock disk e) 88) \<le> 1024"
  shows "\<exists>e'. ext2_init disk e d = Inr (e', print (cstr ''  [OK] Ext2: filesystem montado'' @ [10]) d) \<and>
    ext2_ok e' \<and> part_lba e' = part_lba e \<and> bsize e' = 1024 * 2 ^ unat (le32 (superblock disk e) 24) \<and>
    bgd e' = take 32 (block_data disk e' (le32 (superblock disk e) 20 + 1)) \<and> same_fs (mounted disk e) e'"
proof -
  let ?sb = "superblock disk e"
  let ?k = "unat (le32 ?sb 24)"
  define e1 where "e1 = e\<lparr>inodes_per_group := le32 ?sb 40, block_size := push_bit ?k 1024,
    inode_size := (if 1 \<le> le32 ?sb 76 \<and> 128 \<le> le16 ?sb 88 then ucast (le16 ?sb 88) else 128)\<rparr>"
  have k: "?k \<le> 2" using log by (simp add: word_le_nat_alt)
  then have b: "bsize e1 = 1024 * 2 ^ ?k" by (simp add: e1_def bsize_def block_size_log)
  from k have "(2::nat) ^ ?k \<le> 2 ^ 2" "(1::nat) \<le> 2 ^ ?k" by (simp_all only: power_increasing one_le_numeral one_le_power)
  then have pow: "(2::nat) ^ ?k \<le> 4" "(1::nat) \<le> 2 ^ ?k" by simp_all
  have lt16: "unat w < 65536" for w :: u16 using unsigned_less[of w] by simp
  have "unat (ucast w :: u32) = unat w" for w :: u16
    using lt16[of w] by (simp add: unsigned_ucast_eq take_bit_nat_eq_self)
  then have isz: "128 \<le> unat (inode_size e1) \<and> unat (inode_size e1) \<le> 1024"
    using inodes by (simp add: e1_def word_le_nat_alt)
  have "unat (inode_size e1) \<le> bsize e1" "bsize e1 \<le> 4096" "512 dvd bsize e1"
    using isz pow unfolding b by (linarith, linarith, simp)
  moreover have "length (blk_a e1) = 4096" "length (blk_b e1) = 4096" "length (bgd e1) = 32"
    using bufs by (simp_all add: buffers_ok_def e1_def)
  ultimately have ok: "ext2_ok e1" using isz by (simp add: ext2_ok_def)
  let ?a = "block_data disk e1 (le32 ?sb 20 + 1) @ drop (bsize e1) (blk_a e1)"
  have a: "ext2_read_block disk e1 (le32 ?sb 20 + 1) (blk_a e1) = Inr ?a"
    using ext2_read_block_data[OF ok disk] ok by (simp add: ext2_ok_def)
  have len: "length (block_data disk e1 (le32 ?sb 20 + 1)) = bsize e1" by (rule length_block_data[OF ok disk])
  let ?e' = "e1\<lparr>blk_a := ?a, bgd := take 32 ?a\<rparr>"
  have t: "take 32 ?a = take 32 (block_data disk e1 (le32 ?sb 20 + 1))" using len b pow by simp
  have "ext2_init disk e d = Inr (?e', print (cstr ''  [OK] Ext2: filesystem montado'' @ [10]) d)"
  proof -
    have l: "length ?a = 4096" "length (bgd e1) = 32" using ok len by (simp_all add: ext2_ok_def)
    have "\<not> 32 \<le> le32 ?sb 24" using log by (simp add: word_le_nat_alt)
    with magic a copy_bgd[OF l] show ?thesis
      unfolding ext2_init_def Let_def superblock_def[symmetric] e1_def by simp
  qed
  moreover have "ext2_ok ?e'" using ok len by (simp add: ext2_ok_def bsize_def)
  moreover have "block_data disk ?e' = block_data disk e1" by (simp add: block_data_def bsize_def fun_eq_iff)
  moreover have "mounted disk e = e1\<lparr>bgd := take 32 (block_data disk e1 (le32 ?sb 20 + 1))\<rparr>"
    by (simp add: mounted_def Let_def e1_def)
  then have "same_fs (mounted disk e) ?e'" using t ok len by (simp add: same_fs_def ext2_ok_def)
  ultimately show ?thesis using b t by (intro exI[of _ ?e']) (simp add: e1_def bsize_def)
qed

text \<open>Mounting a disk with the ext2 magic number, blocks of at most 4096 bytes and inodes no
  larger than a block establishes the driver's invariant, with the block size of the superblock
  and the first group descriptor of the block after it, and reports success.
\<close>

theorem ext2_init_mounts:
  assumes disk: "disk_ok disk" and bufs: "buffers_ok e" and magic: "le16 (superblock disk e) 56 = 0xEF53"
    and log: "le32 (superblock disk e) 24 \<le> 2" and inodes: "unat (le16 (superblock disk e) 88) \<le> 1024"
  shows "\<exists>e'. ext2_init disk e d = Inr (e', print (cstr ''  [OK] Ext2: filesystem montado'' @ [10]) d) \<and>
    ext2_ok e' \<and> part_lba e' = part_lba e \<and> bsize e' = 1024 * 2 ^ unat (le32 (superblock disk e) 24) \<and>
    bgd e' = take 32 (block_data disk e' (le32 (superblock disk e) 20 + 1))"
  using ext2_init_mounted[OF assms] by blast

lemma sample_superblock:
  "le16 (superblock sample_disk cold_fs) 56 = 0xEF53" "le32 (superblock sample_disk cold_fs) 24 = 0"
  "le32 (superblock sample_disk cold_fs) 20 = 1" "le16 (superblock sample_disk cold_fs) 88 = 0"
  by (simp_all add: superblock_def cold_fs_def disk_sector_def sample_disk_def le16_def le32_def bytes16_def
      bytes32_def nth_append)

lemma cold_fs_buffers: "buffers_ok cold_fs"
  by (simp add: buffers_ok_def cold_fs_def)

theorem ext2_init_mounts_witness:
  "\<exists>e'. ext2_init sample_disk cold_fs blank_screen =
     Inr (e', print (cstr ''  [OK] Ext2: filesystem montado'' @ [10]) blank_screen) \<and> ext2_ok e' \<and> bsize e' = 1024"
  using ext2_init_mounts[OF sample_disk_ok cold_fs_buffers, of blank_screen]
  by (auto simp: sample_superblock)

lemma ls_unmounted:
  assumes magic: "le16 (superblock disk e) 56 \<noteq> 0xEF53" and cold: "inode_size e = 0"
  shows "\<exists>e'. ext2_init disk e d =
      Inr (e', print (cstr ''  [!!] Ext2: magic invalido '' @ [0xE2, 0x80, 0x94] @ cstr '' no es ext2'' @ [10]) d) \<and>
    (\<forall>d'. ext2_ls disk ino e' d' = Inl DivideError)"
proof (intro exI conjI)
  let ?e' = "e\<lparr>inodes_per_group := le32 (superblock disk e) 40\<rparr>"
  show "ext2_init disk e d = Inr (?e',
      print (cstr ''  [!!] Ext2: magic invalido '' @ [0xE2, 0x80, 0x94] @ cstr '' no es ext2'' @ [10]) d)"
    using magic by (simp add: ext2_init_def superblock_def)
  show "\<forall>d'. ext2_ls disk ino ?e' d' = Inl DivideError"
    using cold by (simp add: ext2_ls_def ext2_read_inode_def udiv_def)
qed

text \<open>A disk without the ext2 magic number is reported and left unmounted, and the listing of the
  root directory the kernel asks for right after it then stops with a division by zero, because
  the inode size is still 0.
\<close>

theorem ext2_ls_after_failed_mount:
  assumes magic: "le16 (superblock disk e) 56 \<noteq> 0xEF53" and cold: "inode_size e = 0"
  shows "\<exists>e'. ext2_init disk e d =
      Inr (e', print (cstr ''  [!!] Ext2: magic invalido '' @ [0xE2, 0x80, 0x94] @ cstr '' no es ext2'' @ [10]) d) \<and>
    ext2_ls disk ino e' d' = Inl DivideError"
  using ls_unmounted[OF assms] by blast

theorem ext2_ls_after_failed_mount_witness:
  "\<exists>e'. ext2_init (\<lambda>l. replicate 512 0) cold_fs blank_screen =
      Inr (e', print (cstr ''  [!!] Ext2: magic invalido '' @ [0xE2, 0x80, 0x94] @ cstr '' no es ext2'' @ [10]) blank_screen) \<and>
    ext2_ls (\<lambda>l. replicate 512 0) 2 e' blank_screen = Inl DivideError"
  by (rule ext2_ls_after_failed_mount) (simp_all add: superblock_def disk_sector_def le16_def cold_fs_def)

text \<open>A superblock that announces blocks of 8 kilobytes or more (up to the largest size that does
  not overflow) makes the mount write past the 4096-byte block buffer.
\<close>

theorem ext2_init_large_blocks_overflow:
  assumes disk: "disk_ok disk" and bufs: "buffers_ok e" and magic: "le16 (superblock disk e) 56 = 0xEF53"
    and log: "3 \<le> le32 (superblock disk e) 24" "le32 (superblock disk e) 24 \<le> 21"
  shows "ext2_init disk e d = Inl OutOfBounds"
proof -
  let ?sb = "superblock disk e"
  let ?k = "unat (le32 ?sb 24)"
  define e1 where "e1 = e\<lparr>inodes_per_group := le32 ?sb 40, block_size := push_bit ?k 1024,
    inode_size := (if 1 \<le> le32 ?sb 76 \<and> 128 \<le> le16 ?sb 88 then ucast (le16 ?sb 88) else 128)\<rparr>"
  have k: "3 \<le> ?k" "?k \<le> 21" using log by (simp_all add: word_le_nat_alt)
  have "(2::nat) ^ ?k \<le> 2 ^ 21" "(2::nat) ^ 3 \<le> 2 ^ ?k" using k by (simp_all only: power_increasing one_le_numeral)
  then have pow: "(2::nat) ^ ?k \<le> 2097152" "(8::nat) \<le> 2 ^ ?k" by simp_all
  have "unat (push_bit ?k 1024 :: u32) = 1024 * 2 ^ ?k"
    using pow by (simp add: unsigned_push_bit_eq push_bit_eq_mult[of _ "1024 :: nat"] take_bit_nat_eq_self)
  then have sects: "8 < unat (block_size e1 div 512)" using pow by (simp add: e1_def unat_div)
  let ?lba = "part_lba e1 + (le32 ?sb 20 + 1) * (block_size e1 div 512)"
  let ?f = "\<lambda>i. disk_sector disk (?lba + of_nat i)"
  let ?st = "\<lambda>i. concat (map ?f [0..<i]) @ drop (i * 512) (blk_a e1)"
  have buf: "length (blk_a e1) = 4096" using bufs by (simp add: e1_def buffers_ok_def)
  have len: "length (?f i) = 512" for i using disk by (simp add: disk_ok_def disk_sector_def)
  have l: "length (concat (map ?f [0..<i])) = i * 512" for i using concat_sectors[of ?f i] len by blast
  have "ext2_read_block disk e1 (le32 ?sb 20 + 1) (blk_a e1) = Inl OutOfBounds"
    unfolding ext2_read_block_def Let_def
  proof (rule for_try_stops[where k = 8 and st = ?st, OF _ sects])
    fix i :: nat assume "i < 8"
    then have le: "i * 512 + 512 \<le> 4096" by simp
    then have "length (?st i) = 4096" using l buf by simp
    moreover have "splice (?st i) (i * 512) (?f i) = ?st (Suc i)"
      using l[of i] len[of i] by (simp add: splice_def add_ac)
    ultimately show "(if length (?st i) < i * 512 + 512 then Inl OutOfBounds
        else Inr (splice (?st i) (i * 512) (?f i))) = Inr (?st (Suc i))" using le by (simp del: upt_Suc)
  qed (use buf l in \<open>simp_all del: upt_Suc\<close>)
  moreover have "\<not> 32 \<le> le32 ?sb 24" using log(2) by (simp add: word_le_nat_alt)
  ultimately show ?thesis
    using magic unfolding ext2_init_def Let_def superblock_def[symmetric] e1_def by simp
qed

definition big_disk :: disk where
  "big_disk l = (if l = 2 then replicate 24 0 @ bytes32 3 @ replicate 28 0 @ bytes16 0xEF53 @ replicate 454 0
     else replicate 512 0)"

theorem ext2_init_large_blocks_overflow_witness:
  "ext2_init big_disk cold_fs blank_screen = Inl OutOfBounds"
proof (rule ext2_init_large_blocks_overflow[OF _ cold_fs_buffers])
  show "disk_ok big_disk" by (simp add: disk_ok_def big_disk_def bytes32_def bytes16_def)
qed (simp_all add: superblock_def cold_fs_def disk_sector_def big_disk_def le16_def le32_def bytes16_def
      bytes32_def nth_append)

lemma read_file_bytes:
  assumes ok: "ext2_ok e" and disk: "disk_ok disk"
    and n: "n = min (min (unat (i_size (inode_bytes disk e inum))) (unat max_size)) (12 * bsize e)"
    and room: "n \<le> length buf"
  shows "\<exists>e'. same_fs e e' \<and> ext2_read_file disk inum buf max_size e =
    Inr (of_nat n, e', map (file_byte disk e (inode_bytes disk e inum)) [0..<n] @ drop n buf)"
proof -
  let ?inode = "inode_bytes disk e inum"
  define sz where "sz = (if i_size ?inode < max_size then i_size ?inode else max_size)"
  have sz: "unat sz = min (unat (i_size ?inode)) (unat max_size)" by (simp add: sz_def word_less_nat_alt)
  obtain e1 where e1: "ext2_read_inode disk inum e = Inr (?inode, e1)" "same_fs e e1"
    using ext2_read_inode_bytes[OF ok disk] by blast
  note ok1 = same_fs_ok[OF e1(2) ok] and bs = same_fs_bsize[OF e1(2)]
  have "min (unat sz) (12 * bsize e) \<le> length buf" using n room sz by simp
  from read_file_blocks_filled[OF disk this ok1 bs, of 0 0 ?inode]
  obtain e' where "same_fs e1 e'" "read_file_blocks disk ?inode sz 0 0 e1 buf = Inr (of_nat n, e', filled disk e ?inode buf n)"
    using n sz by (auto simp: filled_def same_fs_file[OF e1(2)])
  then show ?thesis using e1 same_fs_trans[OF e1(2)] by (auto simp: ext2_read_file_def sz_def filled_def)
qed

text \<open>Reading a whole file into an array of at least the size asked for puts the file's bytes,
  holes as zeros, at its start, leaves the rest of the array alone, and returns how many there
  are: the file's size, cut at the limit given and at the twelve direct blocks.
\<close>

theorem ext2_read_file_refines:
  assumes ok: "ext2_ok e" and disk: "disk_ok disk"
    and n: "n = min (min (unat (i_size (inode_bytes disk e inum))) (unat max_size)) (12 * bsize e)"
    and room: "n \<le> length buf"
  shows "\<exists>e'. same_fs e e' \<and> ext2_read_file disk inum buf max_size e =
    Inr (of_nat n, e', map (file_byte disk e (inode_bytes disk e inum)) [0..<n] @ drop n buf)"
  using read_file_bytes[OF assms] .

theorem ext2_read_file_refines_witness:
  "\<exists>e'. ext2_read_file sample_disk 3 (replicate 127 1) 4 sample_fs = Inr (4, e', [7, 7, 7, 7] @ replicate 123 1)"
proof -
  let ?fb = "file_byte sample_disk sample_fs (sample_inode 1100 7)"
  have f: "?fb 0 = 7" "?fb (Suc 0) = 7" "?fb (Suc (Suc 0)) = 7" "?fb (Suc (Suc (Suc 0))) = 7"
    by (simp_all add: file_byte_def sample_inode_fields sample_fs_ok sample_blocks nth_append)
  have "\<exists>e'. same_fs sample_fs e' \<and> ext2_read_file sample_disk 3 (replicate 127 1) 4 sample_fs =
      Inr (of_nat 4, e', map (file_byte sample_disk sample_fs (inode_bytes sample_disk sample_fs 3)) [0..<4] @ drop 4 (replicate 127 1))"
    by (rule ext2_read_file_refines[OF sample_fs_ok(1) sample_disk_ok])
       (simp_all add: sample_inodes sample_inode_fields sample_fs_ok)
  then show ?thesis by (auto simp: sample_inodes f upt_rec)
qed

end
