(* ===== verification/VFS.thy ===== *)
theory VFS
  imports Ext2
begin

text \<open>
  \<^verbatim>\<open>fs/vfs.c\<close>: the pool of eight nodes and the operations on it. A node is named by its index in
  the pool. The pointer \<^verbatim>\<open>node->read\<close> is either null or the one function of the file system, so it
  is a flag; \<^verbatim>\<open>used\<close> is a flag as well.
\<close>

section \<open>State and operations\<close>

abbreviation (input) "VFS_POOL_SIZE \<equiv> (8 :: nat)"
abbreviation (input) "FS_FILE \<equiv> (1 :: u32)"
abbreviation (input) "EXT2_ROOT_INODE \<equiv> (2 :: u32)"

record fs_node =
  n_name :: "u8 list"
  n_flags :: u32
  n_inode :: u32
  n_length :: u32
  n_read :: bool
  n_used :: bool

definition vfs_init :: "fs_node list \<Rightarrow> fs_node list" where
  "vfs_init pool = for_range 0 VFS_POOL_SIZE (\<lambda>i pool. pool[i := (pool ! i)\<lparr>n_used := False\<rparr>]) pool"

text \<open>\<^verbatim>\<open>for (i = 0; i < 63 && path[i]; i++) name[i] = path[i]; name[i] = 0\<close>\<close>

function copy_name :: "cptr \<Rightarrow> nat \<Rightarrow> u8 list \<Rightarrow> u8 list outcome" where
  "copy_name path i name =
     (if i < 63
      then bindo (path i) (\<lambda>v. if v = 0 then Inr (name[i := 0]) else copy_name path (i + 1) (name[i := v]))
      else Inr (name[i := 0]))"
  by pat_completeness auto
termination
  by (relation "measure (\<lambda>(path, i, name). 63 - i)") auto

declare copy_name.simps [simp del]

definition vfs_open :: "disk \<Rightarrow> cptr \<Rightarrow> fs_node list \<times> ext2 \<Rightarrow> (nat option \<times> fs_node list \<times> ext2) outcome" where
  "vfs_open disk path = (\<lambda>(pool, e).
     (case find (\<lambda>i. \<not> n_used (pool ! i)) [0..<VFS_POOL_SIZE] of
        None \<Rightarrow> Inr (None, pool, e)
      | Some node \<Rightarrow>
          bindo (path 0) (\<lambda>c.
          let path = (if c = 0x2F then (\<lambda>i. path (i + 1)) else path) in
          bindo (ext2_find disk EXT2_ROOT_INODE path e) (\<lambda>(ino, e).
          if ino = 0 then Inr (None, pool, e)
          else
            let pool = pool[node := (pool ! node)\<lparr>n_inode := ino, n_flags := FS_FILE, n_read := True\<rparr>] in
            bindo (ext2_inode_size disk ino e) (\<lambda>(len, e).
            let pool = pool[node := (pool ! node)\<lparr>n_length := len, n_used := True\<rparr>] in
            bindo (copy_name path 0 (n_name (pool ! node))) (\<lambda>name.
            Inr (Some node, pool[node := (pool ! node)\<lparr>n_name := name\<rparr>], e)))))))"

definition vfs_close :: "nat option \<Rightarrow> fs_node list \<Rightarrow> fs_node list" where
  "vfs_close node pool =
     (case node of None \<Rightarrow> pool | Some i \<Rightarrow> pool[i := (pool ! i)\<lparr>n_used := False\<rparr>])"

definition vfs_read :: "disk \<Rightarrow> 'm store \<Rightarrow> fs_node list \<Rightarrow> nat option \<Rightarrow> u32 \<Rightarrow> u32 \<Rightarrow> u32 \<Rightarrow> ext2 \<Rightarrow> 'm \<Rightarrow>
    (u32 \<times> ext2 \<times> 'm) outcome" where
  "vfs_read disk wr pool node offset sz buf e m =
     (case node of
        None \<Rightarrow> Inr (0, e, m)
      | Some i \<Rightarrow>
          if \<not> n_read (pool ! i) then Inr (0, e, m)
          else ext2_pread disk wr (n_inode (pool ! i)) buf offset sz e m)"

section \<open>The pool\<close>

definition pool_ok :: "fs_node list \<Rightarrow> bool" where
  "pool_ok pool \<longleftrightarrow> length pool = VFS_POOL_SIZE \<and> (\<forall>i<VFS_POOL_SIZE. length (n_name (pool ! i)) = 64 \<and> (n_used (pool ! i) \<longrightarrow> n_read (pool ! i)))"

definition used_nodes :: "fs_node list \<Rightarrow> nat set" where
  "used_nodes pool = {i. i < length pool \<and> n_used (pool ! i)}"

lemma vfs_init_unused:
  assumes "pool_ok pool"
  shows "pool_ok (vfs_init pool) \<and> used_nodes (vfs_init pool) = {}"
proof -
  let ?P = "\<lambda>i p. pool_ok p \<and> (\<forall>j<i. \<not> n_used (p ! j))"
  have "?P 8 (vfs_init pool)" unfolding vfs_init_def
  proof (rule for_range_inv[where P = ?P])
    fix i p assume "i < (8 :: nat)" and P: "?P i p"
    then show "?P (Suc i) (p[i := (p ! i)\<lparr>n_used := False\<rparr>])"
      by (auto simp: pool_ok_def nth_list_update less_Suc_eq)
  qed (use assms in simp_all)
  then show ?thesis by (auto simp: used_nodes_def pool_ok_def)
qed

lemma copy_name_names:
  assumes "names p nm" and "length name = 64"
  shows "\<exists>name'. copy_name p 0 name = Inr name' \<and> length name' = 64 \<and>
    takeWhile (\<lambda>v. v \<noteq> 0) name' = take 63 nm"
proof -
  have step: "\<exists>name'. copy_name p i name = Inr name' \<and> length name' = 64 \<and> take (min 63 (length nm)) name' = take 63 nm \<and>
      name' ! min 63 (length nm) = 0"
    if "i \<le> min 63 (length nm)" "length name = 64" "take i name = take i nm" for i name
    using that
  proof (induction "min 63 (length nm) - i" arbitrary: i name)
    case 0
    then have i: "i = min 63 (length nm)" by simp
    have "copy_name p i name = Inr (name[i := 0])"
    proof (cases "i < 63")
      case True
      then have "i = length nm" using i by simp
      then have "p i = Inr 0" using assms(1) by (simp add: names_def)
      then show ?thesis by (simp add: copy_name.simps)
    qed (simp add: copy_name.simps)
    moreover have "take i nm = take 63 nm" using i by (simp add: min_def)
    ultimately show ?case using i 0 by simp
  next
    case (Suc n)
    then have i: "i < 63" "i < length nm" by linarith+
    then have "p i = Inr (nm ! i)" "nm ! i \<noteq> 0" using names_nth[OF assms(1)] by simp_all
    moreover have "take (i + 1) (name[i := nm ! i]) = take (i + 1) nm"
      using i Suc.prems by (simp add: take_Suc_conv_app_nth)
    moreover have "n = min 63 (length nm) - (i + 1)" "i + 1 \<le> min 63 (length nm)" using Suc.hyps(2) i by linarith+
    moreover have "copy_name p i name = copy_name p (i + 1) (name[i := nm ! i])"
      using i calculation(1,2) by (subst copy_name.simps) simp
    ultimately show ?case using Suc.hyps(1)[of "i + 1" "name[i := nm ! i]"] Suc.prems(2) by simp
  qed
  from step[of 0 name] assms(2) obtain name' where n: "copy_name p 0 name = Inr name'" "length name' = 64"
    "take (min 63 (length nm)) name' = take 63 nm" "name' ! min 63 (length nm) = 0" by auto
  let ?k = "min 63 (length nm)"
  have "?k < length name'" using n(2) by simp
  from id_take_nth_drop[OF this] have "name' = take 63 nm @ 0 # drop (Suc ?k) name'" by (simp only: n(3,4))
  moreover have "\<forall>v \<in> set (take 63 nm). v \<noteq> 0" using assms(1) by (auto simp: names_def dest: in_set_takeD)
  ultimately have "takeWhile (\<lambda>v. v \<noteq> 0) name' = take 63 nm"
    using takeWhile_append2[of "take 63 nm" "\<lambda>v. v \<noteq> 0" "0 # drop (Suc ?k) name'"] by (simp del: take_append)
  then show ?thesis using n by blast
qed

section \<open>Opening\<close>

definition path_name :: "u8 list \<Rightarrow> u8 list" where
  "path_name nm = (case nm of [] \<Rightarrow> [] | c # cs \<Rightarrow> if c = 0x2F then cs else nm)"

lemma names_path:
  assumes "names p nm"
  shows "\<exists>c. p 0 = Inr c \<and> names (if c = 0x2F then (\<lambda>i. p (i + 1)) else p) (path_name nm)"
proof (cases nm)
  case Nil
  then show ?thesis using assms by (simp add: names_def path_name_def)
next
  case (Cons c cs)
  have "p (Suc i) = Inr (cs ! i)" if "i < length cs" for i
    using assms that Cons by (auto simp: names_def)
  then have "names (\<lambda>i. p (i + 1)) cs" using assms Cons by (simp add: names_def)
  moreover have "p 0 = Inr c" using assms Cons by (auto simp: names_def)
  ultimately show ?thesis using assms Cons by (simp add: path_name_def)
qed

lemma free_node:
  assumes "pool_ok pool"
  shows "find (\<lambda>i. \<not> n_used (pool ! i)) [0..<8] = None \<longleftrightarrow> used_nodes pool = {..<8}"
    and "find (\<lambda>i. \<not> n_used (pool ! i)) [0..<8] = Some i \<Longrightarrow>
      i < 8 \<and> i \<notin> used_nodes pool \<and> {..<i} \<subseteq> used_nodes pool"
  using assms by (auto simp: find_None_iff used_nodes_def pool_ok_def dest: find_range_Some)

lemma holds_dir_same_fs: "same_fs e e' \<Longrightarrow> holds_dir disk e' ino xs = holds_dir disk e ino xs"
  by (simp add: holds_dir_def inode_bytes_def inode_offset_def inode_block_def bg_inode_table_def
      same_fs_block same_fs_bsize) (simp add: same_fs_def)

lemma same_fs_inode: "same_fs e e' \<Longrightarrow> inode_bytes disk e' = inode_bytes disk e"
  by (simp add: inode_bytes_def inode_offset_def inode_block_def bg_inode_table_def same_fs_block same_fs_bsize fun_eq_iff)
     (simp add: same_fs_def)

lemma vfs_open_found:
  assumes fs: "ext2_ok e" "disk_ok disk" "names p nm" "pool_ok pool"
    and found: "find (\<lambda>i. \<not> n_used (pool ! i)) [0..<8] = Some node"
    and ino: "ext2_find disk 2 (if projr (p 0) = 0x2F then (\<lambda>i. p (i + 1)) else p) e = Inr (ino, e1)" "same_fs e e1" "ino \<noteq> 0"
  shows "\<exists>e' nd. vfs_open disk p (pool, e) = Inr (Some node, pool[node := nd], e') \<and> same_fs e e' \<and>
    n_inode nd = ino \<and> n_used nd \<and> n_read nd \<and> n_length nd = i_size (inode_bytes disk e ino) \<and>
    length (n_name nd) = 64 \<and> takeWhile (\<lambda>v. v \<noteq> 0) (n_name nd) = take 63 (path_name nm)"
proof -
  obtain c where c: "p 0 = Inr c" "names (if c = 0x2F then (\<lambda>i. p (i + 1)) else p) (path_name nm)"
    using names_path[OF fs(3)] by blast
  have node: "node < 8" using free_node(2)[OF fs(4) found] by simp
  have len: "length pool = 8" "length (n_name (pool ! node)) = 64" using fs(4) node by (simp_all add: pool_ok_def)
  obtain e2 where e2: "ext2_read_inode disk ino e1 = Inr (inode_bytes disk e ino, e2)" "same_fs e1 e2"
    using ext2_read_inode_bytes[OF same_fs_ok[OF ino(2) fs(1)] fs(2), of ino] same_fs_inode[OF ino(2)] by auto
  obtain name where name: "copy_name (if c = 0x2F then (\<lambda>i. p (i + 1)) else p) 0 (n_name (pool ! node)) = Inr name"
    "length name = 64" "takeWhile (\<lambda>v. v \<noteq> 0) name = take 63 (path_name nm)"
    using copy_name_names[OF c(2) len(2)] by blast
  define nd where "nd = (pool ! node)\<lparr>n_inode := ino, n_flags := FS_FILE, n_read := True,
    n_length := i_size (inode_bytes disk e ino), n_used := True, n_name := name\<rparr>"
  have "vfs_open disk p (pool, e) = Inr (Some node, pool[node := nd], e2)"
    using found c(1) ino(1,3) e2(1) name(1) node len(1)
    by (simp add: vfs_open_def ext2_inode_size_def Let_def nd_def)
  moreover have "same_fs e e2" using same_fs_trans[OF ino(2) e2(2)] .
  ultimately show ?thesis using name(2,3) by (intro exI[of _ e2] exI[of _ nd]) (simp add: nd_def)
qed

lemma copy_name_length: "copy_name p i name = Inr name' \<Longrightarrow> length name' = length name"
proof (induction p i name rule: copy_name.induct)
  case (1 path i name)
  show ?case
  proof (cases "i < 63")
    case True
    then obtain v where v: "path i = Inr v" using 1(2) by (subst (asm) copy_name.simps) auto
    show ?thesis
    proof (cases "v = 0")
      case True
      with v \<open>i < 63\<close> 1(2) show ?thesis by (subst (asm) copy_name.simps) auto
    next
      case False
      with v True 1(2) have "copy_name path (i + 1) (name[i := v]) = Inr name'" by (subst (asm) copy_name.simps) simp
      with 1(1)[OF True False] show ?thesis by simp
    qed
  next
    case False
    with 1(2) show ?thesis by (subst (asm) copy_name.simps) auto
  qed
qed

text \<open>Whatever the disk and the path hold, opening only ever takes one unused node.\<close>

lemma vfs_open_cases:
  assumes "ext2_ok e" and "disk_ok disk" and "pool_ok pool" and "vfs_open disk p (pool, e) = Inr (r, pool', e')"
  shows "same_fs e e'"
    and "r = None \<and> pool' = pool \<or>
      (\<exists>node nd. r = Some node \<and> node < 8 \<and> node \<notin> used_nodes pool \<and> pool' = pool[node := nd] \<and>
        n_used nd \<and> n_read nd \<and> length (n_name nd) = 64)"
proof -
  have "same_fs e e' \<and> (r = None \<and> pool' = pool \<or>
      (\<exists>node nd. r = Some node \<and> node < 8 \<and> node \<notin> used_nodes pool \<and> pool' = pool[node := nd] \<and>
        n_used nd \<and> n_read nd \<and> length (n_name nd) = 64))"
  proof (cases "find (\<lambda>i. \<not> n_used (pool ! i)) [0..<8]")
    case None
    with assms(4) show ?thesis by (simp add: vfs_open_def)
  next
    case (Some node)
    note free = free_node(2)[OF assms(3) Some]
    from assms(4) Some obtain c ino e1 where f: "ext2_find disk 2 (if c = 0x2F then (\<lambda>i. p (i + 1)) else p) e = Inr (ino, e1)"
      and "p 0 = Inr c" by (auto simp: vfs_open_def Let_def)
    have s1: "same_fs e e1" using ext2_find_same_fs[OF assms(1,2) f] .
    show ?thesis
    proof (cases "ino = 0")
      case True
      with f \<open>p 0 = Inr c\<close> assms(4) Some s1 show ?thesis by (simp add: vfs_open_def Let_def)
    next
      case False
      from assms(4) Some f \<open>p 0 = Inr c\<close> False free assms(3) obtain len name where
        l: "ext2_inode_size disk ino e1 = Inr (len, e')"
        and n: "copy_name (if c = 0x2F then (\<lambda>i. p (i + 1)) else p) 0 (n_name (pool ! node)) = Inr name"
        and r: "r = Some node"
          "pool' = pool[node := (pool ! node)\<lparr>n_inode := ino, n_flags := FS_FILE, n_read := True,
             n_length := len, n_used := True, n_name := name\<rparr>]"
        by (auto simp: vfs_open_def Let_def pool_ok_def)
      have "length name = 64" using copy_name_length[OF n] assms(3) free by (simp add: pool_ok_def)
      moreover have "same_fs e e'"
        using same_fs_trans[OF s1 ext2_inode_size_same_fs[OF same_fs_ok[OF s1 assms(1)] assms(2) l]] .
      ultimately show ?thesis using r free by auto
    qed
  qed
  then show "same_fs e e'"
    and "r = None \<and> pool' = pool \<or>
      (\<exists>node nd. r = Some node \<and> node < 8 \<and> node \<notin> used_nodes pool \<and> pool' = pool[node := nd] \<and>
        n_used nd \<and> n_read nd \<and> length (n_name nd) = 64)" by blast+
qed

lemma used_nodes_open:
  assumes "pool_ok pool" and "node < 8" and "n_used nd"
  shows "used_nodes (pool[node := nd]) = insert node (used_nodes pool)"
  using assms by (auto simp: used_nodes_def pool_ok_def nth_list_update split: if_splits)

lemma vfs_close_used:
  assumes "pool_ok pool" and "node < 8"
  shows "used_nodes (vfs_close (Some node) pool) = used_nodes pool - {node}" "pool_ok (vfs_close (Some node) pool)"
  using assms by (auto simp: used_nodes_def pool_ok_def vfs_close_def nth_list_update split: if_splits)

lemma pool_ok_update: "pool_ok pool \<Longrightarrow> n_read nd \<Longrightarrow> length (n_name nd) = 64 \<Longrightarrow> pool_ok (pool[node := nd])"
  by (cases "node < 8") (auto simp: pool_ok_def nth_list_update)

text \<open>Opening a path takes the first free node of the pool for the file of that name in the root
  directory (a leading slash is ignored) and fills it with the inode, the size and the first 63
  characters of the name. When the pool is full or there is no such file it returns null and
  leaves the pool as it was.\<close>

lemma vfs_open_spec:
  assumes "ext2_ok e" and "disk_ok disk" and "holds_dir disk e 2 xs" and "names p nm" and "pool_ok pool"
  shows "\<exists>r pool' e'. vfs_open disk p (pool, e) = Inr (r, pool', e') \<and> same_fs e e' \<and>
    (if used_nodes pool = {..<8} \<or> dir_lookup xs (path_name nm) = 0 then r = None \<and> pool' = pool
     else \<exists>node nd. r = Some node \<and> node < 8 \<and> node \<notin> used_nodes pool \<and> {..<node} \<subseteq> used_nodes pool \<and> pool' = pool[node := nd] \<and>
       n_inode nd = dir_lookup xs (path_name nm) \<and> n_used nd \<and> n_read nd \<and>
       n_length nd = i_size (inode_bytes disk e (n_inode nd)) \<and>
       length (n_name nd) = 64 \<and> takeWhile (\<lambda>v. v \<noteq> 0) (n_name nd) = take 63 (path_name nm))"
proof (cases "find (\<lambda>i. \<not> n_used (pool ! i)) [0..<8]")
  case None
  then show ?thesis using free_node(1)[OF assms(5)] by (auto simp: vfs_open_def intro: exI[of _ e])
next
  case (Some node)
  note free = free_node[OF assms(5)]
  obtain c where c: "p 0 = Inr c" "names (if c = 0x2F then (\<lambda>i. p (i + 1)) else p) (path_name nm)"
    using names_path[OF assms(4)] by blast
  let ?p = "if c = 0x2F then (\<lambda>i. p (i + 1)) else p"
  let ?ino = "dir_lookup xs (path_name nm)"
  obtain e1 where e1: "ext2_find disk 2 ?p e = Inr (?ino, e1)" "same_fs e e1"
    using find_in_dir[OF assms(1-3) c(2)] by blast
  show ?thesis
  proof (cases "?ino = 0")
    case True
    then show ?thesis using Some c(1) e1 by (auto simp: vfs_open_def Let_def intro!: exI[of _ e1])
  next
    case False
    have "ext2_find disk 2 (if projr (p 0) = 0x2F then (\<lambda>i. p (i + 1)) else p) e = Inr (?ino, e1)"
      using e1(1) c(1) by simp
    from vfs_open_found[OF assms(1,2,4,5) Some this e1(2) False] obtain e' nd where
      v: "vfs_open disk p (pool, e) = Inr (Some node, pool[node := nd], e')" "same_fs e e'"
        "n_inode nd = ?ino" "n_used nd" "n_read nd" "n_length nd = i_size (inode_bytes disk e ?ino)"
        "length (n_name nd) = 64" "takeWhile (\<lambda>v. v \<noteq> 0) (n_name nd) = take 63 (path_name nm)" by blast
    have "used_nodes pool \<noteq> {..<8}" using free(1) Some by simp
    with False v(3-8) free(2)[OF Some] show ?thesis
      by (intro exI[of _ "Some node"] exI[of _ "pool[node := nd]"] exI[of _ e'] conjI v(1,2))
         (simp, intro exI[of _ nd], simp)
  qed
qed

definition blank_pool :: "fs_node list" where
  "blank_pool = replicate 8 \<lparr>n_name = replicate 64 0, n_flags = 0, n_inode = 0, n_length = 0, n_read = False, n_used = False\<rparr>"

lemma blank_pool_ok: "pool_ok blank_pool" "used_nodes blank_pool = {}"
  by (simp_all add: pool_ok_def used_nodes_def blank_pool_def)

lemma vfs_open_sample:
  "\<exists>nd e'. vfs_open sample_disk (literal [0x2F, 97]) (blank_pool, sample_fs) = Inr (Some 0, blank_pool[0 := nd], e') \<and>
     n_inode nd = 3 \<and> n_length nd = 1100 \<and> n_used nd"
proof -
  have d: "dir_lookup sample_dir (path_name [0x2F, 97]) = 3"
    by (simp add: path_name_def dir_lookup_def sample_dir_def)
  have ne: "{} \<noteq> {..<8 :: nat}" using lessThan_empty_iff[of 8] by (metis zero_neq_numeral)
  have zero: "{..<node :: nat} = {} \<Longrightarrow> node = 0" for node by (simp add: lessThan_empty_iff)
  from vfs_open_spec[OF sample_fs_ok(1) sample_disk_ok sample_holds_dir names_literal[of "[0x2F, 97]"] blank_pool_ok(1)]
  show ?thesis by (auto simp: blank_pool_ok d ne sample_inodes sample_inode_fields dest!: zero)
qed

end
