(* ===== verification/Syscall.thy ===== *)
theory Syscall
  imports PMM Keyboard VFS
begin

text \<open>
  \<^verbatim>\<open>process/syscall.c\<close> and its stub \<^verbatim>\<open>_idt_syscall\<close>: the state of the whole kernel as a record of
  its components, one definition per system call, the dispatcher and the frame it may edit. The
  arguments that are user addresses are dereferenced as the code does, by plain kernel accesses.
\<close>

section \<open>The kernel\<close>

record kernel =
  kn_cpu :: mach
  kn_pmm :: pmm
  kn_sched :: sched
  kn_screen :: screen
  kn_kb :: keyboard
  kn_fs :: ext2
  kn_nodes :: "fs_node list"

abbreviation (input) "SYS_PRINT \<equiv> (0 :: u32)"
abbreviation (input) "SYS_EXIT \<equiv> (1 :: u32)"
abbreviation (input) "SYS_SETCOLOR \<equiv> (2 :: u32)"
abbreviation (input) "SYS_OPEN \<equiv> (3 :: u32)"
abbreviation (input) "SYS_CLOSE \<equiv> (4 :: u32)"
abbreviation (input) "SYS_READ \<equiv> (5 :: u32)"
abbreviation (input) "SYS_GETCHAR \<equiv> (6 :: u32)"
abbreviation (input) "SYS_LS \<equiv> (7 :: u32)"
abbreviation (input) "SYS_SIGACTION \<equiv> (8 :: u32)"
abbreviation (input) "SYS_KILL \<equiv> (9 :: u32)"
abbreviation (input) "SYS_SIGRETURN \<equiv> (10 :: u32)"

definition user_ptr :: "mach \<Rightarrow> u32 \<Rightarrow> cptr" where
  "user_ptr c a i = kld8 (a + of_nat i) c"

text \<open>
  The characters \<^verbatim>\<open>print\<close> takes from a pointer. A pointer from which no zero byte follows in all
  4 GB keeps it printing for ever.
\<close>

function chars_from :: "cptr \<Rightarrow> nat \<Rightarrow> u8 list outcome" where
  "chars_from p i =
     (if i < 2 ^ 32 then bindo (p i) (\<lambda>v. if v = 0 then Inr [] else bindo (chars_from p (i + 1)) (\<lambda>s. Inr (v # s)))
      else Inl Halted)"
  by pat_completeness auto
termination
  by (relation "measure (\<lambda>(p, i). 2 ^ 32 - i)") auto

declare chars_from.simps [simp del]

section \<open>The system calls\<close>

definition sys_print :: "u32 \<Rightarrow> kernel \<Rightarrow> (u32 \<times> kernel) outcome" where
  "sys_print ebx k =
     (let d = set_kattr 0x0F (kn_screen k) in
      bindo (chars_from (user_ptr (kn_cpu k) ebx) 0) (\<lambda>s.
      Inr (0, k\<lparr>kn_screen := print s d\<rparr>)))"

definition sys_exit :: "kernel \<Rightarrow> (u32 \<times> kernel) outcome" where
  "sys_exit k =
     (let d = set_kattr 0x0C (kn_screen k);
          d = print ([10] @ cstr ''[kernel] tarea terminada.'' @ [10]) d
      in Inl Halted)"

definition sys_setcolor :: "u32 \<Rightarrow> kernel \<Rightarrow> (u32 \<times> kernel) outcome" where
  "sys_setcolor ebx k = Inr (0, k\<lparr>kn_screen := set_kattr (ucast ebx) (kn_screen k)\<rparr>)"

abbreviation cur_file :: "sched \<Rightarrow> nat \<Rightarrow> nat \<Rightarrow> fd" where
  "cur_file s cur i \<equiv> t_files (task_pool s ! cur) ! i"

definition set_file :: "nat \<Rightarrow> nat \<Rightarrow> fd \<Rightarrow> kernel \<Rightarrow> kernel" where
  "set_file cur i f k = k\<lparr>kn_sched := update_task cur (\<lambda>t. t\<lparr>t_files := (t_files t)[i := f]\<rparr>) (kn_sched k)\<rparr>"

definition sys_open :: "disk \<Rightarrow> u32 \<Rightarrow> kernel \<Rightarrow> (u32 \<times> kernel) outcome" where
  "sys_open disk ebx k =
     (let t = sched_current_task (kn_sched k) in
      bindo (vfs_open disk (user_ptr (kn_cpu k) ebx) (kn_nodes k, kn_fs k)) (\<lambda>(node, nodes, fs).
      let k = k\<lparr>kn_nodes := nodes, kn_fs := fs\<rparr> in
      case node of
        None \<Rightarrow> Inr (- 1, k)
      | Some n \<Rightarrow>
          (case t of
             None \<Rightarrow> Inl NullDeref
           | Some cur \<Rightarrow>
               (case find (\<lambda>i. \<not> fd_used (cur_file (kn_sched k) cur i)) [3..<MAX_FD] of
                  Some i \<Rightarrow> Inr (of_nat i, set_file cur i \<lparr>fd_node = Some n, fd_offset = 0, fd_used = True\<rparr> k)
                | None \<Rightarrow> Inr (- 1, k\<lparr>kn_nodes := vfs_close (Some n) (kn_nodes k)\<rparr>)))))"

text \<open>\<^verbatim>\<open>fd < 3 || fd >= MAX_FD || !t->files[fd].used\<close> for a signed \<^verbatim>\<open>fd\<close>.\<close>

definition bad_fd :: "sched \<Rightarrow> nat \<Rightarrow> u32 \<Rightarrow> bool" where
  "bad_fd s cur i \<longleftrightarrow> sint i < 3 \<or> sint i \<ge> int MAX_FD \<or> \<not> fd_used (cur_file s cur (unat i))"

definition sys_close :: "u32 \<Rightarrow> kernel \<Rightarrow> (u32 \<times> kernel) outcome" where
  "sys_close ebx k =
     (case sched_current_task (kn_sched k) of
        None \<Rightarrow> if sint ebx < 3 \<or> sint ebx \<ge> int MAX_FD then Inr (- 1, k) else Inl NullDeref
      | Some cur \<Rightarrow>
          if bad_fd (kn_sched k) cur ebx then Inr (- 1, k)
          else
            let i = unat ebx;
                k = k\<lparr>kn_nodes := vfs_close (fd_node (cur_file (kn_sched k) cur i)) (kn_nodes k)\<rparr>
            in Inr (0, set_file cur i \<lparr>fd_node = None, fd_offset = 0, fd_used = False\<rparr> k))"

definition sys_read :: "disk \<Rightarrow> u32 \<Rightarrow> u32 \<Rightarrow> u32 \<Rightarrow> kernel \<Rightarrow> (u32 \<times> kernel) outcome" where
  "sys_read disk ebx ecx edx k =
     (case sched_current_task (kn_sched k) of
        None \<Rightarrow> if sint ebx < 3 \<or> sint ebx \<ge> int MAX_FD then Inr (- 1, k) else Inl NullDeref
      | Some cur \<Rightarrow>
          if bad_fd (kn_sched k) cur ebx then Inr (- 1, k)
          else
            let i = unat ebx;
                f = cur_file (kn_sched k) cur i in
            bindo (vfs_read disk kst8 (kn_nodes k) (fd_node f) (fd_offset f) edx ecx (kn_fs k) (kn_cpu k)) (\<lambda>(n, fs, c).
            let k = k\<lparr>kn_fs := fs, kn_cpu := c\<rparr>
            in Inr (n, set_file cur i (f\<lparr>fd_offset := fd_offset f + n\<rparr>) k)))"

definition sys_getchar :: "kernel \<Rightarrow> (u32 \<times> kernel) outcome" where
  "sys_getchar k = (let (c, kb) = kb_getchar (kn_kb k) in Inr (ucast c, k\<lparr>kn_kb := kb\<rparr>))"

definition sys_ls :: "disk \<Rightarrow> kernel \<Rightarrow> (u32 \<times> kernel) outcome" where
  "sys_ls disk k =
     bindo (ext2_ls disk EXT2_ROOT_INODE (kn_fs k) (set_kattr 0x0E (kn_screen k))) (\<lambda>(fs, d).
     Inr (0, k\<lparr>kn_fs := fs, kn_screen := d\<rparr>))"

definition sys_sigaction :: "u32 \<Rightarrow> u32 \<Rightarrow> kernel \<Rightarrow> (u32 \<times> kernel) outcome" where
  "sys_sigaction ebx ecx k =
     (case sched_current_task (kn_sched k) of
        None \<Rightarrow> Inr (- 1, k)
      | Some cur \<Rightarrow>
          if sint ebx \<le> 0 \<or> sint ebx \<ge> int NSIG then Inr (- 1, k)
          else Inr (0, k\<lparr>kn_sched := update_task cur
                 (\<lambda>t. t\<lparr>t_sig_handlers := (t_sig_handlers t)[unat ebx := ecx]\<rparr>) (kn_sched k)\<rparr>))"

definition sys_kill :: "u32 \<Rightarrow> kernel \<Rightarrow> (u32 \<times> kernel) outcome" where
  "sys_kill ebx k =
     (case sched_current_task (kn_sched k) of
        None \<Rightarrow> Inr (- 1, k)
      | Some cur \<Rightarrow>
          if sint ebx \<le> 0 \<or> sint ebx \<ge> int NSIG then Inr (- 1, k)
          else Inr (0, k\<lparr>kn_sched := update_task cur
                 (\<lambda>t. t\<lparr>t_sig_pending := t_sig_pending t OR push_bit (unat ebx) 1\<rparr>) (kn_sched k)\<rparr>))"

definition sys_sigreturn :: "u32 list \<Rightarrow> kernel \<Rightarrow> (u32 \<times> u32 list \<times> kernel) outcome" where
  "sys_sigreturn frame k =
     (case sched_current_task (kn_sched k) of
        None \<Rightarrow> Inr (- 1, frame, k)
      | Some cur \<Rightarrow>
          let t = task_pool (kn_sched k) ! cur; r = t_sig_saved_regs t in
          if \<not> t_sig_in_handler t then Inr (- 1, frame, k)
          else
            let frame = frame[0 := r ! 7, 1 := r ! 4, 2 := r ! 6, 3 := r ! 5];
                frame = frame[4 := r ! 8, 5 := r ! 9, 6 := r ! 10, 7 := r ! 11, 8 := r ! 12]
            in Inr (0, frame, k\<lparr>kn_sched := update_task cur (\<lambda>t. t\<lparr>t_sig_in_handler := False\<rparr>) (kn_sched k)\<rparr>))"

text \<open>A call that leaves the frame alone.\<close>

definition keep_frame :: "u32 list \<Rightarrow> (u32 \<times> kernel) outcome \<Rightarrow> (u32 \<times> u32 list \<times> kernel) outcome" where
  "keep_frame frame m = bindo m (\<lambda>(r, k). Inr (r, frame, k))"

definition syscall_handler :: "disk \<Rightarrow> u32 list \<Rightarrow> u32 \<Rightarrow> u32 \<Rightarrow> u32 \<Rightarrow> u32 \<Rightarrow> kernel \<Rightarrow> (u32 \<times> u32 list \<times> kernel) outcome" where
  "syscall_handler disk frame eax ebx ecx edx k =
     (if eax = SYS_PRINT then keep_frame frame (sys_print ebx k)
      else if eax = SYS_EXIT then keep_frame frame (sys_exit k)
      else if eax = SYS_SETCOLOR then keep_frame frame (sys_setcolor ebx k)
      else if eax = SYS_OPEN then keep_frame frame (sys_open disk ebx k)
      else if eax = SYS_CLOSE then keep_frame frame (sys_close ebx k)
      else if eax = SYS_READ then keep_frame frame (sys_read disk ebx ecx edx k)
      else if eax = SYS_GETCHAR then keep_frame frame (sys_getchar k)
      else if eax = SYS_LS then keep_frame frame (sys_ls disk k)
      else if eax = SYS_SIGACTION then keep_frame frame (sys_sigaction ebx ecx k)
      else if eax = SYS_KILL then keep_frame frame (sys_kill ebx k)
      else if eax = SYS_SIGRETURN then sys_sigreturn frame k
      else Inr (- 1, frame, k))"

text \<open>
  The stub \<^verbatim>\<open>_idt_syscall\<close>: the four argument registers are pushed below the interrupt frame, and
  the handler is given their address. After the call the pushed block is dropped, not popped, so
  what returns to the task is the handler's result in EAX, the interrupt frame as the handler left
  it, and EBX, ESI, EDI and EBP as they were at entry, since the C convention preserves them. (ECX
  and EDX are whatever the compiled handler leaves there and have no place in the model.)
\<close>

record user_regs =
  u_eax :: u32
  u_ebx :: u32
  u_ecx :: u32
  u_edx :: u32
  u_iret :: "u32 list"

definition idt_syscall :: "disk \<Rightarrow> user_regs \<Rightarrow> kernel \<Rightarrow> (u32 \<times> u32 \<times> u32 list \<times> kernel) outcome" where
  "idt_syscall disk u k =
     bindo (syscall_handler disk ([u_eax u, u_ebx u, u_ecx u, u_edx u] @ u_iret u)
              (u_eax u) (u_ebx u) (u_ecx u) (u_edx u) k) (\<lambda>(r, frame, k).
     Inr (r, u_ebx u, drop 4 frame, k))"

section \<open>Open files\<close>

text \<open>
  The descriptors in use, and the invariant that ties them to the pool: they are at least 3, each
  leads to a node, and this is a bijection with the used nodes: no node leaks and none is shared.
\<close>

definition open_fds :: "sched \<Rightarrow> (nat \<times> nat) set" where
  "open_fds s = {(i, j). i < length (task_pool s) \<and> j < MAX_FD \<and> fd_used (cur_file s i j)}"

definition node_at :: "sched \<Rightarrow> nat \<times> nat \<Rightarrow> nat" where
  "node_at s = (\<lambda>(i, j). the (fd_node (cur_file s i j)))"

definition files_ok :: "sched \<Rightarrow> fs_node list \<Rightarrow> bool" where
  "files_ok s pool \<longleftrightarrow> (\<forall>(i, j) \<in> open_fds s. 3 \<le> j \<and> fd_node (cur_file s i j) \<noteq> None) \<and>
     bij_betw (node_at s) (open_fds s) (used_nodes pool)"

definition kernel_inv :: "kernel \<Rightarrow> bool" where
  "kernel_inv k \<longleftrightarrow> sched_inv (kn_sched k) \<and> kb_inv (kn_kb k) \<and> ext2_ok (kn_fs k) \<and>
     pool_ok (kn_nodes k) \<and> files_ok (kn_sched k) (kn_nodes k)"

lemma files_ok_cong:
  assumes "length (task_pool s') = length (task_pool s)" and "used_nodes pool' = used_nodes pool"
    and same: "\<And>i j. i < length (task_pool s) \<Longrightarrow> j < 8 \<Longrightarrow>
      fd_used (cur_file s' i j) = fd_used (cur_file s i j) \<and> fd_node (cur_file s' i j) = fd_node (cur_file s i j)"
  shows "files_ok s' pool' \<longleftrightarrow> files_ok s pool"
proof -
  have o: "open_fds s' = open_fds s" using assms(1) same by (auto simp: open_fds_def)
  have n: "fd_node (cur_file s' i j) = fd_node (cur_file s i j)" if "(i, j) \<in> open_fds s" for i j
    using that same by (auto simp: open_fds_def)
  then have "bij_betw (node_at s') (open_fds s) U = bij_betw (node_at s) (open_fds s) U" for U
    by (intro bij_betw_cong) (auto simp: node_at_def)
  then show ?thesis using o n assms(2) by (auto simp: files_ok_def)
qed

lemma task_files_len: "sched_inv s \<Longrightarrow> i < 8 \<Longrightarrow> length (t_files (task_pool s ! i)) = 8"
  by (simp add: sched_inv_def task_ok_def)

lemma current_lt: "sched_inv s \<Longrightarrow> cur_task s = Some cur \<Longrightarrow> cur < 8 \<and> cur < length (task_pool s)"
  by (auto simp: sched_inv_def split: if_splits)

lemma cur_file_update:
  assumes "sched_inv s" and "cur < 8" and "j < 8"
  shows "cur_file (update_task cur (\<lambda>t. t\<lparr>t_files := (t_files t)[j := f]\<rparr>) s) i k =
    (if i = cur \<and> k = j then f else cur_file s i k)"
proof -
  have "length (task_pool s) = 8" using assms(1) by (simp add: sched_inv_def)
  then show ?thesis using assms task_files_len[OF assms(1,2)] by (simp add: update_task_nth nth_list_update)
qed

lemma open_fds_update:
  assumes "sched_inv s" and "cur < 8" and "j < 8"
  shows "open_fds (update_task cur (\<lambda>t. t\<lparr>t_files := (t_files t)[j := f]\<rparr>) s) =
    (if fd_used f then insert (cur, j) (open_fds s) else open_fds s - {(cur, j)})"
proof -
  have "length (task_pool s) = 8" using assms(1) by (simp add: sched_inv_def)
  then show ?thesis using assms(2,3) unfolding open_fds_def cur_file_update[OF assms] by auto
qed

lemma files_ok_open:
  assumes inv: "sched_inv s" "pool_ok pool" "files_ok s pool" and cur: "cur < 8" "3 \<le> j" "j < 8"
    and free: "(cur, j) \<notin> open_fds s" "node \<notin> used_nodes pool" "node < 8" and nd: "n_used nd"
  shows "files_ok (update_task cur (\<lambda>t. t\<lparr>t_files := (t_files t)[j := \<lparr>fd_node = Some node, fd_offset = o1, fd_used = True\<rparr>]\<rparr>) s)
    (pool[node := nd])" (is "files_ok ?s ?pool")
proof -
  note upd = cur_file_update[OF inv(1) cur(1,3)]
  have o: "open_fds ?s = insert (cur, j) (open_fds s)" using open_fds_update[OF inv(1) cur(1,3)] by simp
  have b: "bij_betw (node_at s) (open_fds s) (used_nodes pool)" using inv(3) by (simp add: files_ok_def)
  have "bij_betw (node_at ?s) (open_fds s) (used_nodes pool) = bij_betw (node_at s) (open_fds s) (used_nodes pool)"
    using free(1) by (intro bij_betw_cong) (auto simp: node_at_def upd)
  with b have "bij_betw (node_at ?s) (open_fds s) (used_nodes pool)" by simp
  moreover have "node_at ?s (cur, j) = node" by (simp add: node_at_def upd)
  ultimately have "bij_betw (node_at ?s) (insert (cur, j) (open_fds s)) (insert node (used_nodes pool))"
    using notIn_Un_bij_betw[of "(cur, j)" "open_fds s" "node_at ?s" "used_nodes pool"] free(1,2) by simp
  then show ?thesis
    using inv(3) cur(2) used_nodes_open[OF inv(2) free(3) nd] by (auto simp: files_ok_def o upd)
qed

lemma files_ok_close:
  assumes inv: "sched_inv s" "pool_ok pool" "files_ok s pool" and cur: "cur < 8" "j < 8" and op: "(cur, j) \<in> open_fds s"
  shows "files_ok (update_task cur (\<lambda>t. t\<lparr>t_files := (t_files t)[j := \<lparr>fd_node = None, fd_offset = 0, fd_used = False\<rparr>]\<rparr>) s)
    (vfs_close (fd_node (cur_file s cur j)) pool)" (is "files_ok ?s ?pool")
    and "pool_ok (vfs_close (fd_node (cur_file s cur j)) pool)"
proof -
  note upd = cur_file_update[OF inv(1) cur]
  have o: "open_fds ?s = open_fds s - {(cur, j)}" using open_fds_update[OF inv(1) cur] by simp
  have b: "bij_betw (node_at s) (open_fds s) (used_nodes pool)" using inv(3) by (simp add: files_ok_def)
  have node: "fd_node (cur_file s cur j) = Some (node_at s (cur, j))"
    using inv(3) op by (auto simp: files_ok_def node_at_def)
  have "node_at s (cur, j) \<in> used_nodes pool" using b op by (auto simp: bij_betw_def)
  then have n: "node_at s (cur, j) < 8" using inv(2) by (simp add: used_nodes_def pool_ok_def)
  note used = vfs_close_used[OF inv(2) n, folded node]
  have "bij_betw (node_at s) (open_fds s - {(cur, j)}) (used_nodes pool - {node_at s (cur, j)})"
    using b op by (simp add: bij_betw_def inj_on_diff inj_on_image_set_diff[of _ "open_fds s"])
  moreover have "bij_betw (node_at ?s) (open_fds s - {(cur, j)}) U = bij_betw (node_at s) (open_fds s - {(cur, j)}) U" for U
    by (intro bij_betw_cong) (auto simp: node_at_def upd split: if_splits)
  ultimately show "files_ok ?s ?pool" using inv(3) used(1) by (auto simp: files_ok_def o upd)
  show "pool_ok ?pool" by (rule used(2))
qed

text \<open>A task update that keeps descriptors keeps the invariant.\<close>

lemma files_ok_update_task:
  assumes "\<And>t. t_files (f t) = t_files t"
  shows "files_ok (update_task cur f s) pool = files_ok s pool"
proof -
  have "t_files (task_pool (update_task cur f s) ! i) = t_files (task_pool s ! i)" for i
    using assms by (cases "cur < length (task_pool s)") (simp_all add: update_task_nth, simp add: update_task_def list_update_beyond)
  then show ?thesis by (intro files_ok_cong) simp_all
qed

lemma kernel_inv_update_task:
  assumes "kernel_inv k" and "\<And>t. t_files (f t) = t_files t" and "\<And>t. task_ok t \<Longrightarrow> task_ok (f t)"
  shows "kernel_inv (k\<lparr>kn_sched := update_task cur f (kn_sched k)\<rparr>)"
  using assms by (simp add: kernel_inv_def files_ok_update_task sched_inv_update_task)

text \<open>The two ways an opening ends.\<close>

lemma sys_open_cases:
  assumes inv: "kernel_inv k" and disk: "disk_ok disk" and run: "sys_open disk ebx k = Inr (r, k')"
  obtains (failed) "r = - 1" and "\<exists>pool fs. k' = k\<lparr>kn_nodes := pool, kn_fs := fs\<rparr> \<and> pool_ok pool \<and>
      used_nodes pool = used_nodes (kn_nodes k) \<and> same_fs (kn_fs k) fs"
  | (opened) cur j n nd fs where "cur_task (kn_sched k) = Some cur" and "cur < 8" and "r = of_nat j" and "3 \<le> j" and "j < 8"
      and "(cur, j) \<notin> open_fds (kn_sched k)" and "n \<notin> used_nodes (kn_nodes k)" and "n < 8" and "n_used nd"
      and "pool_ok ((kn_nodes k)[n := nd])" and "same_fs (kn_fs k) fs"
      and "k' = set_file cur j \<lparr>fd_node = Some n, fd_offset = 0, fd_used = True\<rparr> (k\<lparr>kn_nodes := (kn_nodes k)[n := nd], kn_fs := fs\<rparr>)"
proof -
  have i: "ext2_ok (kn_fs k)" "pool_ok (kn_nodes k)" "sched_inv (kn_sched k)" using inv by (simp_all add: kernel_inv_def)
  obtain node nodes fs where v: "vfs_open disk (user_ptr (kn_cpu k) ebx) (kn_nodes k, kn_fs k) = Inr (node, nodes, fs)"
    using run by (auto simp: sys_open_def Let_def)
  note vc = vfs_open_cases[OF i(1) disk i(2) v]
  from vc(2) show thesis
  proof
    assume "node = None \<and> nodes = kn_nodes k"
    then have n: "node = None" "nodes = kn_nodes k" by simp_all
    then have "r = - 1" "k' = k\<lparr>kn_nodes := nodes, kn_fs := fs\<rparr>" using run v by (simp_all add: sys_open_def)
    moreover have "pool_ok nodes \<and> used_nodes nodes = used_nodes (kn_nodes k)" using n(2) i(2) by simp
    ultimately show thesis using vc(1) by (intro failed) blast+
  next
    assume "\<exists>n nd. node = Some n \<and> n < 8 \<and> n \<notin> used_nodes (kn_nodes k) \<and> nodes = (kn_nodes k)[n := nd] \<and>
      n_used nd \<and> n_read nd \<and> length (n_name nd) = 64"
    then obtain n nd where n: "node = Some n" "n < 8" "n \<notin> used_nodes (kn_nodes k)" "nodes = (kn_nodes k)[n := nd]"
      "n_used nd" "n_read nd" "length (n_name nd) = 64" by blast
    have po: "pool_ok nodes" unfolding n(4) by (rule pool_ok_update[OF i(2) n(6,7)])
    obtain cur where cur: "cur_task (kn_sched k) = Some cur"
      using run v n(1) by (auto simp: sys_open_def sched_current_task_def Let_def split: option.splits)
    have lt: "cur < 8" using current_lt[OF i(3) cur] by simp
    show thesis
    proof (cases "find (\<lambda>j. \<not> fd_used (cur_file (kn_sched k) cur j)) [3..<8]")
      case None
      then have "r = - 1 \<and> k' = k\<lparr>kn_nodes := vfs_close (Some n) nodes, kn_fs := fs\<rparr>"
        using run v n(1) cur by (auto simp: sys_open_def sched_current_task_def Let_def)
      moreover have "used_nodes (vfs_close (Some n) nodes) = used_nodes (kn_nodes k)"
        using vfs_close_used(1)[OF po n(2)] used_nodes_open[OF i(2) n(2,5)] n(3,4) by simp
      ultimately show thesis using vfs_close_used(2)[OF po n(2)] vc(1) by (intro failed) blast+
    next
      case (Some j)
      then have j: "3 \<le> j" "j < 8" "\<not> fd_used (cur_file (kn_sched k) cur j)" using find_range_Some[OF Some] by simp_all
      then have "(cur, j) \<notin> open_fds (kn_sched k)" by (simp add: open_fds_def)
      moreover have "r = of_nat j" "k' = set_file cur j \<lparr>fd_node = Some n, fd_offset = 0, fd_used = True\<rparr>
          (k\<lparr>kn_nodes := (kn_nodes k)[n := nd], kn_fs := fs\<rparr>)"
        using run v n(1,4) cur Some by (auto simp: sys_open_def sched_current_task_def Let_def)
      ultimately show thesis using opened[OF cur lt _ j(1,2) _ n(3,2,5)] po vc(1) unfolding n(4) by blast
    qed
  qed
qed

lemma sys_open_inv:
  assumes inv: "kernel_inv k" and disk: "disk_ok disk" and run: "sys_open disk ebx k = Inr (r, k')"
  shows "kernel_inv k'"
  using inv disk run
proof (cases rule: sys_open_cases)
  case failed
  then obtain pool fs where k': "k' = k\<lparr>kn_nodes := pool, kn_fs := fs\<rparr>" "pool_ok pool"
    "used_nodes pool = used_nodes (kn_nodes k)" "same_fs (kn_fs k) fs" by blast
  moreover have "files_ok (kn_sched k) pool = files_ok (kn_sched k) (kn_nodes k)" using k'(3) by (intro files_ok_cong) simp_all
  ultimately show ?thesis using inv same_fs_ok[OF k'(4)] by (simp add: kernel_inv_def)
next
  case (opened cur j n nd fs)
  have "sched_inv (kn_sched k)" "pool_ok (kn_nodes k)" "files_ok (kn_sched k) (kn_nodes k)"
    using inv by (simp_all add: kernel_inv_def)
  from files_ok_open[OF this opened(2,4-9)] opened(10) same_fs_ok[OF opened(11)] inv show ?thesis
    unfolding opened(12) kernel_inv_def set_file_def by (auto intro!: sched_inv_update_task simp: task_ok_def)
qed

lemma bad_fd_open:
  assumes "sched_inv s" and "cur_task s = Some cur" and "\<not> bad_fd s cur i"
  shows "cur < 8" "3 \<le> unat i" "unat i < 8" "(cur, unat i) \<in> open_fds s"
proof -
  have s: "3 \<le> sint i" "sint i < 8" using assms(3) by (auto simp: bad_fd_def)
  then have "uint i = sint i" by (simp add: uint_sint take_bit_int_eq_self)
  then have u: "int (unat i) = sint i" by simp
  with s show "3 \<le> unat i" "unat i < 8" by linarith+
  then show "cur < 8" "(cur, unat i) \<in> open_fds s"
    using current_lt[OF assms(1,2)] assms(3) by (auto simp: open_fds_def bad_fd_def)
qed

lemma sys_close_inv:
  assumes inv: "kernel_inv k" and run: "sys_close ebx k = Inr (r, k')"
  shows "kernel_inv k'"
proof (cases "cur_task (kn_sched k)")
  case None
  with run inv show ?thesis by (auto simp: sys_close_def sched_current_task_def split: if_splits)
next
  case (Some cur)
  note i = inv[unfolded kernel_inv_def]
  show ?thesis
  proof (cases "bad_fd (kn_sched k) cur ebx")
    case True
    with run Some inv show ?thesis by (simp add: sys_close_def sched_current_task_def)
  next
    case False
    have s: "sched_inv (kn_sched k)" and p: "pool_ok (kn_nodes k)" and f: "files_ok (kn_sched k) (kn_nodes k)"
      using i by simp_all
    note b = bad_fd_open[OF s Some False]
    have k': "k' = set_file cur (unat ebx) \<lparr>fd_node = None, fd_offset = 0, fd_used = False\<rparr>
        (k\<lparr>kn_nodes := vfs_close (fd_node (cur_file (kn_sched k) cur (unat ebx))) (kn_nodes k)\<rparr>)"
      using run Some False by (simp add: sys_close_def sched_current_task_def Let_def)
    show ?thesis
      using i files_ok_close[OF s p f b(1,3,4)] unfolding k' kernel_inv_def set_file_def
      by (auto intro!: sched_inv_update_task simp: task_ok_def)
  qed
qed

lemma sys_read_cases:
  assumes cur: "cur_task (kn_sched k) = Some cur" and ok: "\<not> bad_fd (kn_sched k) cur ebx"
    and run: "sys_read disk ebx ecx edx k = Inr (n, k')"
  obtains fs c where "vfs_read disk kst8 (kn_nodes k) (fd_node (cur_file (kn_sched k) cur (unat ebx)))
      (fd_offset (cur_file (kn_sched k) cur (unat ebx))) edx ecx (kn_fs k) (kn_cpu k) = Inr (n, fs, c)"
    and "k' = set_file cur (unat ebx) ((cur_file (kn_sched k) cur (unat ebx))
      \<lparr>fd_offset := fd_offset (cur_file (kn_sched k) cur (unat ebx)) + n\<rparr>) (k\<lparr>kn_fs := fs, kn_cpu := c\<rparr>)"
  using assms by (auto simp: sys_read_def sched_current_task_def Let_def)

lemma sys_read_inv:
  assumes inv: "kernel_inv k" and disk: "disk_ok disk" and run: "sys_read disk ebx ecx edx k = Inr (n, k')"
  shows "kernel_inv k'"
proof (cases "cur_task (kn_sched k)")
  case None
  with run inv show ?thesis by (auto simp: sys_read_def sched_current_task_def split: if_splits)
next
  case (Some cur)
  note i = inv[unfolded kernel_inv_def]
  show ?thesis
  proof (cases "bad_fd (kn_sched k) cur ebx")
    case True
    with run Some inv show ?thesis by (simp add: sys_read_def sched_current_task_def)
  next
    case False
    let ?f = "cur_file (kn_sched k) cur (unat ebx)"
    obtain fs c where v: "vfs_read disk kst8 (kn_nodes k) (fd_node ?f) (fd_offset ?f) edx ecx (kn_fs k) (kn_cpu k) = Inr (n, fs, c)"
      and k': "k' = set_file cur (unat ebx) (?f\<lparr>fd_offset := fd_offset ?f + n\<rparr>) (k\<lparr>kn_fs := fs, kn_cpu := c\<rparr>)"
      using sys_read_cases[OF Some False run] .
    have s: "sched_inv (kn_sched k)" using i by simp
    have "same_fs (kn_fs k) fs"
      using v ext2_pread_same_fs[of "kn_fs k" disk] i disk by (auto simp: vfs_read_def split: option.splits if_splits)
    then have fs: "ext2_ok fs" using same_fs_ok i by blast
    note b = bad_fd_open[OF s Some False]
    have "files_ok (update_task cur (\<lambda>t. t\<lparr>t_files := (t_files t)[unat ebx := ?f\<lparr>fd_offset := fd_offset ?f + n\<rparr>]\<rparr>) (kn_sched k))
        (kn_nodes k) = files_ok (kn_sched k) (kn_nodes k)"
      by (intro files_ok_cong) (simp_all add: cur_file_update[OF s b(1,3)])
    then show ?thesis
      using i fs unfolding k' kernel_inv_def set_file_def by (auto intro!: sched_inv_update_task simp: task_ok_def)
  qed
qed

lemma syscall_handler_inv:
  assumes inv: "kernel_inv k" and disk: "disk_ok disk"
    and run: "syscall_handler disk frame eax ebx ecx edx k = Inr (r, frame', k')"
  shows "kernel_inv k'"
proof -
  have screen: "kernel_inv (k\<lparr>kn_screen := d\<rparr>)" for d using inv by (simp add: kernel_inv_def)
  have small: "kernel_inv k'" if "sys_print ebx k = Inr (r, k') \<or> sys_setcolor ebx k = Inr (r, k') \<or> sys_getchar k = Inr (r, k')"
    using that inv kb_inv_getchar[of "kn_kb k"]
    by (auto simp: sys_print_def sys_setcolor_def sys_getchar_def kernel_inv_def Let_def split: prod.splits)
  have ls: "kernel_inv k'" if h: "sys_ls disk k = Inr (r, k')"
  proof -
    obtain fs d where l: "ext2_ls disk 2 (kn_fs k) (set_kattr 0x0E (kn_screen k)) = Inr (fs, d)"
      and k': "k' = k\<lparr>kn_fs := fs, kn_screen := d\<rparr>" using h by (auto simp: sys_ls_def)
    have ok: "ext2_ok (kn_fs k)" using inv by (simp add: kernel_inv_def)
    have "ext2_ok fs" using same_fs_ok[OF ext2_ls_same_fs[OF ok disk l] ok] .
    with inv show ?thesis by (simp add: k' kernel_inv_def)
  qed
  have sigs: "kernel_inv k'" if "sys_sigaction ebx ecx k = Inr (r, k') \<or> sys_kill ebx k = Inr (r, k') \<or>
      sys_sigreturn frame k = Inr (r, frame', k')"
    using that inv
    by (auto simp: sys_sigaction_def sys_kill_def sys_sigreturn_def Let_def task_ok_def
        intro!: kernel_inv_update_task split: option.splits if_splits)
  show ?thesis
    using run small ls sigs sys_open_inv[OF inv disk] sys_close_inv[OF inv] sys_read_inv[OF inv disk] inv
    by (auto simp: syscall_handler_def keep_frame_def sys_exit_def split: if_splits)
qed

end
