(* ===== verification/Kernel_Steps.thy ===== *)
theory Kernel_Steps
  imports Syscall
begin

text \<open>
  The kernel as a state machine. A step is a system call of the running task, a tick of the timer,
  a key, or a store of the running program in ring 3. The handlers are atomic: the timer does not
  switch away from ring 0, and a key that arrives during a system call is taken before or after it.
  This theory holds the invariant of the machine and the properties of the calls that rest on it.
\<close>

section \<open>What the kernel owns\<close>

text \<open>
  The code of the kernel, its static objects, its descriptor tables and its stacks lie at physical
  addresses that the linker and the allocator chose, a set \<open>K\<close>. The objects are fields of the model's
  state, so a store that hits \<open>K\<close> has an effect the model does not show, and nothing in the code
  prevents it: \<^verbatim>\<open>sys_read\<close> takes any address for its buffer, a signal frame goes wherever the
  user's stack pointer points, and ring 3 may write the identity window. The guards below say of a
  step that its stores do not hit \<open>K\<close>; they follow the stores one by one, as each may change
  the page tables that the next one is translated by.
\<close>

definition hits :: "u32 set \<Rightarrow> u32 \<Rightarrow> mach \<Rightarrow> bool" where
  "hits K va c = (case translate c va of None \<Rightarrow> False | Some a \<Rightarrow> a \<in> K)"

definition watched :: "u32 set \<Rightarrow> mach option store" where
  "watched K va v m = (case m of None \<Rightarrow> Inr None
     | Some c \<Rightarrow> if hits K va c then Inr None else bindo (kst8 va v c) (\<lambda>c. Inr (Some c)))"

text \<open>\<^verbatim>\<open>sys_read\<close> run with watched stores does not end with a hit.\<close>

definition read_spares :: "u32 set \<Rightarrow> disk \<Rightarrow> u32 \<Rightarrow> u32 \<Rightarrow> u32 \<Rightarrow> kernel \<Rightarrow> bool" where
  "read_spares K disk ebx ecx edx k =
     (case cur_task (kn_sched k) of
        None \<Rightarrow> True
      | Some cur \<Rightarrow> bad_fd (kn_sched k) cur ebx \<or>
          (let f = cur_file (kn_sched k) cur (unat ebx)
           in case vfs_read disk (watched K) (kn_nodes k) (fd_node f) (fd_offset f) edx ecx (kn_fs k) (Some (kn_cpu k)) of
                Inr (_, _, None) \<Rightarrow> False | _ \<Rightarrow> True))"

definition call_spares :: "u32 set \<Rightarrow> disk \<Rightarrow> user_regs \<Rightarrow> kernel \<Rightarrow> bool" where
  "call_spares K disk u k \<longleftrightarrow> (u_eax u = SYS_READ \<longrightarrow> read_spares K disk (u_ebx u) (u_ecx u) (u_edx u) k)"

text \<open>The two words of a signal frame, pushed below the stack pointer of the task that resumes.\<close>

definition hits32 :: "u32 set \<Rightarrow> u32 \<Rightarrow> mach \<Rightarrow> bool" where
  "hits32 K va c \<longleftrightarrow> hits K va c \<or> hits K (va + 1) c \<or> hits K (va + 2) c \<or> hits K (va + 3) c"

definition frame_spares :: "u32 set \<Rightarrow> u32 \<Rightarrow> u32 \<Rightarrow> mach \<Rightarrow> bool" where
  "frame_spares K sp sig c \<longleftrightarrow> \<not> hits32 K (sp - 4) c \<and>
     (case kst32 (sp - 4) sig c of Inl _ \<Rightarrow> True | Inr c \<Rightarrow> \<not> hits32 K (sp - 8) c)"

definition tick_spares :: "u32 set \<Rightarrow> u32 list \<Rightarrow> sched \<Rightarrow> mach \<Rightarrow> bool" where
  "tick_spares K ctx s c =
     (case cur_task s of
        None \<Rightarrow> True
      | Some cur \<Rightarrow> let t = next_task ctx s c cur
          in from_user ctx \<and> deliverable t \<longrightarrow>
             frame_spares K (t_regs t ! 11) (of_nat (pending_signal (t_sig_pending t))) (c\<lparr>mm_cr3 := t_cr3 t\<rparr>))"

section \<open>Steps\<close>

inductive kernel_step :: "disk \<Rightarrow> u32 set \<Rightarrow> kernel \<Rightarrow> kernel \<Rightarrow> bool" for disk K where
  call: "kernel_step disk K k k'" if "idt_syscall disk u k = Inr (eax, ebx, iret, k')" and "call_spares K disk u k"
| tick: "kernel_step disk K k (k\<lparr>kn_sched := s, kn_cpu := c\<rparr>)"
    if "length ctx = 13" and "do_switch ctx (kn_sched k) (kn_cpu k) = Inr (ctx', s, c)" and "tick_spares K ctx (kn_sched k) (kn_cpu k)"
| key: "kernel_step disk K k (k\<lparr>kn_kb := kb, kn_screen := d, kn_sched := s\<rparr>)"
    if "keyboard_handler scancode (kn_kb k, kn_screen k, kn_sched k) = (kb, d, s)"
| user_store: "kernel_step disk K k (k\<lparr>kn_cpu := c\<rparr>)" if "ust8 va v (kn_cpu k) = Inr c" and "\<not> hits K va (kn_cpu k)"

text \<open>Between steps the bytes of \<open>K\<close> itself may have any value: they are what the kernel's objects look
  like to a program that reads them.\<close>

definition agree_but :: "u32 set \<Rightarrow> mach \<Rightarrow> mach \<Rightarrow> bool" where
  "agree_but K c c' \<longleftrightarrow> mm_cr3 c' = mm_cr3 c \<and> mm_cr0 c' = mm_cr0 c \<and> (\<forall>a. a \<notin> K \<longrightarrow> mm_mem c' a = mm_mem c a)"

inductive kernel_run :: "disk \<Rightarrow> u32 set \<Rightarrow> kernel \<Rightarrow> kernel \<Rightarrow> bool" for disk K where
  start: "kernel_run disk K k k"
| more: "kernel_run disk K k k''" if "kernel_run disk K k k'" and "kernel_step disk K k' k''"
| own: "kernel_run disk K k (k'\<lparr>kn_cpu := c\<rparr>)" if "kernel_run disk K k k'" and "agree_but K (kn_cpu k') c"

section \<open>Spared memory\<close>

definition spared :: "u32 set \<Rightarrow> mach \<Rightarrow> mach \<Rightarrow> bool" where
  "spared K c c' \<longleftrightarrow> (\<forall>a \<in> K. mm_mem c' a = mm_mem c a)"

lemma spared_refl [simp]: "spared K c c" and spared_trans: "spared K c c1 \<Longrightarrow> spared K c1 c2 \<Longrightarrow> spared K c c2"
  and spared_mem: "mm_mem c' = mm_mem c \<Longrightarrow> spared K c c'"
  by (simp_all add: spared_def)

lemma kst8_spares: "kst8 va v c = Inr c' \<Longrightarrow> \<not> hits K va c \<Longrightarrow> spared K c c'"
  by (auto simp: kst8_def hits_def spared_def split: option.splits)

lemma kst32_spares: "kst32 va v c = Inr c' \<Longrightarrow> \<not> hits32 K va c \<Longrightarrow> spared K c c'"
  by (auto simp: kst32_def hits32_def hits_def spared_def split: option.splits)

lemma watched_simps [simp]:
  "watched K a v None = Inr None" "watched K a v (Some c) = (if hits K a c then Inr None else bindo (kst8 a v c) (\<lambda>c. Inr (Some c)))"
  by (simp_all add: watched_def)

lemma watched_hit: "store_bytes (watched K) a vs None = Inr None"
  by (induction vs arbitrary: a) simp_all

lemma watched_store_bytes:
  "store_bytes kst8 a vs c = Inr c' \<Longrightarrow> \<exists>r. store_bytes (watched K) a vs (Some c) = Inr r \<and> (r \<noteq> None \<longrightarrow> spared K c c')"
proof (induction vs arbitrary: a c)
  case (Cons v vs)
  then obtain c1 where c1: "kst8 a v c = Inr c1" "store_bytes kst8 (a + 1) vs c1 = Inr c'" by auto
  show ?case
  proof (cases "hits K a c")
    case True
    then show ?thesis by (simp add: watched_hit)
  next
    case False
    from Cons.IH[OF c1(2)] kst8_spares[OF c1(1) False] False c1(1) show ?thesis
      by (auto intro: spared_trans)
  qed
qed simp

lemma vfs_read_spares:
  assumes "ext2_ok e" and "disk_ok disk" and run: "vfs_read disk kst8 pool node offset sz buf e c = Inr (n, e', c')"
    and sp: "case vfs_read disk (watched K) pool node offset sz buf e (Some c) of Inr (_, _, None) \<Rightarrow> False | _ \<Rightarrow> True"
  shows "spared K c c'"
proof (cases "node = None \<or> \<not> n_read (pool ! the node)")
  case True
  with run have "c' = c" by (auto simp: vfs_read_def split: option.splits if_splits)
  then show ?thesis by simp
next
  case False
  then obtain i where i: "node = Some i" "n_read (pool ! i)" by auto
  let ?bs = "map (file_byte disk e (inode_bytes disk e (n_inode (pool ! i)))) [unat offset..<unat offset + served_len disk e (n_inode (pool ! i)) offset sz]"
  have st: "store_bytes kst8 buf ?bs c = Inr c'"
    using ext2_pread_slice[OF assms(1,2), where wr = kst8 and inum = "n_inode (pool ! i)" and buf = buf and offset = offset and sz = sz] run i
    by (auto simp: vfs_read_def)
  obtain r where r: "store_bytes (watched K) buf ?bs (Some c) = Inr r" "r \<noteq> None \<longrightarrow> spared K c c'"
    using watched_store_bytes[OF st] by blast
  have "r \<noteq> None"
    using ext2_pread_slice[OF assms(1,2), where wr = "watched K" and inum = "n_inode (pool ! i)" and buf = buf and offset = offset and sz = sz] sp i r(1)
    by (cases r) (auto simp: vfs_read_def)
  with r(2) show ?thesis by simp
qed

lemma sys_read_spares:
  assumes inv: "kernel_inv k" and disk: "disk_ok disk" and run: "sys_read disk ebx ecx edx k = Inr (r, k')" and sp: "read_spares K disk ebx ecx edx k"
  shows "spared K (kn_cpu k) (kn_cpu k')"
proof (cases "cur_task (kn_sched k)")
  case None
  with run show ?thesis by (auto simp: sys_read_def sched_current_task_def split: if_splits)
next
  case (Some cur)
  show ?thesis
  proof (cases "bad_fd (kn_sched k) cur ebx")
    case True
    with run Some show ?thesis by (simp add: sys_read_def sched_current_task_def)
  next
    case False
    let ?f = "cur_file (kn_sched k) cur (unat ebx)"
    obtain n fs c where "vfs_read disk kst8 (kn_nodes k) (fd_node ?f) (fd_offset ?f) edx ecx (kn_fs k) (kn_cpu k) = Inr (n, fs, c)" "kn_cpu k' = c"
      using run Some False by (auto simp: sys_read_def sched_current_task_def Let_def set_file_def)
    with vfs_read_spares[OF _ disk this(1)] inv sp Some False show ?thesis by (simp add: read_spares_def Let_def kernel_inv_def)
  qed
qed

lemma call_keeps_memory:
  assumes inv: "kernel_inv k" and disk: "disk_ok disk" and run: "syscall_handler disk frame eax ebx ecx edx k = Inr (r, frame', k')" and eax: "eax \<noteq> SYS_READ"
  shows "kn_cpu k' = kn_cpu k"
proof -
  have "kn_cpu k' = kn_cpu k" if "sys_open disk ebx k = Inr (r, k')"
    using inv disk that by (cases rule: sys_open_cases) (auto simp: set_file_def)
  then show ?thesis using run eax
    by (auto simp: syscall_handler_def keep_frame_def sys_print_def sys_exit_def sys_setcolor_def sys_close_def sys_getchar_def sys_ls_def
      sys_sigaction_def sys_kill_def sys_sigreturn_def set_file_def Let_def split: if_splits option.splits prod.splits)
qed

lemma do_switch_spares:
  assumes inv: "sched_inv s" and len: "length ctx = 13" and run: "do_switch ctx s c = Inr (ctx', s', c')" and sp: "tick_spares K ctx s c"
  shows "spared K c c'"
proof (cases "cur_task s")
  case None
  with run show ?thesis by (simp add: do_switch_def)
next
  case (Some cur)
  show ?thesis
  proof (cases "from_user ctx")
    case False
    with run Some len show ?thesis by (simp add: do_switch_def from_user_def)
  next
    case True
    let ?t = "next_task ctx s c cur" and ?s = "run_task (succ_task s cur) (save_task cur ctx (mm_cr3 c) s)"
    let ?c = "c\<lparr>mm_cr3 := t_cr3 (next_task ctx s c cur)\<rparr>" and ?sp = "t_regs (next_task ctx s c cur) ! 11"
    have d: "deliver_signal (succ_task s cur) (t_regs ?t) ?s ?c = Inr (ctx', s', c')" using run unfolding do_switch_next[OF inv Some True] .
    have t: "task_pool ?s ! succ_task s cur = ?t" by (rule run_task_next)
    show ?thesis
    proof (cases "deliverable ?t")
      case False
      with d have "c' = ?c" by (simp add: deliver_signal_none t)
      then show ?thesis by (simp add: spared_def)
    next
      case del: True
      then have fs: "frame_spares K ?sp (of_nat (pending_signal (t_sig_pending ?t))) ?c" using sp Some True by (simp add: tick_spares_def Let_def)
      have ok: "length (t_regs ?t) = 13" "length (t_sig_saved_regs ?t) = 13" using next_task_ok[OF inv Some True] by (simp_all add: task_ok_def)
      obtain c1 where c1: "kst32 (?sp - 4) (of_nat (pending_signal (t_sig_pending ?t))) ?c = Inr c1" "kst32 (?sp - 8) 0 c1 = Inr c'"
        using d deliver_signal_some[of ?s "succ_task s cur" "t_regs ?t" ?c] del ok by (auto simp: t)
      have "spared K ?c c1" "spared K c1 c'" using kst32_spares[OF c1(1)] kst32_spares[OF c1(2)] fs c1(1) by (simp_all add: frame_spares_def)
      then show ?thesis by (simp add: spared_def)
    qed
  qed
qed

section \<open>Ticks and keys\<close>

lemma files_update_task [simp]:
  assumes "\<And>t. t_files (f t) = t_files t"
  shows "t_files (task_pool (update_task i f s) ! j) = t_files (task_pool s ! j)"
  by (simp add: update_task_def nth_list_update_cases assms)

lemma deliver_signal_files:
  assumes "sched_inv s" and "n < 8" and "deliver_signal n (t_regs (task_pool s ! n)) s c = Inr (ctx', s', c')"
  shows "t_files (task_pool s' ! i) = t_files (task_pool s ! i)"
proof (cases "deliverable (task_pool s ! n)")
  case False
  with assms(3) show ?thesis by (simp add: deliver_signal_none)
next
  case True
  have "length (t_regs (task_pool s ! n)) = 13" "length (t_sig_saved_regs (task_pool s ! n)) = 13"
    using task_okD[OF assms(1,2)] by (simp_all add: task_ok_def)
  from assms(3)[unfolded deliver_signal_some[OF True this]] show ?thesis
    by (auto simp: enter_handler_def)
qed

lemma do_switch_keeps:
  assumes inv: "sched_inv s" and len: "length ctx = 13" and run: "do_switch ctx s m = Inr (ctx', s', m')"
  shows "sched_inv s' \<and> (\<forall>i. t_files (task_pool s' ! i) = t_files (task_pool s ! i))"
proof (cases "cur_task s")
  case None
  with run inv show ?thesis by (simp add: do_switch_def)
next
  case (Some c)
  show ?thesis
  proof (cases "from_user ctx")
    case False
    then have "ctx ! 9 AND 3 = 0" using len by (simp add: from_user_def)
    with run inv Some show ?thesis by (simp add: do_switch_def)
  next
    case True
    let ?n = "succ_task s c" and ?s = "save_task c ctx (mm_cr3 m) s"
    have n: "?n < ntasks s" "?n < 8" using succ_task_lt[OF inv Some] sched_cur[OF inv Some] by simp_all
    have i1: "sched_inv (run_task ?n ?s)"
      using sched_inv_run[OF sched_inv_save[OF inv len]] n(1) by (simp add: save_task_def)
    have "do_switch ctx s m = deliver_signal ?n (t_regs (task_pool (run_task ?n ?s) ! ?n)) (run_task ?n ?s)
        (m\<lparr>mm_cr3 := t_cr3 (task_pool ?s ! ?n)\<rparr>)"
      unfolding do_switch_user[OF inv Some True] by (simp add: run_task_def)
    with run have d: "deliver_signal ?n (t_regs (task_pool (run_task ?n ?s) ! ?n)) (run_task ?n ?s)
        (m\<lparr>mm_cr3 := t_cr3 (task_pool ?s ! ?n)\<rparr>) = Inr (ctx', s', m')" by simp
    have "t_files (task_pool (run_task ?n ?s) ! i) = t_files (task_pool s ! i)" for i
      by (simp add: run_task_def save_task_def)
    with deliver_signal_result[OF i1 n(2) d] deliver_signal_files[OF i1 n(2) d] show ?thesis by simp
  qed
qed

lemma sched_signal_keeps:
  "sched_inv s \<Longrightarrow> sched_inv (sched_signal sig s) \<and> (\<forall>i. t_files (task_pool (sched_signal sig s) ! i) = t_files (task_pool s ! i))"
  by (auto simp: sched_signal_def task_ok_def intro!: sched_inv_update_task split: option.split)

lemma keyboard_keeps:
  assumes "keyboard_handler scancode (kb, d, s) = (kb', d', s')" and "kb_inv kb" and "sched_inv s"
  shows "kb_inv kb' \<and> sched_inv s' \<and> (\<forall>i. t_files (task_pool s' ! i) = t_files (task_pool s ! i))"
proof -
  have "(kb' = kb \<or> kb' = kb\<lparr>ctrl_held := True\<rparr> \<or> kb' = kb\<lparr>ctrl_held := False\<rparr> \<or> (\<exists>c. kb' = kb_put c kb)) \<and>
      (s' = s \<or> s' = sched_signal (int SIGINT) s)"
    using assms(1) unfolding keyboard_handler_def Let_def prod.case by (auto split: if_split_asm)
  then show ?thesis using assms(2,3) sched_signal_keeps[OF assms(3)] kb_inv_put[OF assms(2)]
    by (auto simp: kb_inv_def)
qed

lemma keyboard_current: "keyboard_handler sc (kb, d, s) = (kb', d', s') \<Longrightarrow> cur_task s' = cur_task s"
  by (auto simp: keyboard_handler_def sched_signal_def Let_def split: if_splits option.splits)

section \<open>The invariant of the kernel\<close>

lemma files_ok_same:
  assumes "sched_inv s" and "sched_inv s'" and "\<And>i. t_files (task_pool s' ! i) = t_files (task_pool s ! i)"
  shows "files_ok s' pool = files_ok s pool"
  using assms by (intro files_ok_cong) (simp_all add: sched_inv_def)

lemma kernel_inv_cpu [simp]: "kernel_inv (k\<lparr>kn_cpu := c\<rparr>) = kernel_inv k"
  by (simp add: kernel_inv_def)

lemma kernel_step_inv:
  assumes "kernel_step disk K k k'" and disk: "disk_ok disk" and inv: "kernel_inv k"
  shows "kernel_inv k'" and "spared K (kn_cpu k) (kn_cpu k')"
proof -
  have s: "sched_inv (kn_sched k)" using inv by (simp add: kernel_inv_def)
  have "kernel_inv k' \<and> spared K (kn_cpu k) (kn_cpu k')"
    using assms(1)
  proof cases
    case (call u eax ebx iret)
    then obtain frame where h: "syscall_handler disk ([u_eax u, u_ebx u, u_ecx u, u_edx u] @ u_iret u) (u_eax u) (u_ebx u) (u_ecx u) (u_edx u) k = Inr (eax, frame, k')"
      by (auto simp: idt_syscall_def)
    have "spared K (kn_cpu k) (kn_cpu k')"
    proof (cases "u_eax u = SYS_READ")
      case True
      then have "sys_read disk (u_ebx u) (u_ecx u) (u_edx u) k = Inr (eax, k')" using h by (simp add: syscall_handler_def keep_frame_def)
      from sys_read_spares[OF inv disk this] call(2) True show ?thesis by (simp add: call_spares_def)
    next
      case False
      then show ?thesis using call_keeps_memory[OF inv disk h] by simp
    qed
    with syscall_handler_inv[OF inv disk h] show ?thesis by blast
  next
    case (tick ctx ctx' s c)
    from do_switch_keeps[OF _ tick(2,3)] do_switch_spares[OF _ tick(2,3,4)] inv files_ok_same[of "kn_sched k" s] show ?thesis
      by (simp add: tick(1) kernel_inv_def)
  next
    case (key scancode kb d s)
    from keyboard_keeps[OF key(2)] inv files_ok_same[of "kn_sched k" s] show ?thesis
      by (simp add: key(1) kernel_inv_def)
  next
    case (user_store va v c)
    then show ?thesis using inv kst8_spares[OF ust8_kst8[OF user_store(2)] user_store(3)] by simp
  qed
  then show "kernel_inv k'" and "spared K (kn_cpu k) (kn_cpu k')" by blast+
qed

section \<open>A small running kernel\<close>

lemma add_task_no_files:
  assumes "sched_inv s" and "ntasks s < 8" and "open_fds s = {}"
    and "sched_add_task eip cs eflags user_esp ss cr3 kstack_top s = Inr s'"
  shows "open_fds s' = {}"
proof -
  have "length (task_pool s) = 8" using assms(1) by (simp add: sched_inv_def)
  with assms(2-4) show ?thesis
    unfolding sched_add_task_state[OF assms(1,2)]
    by (auto simp: open_fds_def nth_list_update fresh_task_def idle_fd_def split: if_splits)
qed

lemma blank_sched_files: "open_fds blank_sched = {}"
  by (auto simp: open_fds_def blank_sched_def blank_task_def fresh_task_def idle_fd_def)

lemma two_tasks_files: "open_fds two_tasks = {}"
proof -
  have lt: "ntasks blank_sched < 8" by simp
  note blank = blank_sched_files
  obtain s1 where s1: "sched_add_task 0x40000000 0x23 0x202 0x40001FF0 0x33 0x205000 0x321000 blank_sched = Inr s1"
    "sched_inv s1" "ntasks s1 = 1"
    using sched_add_task_inv[OF blank_sched_inv lt] by force
  have lt1: "ntasks s1 < 8" using s1 by simp
  obtain s2 where s2: "sched_add_task 0x40000000 0x23 0x202 0x40001FF0 0x33 0x207000 0x323000 s1 = Inr s2"
    using sched_add_task_inv[OF s1(2) lt1] by force
  have "two_tasks = s2" by (simp add: two_tasks_def s1(1) s2)
  then show ?thesis
    using add_task_no_files[OF s1(2) lt1 add_task_no_files[OF blank_sched_inv lt blank s1(1)] s2] by simp
qed

lemma files_ok_none: "open_fds s = {} \<Longrightarrow> used_nodes pool = {} \<Longrightarrow> files_ok s pool"
  by (simp add: files_ok_def bij_betw_def)

definition sample_kernel :: kernel where
  "sample_kernel = \<lparr>kn_cpu = \<lparr>mm_mem = (\<lambda>a. if a = 0x1000 then 0x2F else if a = 0x1001 then 97 else 0), mm_cr3 = 0, mm_cr0 = 0\<rparr>,
     kn_pmm = pmm_blank,
     kn_sched = two_tasks, kn_screen = blank_screen, kn_kb = idle_keyboard, kn_fs = sample_fs, kn_nodes = blank_pool\<rparr>"

lemma sample_kernel_inv: "kernel_inv sample_kernel"
  by (simp add: kernel_inv_def sample_kernel_def two_tasks_state(1) idle_keyboard sample_fs_ok blank_pool_ok
      files_ok_none two_tasks_files)

section \<open>Files of a task\<close>

lemma sys_open_found:
  assumes v: "vfs_open disk (user_ptr (kn_cpu k) ebx) (kn_nodes k, kn_fs k) = Inr (Some n, (kn_nodes k)[n := nd], fs)"
    and cur: "cur_task (kn_sched k) = Some cur"
    and j: "3 \<le> j" "j < 8" "\<not> fd_used (cur_file (kn_sched k) cur j)" "\<forall>i. 3 \<le> i \<longrightarrow> i < j \<longrightarrow> fd_used (cur_file (kn_sched k) cur i)"
  shows "\<exists>k'. sys_open disk ebx k = Inr (of_nat j, k') \<and> kn_nodes k' = (kn_nodes k)[n := nd] \<and> kn_sched k' =
    update_task cur (\<lambda>t. t\<lparr>t_files := (t_files t)[j := \<lparr>fd_node = Some n, fd_offset = 0, fd_used = True\<rparr>]\<rparr>) (kn_sched k)"
proof -
  have "find (\<lambda>j. \<not> fd_used (cur_file (kn_sched k) cur j)) [3..<8] = Some j"
    using j by (intro find_range_first) auto
  then show ?thesis using v cur by (simp add: sys_open_def sched_current_task_def Let_def set_file_def)
qed

lemma sys_open_full:
  assumes v: "vfs_open disk (user_ptr (kn_cpu k) ebx) (kn_nodes k, kn_fs k) = Inr (Some n, (kn_nodes k)[n := nd], fs)"
    and cur: "cur_task (kn_sched k) = Some cur" and full: "\<forall>j. 3 \<le> j \<longrightarrow> j < 8 \<longrightarrow> fd_used (cur_file (kn_sched k) cur j)"
    and pool: "pool_ok (kn_nodes k)" "n < 8" "n \<notin> used_nodes (kn_nodes k)" "n_used nd" "n_read nd" "length (n_name nd) = 64"
  shows "\<exists>k'. sys_open disk ebx k = Inr (- 1, k') \<and> kn_sched k' = kn_sched k \<and> used_nodes (kn_nodes k') = used_nodes (kn_nodes k)"
proof -
  have "find (\<lambda>j. \<not> fd_used (cur_file (kn_sched k) cur j)) [3..<8] = None"
    using full by (auto simp: find_None_iff)
  moreover have "used_nodes (vfs_close (Some n) ((kn_nodes k)[n := nd])) = used_nodes (kn_nodes k)"
    using vfs_close_used(1)[OF pool_ok_update[OF pool(1,5,6)] pool(2)] used_nodes_open[OF pool(1,2,4)] pool(3) by simp
  ultimately show ?thesis using v cur by (simp add: sys_open_def sched_current_task_def Let_def)
qed

text \<open>The state after a successful open.\<close>

lemma sys_open_opens:
  assumes inv: "kernel_inv k" and disk: "disk_ok disk" and dir: "holds_dir disk (kn_fs k) 2 xs"
    and path: "names (user_ptr (kn_cpu k) ebx) nm" and cur: "cur_task (kn_sched k) = Some cur"
    and ino: "dir_lookup xs (path_name nm) = ino" "ino \<noteq> 0"
    and free: "used_nodes (kn_nodes k) \<noteq> {..<8}" "\<exists>j. 3 \<le> j \<and> j < 8 \<and> \<not> fd_used (cur_file (kn_sched k) cur j)"
  shows "\<exists>j n nd fs. 3 \<le> j \<and> j < 8 \<and> (cur, j) \<notin> open_fds (kn_sched k) \<and> n < 8 \<and> n \<notin> used_nodes (kn_nodes k) \<and> n_used nd \<and> n_inode nd = ino \<and>
    same_fs (kn_fs k) fs \<and> sys_open disk ebx k = Inr (of_nat j,
      set_file cur j \<lparr>fd_node = Some n, fd_offset = 0, fd_used = True\<rparr> (k\<lparr>kn_nodes := (kn_nodes k)[n := nd], kn_fs := fs\<rparr>))"
proof -
  have i: "ext2_ok (kn_fs k)" "pool_ok (kn_nodes k)" using inv by (simp_all add: kernel_inv_def)
  obtain n nd pool fs where v: "vfs_open disk (user_ptr (kn_cpu k) ebx) (kn_nodes k, kn_fs k) = Inr (Some n, pool, fs)"
    and n: "n < 8" "n \<notin> used_nodes (kn_nodes k)" "pool = (kn_nodes k)[n := nd]" "n_inode nd = ino" "n_used nd"
    using vfs_open_spec[OF i(1) disk dir path i(2)] ino free(1) by auto
  have fs: "same_fs (kn_fs k) fs" using vfs_open_cases(1)[OF i(1) disk i(2) v] .
  obtain j where j': "3 \<le> j" "j < 8" "\<not> fd_used (cur_file (kn_sched k) cur j)" "\<forall>m. 3 \<le> m \<and> m < j \<longrightarrow> fd_used (cur_file (kn_sched k) cur m)"
    using find_range_ex[OF free(2)] by auto
  then have j: "find (\<lambda>j. \<not> fd_used (cur_file (kn_sched k) cur j)) [3..<8] = Some j"
    by (intro find_range_first) auto
  have "(cur, j) \<notin> open_fds (kn_sched k)" using j' by (simp add: open_fds_def)
  moreover have "sys_open disk ebx k = Inr (of_nat j,
      set_file cur j \<lparr>fd_node = Some n, fd_offset = 0, fd_used = True\<rparr> (k\<lparr>kn_nodes := (kn_nodes k)[n := nd], kn_fs := fs\<rparr>))"
    using v cur j n(3) by (simp add: sys_open_def sched_current_task_def Let_def del: upt_rec_numeral)
  ultimately show ?thesis using j' n fs by (intro exI[of _ j] exI[of _ n] exI[of _ nd] exI[of _ fs]) simp
qed

text \<open>Closing an open descriptor frees it and its node, and touches nothing else.\<close>

lemma sys_close_open:
  assumes inv: "kernel_inv k" and cur: "cur_task (kn_sched k) = Some cur" and op: "(cur, j) \<in> open_fds (kn_sched k)"
    and nd: "fd_node (cur_file (kn_sched k) cur j) = Some n"
  shows "\<exists>k'. sys_close (of_nat j) k = Inr (0, k') \<and> kernel_inv k' \<and> open_fds (kn_sched k') = open_fds (kn_sched k) - {(cur, j)} \<and>
    used_nodes (kn_nodes k') = used_nodes (kn_nodes k) - {n} \<and> kn_screen k' = kn_screen k \<and> kn_cpu k' = kn_cpu k"
proof -
  have i: "sched_inv (kn_sched k)" "pool_ok (kn_nodes k)" "files_ok (kn_sched k) (kn_nodes k)" using inv by (simp_all add: kernel_inv_def)
  have j: "3 \<le> j" "j < 8" "fd_used (cur_file (kn_sched k) cur j)" using op i(3) by (auto simp: open_fds_def files_ok_def)
  then have "j = 3 \<or> j = 4 \<or> j = 5 \<or> j = 6 \<or> j = 7" by linarith
  then have w: "unat (of_nat j :: u32) = j" "3 \<le> sint (of_nat j :: u32)" "sint (of_nat j :: u32) < 8" by auto
  have c8: "cur < 8" using current_lt[OF i(1) cur] by simp
  have "n \<in> used_nodes (kn_nodes k)" using i(3) op nd unfolding files_ok_def bij_betw_def node_at_def by force
  then have "n < 8" using i(2) by (simp add: used_nodes_def pool_ok_def)
  note used = vfs_close_used(1)[OF i(2) this]
  let ?k' = "set_file cur j \<lparr>fd_node = None, fd_offset = 0, fd_used = False\<rparr> (k\<lparr>kn_nodes := vfs_close (Some n) (kn_nodes k)\<rparr>)"
  have run: "sys_close (of_nat j) k = Inr (0, ?k')" using cur j(3) w nd by (simp add: sys_close_def bad_fd_def sched_current_task_def Let_def)
  moreover have "kernel_inv ?k'" by (rule sys_close_inv[OF inv run])
  moreover have "open_fds (kn_sched ?k') = open_fds (kn_sched k) - {(cur, j)}"
    using open_fds_update[OF i(1) c8 j(2)] by (simp add: set_file_def)
  ultimately show ?thesis using used by (simp add: set_file_def)
qed

text \<open>C8: \<^verbatim>\<open>sys_open\<close> resolves the path in the root directory. When the name exists, the pool has a free
  node and the task a free descriptor, it returns the lowest free descriptor from 3 on, at offset
  0 and on a fresh node with the file's inode and size. Otherwise it returns -1 and every
  descriptor and every used node is as before.\<close>

theorem sys_open_refines:
  assumes inv: "kernel_inv k" and disk: "disk_ok disk" and dir: "holds_dir disk (kn_fs k) 2 xs"
    and path: "names (user_ptr (kn_cpu k) ebx) nm" and cur: "cur_task (kn_sched k) = Some cur"
  shows "\<exists>r k'. sys_open disk ebx k = Inr (r, k') \<and>
    (if used_nodes (kn_nodes k) = {..<8} \<or> dir_lookup xs (path_name nm) = 0 \<or> (\<forall>j. 3 \<le> j \<longrightarrow> j < 8 \<longrightarrow> fd_used (cur_file (kn_sched k) cur j))
     then r = - 1 \<and> kn_sched k' = kn_sched k \<and> used_nodes (kn_nodes k') = used_nodes (kn_nodes k)
     else \<exists>j n nd. r = of_nat j \<and> 3 \<le> j \<and> j < 8 \<and> \<not> fd_used (cur_file (kn_sched k) cur j) \<and> (\<forall>i. 3 \<le> i \<longrightarrow> i < j \<longrightarrow> fd_used (cur_file (kn_sched k) cur i)) \<and>
       n < 8 \<and> n \<notin> used_nodes (kn_nodes k) \<and> kn_nodes k' = (kn_nodes k)[n := nd] \<and>
       n_inode nd = dir_lookup xs (path_name nm) \<and> n_used nd \<and>
       n_length nd = i_size (inode_bytes disk (kn_fs k) (n_inode nd)) \<and>
       kn_sched k' = update_task cur (\<lambda>t. t\<lparr>t_files := (t_files t)[j := \<lparr>fd_node = Some n, fd_offset = 0, fd_used = True\<rparr>]\<rparr>) (kn_sched k))"
proof -
  have i: "ext2_ok (kn_fs k)" "pool_ok (kn_nodes k)" using inv by (simp_all add: kernel_inv_def)
  let ?ino = "dir_lookup xs (path_name nm)"
  obtain r pool' e' where v: "vfs_open disk (user_ptr (kn_cpu k) ebx) (kn_nodes k, kn_fs k) = Inr (r, pool', e')"
    and c: "if used_nodes (kn_nodes k) = {..<8} \<or> ?ino = 0 then r = None \<and> pool' = kn_nodes k
     else \<exists>node nd. r = Some node \<and> node < 8 \<and> node \<notin> used_nodes (kn_nodes k) \<and> {..<node} \<subseteq> used_nodes (kn_nodes k) \<and>
       pool' = (kn_nodes k)[node := nd] \<and> n_inode nd = ?ino \<and> n_used nd \<and> n_read nd \<and>
       n_length nd = i_size (inode_bytes disk (kn_fs k) (n_inode nd)) \<and>
       length (n_name nd) = 64 \<and> takeWhile (\<lambda>v. v \<noteq> 0) (n_name nd) = take 63 (path_name nm)"
    using vfs_open_spec[OF i(1) disk dir path i(2)] by blast
  let ?full = "\<forall>j. 3 \<le> j \<longrightarrow> j < 8 \<longrightarrow> fd_used (cur_file (kn_sched k) cur j)"
  show ?thesis
  proof (cases "used_nodes (kn_nodes k) = {..<8} \<or> ?ino = 0")
    case True
    then show ?thesis using v c by (intro exI[of _ "- 1"] exI[of _ "k\<lparr>kn_nodes := pool', kn_fs := e'\<rparr>"]) (auto simp: sys_open_def)
  next
    case False
    from c[unfolded if_not_P[OF this]] obtain n nd where n: "r = Some n" "n < 8" "n \<notin> used_nodes (kn_nodes k)" "pool' = (kn_nodes k)[n := nd]"
      "n_inode nd = ?ino" "n_used nd" "n_read nd" "n_length nd = i_size (inode_bytes disk (kn_fs k) (n_inode nd))"
      "length (n_name nd) = 64" by blast
    show ?thesis
    proof (cases ?full)
      case True
      with sys_open_full[OF v[unfolded n(1,4)] cur True i(2) n(2,3,6,7,9)] show ?thesis by (auto intro: exI)
    next
      case False
      then have "\<exists>j. 3 \<le> j \<and> j < 8 \<and> \<not> fd_used (cur_file (kn_sched k) cur j)" by blast
      from find_range_ex[OF this] obtain j where j: "3 \<le> j" "j < 8" "\<not> fd_used (cur_file (kn_sched k) cur j)"
        "\<forall>i. 3 \<le> i \<longrightarrow> i < j \<longrightarrow> fd_used (cur_file (kn_sched k) cur i)" by auto
      have nc: "\<not> (used_nodes (kn_nodes k) = {..<8} \<or> ?ino = 0 \<or> ?full)"
        using False \<open>\<not> (used_nodes (kn_nodes k) = {..<8} \<or> ?ino = 0)\<close> by blast
      from sys_open_found[OF v[unfolded n(1,4)] cur j] obtain k' where k': "sys_open disk ebx k = Inr (of_nat j, k')"
        "kn_nodes k' = (kn_nodes k)[n := nd]" "kn_sched k' =
          update_task cur (\<lambda>t. t\<lparr>t_files := (t_files t)[j := \<lparr>fd_node = Some n, fd_offset = 0, fd_used = True\<rparr>]\<rparr>) (kn_sched k)" by blast
      show ?thesis
        by (intro exI[of _ "of_nat j"] exI[of _ k'] conjI, rule k'(1), unfold if_not_P[OF nc],
            intro exI[of _ j] exI[of _ n] exI[of _ nd] conjI refl j n(2,3,5,6,8) k'(2,3))
    qed
  qed
qed

lemma sample_path: "names (user_ptr (kn_cpu sample_kernel) 0x1000) [0x2F, 97]"
  by (auto simp: names_def user_ptr_def kld8_def translate_def paging_on_def sample_kernel_def less_Suc_eq)

lemma sample_no_files: "\<not> fd_used (cur_file two_tasks 0 j)" if "j < 8"
  using that two_tasks_files two_tasks_state(1) by (auto simp: open_fds_def sched_inv_def)

theorem sys_open_refines_witness:
  "\<exists>k'. sys_open sample_disk 0x1000 sample_kernel = Inr (3, k') \<and> (\<exists>n. fd_node (cur_file (kn_sched k') 0 3) = Some n \<and>
     n_inode (kn_nodes k' ! n) = 3 \<and> n_length (kn_nodes k' ! n) = 1100)"
proof -
  have d: "dir_lookup sample_dir (path_name [0x2F, 97]) = 3"
    by (simp add: path_name_def dir_lookup_def sample_dir_def)
  have s: "kn_nodes sample_kernel = blank_pool" "kn_fs sample_kernel = sample_fs" "kn_sched sample_kernel = two_tasks"
    by (simp_all add: sample_kernel_def)
  have "used_nodes (kn_nodes sample_kernel) \<noteq> {..<8}" unfolding s blank_pool_ok
    using lessThan_empty_iff[of 8] by (metis zero_neq_numeral)
  then have c: "\<not> (used_nodes (kn_nodes sample_kernel) = {..<8} \<or> dir_lookup sample_dir (path_name [0x2F, 97]) = 0 \<or>
      (\<forall>j. 3 \<le> j \<longrightarrow> j < 8 \<longrightarrow> fd_used (cur_file (kn_sched sample_kernel) 0 j)))"
    using sample_no_files[of 3] by (auto simp: d s intro!: exI[of _ 3])
  have dir: "holds_dir sample_disk (kn_fs sample_kernel) 2 sample_dir" by (simp add: s sample_holds_dir)
  have cur: "cur_task (kn_sched sample_kernel) = Some 0" by (simp add: s two_tasks_state)
  from sys_open_refines[OF sample_kernel_inv sample_disk_ok dir sample_path cur, unfolded if_not_P[OF c]]
  obtain k' j n nd where o: "sys_open sample_disk 0x1000 sample_kernel = Inr (of_nat j, k')"
    and j: "3 \<le> j" "j < 8" "\<forall>i. 3 \<le> i \<longrightarrow> i < j \<longrightarrow> fd_used (cur_file (kn_sched sample_kernel) 0 i)"
    and n: "n < 8" "kn_nodes k' = (kn_nodes sample_kernel)[n := nd]" "n_inode nd = dir_lookup sample_dir (path_name [0x2F, 97])"
      "n_length nd = i_size (inode_bytes sample_disk (kn_fs sample_kernel) (n_inode nd))"
      "kn_sched k' = update_task 0 (\<lambda>t. t\<lparr>t_files := (t_files t)[j := \<lparr>fd_node = Some n, fd_offset = 0, fd_used = True\<rparr>]\<rparr>) (kn_sched sample_kernel)"
    by blast
  have "j = 3" using j sample_no_files[of 3] by (cases "j = 3") (auto simp: s)
  moreover have "length (kn_nodes sample_kernel) = 8" by (simp add: s blank_pool_def)
  ultimately show ?thesis
    using o n cur_file_update[of two_tasks 0 3, OF two_tasks_state(1)]
    by (intro exI[of _ k']) (simp add: d s sample_inodes sample_inode_fields)
qed

text \<open>What a read of an open descriptor does.\<close>

lemma sys_read_bytes:
  assumes inv: "kernel_inv k" and disk: "disk_ok disk" and cur: "cur_task (kn_sched k) = Some cur"
    and fd: "3 \<le> j" "j < 8" "fd_used (cur_file (kn_sched k) cur j)"
  shows "\<exists>fs n. fd_node (cur_file (kn_sched k) cur j) = Some n \<and> n \<in> used_nodes (kn_nodes k) \<and> same_fs (kn_fs k) fs \<and>
    (let f = cur_file (kn_sched k) cur j; ino = n_inode (kn_nodes k ! n);
         len = served_len disk (kn_fs k) ino (fd_offset f) count in
     sys_read disk (of_nat j) buf count k =
       bindo (store_bytes kst8 buf (map (file_byte disk (kn_fs k) (inode_bytes disk (kn_fs k) ino))
           [unat (fd_offset f)..<unat (fd_offset f) + len]) (kn_cpu k)) (\<lambda>c.
       Inr (of_nat len, set_file cur j (f\<lparr>fd_offset := fd_offset f + of_nat len\<rparr>) (k\<lparr>kn_fs := fs, kn_cpu := c\<rparr>))))"
proof -
  let ?f = "cur_file (kn_sched k) cur j"
  have i: "sched_inv (kn_sched k)" "ext2_ok (kn_fs k)" "pool_ok (kn_nodes k)" "files_ok (kn_sched k) (kn_nodes k)"
    using inv by (simp_all add: kernel_inv_def)
  have op: "(cur, j) \<in> open_fds (kn_sched k)" using current_lt[OF i(1) cur] fd by (simp add: open_fds_def)
  then obtain n where n: "fd_node ?f = Some n" "node_at (kn_sched k) (cur, j) = n"
    using i(4) by (auto simp: files_ok_def node_at_def)
  then have u: "n \<in> used_nodes (kn_nodes k)" using i(4) op unfolding files_ok_def bij_betw_def by blast
  then have rd: "n_read (kn_nodes k ! n)" using i(3) by (simp add: pool_ok_def used_nodes_def)
  obtain fs where fs: "same_fs (kn_fs k) fs"
    and p: "\<And>m. ext2_pread disk kst8 (n_inode (kn_nodes k ! n)) buf (fd_offset ?f) count (kn_fs k) m =
      bindo (store_bytes kst8 buf (map (file_byte disk (kn_fs k) (inode_bytes disk (kn_fs k) (n_inode (kn_nodes k ! n))))
          [unat (fd_offset ?f)..<unat (fd_offset ?f) + served_len disk (kn_fs k) (n_inode (kn_nodes k ! n)) (fd_offset ?f) count]) m)
        (\<lambda>m. Inr (of_nat (served_len disk (kn_fs k) (n_inode (kn_nodes k ! n)) (fd_offset ?f) count), fs, m))"
    using ext2_pread_slice[OF i(2) disk] by blast
  have "j = 3 \<or> j = 4 \<or> j = 5 \<or> j = 6 \<or> j = 7" using fd(1,2) by linarith
  then have w: "unat (of_nat j :: u32) = j" "3 \<le> sint (of_nat j :: u32)" "sint (of_nat j :: u32) < 8" by auto
  then have "\<not> bad_fd (kn_sched k) cur (of_nat j)" using fd(3) by (simp add: bad_fd_def)
  then have "sys_read disk (of_nat j) buf count k =
      bindo (vfs_read disk kst8 (kn_nodes k) (fd_node ?f) (fd_offset ?f) count buf (kn_fs k) (kn_cpu k)) (\<lambda>(n, fs, c).
        Inr (n, set_file cur j (?f\<lparr>fd_offset := fd_offset ?f + n\<rparr>) (k\<lparr>kn_fs := fs, kn_cpu := c\<rparr>)))"
    using cur by (simp add: sys_read_def sched_current_task_def w(1) Let_def)
  then show ?thesis
    using n(1) u fs rd by (intro exI[of _ fs] exI[of _ n]) (simp add: vfs_read_def p bindo_assoc Let_def)
qed

section \<open>Properties\<close>

text \<open>C6: The invariant of the kernel. Whatever programs call and store and whatever keys are pressed, in
  any order and with the timer ticking in between, and whatever the bytes of the kernel's own objects look
  like to them, as long as no buffer given to \<^verbatim>\<open>sys_read\<close>, no signal frame and no store of a program hits
  what the kernel owns (the set \<open>K\<close>, anywhere in memory): the task list is well formed, the ring buffer
  stays in range, the mount is intact, and the descriptors in use are in bijection with the used nodes of
  the file pool, so that no node is leaked and none is shared; and the next step again keeps the invariant
  and leaves every byte of \<open>K\<close> alone.\<close>

theorem kernel_run_inv:
  assumes "kernel_run disk K k k'" and "disk_ok disk" and "kernel_inv k"
  shows "kernel_inv k' \<and> bij_betw (node_at (kn_sched k')) (open_fds (kn_sched k')) (used_nodes (kn_nodes k')) \<and>
    (\<forall>k''. kernel_step disk K k' k'' \<longrightarrow> kernel_inv k'' \<and> spared K (kn_cpu k') (kn_cpu k''))"
proof -
  have "kernel_inv k'"
    using assms(1,3) by (induction rule: kernel_run.induct) (auto intro: kernel_step_inv(1)[OF _ assms(2)])
  then show ?thesis using kernel_step_inv[OF _ assms(2)] by (auto simp: kernel_inv_def files_ok_def)
qed

text \<open>C7: \<^verbatim>\<open>sys_read\<close> on an open descriptor stores, at the address the program gives, the bytes of its
  file from the descriptor's offset on, \<open>served_len\<close> of them: as many as asked for but none past the end
  of the file or its twelfth block, except that a count with which the offset wraps around to a position
  inside the file delivers everything up to the end of the twelfth block. It advances the offset by that
  number and returns it; successive reads therefore deliver the file in order. The address is used as it
  comes: the only check is that it is mapped. What the bytes overwrite when they are stored over objects of
  the kernel is outside the model.\<close>

theorem sys_read_refines:
  assumes inv: "kernel_inv k" and disk: "disk_ok disk" and cur: "cur_task (kn_sched k) = Some cur"
    and fd: "3 \<le> j" "j < 8" "fd_used (cur_file (kn_sched k) cur j)"
  shows "\<exists>fs n. fd_node (cur_file (kn_sched k) cur j) = Some n \<and> n \<in> used_nodes (kn_nodes k) \<and> same_fs (kn_fs k) fs \<and>
    (let f = cur_file (kn_sched k) cur j; ino = n_inode (kn_nodes k ! n);
         len = served_len disk (kn_fs k) ino (fd_offset f) count in
     sys_read disk (of_nat j) buf count k =
       bindo (store_bytes kst8 buf (map (file_byte disk (kn_fs k) (inode_bytes disk (kn_fs k) ino))
           [unat (fd_offset f)..<unat (fd_offset f) + len]) (kn_cpu k)) (\<lambda>c.
       Inr (of_nat len, set_file cur j (f\<lparr>fd_offset := fd_offset f + of_nat len\<rparr>) (k\<lparr>kn_fs := fs, kn_cpu := c\<rparr>))))"
  using sys_read_bytes[OF assms] .

text \<open>The sample kernel after its current task has opened the file.\<close>

definition sample_node :: fs_node where
  "sample_node = \<lparr>n_name = 97 # replicate 63 0, n_flags = 1, n_inode = 3, n_length = 1100, n_read = True, n_used = True\<rparr>"

definition reading_kernel :: kernel where
  "reading_kernel = set_file 0 3 \<lparr>fd_node = Some 0, fd_offset = 0, fd_used = True\<rparr>
     (sample_kernel\<lparr>kn_nodes := blank_pool[0 := sample_node]\<rparr>)"

lemma reading_kernel_fields:
  "kn_nodes reading_kernel = blank_pool[0 := sample_node]" "kn_fs reading_kernel = sample_fs"
  "kn_cpu reading_kernel = kn_cpu sample_kernel" "cur_task (kn_sched reading_kernel) = Some 0"
  "cur_file (kn_sched reading_kernel) 0 3 = \<lparr>fd_node = Some 0, fd_offset = 0, fd_used = True\<rparr>"
  using cur_file_update[of two_tasks 0 3, OF two_tasks_state(1)]
  by (simp_all add: reading_kernel_def set_file_def sample_kernel_def two_tasks_state)

lemma reading_kernel_inv: "kernel_inv reading_kernel"
proof -
  have f: "files_ok two_tasks blank_pool" by (rule files_ok_none[OF two_tasks_files blank_pool_ok(2)])
  have "files_ok (update_task 0 (\<lambda>t. t\<lparr>t_files := (t_files t)[3 := \<lparr>fd_node = Some 0, fd_offset = 0, fd_used = True\<rparr>]\<rparr>) two_tasks)
      (blank_pool[0 := sample_node])"
    by (rule files_ok_open[OF two_tasks_state(1) blank_pool_ok(1) f])
       (simp_all add: two_tasks_files blank_pool_ok sample_node_def)
  moreover have "pool_ok (blank_pool[0 := sample_node])"
    by (rule pool_ok_update[OF blank_pool_ok(1)]) (simp_all add: sample_node_def)
  moreover have "sched_inv (update_task 0 (\<lambda>t. t\<lparr>t_files := (t_files t)[3 := f]\<rparr>) two_tasks)" for f
    by (rule sched_inv_update_task[OF two_tasks_state(1)]) (simp add: task_ok_def)
  ultimately show ?thesis
    by (simp add: kernel_inv_def reading_kernel_def set_file_def sample_kernel_def idle_keyboard sample_fs_ok)
qed

lemma reading_pread:
  "\<exists>fs. \<forall>m. vfs_read sample_disk wr (kn_nodes reading_kernel) (Some 0) 0 2 0x2000 sample_fs m =
     bindo (store_bytes wr 0x2000 [7, 7] m) (\<lambda>m. Inr (2, fs, m))"
proof -
  have n: "served_len sample_disk sample_fs 3 0 2 = 2"
    by (simp add: served_len_nowrap pread_len_def sample_inodes sample_inode_fields sample_fs_ok)
  have b: "file_byte sample_disk sample_fs (sample_inode 1100 7) 0 = 7"
    "file_byte sample_disk sample_fs (sample_inode 1100 7) (Suc 0) = 7"
    by (simp_all add: file_byte_def sample_inode_fields sample_fs_ok sample_blocks nth_append)
  have l: "length blank_pool = 8" by (simp add: blank_pool_def)
  from ext2_pread_slice[OF sample_fs_ok(1) sample_disk_ok, where wr = wr and inum = 3 and buf = "0x2000" and offset = 0 and sz = 2] show ?thesis
    by (auto simp: vfs_read_def reading_kernel_fields l sample_node_def n sample_inodes b upt_rec)
qed

text \<open>A run in which the program reads two bytes of the file to 0x2000, with the kernel's objects from 1 MB to 2 MB.\<close>

theorem kernel_run_inv_witness:
  "\<exists>k. kernel_run sample_disk {0x100000..<0x200000} reading_kernel k \<and> mm_mem (kn_cpu k) 0x2001 = 7 \<and> kernel_inv k \<and>
     bij_betw (node_at (kn_sched k)) (open_fds (kn_sched k)) (used_nodes (kn_nodes k))"
proof -
  let ?K = "{0x100000..<0x200000} :: u32 set" and ?u = "\<lparr>u_eax = SYS_READ, u_ebx = 3, u_ecx = 0x2000, u_edx = 2, u_iret = []\<rparr>" and ?c = "kn_cpu sample_kernel"
  have f: "cur_task (kn_sched reading_kernel) = Some 0" "\<not> bad_fd (kn_sched reading_kernel) 0 3"
    by (simp_all add: reading_kernel_fields bad_fd_def)
  have c: "translate c a = Some a" if "mm_cr0 c = 0" for c a using that by (simp add: translate_def paging_on_def)
  have k0: "mm_cr0 ?c = 0" by (simp add: sample_kernel_def)
  obtain c' where c': "store_bytes kst8 0x2000 [7, 7] ?c = Inr c'" "mm_mem c' 0x2001 = 7" by (auto simp: kst8_def c k0)
  have w: "\<exists>m. store_bytes (watched ?K) 0x2000 [7, 7] (Some ?c) = Inr (Some m)" by (simp add: hits_def kst8_def c k0)
  obtain k where k: "sys_read sample_disk 3 0x2000 2 reading_kernel = Inr (2, k)" "kn_cpu k = c'"
    using reading_pread[of kst8] c' by (auto simp: sys_read_def sched_current_task_def f reading_kernel_fields Let_def set_file_def)
  have "read_spares ?K sample_disk 3 0x2000 2 reading_kernel"
    using reading_pread[of "watched ?K"] w by (auto simp: read_spares_def f reading_kernel_fields Let_def)
  then have "call_spares ?K sample_disk ?u reading_kernel" by (simp add: call_spares_def)
  moreover have "idt_syscall sample_disk ?u reading_kernel = Inr (2, 3, [], k)" by (simp add: idt_syscall_def syscall_handler_def keep_frame_def k(1))
  ultimately have "kernel_run sample_disk ?K reading_kernel k" by (blast intro: kernel_run.intros kernel_step.call)
  with kernel_run_inv[OF this sample_disk_ok reading_kernel_inv] k(2) c'(2) show ?thesis by blast
qed

theorem sys_read_refines_witness:
  "\<exists>k'. sys_read sample_disk 3 0x2000 2 reading_kernel = Inr (2, k') \<and> mm_mem (kn_cpu k') 0x2001 = 7 \<and>
     fd_offset (cur_file (kn_sched k') 0 3) = 2"
proof -
  have n: "served_len sample_disk sample_fs 3 0 2 = 2"
    by (simp add: served_len_nowrap pread_len_def sample_inodes sample_inode_fields sample_fs_ok)
  have b: "file_byte sample_disk sample_fs (sample_inode 1100 7) 0 = 7"
    "file_byte sample_disk sample_fs (sample_inode 1100 7) (Suc 0) = 7"
    by (simp_all add: file_byte_def sample_inode_fields sample_fs_ok sample_blocks nth_append)
  have c: "kn_cpu sample_kernel = \<lparr>mm_mem = mm_mem (kn_cpu sample_kernel), mm_cr3 = 0, mm_cr0 = 0\<rparr>"
    by (simp add: sample_kernel_def)
  have st: "\<exists>m. store_bytes kst8 0x2000 [7, 7] (kn_cpu sample_kernel) = Inr m \<and> mm_mem m 0x2001 = 7"
    by (subst c) (simp add: kst8_def translate_def paging_on_def)
  have l: "length blank_pool = 8" by (simp add: blank_pool_def)
  from sys_read_refines[OF reading_kernel_inv sample_disk_ok reading_kernel_fields(4), of 3 2 "0x2000"] st
  show ?thesis
    using cur_file_update[of "kn_sched reading_kernel" 0 3] reading_kernel_inv
    by (auto simp: reading_kernel_fields l n sample_node_def sample_inodes b upt_rec set_file_def kernel_inv_def)
qed

text \<open>C17: Opening and then closing gives everything back: the close returns 0, the same descriptors are
  open as before and the same nodes of the pool are used.\<close>

theorem sys_open_close_roundtrip:
  assumes inv: "kernel_inv k" and disk: "disk_ok disk" and run: "sys_open disk ebx k = Inr (r, k1)" and ok: "r \<noteq> - 1"
  shows "\<exists>k2. sys_close r k1 = Inr (0, k2) \<and> open_fds (kn_sched k2) = open_fds (kn_sched k) \<and>
    used_nodes (kn_nodes k2) = used_nodes (kn_nodes k)"
  using inv disk run
proof (cases rule: sys_open_cases)
  case failed
  with ok show ?thesis by simp
next
  case (opened cur j n nd fs)
  have s: "sched_inv (kn_sched k)" and p: "pool_ok (kn_nodes k)" using inv by (simp_all add: kernel_inv_def)
  let ?upd = "\<lambda>f s. update_task cur (\<lambda>t. t\<lparr>t_files := (t_files t)[j := f]\<rparr>) s"
  let ?f = "\<lparr>fd_node = Some n, fd_offset = 0, fd_used = True\<rparr>" and ?i = "\<lparr>fd_node = None, fd_offset = 0, fd_used = False\<rparr>"
  have k1: "kn_sched k1 = ?upd ?f (kn_sched k)" "kn_nodes k1 = (kn_nodes k)[n := nd]"
    by (simp_all add: opened(12) set_file_def)
  have s1: "sched_inv (?upd ?f (kn_sched k))" by (rule sched_inv_update_task[OF s]) (simp add: task_ok_def)
  have "j = 3 \<or> j = 4 \<or> j = 5 \<or> j = 6 \<or> j = 7" using opened(4,5) by linarith
  then have w: "unat r = j" "3 \<le> sint r" "sint r < 8" unfolding opened(3) by auto
  then have "\<not> bad_fd (kn_sched k1) cur r"
    unfolding k1 bad_fd_def w(1) cur_file_update[OF s opened(2,5)] by simp
  moreover have "cur_task (kn_sched k1) = Some cur" by (simp add: k1 opened(1))
  moreover have "fd_node (cur_file (kn_sched k1) cur j) = Some n" by (simp add: k1 cur_file_update[OF s opened(2,5)])
  ultimately have "sys_close r k1 = Inr (0, set_file cur j ?i (k1\<lparr>kn_nodes := vfs_close (Some n) (kn_nodes k1)\<rparr>))"
    by (simp add: sys_close_def sched_current_task_def w(1) Let_def)
  moreover have "open_fds (?upd ?i (kn_sched k1)) = open_fds (kn_sched k)"
    using opened(6) open_fds_update[OF s1 opened(2,5), of ?i] open_fds_update[OF s opened(2,5), of ?f] by (simp add: k1)
  moreover have "used_nodes (vfs_close (Some n) (kn_nodes k1)) = used_nodes (kn_nodes k)"
    using vfs_close_used(1)[OF opened(10,8)] used_nodes_open[OF p opened(8,9)] opened(7) by (simp add: k1)
  ultimately show ?thesis by (simp add: set_file_def)
qed

lemma sample_open: "\<exists>k'. sys_open sample_disk 0x1000 sample_kernel = Inr (3, k')"
proof -
  have s: "kn_nodes sample_kernel = blank_pool" "kn_fs sample_kernel = sample_fs" "kn_sched sample_kernel = two_tasks"
    by (simp_all add: sample_kernel_def)
  have d: "dir_lookup sample_dir (path_name [0x2F, 97]) \<noteq> 0"
    by (simp add: path_name_def dir_lookup_def sample_dir_def)
  have ne: "{} \<noteq> {..<8 :: nat}" using lessThan_empty_iff[of 8] by (metis zero_neq_numeral)
  obtain n pool e where "vfs_open sample_disk (user_ptr (kn_cpu sample_kernel) 0x1000) (blank_pool, sample_fs) = Inr (Some n, pool, e)"
    using vfs_open_spec[OF sample_fs_ok(1) sample_disk_ok sample_holds_dir sample_path blank_pool_ok(1)] d ne
    by (auto simp: blank_pool_ok)
  then show ?thesis using sample_no_files[of 3]
    by (simp add: sys_open_def s sched_current_task_def two_tasks_state(3) upt_rec)
qed

theorem sys_open_close_roundtrip_witness:
  "\<exists>k1 k2. sys_open sample_disk 0x1000 sample_kernel = Inr (3, k1) \<and> sys_close 3 k1 = Inr (0, k2) \<and>
     open_fds (kn_sched k2) = {} \<and> used_nodes (kn_nodes k2) = {}"
proof -
  obtain k1 where k1: "sys_open sample_disk 0x1000 sample_kernel = Inr (3, k1)" using sample_open by blast
  have s: "kn_nodes sample_kernel = blank_pool" "kn_sched sample_kernel = two_tasks"
    by (simp_all add: sample_kernel_def)
  from sys_open_close_roundtrip[OF sample_kernel_inv sample_disk_ok k1] k1 show ?thesis
    by (auto simp: s two_tasks_files blank_pool_ok)
qed

section \<open>Returning from a handler\<close>

text \<open>C21: A handler that ends in \<^verbatim>\<open>sys_sigreturn\<close> resumes the interrupted program at exactly the
  instruction, flags and stack the signal interrupted, and signals can be delivered again. The
  general registers are not part of that: although the call writes the saved ones into its frame,
  the stub drops that part of the frame, so the program goes on with EAX = 0 and with the
  handler's EBX, whatever it had in them.\<close>

theorem sigreturn_after_delivery:
  assumes inv: "sched_inv s" "cur_task s = Some n" and del: "deliverable (task_pool s ! n)" and len: "length ctx = 13"
    and run: "deliver_signal n ctx s c = Inr (ctx', kn_sched k, c')"
    and regs: "u_eax u = 10" "length (u_iret u) = 5"
  shows "\<exists>k'. idt_syscall disk u k = Inr (0, u_ebx u, drop 8 ctx, k') \<and>
    \<not> t_sig_in_handler (task_pool (kn_sched k') ! n)"
proof -
  have lt: "n < 8" "n < length (task_pool s)" using current_lt[OF inv] by simp_all
  have "length (t_sig_saved_regs (task_pool s ! n)) = 13" using task_okD[OF inv(1) lt(1)] by (simp add: task_ok_def)
  from run[unfolded deliver_signal_some[OF del len this]]
  have k: "kn_sched k = update_task n (enter_handler (pending_signal (t_sig_pending (task_pool s ! n))) ctx) s" by auto
  let ?t = "task_pool (kn_sched k) ! n"
  have t: "t_sig_in_handler ?t" "t_sig_saved_regs ?t = ctx" using lt(2) by (simp_all add: k update_task_nth enter_handler_def)
  have c: "cur_task (kn_sched k) = Some n" by (simp add: k inv(2))
  obtain a b d e f where i: "u_iret u = [a, b, d, e, f]"
    using regs(2) by (auto simp: length_Suc_conv numeral_eq_Suc)
  have "drop 8 ctx = [ctx ! 8, ctx ! 9, ctx ! 10, ctx ! 11, ctx ! 12]"
    using len by (intro nth_equalityI) (auto simp: less_Suc_eq numeral_eq_Suc)
  then show ?thesis using lt(2)
    by (simp add: idt_syscall_def syscall_handler_def regs(1) sys_sigreturn_def sched_current_task_def c t i Let_def
        update_task_nth) (simp add: k update_task_nth)
qed

theorem sigreturn_after_delivery_witness:
  "\<exists>k k'. idt_syscall sample_disk \<lparr>u_eax = 10, u_ebx = 0x77, u_ecx = 0, u_edx = 0, u_iret = [1, 2, 3, 4, 5]\<rparr> k =
     Inr (0, 0x77, [0x40000010, 0x23, 0x202, 0x40001F00, 0x33], k')"
proof -
  let ?h = "replicate 32 (0x40000500 :: u32)" and ?m = "task_machine\<lparr>mm_cr0 := 0x11\<rparr>"
  let ?s = "run_task 1 (signalled ?h)"
  have h: "length ?h = NSIG" by simp
  have s: "sched_inv ?s" by (rule sched_inv_run[OF signalled_state(1)[OF h]]) (simp add: signalled_def two_tasks_state)
  have c: "cur_task ?s = Some 1" by (simp add: run_task_def)
  have "length (task_pool two_tasks) = 8" using two_tasks_state(1) by (simp add: sched_inv_def)
  then have t: "task_pool ?s ! 1 = idle_b\<lparr>t_sig_pending := 0x404, t_sig_handlers := ?h\<rparr>"
    using two_tasks_state(5) by (simp add: run_task_def signalled_def update_task_nth idle_b_def)
  have d: "deliverable (task_pool ?s ! 1)" unfolding t by (rule idle_b_deliverable) simp
  have len: "length user_ctx = 13" by (simp add: user_ctx_def)
  have w: "\<exists>m'. kst32 va v c = Inr m' \<and> \<not> paging_on m'" if "\<not> paging_on c" for va v c
    using that by (simp add: kst32_def translate_def paging_on_def)
  have "\<not> paging_on ?m" by (simp add: paging_on_def bit_simps)
  from w[OF this] obtain m1 where m1: "kst32 (user_ctx ! 11 - 4) (of_nat (pending_signal (t_sig_pending (task_pool ?s ! 1)))) ?m = Inr m1"
    "\<not> paging_on m1" by blast
  from w[OF m1(2)] obtain m2 where m2: "kst32 (user_ctx ! 11 - 8) 0 m1 = Inr m2" by blast
  have "length (t_sig_saved_regs (task_pool ?s ! 1)) = 13" using task_okD[OF s, of 1] by (simp add: task_ok_def)
  from deliver_signal_some[OF d len this, of ?m] have "\<exists>ctx' s' c'. deliver_signal 1 user_ctx ?s ?m = Inr (ctx', s', c')"
    by (simp only: m1(1) m2 bindo.simps) blast
  then obtain ctx' s' c' where "deliver_signal 1 user_ctx ?s ?m = Inr (ctx', kn_sched (sample_kernel\<lparr>kn_sched := s'\<rparr>), c')" by auto
  from sigreturn_after_delivery[OF s c d len this, where disk = sample_disk
      and u = "\<lparr>u_eax = 10, u_ebx = 0x77, u_ecx = 0, u_edx = 0, u_iret = [1, 2, 3, 4, 5]\<rparr>"]
  show ?thesis by (auto simp: user_ctx_def fresh_regs_def)
qed

end
