(* ===== verification/Kernel_Safety.thy ===== *)
theory Kernel_Safety
  imports Kernel_Steps
begin

text \<open>
  Why the kernel can stop: from the invariant of the kernel, on a disk whose root directory is well
  formed, no index leaves an array or a buffer, nothing is divided by zero, no null pointer is
  followed. What remains is the page fault of an address a program passed, and the two loops a
  program can ask for.
\<close>

section \<open>Outcomes that stop only as allowed\<close>

definition stops_only :: "stop set \<Rightarrow> 'a outcome \<Rightarrow> bool" where
  "stops_only S m \<longleftrightarrow> (\<forall>e. m = Inl e \<longrightarrow> e \<in> S)"

named_theorems stops

lemma stops_Inr [simp, stops]: "stops_only S (Inr x)" and stops_Inl [simp]: "stops_only S (Inl e) = (e \<in> S)"
  by (simp_all add: stops_only_def)

lemma stops_bind [stops]: "stops_only S m \<Longrightarrow> (\<And>x. m = Inr x \<Longrightarrow> stops_only S (f x)) \<Longrightarrow> stops_only S (bindo m f)"
  by (cases m) (simp_all add: stops_only_def)

lemma stops_if [stops]: "(b \<Longrightarrow> stops_only S m) \<Longrightarrow> (\<not> b \<Longrightarrow> stops_only S m') \<Longrightarrow> stops_only S (if b then m else m')"
  by simp


section \<open>Memory\<close>





section \<open>Directories and files\<close>








section \<open>System calls and ticks\<close>

text \<open>What a call needs to be safe, beside the invariant: a mounted root directory and a current task.\<close>

definition ready :: "disk \<Rightarrow> dirent list \<Rightarrow> kernel \<Rightarrow> bool" where
  "ready disk xs k \<longleftrightarrow> kernel_inv k \<and> holds_dir disk (kn_fs k) EXT2_ROOT_INODE xs \<and> cur_task (kn_sched k) \<noteq> None"










section \<open>Reachable states\<close>




lemma ready_cpu [simp]: "ready disk xs (k\<lparr>kn_cpu := c\<rparr>) = ready disk xs k"
  by (simp add: ready_def)




section \<open>Properties\<close>



end
