(* ===== verification/ELF.thy ===== *)
theory ELF
  imports VMM Syscall
begin

text \<open>
  \<^verbatim>\<open>fs/elf.c\<close>: loading an ELF file from the disk into an address space of its own. The static
  buffer \<^verbatim>\<open>elf_buf\<close> is an argument and a result of the loader. Frames are written at their
  physical addresses through the identity window of the kernel's page tables, as the code does.
\<close>

section \<open>The file format\<close>

abbreviation (input) "MAX_ELF_SIZE \<equiv> (65536 :: u32)"
abbreviation (input) "USER_STACK_VIRT \<equiv> (0x40100000 :: u32)"
abbreviation (input) "PT_LOAD \<equiv> (1 :: u32)"

text \<open>The fields of \<^verbatim>\<open>elf32_hdr_t\<close> that the loader reads, by their offsets in the packed struct.\<close>

definition e_entry :: "u8 list \<Rightarrow> u32 outcome" where "e_entry buf = get_u32 buf 24"
definition e_phoff :: "u8 list \<Rightarrow> u32 outcome" where "e_phoff buf = get_u32 buf 28"
definition e_phentsize :: "u8 list \<Rightarrow> u16 outcome" where "e_phentsize buf = get_u16 buf 42"
definition e_phnum :: "u8 list \<Rightarrow> u16 outcome" where "e_phnum buf = get_u16 buf 44"

text \<open>\<^verbatim>\<open>elf32_phdr_t\<close>, without the fields the loader ignores.\<close>

record phdr =
  p_offset :: u32
  p_vaddr :: u32
  p_filesz :: u32
  p_memsz :: u32

definition read_phdr :: "u8 list \<Rightarrow> nat \<Rightarrow> phdr outcome" where
  "read_phdr buf off =
     bindo (get_u32 buf (off + 4)) (\<lambda>offset.
     bindo (get_u32 buf (off + 8)) (\<lambda>vaddr.
     bindo (get_u32 buf (off + 16)) (\<lambda>filesz.
     bindo (get_u32 buf (off + 20)) (\<lambda>memsz.
     Inr \<lparr>p_offset = offset, p_vaddr = vaddr, p_filesz = filesz, p_memsz = memsz\<rparr>))))"

section \<open>Operations\<close>

definition proc_alloc_pd :: "pmm \<Rightarrow> mach \<Rightarrow> (u32 \<times> pmm \<times> mach) outcome" where
  "proc_alloc_pd p c =
     (let kpd = KERNEL_PD_ADDR;
          (pd, p) = pmm_alloc_page p in
      bindo (for_try 0 1024 (\<lambda>i c. bindo (kld32 (slot kpd i) c) (\<lambda>e. kst32 (slot pd i) e c)) c) (\<lambda>c.
      Inr (pd, p, c)))"

definition proc_map_page :: "u32 \<Rightarrow> u32 \<Rightarrow> u32 \<Rightarrow> u32 \<Rightarrow> pmm \<Rightarrow> mach \<Rightarrow> (pmm \<times> mach) outcome" where
  "proc_map_page pd virt phys flags p c =
     (let pd_idx = pd_index virt;
          pt_idx = pt_index virt in
      bindo (kld32 (slot pd pd_idx) c) (\<lambda>e.
      bindo (if e AND PAGE_PRESENT = 0 then
               (let (pt_phys, p) = pmm_alloc_page p in
                bindo (for_try 0 1024 (\<lambda>i. kst32 (slot pt_phys i) 0) c) (\<lambda>c.
                bindo (kst32 (slot pd pd_idx) (pt_phys OR PAGE_PRESENT OR PAGE_WRITE OR PAGE_USER) c) (\<lambda>c.
                Inr (p, c))))
             else Inr (p, c)) (\<lambda>(p, c).
      bindo (kld32 (slot pd pd_idx) c) (\<lambda>e.
      let pt = e AND NOT 0xFFF in
      bindo (kst32 (slot pt pt_idx) (phys OR flags) c) (\<lambda>c.
      Inr (p, c))))))"

text \<open>\<^verbatim>\<open>for (j = 0; j < n; j++) fp[j] = src(j)\<close>\<close>

definition fill_frame :: "u32 \<Rightarrow> nat \<Rightarrow> (nat \<Rightarrow> u8 outcome) \<Rightarrow> mach \<Rightarrow> mach outcome" where
  "fill_frame fp n src c = for_try 0 n (\<lambda>j c. bindo (src j) (\<lambda>v. kst8 (fp + of_nat j) v c)) c"

text \<open>The body of the page loop of one segment: a frame, zeroed, filled from the file, mapped.\<close>

definition load_page :: "u8 list \<Rightarrow> phdr \<Rightarrow> u32 \<Rightarrow> u32 \<Rightarrow> pmm \<times> mach \<Rightarrow> (pmm \<times> mach) outcome" where
  "load_page buf ph pd vaddr = (\<lambda>(p, c).
     (let (frame, p) = pmm_alloc_page p in
      bindo (fill_frame frame 4096 (\<lambda>_. Inr 0) c) (\<lambda>c.
      bindo (if vaddr < p_vaddr ph + p_filesz ph then
               (let src_off = p_offset ph + (vaddr - p_vaddr ph);
                    bytes = 4096;
                    avail = p_offset ph + p_filesz ph - src_off;
                    bytes = (if bytes > avail then avail else bytes)
                in fill_frame frame (unat bytes) (\<lambda>j. get8 buf (unat (src_off + of_nat j))) c)
             else Inr c) (\<lambda>c.
      proc_map_page pd vaddr frame (PAGE_PRESENT OR PAGE_WRITE OR PAGE_USER) p c))))"

text \<open>
  The page loop. Both ends are page-aligned, so \<^verbatim>\<open>vaddr\<close> is 4096 times a counter that runs
  between the two page numbers.
\<close>

definition load_segment :: "u8 list \<Rightarrow> phdr \<Rightarrow> u32 \<Rightarrow> pmm \<times> mach \<Rightarrow> (pmm \<times> mach) outcome" where
  "load_segment buf ph pd s =
     (let vbase = p_vaddr ph AND NOT 0xFFF;
          vend = (p_vaddr ph + p_memsz ph + 0xFFF) AND NOT 0xFFF
      in for_try (unat vbase div 4096) (unat vend div 4096)
           (\<lambda>k. load_page buf ph pd (of_nat (k * 4096))) s)"

definition load_segments :: "u8 list \<Rightarrow> u32 \<Rightarrow> pmm \<times> mach \<Rightarrow> (pmm \<times> mach) outcome" where
  "load_segments buf pd s =
     bindo (e_phnum buf) (\<lambda>num.
     for_try 0 (unat num) (\<lambda>i s.
       bindo (e_phoff buf) (\<lambda>phoff.
       bindo (e_phentsize buf) (\<lambda>entsize.
       let ph = unat (phoff + of_nat i * ucast entsize) in
       bindo (get_u32 buf ph) (\<lambda>ty.
       if ty \<noteq> PT_LOAD then Inr s
       else bindo (read_phdr buf ph) (\<lambda>h. load_segment buf h pd s))))) s)"

definition alloc_user_stack :: "u32 \<Rightarrow> pmm \<times> mach \<Rightarrow> (pmm \<times> mach) outcome" where
  "alloc_user_stack pd = (\<lambda>(p, c).
     (let (frame, p) = pmm_alloc_page p in
      bindo (fill_frame frame 4096 (\<lambda>_. Inr 0) c) (\<lambda>c.
      proc_map_page pd USER_STACK_VIRT frame (PAGE_PRESENT OR PAGE_WRITE OR PAGE_USER) p c)))"

definition elf_exec :: "disk \<Rightarrow> u8 list \<Rightarrow> u8 list \<times> kernel \<Rightarrow> (u8 list \<times> kernel) outcome" where
  "elf_exec disk name = (\<lambda>(buf, k).
     bindo (ext2_find disk EXT2_ROOT_INODE (literal name) (kn_fs k)) (\<lambda>(ino, fs).
     let k = k\<lparr>kn_fs := fs\<rparr> in
     if ino = 0 then
       Inr (buf, k\<lparr>kn_screen := print [10] (print name
         (print (cstr ''  [!!] ELF: archivo no encontrado: '') (kn_screen k)))\<rparr>)
     else
     bindo (ext2_read_file disk ino buf MAX_ELF_SIZE (kn_fs k)) (\<lambda>(sz, fs, buf).
     let k = k\<lparr>kn_fs := fs\<rparr> in
     if sz < 52 then
       Inr (buf, k\<lparr>kn_screen := print (cstr ''  [!!] ELF: archivo demasiado pequeno'' @ [10]) (kn_screen k)\<rparr>)
     else if buf ! 0 \<noteq> 0x7F \<or> buf ! 1 \<noteq> of_char (CHR ''E'') \<or> buf ! 2 \<noteq> of_char (CHR ''L'') \<or> buf ! 3 \<noteq> of_char (CHR ''F'') then
       Inr (buf, k\<lparr>kn_screen := print (cstr ''  [!!] ELF: magic invalido'' @ [10]) (kn_screen k)\<rparr>)
     else
     bindo (proc_alloc_pd (kn_pmm k) (kn_cpu k)) (\<lambda>(pd, s).
     bindo (load_segments buf pd s) (\<lambda>s.
     bindo (alloc_user_stack pd s) (\<lambda>(p, c).
     let (kstack, p) = pmm_alloc_page p;
         k = k\<lparr>kn_pmm := p, kn_cpu := c\<rparr> in
     bindo (e_entry buf) (\<lambda>entry.
     bindo (sched_add_task entry 0x23 0x202 (USER_STACK_VIRT + 0xFF0) 0x33 pd (kstack + 4096) (kn_sched k)) (\<lambda>s.
     Inr (buf, k\<lparr>kn_sched := s, kn_screen := print (cstr (CHR 0x27 # '' cargado y registrado en el scheduler'') @ [10])
       (print name (print (cstr ''  [OK] ELF: '' @ [0x27]) (kn_screen k)))\<rparr>)))))))))"

lemma proc_map_page_at: "proc_map_page = (\<lambda>pd. map_page_at pd (PAGE_PRESENT OR PAGE_WRITE OR PAGE_USER))"
  by (intro ext) (simp add: proc_map_page_def map_page_at_def not_present page_base_def Let_def case_prod_beta or.assoc cong: if_cong)

section \<open>Filling a frame\<close>

lemma fill_frame_page:
  assumes sp: "in_space cur c" and a: "page_aligned a" "unat a < 0x1000000" "a \<notin> window_pages" "a \<noteq> cur"
    and n: "n \<le> 4096" and src: "\<And>j. j < n \<Longrightarrow> src j = Inr (g j)"
  shows "\<exists>m'. fill_frame a n src c = Inr (c\<lparr>mm_mem := m'\<rparr>) \<and> agree_off a (mm_mem c) m' \<and> in_space cur (c\<lparr>mm_mem := m'\<rparr>) \<and>
    (\<forall>j<4096. m' (a + of_nat j) = (if j < n then g j else mm_mem c (a + of_nat j)))"
proof -
  have win: "in_space cur (c\<lparr>mm_mem := m'\<rparr>)" if "agree_off a (mm_mem c) m'" for m'
    using in_space_agree[OF sp that a(3,4)] .
  have "\<exists>m'. fill_frame a n src c = Inr (c\<lparr>mm_mem := m'\<rparr>) \<and> agree_off a (mm_mem c) m' \<and>
      (\<forall>j<4096. m' (a + of_nat j) = (if j < n then g j else mm_mem c (a + of_nat j)))"
    unfolding fill_frame_def using a(1,2) n src win by (intro byte_loop) (auto intro: in_space_window)
  with win show ?thesis by blast
qed

section \<open>A partly loaded address space\<close>

text \<open>Free frames that the kernel can write to.\<close>

definition low_frames :: "pmm \<Rightarrow> u32 set" where
  "low_frames p = {a \<in> free_addrs p. unat a < 0x1000000}"

lemma finite_low_frames [simp]: "finite (low_frames p)"
  by (simp add: low_frames_def free_addrs_def)

lemma low_frames_reach: "0 < card (low_frames p) \<Longrightarrow> frame_in_reach p"
  by (auto simp: card_gt_0_iff low_frames_def frame_in_reach_def)

lemma low_frames_diff:
  assumes "free_addrs p' = free_addrs p - T" and "card T \<le> n" and "finite T"
  shows "card (low_frames p) \<le> card (low_frames p') + n"
proof -
  have "low_frames p' = low_frames p - T" using assms(1) by (auto simp: low_frames_def)
  then show ?thesis using diff_card_le_card_Diff[OF assms(3), of "low_frames p"] assms(2) by simp
qed

text \<open>A frame that holds a page of the new space: neither free nor one of its tables.\<close>

definition page_frame :: "u32 \<Rightarrow> pmm \<Rightarrow> mem \<Rightarrow> u32 \<Rightarrow> bool" where
  "page_frame pd p m f \<longleftrightarrow> page_aligned f \<and> unat f < 0x1000000 \<and> f \<notin> free_addrs p \<and> f \<noteq> pd \<and> f \<notin> tables_of m pd"

text \<open>No two pages above the window share a frame.\<close>

definition frames_distinct :: "u32 \<Rightarrow> mem \<Rightarrow> bool" where
  "frames_distinct pd m \<longleftrightarrow> (\<forall>va va' d d' e. 4 \<le> pd_index va \<longrightarrow> 4 \<le> pd_index va' \<longrightarrow>
     walk_entry m pd va = Some (d, e) \<longrightarrow> walk_entry m pd va' = Some (d', e) \<longrightarrow> page_base va = page_base va')"

lemma frames_distinctD:
  "frames_distinct pd m \<Longrightarrow> 4 \<le> pd_index va \<Longrightarrow> 4 \<le> pd_index va' \<Longrightarrow>
   walk_entry m pd va = Some (d, e) \<Longrightarrow> walk_entry m pd va' = Some (d', e) \<Longrightarrow> page_base va = page_base va'"
  unfolding frames_distinct_def by blast

lemma frames_distinct_cong:
  assumes "frames_distinct pd m" and "\<And>va. 4 \<le> pd_index va \<Longrightarrow> walk_entry m' pd va = walk_entry m pd va"
  shows "frames_distinct pd m'"
  unfolding frames_distinct_def by (intro allI impI) (rule frames_distinctD[OF assms(1)], auto simp only: assms(2))

lemma frames_distinct_add:
  assumes d: "frames_distinct pd m"
    and w: "\<And>va. walk_entry m' pd va = (if page_base va = v then Some (x, y) else walk_entry m pd va)"
    and new: "\<And>va d. 4 \<le> pd_index va \<Longrightarrow> walk_entry m pd va \<noteq> Some (d, y)"
  shows "frames_distinct pd m'"
  unfolding frames_distinct_def
proof (intro allI impI)
  fix va va' d d' e
  assume a: "4 \<le> pd_index va" "4 \<le> pd_index va'" "walk_entry m' pd va = Some (d, e)" "walk_entry m' pd va' = Some (d', e)"
  show "page_base va = page_base va'"
  proof (cases "page_base va = v \<or> page_base va' = v")
    case True
    with a w[of va] w[of va'] new[OF a(1)] new[OF a(2)] show ?thesis by (metis option.inject prod.inject)
  next
    case False
    with a w[of va] w[of va'] frames_distinctD[OF d a(1,2)] show ?thesis by simp
  qed
qed

text \<open>
  The space under construction: the pages in \<open>V\<close> are mapped for ring 3 and hold the image, no
  other page above the window is mapped, and of the memory of the start only frames of \<open>F\<close>, the
  ones free at the start, have been touched.
\<close>

definition page_loaded :: "u32 \<Rightarrow> (u32 \<Rightarrow> u8) \<Rightarrow> u32 set \<Rightarrow> pmm \<Rightarrow> mem \<Rightarrow> u32 \<Rightarrow> bool" where
  "page_loaded pd img F p m va \<longleftrightarrow> (\<exists>f. walk_entry m pd va = Some (ld32 m (slot pd (pd_index va)), f OR 7) \<and>
     page_frame pd p m f \<and> f \<in> F \<and> (\<forall>j<4096. m (f + of_nat j) = img (page_base va + of_nat j)))"

definition loaded :: "u32 \<Rightarrow> (u32 \<Rightarrow> u8) \<Rightarrow> u32 set \<Rightarrow> u32 set \<Rightarrow> mem \<Rightarrow> pmm \<times> mach \<Rightarrow> bool" where
  "loaded pd img F V m0 = (\<lambda>(p, c). let m = mm_mem c in
     in_space KERNEL_PD_ADDR c \<and> dir_ok pd m p \<and> pmm_safe p \<and> insert pd (tables_of m pd) \<union> free_addrs p \<subseteq> F \<and>
     agree_outside F m0 m \<and> frames_distinct pd m \<and>
     (\<forall>i. 4 \<le> i \<longrightarrow> i < 1024 \<longrightarrow> table_of m pd i \<noteq> None \<longrightarrow> ld32 m (slot pd i) AND 0xFFF = 7) \<and>
     (\<forall>va. 4 \<le> pd_index va \<longrightarrow>
       (if page_base va \<in> V then page_loaded pd img F p m va else walk_entry m pd va = None)))"

lemma loadedD:
  assumes "loaded pd img F V m0 (p, c)" and "4 \<le> pd_index va"
  shows "page_base va \<in> V \<Longrightarrow> \<exists>f. walk_entry (mm_mem c) pd va = Some (ld32 (mm_mem c) (slot pd (pd_index va)), f OR 7) \<and>
      page_frame pd p (mm_mem c) f \<and> f \<in> F \<and> (\<forall>j<4096. mm_mem c (f + of_nat j) = img (page_base va + of_nat j))"
    and "page_base va \<notin> V \<Longrightarrow> walk_entry (mm_mem c) pd va = None"
  using assms unfolding loaded_def Let_def prod.case page_loaded_def[symmetric] by (auto split: if_splits)

lemma loaded_parts:
  assumes "loaded pd img F V m0 (p, c)"
  shows "in_space KERNEL_PD_ADDR c" "dir_ok pd (mm_mem c) p" "pmm_safe p" "insert pd (tables_of (mm_mem c) pd) \<union> free_addrs p \<subseteq> F"
    "agree_outside F m0 (mm_mem c)" "frames_distinct pd (mm_mem c)"
    "4 \<le> i \<Longrightarrow> i < 1024 \<Longrightarrow> table_of (mm_mem c) pd i \<noteq> None \<Longrightarrow> ld32 (mm_mem c) (slot pd i) AND 0xFFF = 7"
  using assms by (simp_all add: loaded_def Let_def)

lemma walk_entry_dir:
  "walk_entry m pd va = Some (d, e) \<Longrightarrow> page_aligned pd \<Longrightarrow> d = ld32 m (slot pd (pd_index va))"
  by (auto simp: walk_entry_def Let_def page_base_id split: if_splits)

lemma agree_off_outside: "agree_off a m m' \<Longrightarrow> a \<in> F \<Longrightarrow> agree_outside F m m'"
  by (auto simp: agree_off_def agree_outside_def)

lemma agree_outside_trans: "agree_outside F m m1 \<Longrightarrow> agree_outside F m1 m2 \<Longrightarrow> agree_outside F m m2"
  by (simp add: agree_outside_def)

lemma agree_outside_mono: "agree_outside F m m' \<Longrightarrow> F \<subseteq> G \<Longrightarrow> agree_outside G m m'"
  by (auto simp: agree_outside_def)

lemma frame_bytes_off:
  assumes "agree_off a m m'" and "page_aligned f" and "f \<noteq> a" and "j < 4096"
  shows "m' (f + of_nat j) = m (f + of_nat j)"
  using assms by (simp add: agree_off_def page_base_byte)

lemma frame_bytes_outside:
  assumes "agree_outside P m m'" and "page_aligned f" and "f \<notin> P" and "j < 4096"
  shows "m' (f + of_nat j) = m (f + of_nat j)"
  using assms by (simp add: agree_outside_def page_base_byte)

text \<open>A page that is neither the directory nor one of its tables does not matter to the walk.\<close>

lemma space_agree_off:
  assumes ag: "agree_off a m m1" and pd: "page_aligned pd" and ne: "a \<noteq> pd" and nt: "a \<notin> tables_of m pd"
  shows "i < 1024 \<Longrightarrow> ld32 m1 (slot pd i) = ld32 m (slot pd i)"
    and "i < 1024 \<Longrightarrow> table_of m1 pd i = table_of m pd i"
    and "tables_of m1 pd = tables_of m pd"
    and "4 \<le> pd_index va \<Longrightarrow> walk_entry m1 pd va = walk_entry m pd va"
proof -
  show e: "ld32 m1 (slot pd i) = ld32 m (slot pd i)" if "i < 1024" for i
    using ld32_agree_off[OF ag pd that ne] .
  show t: "table_of m1 pd i = table_of m pd i" if "i < 1024" for i
    using e[OF that] pd by (simp add: table_of_def page_base_id)
  show "tables_of m1 pd = tables_of m pd" using t by (intro tables_of_cong) simp
  show "walk_entry m1 pd va = walk_entry m pd va" if k: "4 \<le> pd_index va"
  proof (cases "table_of m pd (pd_index va)")
    case None
    then show ?thesis using pd e[OF pd_index_lt, of va] by (simp add: walk_entry_def page_base_id table_of_None)
  next
    case (Some pt)
    then have "pt \<in> tables_of m pd" using k by (auto simp: tables_of_def)
    then have "a \<noteq> pt" using nt by auto
    moreover have "page_aligned pt" "page_base (ld32 m (slot pd (pd_index va))) = pt"
      using Some pd by (auto simp: table_of_def Let_def page_base_id split: if_splits)
    ultimately show ?thesis using pd e[OF pd_index_lt, of va] ld32_agree_off[OF ag, of pt "pt_index va"]
      by (simp add: walk_entry_def page_base_id Let_def)
  qed
qed

text \<open>Writing a frame that is still free changes nothing of the space.\<close>

lemma page_loaded_alloc:
  assumes pl: "page_loaded pd img F p m va" and k: "4 \<le> pd_index va" and a: "a \<in> free_addrs p" "a \<noteq> pd" "a \<notin> tables_of m pd"
    and pd: "page_aligned pd" and ag: "agree_off a m m1" and free: "free_addrs p1 \<subseteq> free_addrs p"
  shows "page_loaded pd img F p1 m1 va"
proof -
  obtain f where f: "walk_entry m pd va = Some (ld32 m (slot pd (pd_index va)), f OR 7)" "page_frame pd p m f" "f \<in> F"
    "\<forall>j<4096. m (f + of_nat j) = img (page_base va + of_nat j)" using pl by (auto simp: page_loaded_def)
  note e = space_agree_off[OF ag pd a(2,3)]
  have "f \<noteq> a" using f(2) a(1) by (auto simp: page_frame_def)
  with f frame_bytes_off[OF ag] have "\<forall>j<4096. m1 (f + of_nat j) = img (page_base va + of_nat j)" by (simp add: page_frame_def)
  moreover have "page_frame pd p1 m1 f" using f(2) free e(3) by (auto simp: page_frame_def)
  ultimately show ?thesis using f(1,3) e(4)[OF k] e(1)[OF pd_index_lt] by (auto simp: page_loaded_def)
qed

lemma free_frame_unmapped:
  assumes ld: "loaded pd img F V m0 (p, c)" and a: "a \<in> free_addrs p" "page_aligned a" and k: "4 \<le> pd_index va"
  shows "walk_entry (mm_mem c) pd va \<noteq> Some (d, a OR 7)"
proof (cases "page_base va \<in> V")
  case True
  obtain f where f: "walk_entry (mm_mem c) pd va = Some (ld32 (mm_mem c) (slot pd (pd_index va)), f OR 7)" "page_frame pd p (mm_mem c) f"
    using loadedD(1)[OF ld k True] by blast
  then have "page_aligned f" "f \<noteq> a" using a(1) by (auto simp: page_frame_def)
  then have "f OR 7 \<noteq> a OR 7" using page_base_entry[of f 7] page_base_entry[of a 7] a(2) by auto
  then show ?thesis unfolding f(1) by simp
qed (use loadedD(2)[OF ld k] in simp)

lemma loaded_alloc:
  assumes ld: "loaded pd img F V m0 (p, c)" and reach: "frame_in_reach p"
    and m1: "agree_off (fst (pmm_alloc_page p)) (mm_mem c) m1"
  shows "loaded pd img F V m0 (snd (pmm_alloc_page p), c\<lparr>mm_mem := m1\<rparr>)"
    and "page_frame pd (snd (pmm_alloc_page p)) m1 (fst (pmm_alloc_page p))"
    and "fst (pmm_alloc_page p) \<in> F"
    and "\<And>va. 4 \<le> pd_index va \<Longrightarrow> walk_entry m1 pd va \<noteq> Some (d, fst (pmm_alloc_page p) OR 7)"
proof -
  define a p1 where "a = fst (pmm_alloc_page p)" and "p1 = snd (pmm_alloc_page p)"
  let ?m = "mm_mem c"
  note l = loaded_parts[OF ld]
  note al = alloc_in_reach[OF l(3) reach, folded a_def p1_def] and pd = dir_ok_pd[OF l(2)]
  have ag: "agree_off a ?m m1" using m1 by (simp add: a_def)
  have nt: "a \<notin> tables_of ?m pd" using dir_okD(4)[OF l(2)] al(1) by (auto simp: tables_of_def)
  have ne: "a \<noteq> pd" "a \<noteq> KERNEL_PD_ADDR" using al(1,3) pd by auto
  have pa: "page_aligned pd" using pd by simp
  note k = space_agree_off[OF ag pa ne(1) nt]
  have "dir_ok pd m1 p1" using l(2) al(5) k(2) window_dir_agree[OF ag _ ne(1)] by (auto simp: dir_ok_def)
  moreover have "in_space KERNEL_PD_ADDR (c\<lparr>mm_mem := m1\<rparr>)" using in_space_agree[OF l(1) ag al(7) ne(2)] .
  moreover have F: "a \<in> F" using al(1) l(4) by auto
  moreover have "agree_outside F m0 m1" using agree_outside_trans[OF l(5) agree_off_outside[OF ag F]] .
  moreover have "insert pd (tables_of m1 pd) \<union> free_addrs p1 \<subseteq> F" using l(4) al(5) k(3) by auto
  moreover have "\<forall>i. 4 \<le> i \<longrightarrow> i < 1024 \<longrightarrow> table_of m1 pd i \<noteq> None \<longrightarrow> ld32 m1 (slot pd i) AND 0xFFF = 7"
    using l(7) k(1,2) by simp
  moreover have "if page_base va \<in> V then page_loaded pd img F p1 m1 va else walk_entry m1 pd va = None" if va: "4 \<le> pd_index va" for va
    using page_loaded_alloc[OF _ va al(1) ne(1) nt pa ag, of img F p1] loadedD[OF ld va] al(5) k(4)[OF va]
    by (auto simp: page_loaded_def[of pd img F p])
  moreover have "frames_distinct pd m1" using frames_distinct_cong[OF l(6) k(4)] .
  ultimately show "loaded pd img F V m0 (snd (pmm_alloc_page p), c\<lparr>mm_mem := m1\<rparr>)" and "fst (pmm_alloc_page p) \<in> F"
    using al(6) unfolding loaded_def Let_def prod.case a_def[symmetric] p1_def[symmetric] by simp_all
  show "page_frame pd (snd (pmm_alloc_page p)) m1 (fst (pmm_alloc_page p))"
    using al(2,4,5) ne(1) nt k(3) by (simp add: page_frame_def a_def p1_def)
  show "walk_entry m1 pd va \<noteq> Some (d, fst (pmm_alloc_page p) OR 7)" if "4 \<le> pd_index va" for va
    using free_frame_unmapped[OF ld al(1,2) that] unfolding k(4)[OF that] a_def .
qed

text \<open>Mapping a prepared frame adds its page.\<close>

lemma page_loaded_map:
  assumes pl: "page_loaded pd img F p m va" and pd: "page_aligned pd" and same: "walk_entry m' pd va = walk_entry m pd va"
    and ag: "agree_outside (insert pd (tables_of m' pd)) m m'"
    and T: "tables_of m' pd = tables_of m pd \<union> T" "free_addrs p' = free_addrs p - T" "T \<subseteq> free_addrs p"
  shows "page_loaded pd img F p' m' va"
proof -
  obtain f where f: "walk_entry m pd va = Some (ld32 m (slot pd (pd_index va)), f OR 7)" "page_frame pd p m f" "f \<in> F"
    "\<forall>j<4096. m (f + of_nat j) = img (page_base va + of_nat j)" using pl by (auto simp: page_loaded_def)
  have "f \<notin> insert pd (tables_of m' pd)" using f(2) T(1,3) by (auto simp: page_frame_def)
  with f(2) T(2) frame_bytes_outside[OF ag] have "page_frame pd p' m' f" "\<forall>j<4096. m' (f + of_nat j) = m (f + of_nat j)"
    by (auto simp: page_frame_def)
  with f same walk_entry_dir[of m' pd va, OF _ pd] show ?thesis by (auto simp: page_loaded_def)
qed

lemma map_keeps_flags:
  assumes flags: "\<And>i. 4 \<le> i \<Longrightarrow> i < 1024 \<Longrightarrow> table_of m pd i \<noteq> None \<Longrightarrow> ld32 m (slot pd i) AND 0xFFF = 7"
    and map: "page_mapped pd 7 v e p m p' m' T" and pd: "page_aligned pd" and i: "4 \<le> i" "i < 1024" "table_of m' pd i \<noteq> None"
  shows "ld32 m' (slot pd i) AND 0xFFF = 7"
proof (cases "i = pd_index v")
  case True
  with map flags[OF i(1,2)] show ?thesis by (cases "table_of m pd i = None") (auto simp: page_mapped_def)
next
  case False
  then have "ld32 m' (slot pd i) = ld32 m (slot pd i)" using map i(2) by (simp add: page_mapped_def)
  with i(3) pd flags[OF i(1,2)] show ?thesis by (simp add: table_of_None)
qed

lemma loaded_map:
  assumes ld: "loaded pd img F V m0 (p, c)" and v: "page_aligned v" "4 \<le> pd_index v" "v \<notin> V"
    and fr: "page_frame pd p (mm_mem c) a" "a \<in> F" and img: "\<forall>j<4096. mm_mem c (a + of_nat j) = img (v + of_nat j)"
    and new: "\<And>va d. 4 \<le> pd_index va \<Longrightarrow> walk_entry (mm_mem c) pd va \<noteq> Some (d, a OR 7)"
    and reach: "frame_in_reach p"
  shows "\<exists>p' c'. proc_map_page pd v a (PAGE_PRESENT OR PAGE_WRITE OR PAGE_USER) p c = Inr (p', c') \<and>
    loaded pd img F (insert v V) m0 (p', c') \<and> card (low_frames p) \<le> card (low_frames p') + 1"
proof -
  let ?m = "mm_mem c"
  note l = loaded_parts[OF ld]
  have fl: "present (PAGE_PRESENT OR PAGE_WRITE OR PAGE_USER)" "unat (PAGE_PRESENT OR PAGE_WRITE OR PAGE_USER) < 4096"
    by (simp_all add: present_def)
  have cur: "unat KERNEL_PD_ADDR < 0x400000" by simp
  have pa: "page_aligned a" "page_aligned pd" "page_base v = v" using fr(1) dir_ok_pd[OF l(2)] v(1) by (simp_all add: page_frame_def page_base_id)
  obtain p' m' T where m: "proc_map_page pd v a (PAGE_PRESENT OR PAGE_WRITE OR PAGE_USER) p c = Inr (p', c\<lparr>mm_mem := m'\<rparr>)"
    "in_space KERNEL_PD_ADDR (c\<lparr>mm_mem := m'\<rparr>)" and pm: "page_mapped pd 7 v (a OR 7) p ?m p' m' T"
    using map_page_at_maps[OF l(1) cur l(2,3) v(2) fl pa(1) fl] reach unfolding proc_map_page_at by auto
  have w: "\<And>va. walk_entry m' pd va = (if page_base va = v then Some (ld32 m' (slot pd (pd_index v)), a OR 7) else walk_entry ?m pd va)"
    and ag: "agree_outside (insert pd (tables_of m' pd)) ?m m'" and ok: "dir_ok pd m' p'" "pmm_safe p'"
    and T: "tables_of m' pd = tables_of ?m pd \<union> T" "free_addrs p' = free_addrs p - T" "T \<subseteq> free_addrs p" "finite T" "card T \<le> 1"
    using pm unfolding page_mapped_def pa(3) by blast+
  have sub: "insert pd (tables_of m' pd) \<union> free_addrs p' \<subseteq> F" using l(4) T(1-3) by auto
  then have out: "agree_outside F m0 m'" using agree_outside_trans[OF l(5) agree_outside_mono[OF ag]] by simp
  have at_v: "page_loaded pd img F p' m' va" if "page_base va = v" for va
  proof -
    have "pd_index va = pd_index v" using same_page_iff[of va v] pa(3) that by simp
    moreover have "a \<notin> insert pd (tables_of m' pd)" using fr(1) T(1,3) by (auto simp: page_frame_def)
    ultimately show ?thesis using w[of va] that fr img T(2) frame_bytes_outside[OF ag pa(1)] by (auto simp: page_loaded_def page_frame_def)
  qed
  have "if page_base va \<in> insert v V then page_loaded pd img F p' m' va else walk_entry m' pd va = None" if k: "4 \<le> pd_index va" for va
  proof (cases "page_base va = v")
    case False
    with w[of va] have "walk_entry m' pd va = walk_entry ?m pd va" by simp
    from page_loaded_map[OF _ pa(2) this ag T(1-3), of img F] loadedD[OF ld k] False this show ?thesis by (auto simp: page_loaded_def[of pd img F p])
  qed (simp add: at_v)
  moreover have "frames_distinct pd m'" using frames_distinct_add[OF l(6) w new] .
  ultimately have "loaded pd img F (insert v V) m0 (p', c\<lparr>mm_mem := m'\<rparr>)"
    using m(2) ok sub out map_keeps_flags[OF l(7) pm pa(2)] unfolding loaded_def Let_def prod.case by simp
  then show ?thesis using m(1) low_frames_diff[OF T(2,5,4)] by blast
qed

section \<open>The new directory\<close>

lemma proc_alloc_pd_loaded:
  assumes ks: "kernel_space c" and pm: "pmm_safe p" and reach: "frame_in_reach p"
  shows "\<exists>pd p' c'. proc_alloc_pd p c = Inr (pd, p', c') \<and> pd \<in> free_addrs p \<and>
    loaded pd img (free_addrs p) {} (mm_mem c) (p', c') \<and> card (low_frames p) \<le> card (low_frames p') + 1"
proof -
  define a p' where "a = fst (pmm_alloc_page p)" and "p' = snd (pmm_alloc_page p)"
  let ?m = "mm_mem c"
  note al = alloc_in_reach[OF pm reach, folded a_def p'_def]
  have ne: "a \<noteq> KERNEL_PD_ADDR" using al(3) by auto
  have k: "kernel_space (c\<lparr>mm_mem := m'\<rparr>)" if "agree_off a ?m m'" for m'
    using kernel_space_agree[OF ks that al(7) ne] .
  have win: "id_window (c\<lparr>mm_mem := m'\<rparr>)" if "agree_off a ?m m'" for m'
    using kernel_space_window[OF k[OF that]] .
  have body: "bindo (kld32 (slot KERNEL_PD_ADDR i) (c\<lparr>mm_mem := m'\<rparr>)) (\<lambda>e. kst32 (slot a i) e (c\<lparr>mm_mem := m'\<rparr>)) =
      kst32 (slot a i) (ld32 ?m (slot KERNEL_PD_ADDR i)) (c\<lparr>mm_mem := m'\<rparr>)" if "i < 1024" "agree_off a ?m m'" for i m'
    using kld32_window[OF win[OF that(2)] slot_aligned slot_in_window, of KERNEL_PD_ADDR i] that(1)
      ld32_agree_off[OF that(2) _ that(1), of KERNEL_PD_ADDR] ne by simp
  obtain m' where m': "for_try 0 1024 (\<lambda>i c. bindo (kld32 (slot KERNEL_PD_ADDR i) c) (\<lambda>e. kst32 (slot a i) e c)) c = Inr (c\<lparr>mm_mem := m'\<rparr>)"
    "agree_off a ?m m'" "\<And>j. j < 1024 \<Longrightarrow> ld32 m' (slot a j) = ld32 ?m (slot KERNEL_PD_ADDR j)"
    using table_loop[of a 1024 c, OF al(2,4) _ win body] by auto
  have none: "ld32 m' (slot a i) = 0" if "4 \<le> i" "i < 1024" for i
    using ks m'(3)[OF that(2)] that by (simp add: kernel_space_def kernel_dir_only_def)
  have np: "\<not> present (0 :: u32)" by (simp add: present_def)
  have "table_of m' a i = None" if "4 \<le> i" "i < 1024" for i using none[OF that] al(2) np by (simp add: table_of_None)
  moreover have "window_dir m' a" using ks m'(3) by (auto simp: kernel_space_def in_space_def window_dir_def)
  ultimately have ok: "dir_ok a m' p'" using al by (auto simp: dir_ok_def)
  have "tables_of m' a = {}" using \<open>\<And>i. 4 \<le> i \<Longrightarrow> i < 1024 \<Longrightarrow> table_of m' a i = None\<close> by (auto simp: tables_of_def)
  moreover have "walk_entry m' a va = None" if "4 \<le> pd_index va" for va
    using none[OF that pd_index_lt] al(2) np by (simp add: walk_entry_def page_base_id)
  moreover from this have "frames_distinct a m'" by (simp add: frames_distinct_def)
  moreover have "in_space KERNEL_PD_ADDR (c\<lparr>mm_mem := m'\<rparr>)" using k[OF m'(2)] by (simp add: kernel_space_def)
  moreover have "agree_outside (free_addrs p) ?m m'" using agree_off_outside[OF m'(2) al(1)] .
  ultimately have "loaded a img (free_addrs p) {} ?m (p', c\<lparr>mm_mem := m'\<rparr>)"
    using ok al(1,5,6) \<open>\<And>i. 4 \<le> i \<Longrightarrow> i < 1024 \<Longrightarrow> table_of m' a i = None\<close>
    unfolding loaded_def Let_def prod.case by auto
  moreover have "proc_alloc_pd p c = Inr (a, p', c\<lparr>mm_mem := m'\<rparr>)"
    using m'(1) by (simp add: proc_alloc_pd_def Let_def case_prod_beta a_def p'_def)
  ultimately show ?thesis using al(1) low_frames_diff[OF al(5), of 1] by auto
qed

section \<open>Loading one page\<close>

text \<open>The byte of a segment at a virtual address: from the file, or zero past its end.\<close>

definition seg_byte :: "u8 list \<Rightarrow> phdr \<Rightarrow> u32 \<Rightarrow> u8" where
  "seg_byte buf h va =
     (if unat va < unat (p_vaddr h) + unat (p_filesz h)
      then buf ! (unat (p_offset h) + unat va - unat (p_vaddr h)) else 0)"

definition seg_ok :: "phdr \<Rightarrow> bool" where
  "seg_ok h \<longleftrightarrow> p_filesz h \<le> p_memsz h \<and> unat (p_vaddr h) + unat (p_memsz h) + 4095 < 2 ^ 32 \<and>
     0x1000000 \<le> unat (p_vaddr h) \<and> unat (p_vaddr h) mod 4096 \<le> unat (p_offset h) \<and>
     unat (p_offset h) + unat (p_filesz h) \<le> 65536"

text \<open>A frame is taken, written in two passes, and mapped.\<close>

lemma prepared_page:
  assumes ld: "loaded pd img F V m0 (p, c)" and v: "page_aligned v" "4 \<le> pd_index v" "v \<notin> V"
    and fr: "2 \<le> card (low_frames p)" and n: "n \<le> 4096"
    and img: "\<And>j. j < 4096 \<Longrightarrow> img (v + of_nat j) = (if j < n then g j else 0)"
    and src: "\<And>j. j < n \<Longrightarrow> src j = Inr (g j)"
  shows "\<exists>s'. bindo (fill_frame (fst (pmm_alloc_page p)) 4096 (\<lambda>_. Inr 0) c) (\<lambda>c.
      bindo (fill_frame (fst (pmm_alloc_page p)) n src c) (\<lambda>c.
      proc_map_page pd v (fst (pmm_alloc_page p)) (PAGE_PRESENT OR PAGE_WRITE OR PAGE_USER) (snd (pmm_alloc_page p)) c)) = Inr s' \<and>
    loaded pd img F (insert v V) m0 s' \<and> card (low_frames p) \<le> card (low_frames (fst s')) + 2"
proof -
  define a p1 where "a = fst (pmm_alloc_page p)" and "p1 = snd (pmm_alloc_page p)"
  have reach: "frame_in_reach p" using fr low_frames_reach by simp
  have l: "in_space KERNEL_PD_ADDR c" "pmm_safe p" using ld by (simp_all add: loaded_def Let_def)
  note al = alloc_in_reach[OF l(2) reach, folded a_def p1_def]
  have ne: "a \<noteq> KERNEL_PD_ADDR" using al(3) by auto
  obtain m1 where m1: "fill_frame a 4096 (\<lambda>_. Inr 0) c = Inr (c\<lparr>mm_mem := m1\<rparr>)" "agree_off a (mm_mem c) m1"
    "in_space KERNEL_PD_ADDR (c\<lparr>mm_mem := m1\<rparr>)" "\<And>j. j < 4096 \<Longrightarrow> m1 (a + of_nat j) = 0"
    using fill_frame_page[OF l(1) al(2,4,7) ne le_refl, of "\<lambda>_. Inr 0" "\<lambda>_. 0"] by auto
  obtain m2 where m2: "fill_frame a n src (c\<lparr>mm_mem := m1\<rparr>) = Inr (c\<lparr>mm_mem := m2\<rparr>)" "agree_off a m1 m2"
    "\<And>j. j < 4096 \<Longrightarrow> m2 (a + of_nat j) = (if j < n then g j else 0)"
    using fill_frame_page[OF m1(3) al(2,4,7) ne n, of src g] src m1(4) by auto
  note ag = agree_off_trans[OF m1(2) m2(2)]
  note st = loaded_alloc[OF ld reach ag[unfolded a_def], folded a_def p1_def]
  have one: "card (low_frames p) \<le> card (low_frames p1) + 1" using low_frames_diff[OF al(5), of 1] by simp
  then have r1: "frame_in_reach p1" using fr low_frames_reach[of p1] by simp
  obtain p' c' where m: "proc_map_page pd v a (PAGE_PRESENT OR PAGE_WRITE OR PAGE_USER) p1 (c\<lparr>mm_mem := m2\<rparr>) = Inr (p', c')"
    "loaded pd img F (insert v V) m0 (p', c')" "card (low_frames p1) \<le> card (low_frames p') + 1"
    using loaded_map[OF st(1) v _ st(3) _ _ r1] st(2,4) m2(3) img by auto
  show ?thesis unfolding a_def[symmetric] p1_def[symmetric] m1(1) bindo.simps m2(1) m(1) using m(2,3) one by auto
qed

text \<open>The source index of the copy loop, read as a number.\<close>

lemma page_source:
  assumes ok: "seg_ok h" and lo: "unat (p_vaddr h) \<le> unat v + unat (p_vaddr h) mod 4096"
    and v: "unat v < unat (p_vaddr h) + unat (p_filesz h)"
  defines "so \<equiv> p_offset h + (v - p_vaddr h)"
  shows "unat (p_offset h + p_filesz h - so) = unat (p_vaddr h) + unat (p_filesz h) - unat v"
    and "j < unat (p_vaddr h) + unat (p_filesz h) - unat v \<Longrightarrow>
      unat (so + of_nat j) = unat (p_offset h) + (unat v + j) - unat (p_vaddr h) \<and> unat (so + of_nat j) < 65536"
proof -
  let ?A = "unat (p_vaddr h)" and ?O = "unat (p_offset h)" and ?N = "unat (p_filesz h)"
  have b: "?A + ?N < 2 ^ 32" "?A mod 4096 \<le> ?O" "?O + ?N \<le> 65536"
    using ok by (simp_all add: seg_ok_def word_le_nat_alt)
  have "p_offset h + p_filesz h - so = of_nat (?A + ?N - unat v)"
    using v by (simp add: so_def of_nat_diff)
  then show "unat (p_offset h + p_filesz h - so) = ?A + ?N - unat v" using b(1) by simp
  assume j: "j < ?A + ?N - unat v"
  have "?A \<le> ?O + (unat v + j)" using lo b(2) by simp
  then have "so + of_nat j = of_nat (?O + (unat v + j) - ?A)" by (simp add: so_def of_nat_diff)
  moreover have "?O + (unat v + j) - ?A < 65536" using j b(3) \<open>?A \<le> ?O + (unat v + j)\<close> by simp
  ultimately show "unat (so + of_nat j) = ?O + (unat v + j) - ?A \<and> unat (so + of_nat j) < 65536" by simp
qed

lemma load_page_loaded:
  assumes ld: "loaded pd img F V m0 (p, c)" and v: "page_aligned v" "4 \<le> pd_index v" "v \<notin> V"
    and fr: "2 \<le> card (low_frames p)" and buf: "length buf = 65536"
    and ok: "seg_ok h" and lo: "unat (p_vaddr h) \<le> unat v + unat (p_vaddr h) mod 4096"
    and img: "\<And>j. j < 4096 \<Longrightarrow> img (v + of_nat j) = seg_byte buf h (v + of_nat j)"
  shows "\<exists>s'. load_page buf h pd v (p, c) = Inr s' \<and> loaded pd img F (insert v V) m0 s' \<and>
    card (low_frames p) \<le> card (low_frames (fst s')) + 2"
proof -
  let ?A = "unat (p_vaddr h)" and ?O = "unat (p_offset h)" and ?N = "unat (p_filesz h)"
  define so where "so = p_offset h + (v - p_vaddr h)"
  note ps = page_source[OF ok lo, folded so_def]
  define n where "n = (if unat v < ?A + ?N then min 4096 (?A + ?N - unat v) else 0)"
  have lt: "v < p_vaddr h + p_filesz h \<longleftrightarrow> unat v < ?A + ?N"
    using ok by (simp add: seg_ok_def word_less_nat_alt word_le_nat_alt unat_add_no_wrap)
  have fill: "(if v < p_vaddr h + p_filesz h
      then let so = p_offset h + (v - p_vaddr h); avail = p_offset h + p_filesz h - so;
             bytes = (if avail < 4096 then avail else 4096)
           in fill_frame a (unat bytes) (\<lambda>j. get8 buf (unat (so + of_nat j))) c
      else Inr c) = fill_frame a n (\<lambda>j. get8 buf (unat (so + of_nat j))) c" for a c
  proof (cases "unat v < ?A + ?N")
    case True
    have "unat (if so' < 4096 then so' else 4096) = min 4096 (unat so')" for so' :: u32
      by (simp add: word_less_nat_alt)
    with True ps(1) show ?thesis by (simp add: lt n_def so_def Let_def)
  qed (simp add: lt n_def fill_frame_def)
  have src: "get8 buf (unat (so + of_nat j)) = Inr (buf ! (?O + (unat v + j) - ?A))" if "j < n" for j
  proof -
    from that have "unat v < ?A + ?N" "j < ?A + ?N - unat v" by (simp_all add: n_def split: if_splits)
    from ps(2)[OF this] buf show ?thesis by (simp add: get8_def)
  qed
  have im: "img (v + of_nat j) = (if j < n then buf ! (?O + (unat v + j) - ?A) else 0)" if "j < 4096" for j
    using that img[OF that] unat_page_byte[OF v(1) that] by (auto simp: seg_byte_def n_def)
  have "n \<le> 4096" by (simp add: n_def)
  have "load_page buf h pd v (p, c) = bindo (fill_frame (fst (pmm_alloc_page p)) 4096 (\<lambda>_. Inr 0) c) (\<lambda>c.
      bindo (fill_frame (fst (pmm_alloc_page p)) n (\<lambda>j. get8 buf (unat (so + of_nat j))) c) (\<lambda>c.
      proc_map_page pd v (fst (pmm_alloc_page p)) (PAGE_PRESENT OR PAGE_WRITE OR PAGE_USER) (snd (pmm_alloc_page p)) c))"
    by (simp only: load_page_def case_prod_beta Let_def prod.sel fill[unfolded Let_def])
  with prepared_page[OF ld v fr \<open>n \<le> 4096\<close> im src] show ?thesis by simp
qed

section \<open>Loading segments\<close>

text \<open>The pages a segment needs, in the order of the page loop.\<close>

definition seg_pages :: "phdr \<Rightarrow> u32 list" where
  "seg_pages h = map (\<lambda>k. of_nat (k * 4096))
     [unat (p_vaddr h) div 4096..<(unat (p_vaddr h) + unat (p_memsz h) + 4095) div 4096]"

lemma load_segment_loop:
  assumes "seg_ok h"
  shows "load_segment buf h pd = for_try (unat (p_vaddr h) div 4096) ((unat (p_vaddr h) + unat (p_memsz h) + 4095) div 4096)
    (\<lambda>k. load_page buf h pd (of_nat (k * 4096)))"
proof -
  have b: "unat (p_vaddr h) + unat (p_memsz h) + 4095 < 2 ^ 32" using assms by (simp add: seg_ok_def)
  then have "unat (p_vaddr h + p_memsz h + 0xFFF) = unat (p_vaddr h) + unat (p_memsz h) + 4095"
    by (simp add: unat_add_no_wrap)
  moreover have "unat (page_base w) div 4096 = unat w div 4096" for w by (simp add: unat_page_base)
  ultimately show ?thesis unfolding load_segment_def Let_def page_base_def[symmetric] by simp
qed

lemma seg_page_at:
  assumes "seg_ok h" and "unat (p_vaddr h) div 4096 \<le> k" and "k < (unat (p_vaddr h) + unat (p_memsz h) + 4095) div 4096"
  shows "unat (of_nat (k * 4096) :: u32) = k * 4096" "page_aligned (of_nat (k * 4096))" "4 \<le> pd_index (of_nat (k * 4096))"
    "unat (p_vaddr h) \<le> k * 4096 + unat (p_vaddr h) mod 4096"
proof -
  have "k * 4096 < n" if "k < n div 4096" for n using that by simp
  from this[OF assms(3)] have "k * 4096 < 2 ^ 32" using assms(1) by (simp add: seg_ok_def)
  then show u: "unat (of_nat (k * 4096) :: u32) = k * 4096" by (intro unat_of_nat_lt) simp
  show "page_aligned (of_nat (k * 4096))" unfolding page_aligned_def u by simp
  have "0x1000000 div 4096 \<le> unat (p_vaddr h) div 4096" using assms(1) by (intro div_le_mono) (simp add: seg_ok_def)
  with assms(2) have "4096 \<le> k" by simp
  then show "4 \<le> pd_index (of_nat (k * 4096))" unfolding pd_index_eq u by simp
  have "n \<le> k * 4096 + n mod 4096" if "n div 4096 \<le> k" for n
    using mult_le_mono1[OF that, of 4096] div_mult_mod_eq[of n 4096] by linarith
  from this[OF assms(2)] show "unat (p_vaddr h) \<le> k * 4096 + unat (p_vaddr h) mod 4096" .
qed

lemma load_segment_loaded:
  assumes ld: "loaded pd img F V m0 s" and ok: "seg_ok h" and buf: "length buf = 65536"
    and img: "\<And>va. page_base va \<in> set (seg_pages h) \<Longrightarrow> img va = seg_byte buf h va"
    and new: "set (seg_pages h) \<inter> V = {}" and fr: "2 * length (seg_pages h) \<le> card (low_frames (fst s))"
  shows "\<exists>s'. load_segment buf h pd s = Inr s' \<and> loaded pd img F (V \<union> set (seg_pages h)) m0 s' \<and>
    card (low_frames (fst s)) \<le> card (low_frames (fst s')) + 2 * length (seg_pages h)"
proof -
  define lo hi where "lo = unat (p_vaddr h) div 4096" and "hi = (unat (p_vaddr h) + unat (p_memsz h) + 4095) div 4096"
  let ?v = "\<lambda>k. of_nat (k * 4096) :: u32"
  have le: "lo \<le> hi" by (simp add: lo_def hi_def div_le_mono)
  have len: "length (seg_pages h) = hi - lo" and pages: "set (seg_pages h) = ?v ` {lo..<hi}"
    by (simp_all add: seg_pages_def lo_def hi_def)
  note at = seg_page_at[OF ok, folded lo_def hi_def]
  let ?P = "\<lambda>k t. loaded pd img F (V \<union> ?v ` {lo..<k}) m0 t \<and> card (low_frames (fst s)) \<le> card (low_frames (fst t)) + 2 * (k - lo)"
  have "\<exists>t. for_try lo hi (\<lambda>k. load_page buf h pd (?v k)) s = Inr t \<and> ?P hi t"
  proof (rule for_try_inv[OF _ le])
    show "?P lo s" using ld by simp
    fix k t assume k: "lo \<le> k" "k < hi" and P: "?P k t"
    obtain p c where t: "t = (p, c)" by (cases t)
    have mem: "?v k \<in> set (seg_pages h)" using k pages by auto
    have "?v k \<notin> ?v ` {lo..<k}"
    proof
      assume "?v k \<in> ?v ` {lo..<k}"
      then obtain i where i: "lo \<le> i" "i < k" "?v k = ?v i" by auto
      have "k * 4096 = i * 4096"
        using arg_cong[OF i(3), of unat] unfolding at(1)[OF k] at(1)[OF i(1) less_trans[OF i(2) k(2)]] .
      with i(2) show False by simp
    qed
    with mem new have fresh: "?v k \<notin> V \<union> ?v ` {lo..<k}" by blast
    have room: "2 \<le> card (low_frames p)" using conjunct2[OF P] fr len k t by simp
    have im: "img (?v k + of_nat j) = seg_byte buf h (?v k + of_nat j)" if "j < 4096" for j
      using img[of "?v k + of_nat j"] page_base_byte[OF at(2)[OF k] that] mem by simp
    obtain t' where t': "load_page buf h pd (?v k) t = Inr t'" "loaded pd img F (insert (?v k) (V \<union> ?v ` {lo..<k})) m0 t'"
      "card (low_frames p) \<le> card (low_frames (fst t')) + 2"
      using load_page_loaded[OF conjunct1[OF P, unfolded t] at(2,3)[OF k] fresh room buf ok _ im]
      unfolding at(1)[OF k] t using at(4)[OF k] by blast
    have "insert (?v k) (V \<union> ?v ` {lo..<k}) = V \<union> ?v ` {lo..<Suc k}" using k by (auto simp: atLeastLessThanSuc)
    with t' P t k show "\<exists>t'. load_page buf h pd (?v k) t = Inr t' \<and> ?P (Suc k) t'" by (intro exI[of _ t']) auto
  qed
  then show ?thesis unfolding load_segment_loop[OF ok] pages len lo_def hi_def by blast
qed

text \<open>One entry of the program header table: a segment to load, or nothing.\<close>

definition segment_at :: "u8 list \<Rightarrow> nat \<Rightarrow> phdr option outcome" where
  "segment_at buf i =
     bindo (e_phoff buf) (\<lambda>phoff.
     bindo (e_phentsize buf) (\<lambda>entsize.
     let ph = unat (phoff + of_nat i * ucast entsize) in
     bindo (get_u32 buf ph) (\<lambda>ty.
     if ty \<noteq> PT_LOAD then Inr None else bindo (read_phdr buf ph) (\<lambda>h. Inr (Some h)))))"

lemma load_segments_at:
  "load_segments buf pd s =
     bindo (e_phnum buf) (\<lambda>num.
     for_try 0 (unat num) (\<lambda>i s. bindo (segment_at buf i) (case_option (Inr s) (\<lambda>h. load_segment buf h pd s))) s)"
proof -
  have "bindo (if b then Inr None else bindo m (\<lambda>h. Inr (Some h))) (case_option x f) = (if b then x else bindo m f)"
    for b m and x :: "(pmm \<times> mach) outcome" and f :: "phdr \<Rightarrow> (pmm \<times> mach) outcome"
    by (cases m) auto
  then show ?thesis by (simp add: load_segments_def segment_at_def bindo_assoc Let_def)
qed

definition segs :: "phdr option list \<Rightarrow> phdr list" where
  "segs hs = concat (map (case_option [] (\<lambda>h. [h])) hs)"

definition elf_pages :: "phdr option list \<Rightarrow> u32 list" where
  "elf_pages hs = concat (map seg_pages (segs hs))"

text \<open>
  A file whose program headers are \<open>hs\<close>: every segment lies inside the file, above the window,
  below the end of the address space, and no page is needed twice.
\<close>

definition elf_ok :: "u8 list \<Rightarrow> phdr option list \<Rightarrow> bool" where
  "elf_ok buf hs \<longleftrightarrow> length buf = 65536 \<and> length hs < 65536 \<and> e_phnum buf = Inr (of_nat (length hs)) \<and>
     (\<forall>i<length hs. segment_at buf i = Inr (hs ! i)) \<and> (\<forall>h \<in> set (segs hs). seg_ok h) \<and>
     distinct (USER_STACK_VIRT # elf_pages hs)"

definition elf_image :: "u8 list \<Rightarrow> phdr option list \<Rightarrow> u32 \<Rightarrow> u8" where
  "elf_image buf hs va =
     (case find (\<lambda>h. page_base va \<in> set (seg_pages h)) (segs hs) of Some h \<Rightarrow> seg_byte buf h va | None \<Rightarrow> 0)"

lemma find_in_concat:
  "distinct (concat (map f xs)) \<Longrightarrow> h \<in> set xs \<Longrightarrow> x \<in> set (f h) \<Longrightarrow> find (\<lambda>h. x \<in> set (f h)) xs = Some h"
  by (induction xs) auto

lemma elf_image_seg:
  assumes "elf_ok buf hs" and "h \<in> set (segs hs)" and "page_base va \<in> set (seg_pages h)"
  shows "elf_image buf hs va = seg_byte buf h va"
  using assms find_in_concat[of seg_pages "segs hs" h "page_base va"] by (simp add: elf_image_def elf_ok_def elf_pages_def)

lemma elf_pages_append: "elf_pages (xs @ ys) = elf_pages xs @ elf_pages ys"
  by (simp add: elf_pages_def segs_def)

lemma elf_pages_take:
  "i < length hs \<Longrightarrow> elf_pages (take (Suc i) hs) = elf_pages (take i hs) @ (case hs ! i of None \<Rightarrow> [] | Some h \<Rightarrow> seg_pages h)"
  by (simp add: take_Suc_conv_app_nth elf_pages_append) (simp add: elf_pages_def segs_def split: option.split)

lemma load_segments_loaded:
  assumes ld: "loaded pd img F {} m0 s" and ok: "elf_ok buf hs" and img: "img = elf_image buf hs"
    and fr: "2 * length (elf_pages hs) \<le> card (low_frames (fst s))"
  shows "\<exists>s'. load_segments buf pd s = Inr s' \<and> loaded pd img F (set (elf_pages hs)) m0 s' \<and>
    card (low_frames (fst s)) \<le> card (low_frames (fst s')) + 2 * length (elf_pages hs)"
proof -
  let ?n = "length hs"
  let ?P = "\<lambda>i t. loaded pd img F (set (elf_pages (take i hs))) m0 t \<and>
    card (low_frames (fst s)) \<le> card (low_frames (fst t)) + 2 * length (elf_pages (take i hs))"
  let ?body = "\<lambda>i s. bindo (segment_at buf i) (case_option (Inr s) (\<lambda>h. load_segment buf h pd s))"
  have o: "length buf = 65536" "unat (of_nat ?n :: u16) = ?n" "e_phnum buf = Inr (of_nat ?n)" "distinct (elf_pages hs)"
    "\<And>h. h \<in> set (segs hs) \<Longrightarrow> seg_ok h" "\<And>i. i < ?n \<Longrightarrow> segment_at buf i = Inr (hs ! i)"
    using ok by (simp_all add: elf_ok_def)
  have "\<exists>t. for_try 0 ?n ?body s = Inr t \<and> ?P ?n t"
  proof (rule for_try_inv)
    show "?P 0 s" using ld by (simp add: elf_pages_def segs_def)
    fix i t assume i: "i < ?n" and P: "?P i t"
    show "\<exists>t'. ?body i t = Inr t' \<and> ?P (Suc i) t'"
    proof (cases "hs ! i")
      case None
      with P i o(6) show ?thesis by (simp add: elf_pages_take)
    next
      case (Some h)
      then have mem: "h \<in> set (segs hs)" using nth_mem[OF i] by (force simp: segs_def)
      have split: "elf_pages hs = elf_pages (take i hs) @ seg_pages h @ elf_pages (drop (Suc i) hs)"
        using elf_pages_append[of "take (Suc i) hs" "drop (Suc i) hs"] elf_pages_take[OF i] Some by simp
      have new: "set (seg_pages h) \<inter> set (elf_pages (take i hs)) = {}" using o(4) by (auto simp: split)
      have room: "2 * length (seg_pages h) \<le> card (low_frames (fst t))" using P fr by (simp add: split)
      have im: "img va = seg_byte buf h va" if "page_base va \<in> set (seg_pages h)" for va
        using elf_image_seg[OF ok mem that] img by simp
      from load_segment_loaded[OF conjunct1[OF P] o(5)[OF mem] o(1) im new room] P o(6)[OF i] Some elf_pages_take[OF i]
      show ?thesis by auto
    qed
  qed simp
  then show ?thesis by (simp add: load_segments_at o(2,3))
qed

lemma alloc_user_stack_loaded:
  assumes ld: "loaded pd img F V m0 s" and v: "USER_STACK_VIRT \<notin> V" and fr: "2 \<le> card (low_frames (fst s))"
    and img: "\<And>j. j < 4096 \<Longrightarrow> img (USER_STACK_VIRT + of_nat j) = 0"
  shows "\<exists>s'. alloc_user_stack pd s = Inr s' \<and> loaded pd img F (insert USER_STACK_VIRT V) m0 s' \<and>
    card (low_frames (fst s)) \<le> card (low_frames (fst s')) + 2"
proof -
  obtain p c where s: "s = (p, c)" by (cases s)
  have k: "page_aligned USER_STACK_VIRT" "4 \<le> pd_index USER_STACK_VIRT" by (simp_all add: page_aligned_def pd_index_eq)
  have im: "img (USER_STACK_VIRT + of_nat j) = (if j < 0 then undefined else 0)" if "j < 4096" for j
    using img[OF that] by simp
  have "fill_frame a 0 src c = Inr c" for a src c by (simp add: fill_frame_def)
  with prepared_page[OF _ k v _ _ im, of pd F m0 p c "\<lambda>_. Inr 0"] ld fr s show ?thesis
    by (simp add: alloc_user_stack_def case_prod_beta)
qed

section \<open>The finished address space\<close>

text \<open>
  An address space that a program can run in: the kernel's window at its place (and open to ring 3, as in
  every directory copied from the kernel's), the pages of \<open>V\<close> open to ring 3 and holding \<open>img\<close>, each in
  frames of its own that are none of its tables, and nothing else.
\<close>

definition runs_image :: "mem \<Rightarrow> u32 \<Rightarrow> u32 set \<Rightarrow> (u32 \<Rightarrow> u8) \<Rightarrow> bool" where
  "runs_image m pd V img \<longleftrightarrow>
     (\<forall>va. if unat va < 0x1000000 then walk m pd va = Some va \<and> user_writable m pd va
        else if page_base va \<in> V then \<exists>pa. walk m pd va = Some pa \<and> user_writable m pd va \<and> m pa = img va
        else walk m pd va = None) \<and>
     (\<forall>va va' pa. 0x1000000 \<le> unat va \<longrightarrow> 0x1000000 \<le> unat va' \<longrightarrow> walk m pd va = Some pa \<longrightarrow>
        walk m pd va' = Some pa \<longrightarrow> va = va') \<and>
     (\<forall>va pa. 0x1000000 \<le> unat va \<longrightarrow> walk m pd va = Some pa \<longrightarrow> page_base pa \<noteq> pd \<and> page_base pa \<notin> tables_of m pd)"

lemma page_offset:
  assumes "page_aligned f"
  shows "f OR (va AND 0xFFF) = f + of_nat (unat va mod 4096)"
proof -
  let ?w = "f + of_nat (unat va mod 4096)"
  have lt: "unat va mod 4096 < 4096" by simp
  have "unat ?w mod 4096 = unat va mod 4096"
    using assms by (auto simp: unat_page_byte[OF assms lt] page_aligned_def elim!: dvdE)
  then have "?w AND 0xFFF = va AND 0xFFF" by (simp add: word_unat_eq_iff unat_and_FFF)
  with split_page[of ?w] page_base_byte[OF assms lt] show ?thesis by simp
qed

lemma above_window: "0x1000000 \<le> unat va \<Longrightarrow> 4 \<le> pd_index va"
  using div_le_mono[of "0x1000000" "unat va" 4194304] by (simp add: pd_index_eq)

text \<open>Where an address of a loaded page leads, that ring 3 may write there, and that no two addresses meet.\<close>

lemma loaded_entry:
  assumes ld: "loaded pd img F V m0 (p, c)" and va: "0x1000000 \<le> unat va" "page_base va \<in> V"
  obtains f where "walk_entry (mm_mem c) pd va = Some (ld32 (mm_mem c) (slot pd (pd_index va)), f OR 7)" "page_aligned f"
    "walk (mm_mem c) pd va = Some (f OR (va AND 0xFFF))" "mm_mem c (f OR (va AND 0xFFF)) = img va" "f \<noteq> pd" "f \<notin> tables_of (mm_mem c) pd"
proof -
  obtain f where f: "walk_entry (mm_mem c) pd va = Some (ld32 (mm_mem c) (slot pd (pd_index va)), f OR 7)" "page_aligned f"
    "\<And>j. j < 4096 \<Longrightarrow> mm_mem c (f + of_nat j) = img (page_base va + of_nat j)" "f \<noteq> pd" "f \<notin> tables_of (mm_mem c) pd"
    using loadedD(1)[OF ld above_window[OF va(1)] va(2)] by (auto simp: page_frame_def)
  then have "walk (mm_mem c) pd va = Some (f OR (va AND 0xFFF))" by (simp add: walk_def page_base_entry)
  moreover have "img (page_base va + of_nat (unat va mod 4096)) = img va"
    using page_offset[OF page_base_aligned, of va va] split_page[of va] by simp
  ultimately show thesis using f page_offset[of f va] by (intro that) auto
qed

lemma loaded_writable:
  assumes ld: "loaded pd img F V m0 (p, c)" and va: "0x1000000 \<le> unat va" "page_base va \<in> V"
  shows "user_writable (mm_mem c) pd va"
proof -
  let ?d = "ld32 (mm_mem c) (slot pd (pd_index va))"
  have pd: "page_aligned pd" using loaded_parts(2)[OF ld] by (simp add: dir_ok_def)
  obtain f where f: "walk_entry (mm_mem c) pd va = Some (?d, f OR 7)" "page_aligned f" by (rule loaded_entry[OF ld va])
  then have "table_of (mm_mem c) pd (pd_index va) \<noteq> None" using pd
    by (simp add: walk_entry_def Let_def page_base_id table_of_None split: if_splits)
  then have "?d AND 0xFFF = 7" using loaded_parts(7)[OF ld above_window[OF va(1)] pd_index_lt] by simp
  moreover have "(f OR 7) AND 6 = 6" using and_entry[OF f(2), of 6 7] by simp
  moreover have "?d AND 6 = (?d AND 0xFFF) AND 6" by (simp add: and.assoc)
  ultimately show ?thesis by (simp add: user_writable_def f(1) and.assoc)
qed

lemma loaded_mapped:
  assumes "loaded pd img F V m0 (p, c)" and "0x1000000 \<le> unat va" and "walk (mm_mem c) pd va = Some pa"
  shows "page_base va \<in> V"
proof (rule ccontr)
  assume "page_base va \<notin> V"
  with loadedD(2)[OF assms(1) above_window[OF assms(2)]] assms(3) show False by (simp add: walk_def)
qed

lemma loaded_injective:
  assumes ld: "loaded pd img F V m0 (p, c)" and va: "0x1000000 \<le> unat va" "0x1000000 \<le> unat va'"
    and w: "walk (mm_mem c) pd va = Some pa" "walk (mm_mem c) pd va' = Some pa"
  shows "va = va'"
proof -
  note v = loaded_mapped[OF ld va(1) w(1)] loaded_mapped[OF ld va(2) w(2)]
  obtain f where f: "walk_entry (mm_mem c) pd va = Some (ld32 (mm_mem c) (slot pd (pd_index va)), f OR 7)" "page_aligned f"
    "walk (mm_mem c) pd va = Some (f OR (va AND 0xFFF))" by (rule loaded_entry[OF ld va(1) v(1)])
  obtain f' where f': "walk_entry (mm_mem c) pd va' = Some (ld32 (mm_mem c) (slot pd (pd_index va')), f' OR 7)" "page_aligned f'"
    "walk (mm_mem c) pd va' = Some (f' OR (va' AND 0xFFF))" by (rule loaded_entry[OF ld va(2) v(2)])
  have eq: "f OR (va AND 0xFFF) = f' OR (va' AND 0xFFF)" using w unfolding f(3) f'(3) by simp
  have off: "unat (w AND 0xFFF) < 4096" for w :: u32 by (simp add: unat_and_FFF)
  have "f = f'" using arg_cong[OF eq, of page_base] unfolding page_base_entry[OF f(2) off] page_base_entry[OF f'(2) off] .
  then have "page_base va = page_base va'"
    by (intro frames_distinctD[OF loaded_parts(6)[OF ld] above_window[OF va(1)] above_window[OF va(2)] f(1)]) (simp add: f'(1))
  moreover have "(f OR (x AND 0xFFF)) AND 0xFFF = x AND 0xFFF" if "page_aligned f" for f x :: u32
    using and_entry[OF that, of "0xFFF" "x AND 0xFFF"] by (simp add: and.assoc)
  then have "va AND 0xFFF = va' AND 0xFFF" using arg_cong[OF eq, of "\<lambda>w. w AND 0xFFF"] f(2) f'(2) by metis
  ultimately show ?thesis using split_page[of va] split_page[of va'] by metis
qed

lemma runs_image_loaded:
  assumes ld: "loaded pd img F V m0 (p, c)"
  shows "runs_image (mm_mem c) pd V img"
proof -
  let ?m = "mm_mem c"
  note l = loaded_parts[OF ld]
  have "page_base pa \<noteq> pd \<and> page_base pa \<notin> tables_of ?m pd" if va: "0x1000000 \<le> unat va" and w: "walk ?m pd va = Some pa" for va pa
  proof -
    obtain f where f: "page_aligned f" "walk ?m pd va = Some (f OR (va AND 0xFFF))" "f \<noteq> pd" "f \<notin> tables_of ?m pd"
      by (rule loaded_entry[OF ld va loaded_mapped[OF ld va w]])
    have "page_base (f OR (va AND 0xFFF)) = f" using f(1) by (intro page_base_entry) (simp_all add: unat_and_FFF)
    with f w show ?thesis by simp
  qed
  moreover have "if unat va < 0x1000000 then walk ?m pd va = Some va \<and> user_writable ?m pd va
        else if page_base va \<in> V then \<exists>pa. walk ?m pd va = Some pa \<and> user_writable ?m pd va \<and> ?m pa = img va
        else walk ?m pd va = None" for va
  proof -
    consider "unat va < 0x1000000" | "0x1000000 \<le> unat va" "page_base va \<in> V" | "0x1000000 \<le> unat va" "page_base va \<notin> V" by linarith
    then show ?thesis
    proof cases
      case 1
      with window_walk[of pd ?m va] l(1,2) show ?thesis by (simp add: in_space_def dir_ok_def)
    next
      case 2
      then show ?thesis by (auto intro: loaded_entry[OF ld 2] loaded_writable[OF ld 2])
    next
      case 3
      with loadedD(2)[OF ld above_window] show ?thesis by (simp add: walk_def)
    qed
  qed
  ultimately show ?thesis unfolding runs_image_def using loaded_injective[OF ld] by blast
qed

section \<open>Reading the file\<close>

definition elf_size :: "disk \<Rightarrow> ext2 \<Rightarrow> u32 \<Rightarrow> nat" where
  "elf_size disk e ino = min (min (unat (i_size (inode_bytes disk e ino))) 65536) (12 * bsize e)"

text \<open>The buffer after the read: the file's bytes in front of what an earlier load left there.\<close>

definition elf_file :: "disk \<Rightarrow> ext2 \<Rightarrow> u32 \<Rightarrow> u8 list \<Rightarrow> u8 list" where
  "elf_file disk e ino buf =
     map (file_byte disk e (inode_bytes disk e ino)) [0..<elf_size disk e ino] @ drop (elf_size disk e ino) buf"

definition elf_magic :: "u8 list \<Rightarrow> bool" where
  "elf_magic file \<longleftrightarrow> file ! 0 = 0x7F \<and> file ! 1 = of_char (CHR ''E'') \<and> file ! 2 = of_char (CHR ''L'') \<and> file ! 3 = of_char (CHR ''F'')"

text \<open>What \<open>elf_exec\<close> does once the name is looked up and the file is read.\<close>

lemma elf_exec_read:
  assumes fs: "ext2_ok (kn_fs k)" "disk_ok disk" "holds_dir disk (kn_fs k) 2 xs" "0 \<notin> set name" "length buf = 65536"
    and ino: "dir_lookup xs name = ino" and size: "sz = elf_size disk (kn_fs k) ino" and fl: "file = elf_file disk (kn_fs k) ino buf"
  shows "\<exists>e. same_fs (kn_fs k) e \<and> elf_exec disk name (buf, k) =
    (if ino = 0 then Inr (buf, k\<lparr>kn_fs := e, kn_screen := print [10] (print name (print (cstr ''  [!!] ELF: archivo no encontrado: '') (kn_screen k)))\<rparr>)
     else if sz < 52 then Inr (file, k\<lparr>kn_fs := e, kn_screen := print (cstr ''  [!!] ELF: archivo demasiado pequeno'' @ [10]) (kn_screen k)\<rparr>)
     else if \<not> elf_magic file then Inr (file, k\<lparr>kn_fs := e, kn_screen := print (cstr ''  [!!] ELF: magic invalido'' @ [10]) (kn_screen k)\<rparr>)
     else bindo (proc_alloc_pd (kn_pmm k) (kn_cpu k)) (\<lambda>(pd, s).
       bindo (load_segments file pd s) (\<lambda>s.
       bindo (alloc_user_stack pd s) (\<lambda>(p, c).
       bindo (e_entry file) (\<lambda>entry.
       bindo (sched_add_task entry 0x23 0x202 (USER_STACK_VIRT + 0xFF0) 0x33 pd (fst (pmm_alloc_page p) + 4096) (kn_sched k)) (\<lambda>s.
       Inr (file, k\<lparr>kn_fs := e, kn_pmm := snd (pmm_alloc_page p), kn_cpu := c, kn_sched := s, kn_screen :=
         print (cstr (CHR 0x27 # '' cargado y registrado en el scheduler'') @ [10])
           (print name (print (cstr ''  [OK] ELF: '' @ [0x27]) (kn_screen k)))\<rparr>)))))))"
proof -
  obtain e1 where e1: "ext2_find disk 2 (literal name) (kn_fs k) = Inr (ino, e1)" "same_fs (kn_fs k) e1"
    using find_in_dir[OF fs(1-3) names_literal[OF fs(4)]] ino by auto
  show ?thesis
  proof (cases "ino = 0")
    case True
    with e1 show ?thesis by (auto simp: elf_exec_def Let_def)
  next
    case False
    have sz: "sz \<le> 65536" by (simp add: size elf_size_def)
    obtain e2 where e2: "same_fs e1 e2" "ext2_read_file disk ino buf MAX_ELF_SIZE e1 = Inr (of_nat sz, e2, file)"
      using read_file_bytes[OF same_fs_ok[OF e1(2) fs(1)] fs(2), of sz ino MAX_ELF_SIZE buf] sz fs(5)
      by (auto simp: size elf_size_def fl elf_file_def same_fs_inode[OF e1(2)] same_fs_bsize[OF e1(2)] same_fs_file[OF e1(2)])
    have "(of_nat sz :: u32) < 52 \<longleftrightarrow> sz < 52" using sz by (simp add: word_less_nat_alt)
    then show ?thesis using e1(1) e2 False same_fs_trans[OF e1(2) e2(1)]
      by (intro exI[of _ e2]) (auto simp: elf_exec_def elf_magic_def Let_def case_prod_beta cong: if_cong)
  qed
qed

section \<open>Running the loader\<close>

text \<open>From the new directory to the kernel stack: what the four allocation steps leave behind.\<close>

lemma build_space:
  assumes ks: "kernel_space c" and pm: "pmm_safe p" and ok: "elf_ok buf hs"
    and fr: "2 * length (elf_pages hs) + 4 \<le> card (low_frames p)"
  shows "\<exists>pd s s' p' c'. proc_alloc_pd p c = Inr (pd, s) \<and> load_segments buf pd s = Inr s' \<and> alloc_user_stack pd s' = Inr (p', c') \<and>
    runs_image (mm_mem c') pd (insert USER_STACK_VIRT (set (elf_pages hs))) (elf_image buf hs) \<and> kernel_space c' \<and>
    agree_outside (free_addrs p) (mm_mem c) (mm_mem c') \<and> pmm_safe p' \<and> frame_in_reach p' \<and>
    free_addrs p' \<subseteq> free_addrs p \<and> pd \<in> free_addrs p - free_addrs p'"
proof -
  let ?img = "elf_image buf hs" and ?F = "free_addrs p"
  have none: "?img (USER_STACK_VIRT + of_nat j) = 0" if "j < 4096" for j
  proof -
    have "page_base (USER_STACK_VIRT + of_nat j) = USER_STACK_VIRT" using that by (intro page_base_byte) (simp_all add: page_aligned_def)
    moreover have "USER_STACK_VIRT \<notin> set (seg_pages h)" if "h \<in> set (segs hs)" for h
      using ok that by (auto simp: elf_ok_def elf_pages_def)
    ultimately have "find (\<lambda>h. page_base (USER_STACK_VIRT + of_nat j) \<in> set (seg_pages h)) (segs hs) = None"
      by (auto simp: find_None_iff)
    then show ?thesis by (simp add: elf_image_def)
  qed
  have "frame_in_reach p" using fr low_frames_reach by simp
  then obtain pd p1 c1 where 1: "proc_alloc_pd p c = Inr (pd, p1, c1)" "pd \<in> ?F" "loaded pd ?img ?F {} (mm_mem c) (p1, c1)"
    "card (low_frames p) \<le> card (low_frames p1) + 1" using proc_alloc_pd_loaded[OF ks pm] by blast
  have "2 * length (elf_pages hs) \<le> card (low_frames (fst (p1, c1)))" using 1(4) fr by simp
  from load_segments_loaded[OF 1(3) ok refl this] obtain s2 where 2: "load_segments buf pd (p1, c1) = Inr s2"
    "loaded pd ?img ?F (set (elf_pages hs)) (mm_mem c) s2" "card (low_frames p1) \<le> card (low_frames (fst s2)) + 2 * length (elf_pages hs)"
    by auto
  have "2 \<le> card (low_frames (fst s2))" "USER_STACK_VIRT \<notin> set (elf_pages hs)" using 1(4) 2(3) fr ok by (simp_all add: elf_ok_def)
  from alloc_user_stack_loaded[OF 2(2) this(2,1) none] obtain p' c' where 3: "alloc_user_stack pd s2 = Inr (p', c')"
    "loaded pd ?img ?F (insert USER_STACK_VIRT (set (elf_pages hs))) (mm_mem c) (p', c')" "card (low_frames (fst s2)) \<le> card (low_frames p') + 2"
    by auto
  have l: "in_space KERNEL_PD_ADDR c'" "dir_ok pd (mm_mem c') p'" "pmm_safe p'" "free_addrs p' \<subseteq> ?F" "agree_outside ?F (mm_mem c) (mm_mem c')"
    using 3(2) by (simp_all add: loaded_def Let_def)
  have "KERNEL_PD_ADDR \<notin> ?F" using pmm.avail_page[OF pm, of KERNEL_PD_ADDR] by auto
  then have "kernel_dir_only (mm_mem c')" using ks ld32_agree_outside[OF l(5), of KERNEL_PD_ADDR]
    by (simp add: kernel_space_def kernel_dir_only_def)
  then have "kernel_space c'" using l(1) by (simp add: kernel_space_def)
  moreover have "frame_in_reach p'" using 1(4) 2(3) 3(3) fr low_frames_reach[of p'] by simp
  moreover have "pd \<in> free_addrs p - free_addrs p'" using dir_ok_pd[OF l(2)] 1(2) by simp
  ultimately show ?thesis using 1(1) 2(1) 3(1) runs_image_loaded[OF 3(2)] l(3-5) by blast
qed

text \<open>A task as the loader registers it.\<close>

definition elf_task :: "u32 \<Rightarrow> u32 \<Rightarrow> u32 \<Rightarrow> task" where
  "elf_task entry pd kstack = fresh_task (fresh_regs entry 0x23 0x202 (USER_STACK_VIRT + 0xFF0) 0x33) pd (kstack + 4096)"

lemma elf_exec_runs:
  assumes fs: "ext2_ok (kn_fs k)" "disk_ok disk" "holds_dir disk (kn_fs k) 2 xs" "0 \<notin> set name" "length buf = 65536"
    and ino: "dir_lookup xs name = ino" "ino \<noteq> 0" and size: "52 \<le> elf_size disk (kn_fs k) ino"
    and elf: "file = elf_file disk (kn_fs k) ino buf" "elf_magic file" "elf_ok file hs" "e_entry file = Inr entry"
    and ks: "kernel_space (kn_cpu k)" and pm: "pmm_safe (kn_pmm k)"
    and fr: "2 * length (elf_pages hs) + 4 \<le> card (low_frames (kn_pmm k))"
    and sched: "sched_inv (kn_sched k)" "ntasks (kn_sched k) < MAX_TASKS"
  shows "\<exists>k' pd kstack. elf_exec disk name (buf, k) = Inr (file, k') \<and>
    runs_image (mm_mem (kn_cpu k')) pd (insert USER_STACK_VIRT (set (elf_pages hs))) (elf_image file hs) \<and>
    task_pool (kn_sched k') ! ntasks (kn_sched k) = elf_task entry pd kstack \<and>
    ntasks (kn_sched k') = ntasks (kn_sched k) + 1 \<and> sched_inv (kn_sched k') \<and>
    {pd, kstack} \<subseteq> free_addrs (kn_pmm k) - free_addrs (kn_pmm k') \<and> unat kstack < 0x1000000 \<and>
    free_addrs (kn_pmm k') \<subseteq> free_addrs (kn_pmm k) \<and> pmm_safe (kn_pmm k') \<and> kernel_space (kn_cpu k') \<and>
    agree_outside (free_addrs (kn_pmm k)) (mm_mem (kn_cpu k)) (mm_mem (kn_cpu k')) \<and> same_fs (kn_fs k) (kn_fs k') \<and>
    sched_add_task entry 0x23 0x202 (USER_STACK_VIRT + 0xFF0) 0x33 pd (kstack + 4096) (kn_sched k) = Inr (kn_sched k') \<and>
    kn_kb k' = kn_kb k \<and> kn_nodes k' = kn_nodes k"
proof -
  obtain e where e: "same_fs (kn_fs k) e" and run: "elf_exec disk name (buf, k) =
      bindo (proc_alloc_pd (kn_pmm k) (kn_cpu k)) (\<lambda>(pd, s).
       bindo (load_segments file pd s) (\<lambda>s.
       bindo (alloc_user_stack pd s) (\<lambda>(p, c).
       bindo (e_entry file) (\<lambda>entry.
       bindo (sched_add_task entry 0x23 0x202 (USER_STACK_VIRT + 0xFF0) 0x33 pd (fst (pmm_alloc_page p) + 4096) (kn_sched k)) (\<lambda>s.
       Inr (file, k\<lparr>kn_fs := e, kn_pmm := snd (pmm_alloc_page p), kn_cpu := c, kn_sched := s, kn_screen :=
         print (cstr (CHR 0x27 # '' cargado y registrado en el scheduler'') @ [10])
           (print name (print (cstr ''  [OK] ELF: '' @ [0x27]) (kn_screen k)))\<rparr>))))))"
    using elf_exec_read[OF fs ino(1) refl elf(1)] ino(2) size elf(2) by auto
  obtain pd s s' p c where b: "proc_alloc_pd (kn_pmm k) (kn_cpu k) = Inr (pd, s)" "load_segments file pd s = Inr s'"
    "alloc_user_stack pd s' = Inr (p, c)"
    "runs_image (mm_mem c) pd (insert USER_STACK_VIRT (set (elf_pages hs))) (elf_image file hs)" "kernel_space c"
    "agree_outside (free_addrs (kn_pmm k)) (mm_mem (kn_cpu k)) (mm_mem c)" "pmm_safe p" "frame_in_reach p"
    "free_addrs p \<subseteq> free_addrs (kn_pmm k)" "pd \<in> free_addrs (kn_pmm k) - free_addrs p"
    using build_space[OF ks pm elf(3) fr] by blast
  note al = alloc_in_reach[OF b(7,8)]
  define kst where "kst = fst (pmm_alloc_page p)"
  obtain t where t: "sched_add_task entry 0x23 0x202 (USER_STACK_VIRT + 0xFF0) 0x33 pd (kst + 4096) (kn_sched k) = Inr t"
    "task_pool t ! ntasks (kn_sched k) = elf_task entry pd kst" "ntasks t = ntasks (kn_sched k) + 1" "sched_inv t"
    using registers_task[OF sched, of entry "0x23" "0x202" "USER_STACK_VIRT + 0xFF0" "0x33" pd "kst + 4096"]
    by (auto simp: elf_task_def)
  define k' where "k' = k\<lparr>kn_fs := e, kn_pmm := snd (pmm_alloc_page p), kn_cpu := c, kn_sched := t, kn_screen :=
    print (cstr (CHR 0x27 # '' cargado y registrado en el scheduler'') @ [10])
      (print name (print (cstr ''  [OK] ELF: '' @ [0x27]) (kn_screen k)))\<rparr>"
  have "elf_exec disk name (buf, k) = Inr (file, k')"
    unfolding run b(1-3) elf(4) bindo.simps prod.case kst_def[symmetric] t(1) k'_def ..
  then show ?thesis using b(4-6,9,10) t al[folded kst_def] e
    by (intro exI[of _ k'] exI[of _ pd] exI[of _ kst]) (auto simp: k'_def)
qed

section \<open>Properties\<close>

text \<open>C4: Loading a program. When the root directory holds an ELF file whose segments lie inside the first
  64 KB of the file and above the kernel's 16 MB window and need no page twice (\<open>elf_ok\<close>), and enough
  frames below 16 MB are free, \<open>elf_exec\<close> builds an address space in which, above the window, exactly the
  pages of the segments and one zeroed stack page are mapped, all open to ring 3, every byte of them
  holding the file's image and no two of them sharing a frame. The window itself is mapped to itself and
  open to ring 3 too. It registers a task that starts at the file's entry point in that space, and touches
  no memory but frames that were free.\<close>

theorem elf_exec_loads:
  assumes "ext2_ok (kn_fs k)" and "disk_ok disk" and "holds_dir disk (kn_fs k) 2 xs" and "0 \<notin> set name" and "length buf = 65536"
    and "dir_lookup xs name = ino" and "ino \<noteq> 0" and "52 \<le> elf_size disk (kn_fs k) ino"
    and "file = elf_file disk (kn_fs k) ino buf" and "elf_magic file" and "elf_ok file hs" and "e_entry file = Inr entry"
    and "kernel_space (kn_cpu k)" and "pmm_safe (kn_pmm k)"
    and "2 * length (elf_pages hs) + 4 \<le> card (low_frames (kn_pmm k))"
    and "sched_inv (kn_sched k)" and "ntasks (kn_sched k) < MAX_TASKS"
  shows "\<exists>k' pd kstack. elf_exec disk name (buf, k) = Inr (file, k') \<and>
    runs_image (mm_mem (kn_cpu k')) pd (insert USER_STACK_VIRT (set (elf_pages hs))) (elf_image file hs) \<and>
    task_pool (kn_sched k') ! ntasks (kn_sched k) = elf_task entry pd kstack \<and>
    ntasks (kn_sched k') = ntasks (kn_sched k) + 1 \<and> sched_inv (kn_sched k') \<and>
    {pd, kstack} \<subseteq> free_addrs (kn_pmm k) - free_addrs (kn_pmm k') \<and> unat kstack < 0x1000000 \<and>
    free_addrs (kn_pmm k') \<subseteq> free_addrs (kn_pmm k) \<and> pmm_safe (kn_pmm k') \<and> kernel_space (kn_cpu k') \<and>
    agree_outside (free_addrs (kn_pmm k)) (mm_mem (kn_cpu k)) (mm_mem (kn_cpu k')) \<and> same_fs (kn_fs k) (kn_fs k')"
  using elf_exec_runs[OF assms] by blast

text \<open>A disk whose file \<^verbatim>\<open>a\<close> is a program of one segment: four bytes of code and four of BSS.\<close>

definition sample_elf :: "u8 list" where
  "sample_elf = [0x7F, 0x45, 0x4C, 0x46] @ replicate 20 0 @ bytes32 0x40000000 @ bytes32 52 @ replicate 10 0 @
     bytes16 32 @ bytes16 1 @ replicate 6 0 @
     bytes32 1 @ bytes32 84 @ bytes32 0x40000000 @ bytes32 0 @ bytes32 4 @ bytes32 8 @ replicate 8 0 @
     [0x90, 0x90, 0xEB, 0xFE]"

definition elf_disk :: disk where
  "elf_disk l = (if l = 14 then sample_elf @ replicate 424 0 else sample_disk l)"

definition sample_seg :: phdr where
  "sample_seg = \<lparr>p_offset = 84, p_vaddr = 0x40000000, p_filesz = 4, p_memsz = 8\<rparr>"

lemma length_sample_elf: "length sample_elf = 88"
  by (simp add: sample_elf_def bytes32_def bytes16_def)

lemma elf_disk_ok: "disk_ok elf_disk"
  using sample_disk_ok by (simp add: disk_ok_def elf_disk_def length_sample_elf)

lemma elf_disk_blocks:
  "block_data elf_disk sample_fs 5 = block_data sample_disk sample_fs 5"
  "block_data elf_disk sample_fs 6 = block_data sample_disk sample_fs 6"
  "block_data elf_disk sample_fs 7 = sample_elf @ replicate 424 0 @ replicate 512 9"
  by (simp_all add: block_data_def sample_fs_def cold_fs_def bsize_def disk_sector_def elf_disk_def sample_disk_def upt_rec)

lemma elf_disk_inodes: "inode_bytes elf_disk sample_fs 2 = sample_inode 36 6" "inode_bytes elf_disk sample_fs 3 = sample_inode 1100 7"
proof -
  have "inode_block sample_fs 2 = 5" "inode_block sample_fs 3 = 5"
    by (simp_all add: inode_block_def bg_inode_table_def sample_fs_def cold_fs_def le32_def bytes32_def nth_append)
  then have "inode_bytes elf_disk sample_fs n = inode_bytes sample_disk sample_fs n" if "n \<in> {2, 3}" for n
    using that elf_disk_blocks(1) by (auto simp: inode_bytes_def)
  then show "inode_bytes elf_disk sample_fs 2 = sample_inode 36 6" "inode_bytes elf_disk sample_fs 3 = sample_inode 1100 7"
    by (simp_all add: sample_inodes)
qed

lemma elf_disk_dir: "holds_dir elf_disk sample_fs 2 sample_dir"
  using sample_holds_dir unfolding holds_dir_def elf_disk_inodes sample_inodes sample_inode_fields elf_disk_blocks .

definition loaded_file :: "u8 list" where
  "loaded_file = elf_file elf_disk sample_fs 3 (replicate 65536 0)"

lemma sample_elf_size: "elf_size elf_disk sample_fs 3 = 1100"
  by (simp add: elf_size_def elf_disk_inodes sample_inode_fields sample_fs_ok)

lemma length_loaded_file: "length loaded_file = 65536"
  by (simp add: loaded_file_def elf_file_def sample_elf_size)

lemma loaded_file_nth: "i < 88 \<Longrightarrow> loaded_file ! i = sample_elf ! i"
  by (simp add: loaded_file_def elf_file_def sample_elf_size nth_append file_byte_def elf_disk_inodes sample_inode_fields
      sample_fs_ok elf_disk_blocks length_sample_elf)

lemma loaded_file_fields:
  "e_entry loaded_file = Inr 0x40000000" "e_phoff loaded_file = Inr 52" "e_phentsize loaded_file = Inr 32"
  "e_phnum loaded_file = Inr 1" "elf_magic loaded_file" "get_u32 loaded_file 52 = Inr 1" "read_phdr loaded_file 52 = Inr sample_seg"
  by (simp_all add: e_entry_def e_phoff_def e_phentsize_def e_phnum_def elf_magic_def read_phdr_def get_u32_def get_u16_def
      length_loaded_file le32_def le16_def loaded_file_nth sample_elf_def bytes32_def bytes16_def sample_seg_def nth_append)

lemma sample_seg_pages: "elf_pages [Some sample_seg] = [0x40000000]"
  by (simp add: elf_pages_def segs_def seg_pages_def sample_seg_def upt_rec)

lemma loaded_file_ok: "elf_ok loaded_file [Some sample_seg]"
  using sample_seg_pages by (simp add: elf_ok_def length_loaded_file loaded_file_fields segment_at_def segs_def)
    (simp add: seg_ok_def sample_seg_def word_le_nat_alt)

lemma booted_frames: "6 \<le> card (low_frames (pmm_init 0x2000000 pmm_blank))"
proof -
  let ?f = "\<lambda>n. of_nat n * 4096 :: u32"
  have "inj_on ?f {1024..<1030}" by (rule inj_on_inverseI[of _ "\<lambda>w. unat w div 4096"]) (simp add: frame_address)
  then have "card (?f ` {1024..<1030}) = 6" by (simp add: card_image)
  moreover have "?f ` {1024..<1030} \<subseteq> low_frames (pmm_init 0x2000000 pmm_blank)"
    by (auto simp: low_frames_def free_addrs_def pmm_booted managed_pages_def frame_address)
  ultimately show ?thesis using card_mono[OF finite_low_frames] by metis
qed

text \<open>A booted kernel that can load it.\<close>

definition loads_sample :: "kernel \<Rightarrow> bool" where
  "loads_sample k \<longleftrightarrow> kn_fs k = sample_fs \<and> kn_sched k = two_tasks \<and> kernel_space (kn_cpu k) \<and> pmm_safe (kn_pmm k) \<and>
     2 * length (elf_pages [Some sample_seg]) + 4 \<le> card (low_frames (kn_pmm k))"

lemma loads_sample_ex: "\<exists>k. loads_sample k"
proof -
  let ?p = "pmm_init 0x2000000 pmm_blank"
  obtain c where c: "vmm_inv ?p c" "kernel_space c" using booted_vmm by blast
  have "2 * length (elf_pages [Some sample_seg]) + 4 \<le> card (low_frames ?p)" using booted_frames by (simp add: sample_seg_pages)
  then have "loads_sample \<lparr>kn_cpu = c, kn_pmm = ?p, kn_sched = two_tasks, kn_screen = blank_screen, kn_kb = idle_keyboard,
      kn_fs = sample_fs, kn_nodes = blank_pool\<rparr>" using c by (simp add: loads_sample_def vmm_inv_def)
  then show ?thesis by blast
qed

lemma sample_load_facts:
  assumes "loads_sample k"
  shows "ext2_ok (kn_fs k)" "holds_dir elf_disk (kn_fs k) 2 sample_dir" "dir_lookup sample_dir [97] = 3" "52 \<le> elf_size elf_disk (kn_fs k) 3"
    "loaded_file = elf_file elf_disk (kn_fs k) 3 (replicate 65536 0)" "kernel_space (kn_cpu k)" "pmm_safe (kn_pmm k)"
    "2 * length (elf_pages [Some sample_seg]) + 4 \<le> card (low_frames (kn_pmm k))" "sched_inv (kn_sched k)" "ntasks (kn_sched k) = 2"
  using assms sample_fs_ok(1) elf_disk_dir by (simp_all add: loads_sample_def dir_lookup_def sample_dir_def sample_elf_size loaded_file_def two_tasks_state)

lemma sample_code: "elf_image loaded_file [Some sample_seg] 0x40000002 = 0xEB"
proof -
  have "seg_pages sample_seg = [0x40000000]" using sample_seg_pages by (simp add: elf_pages_def segs_def)
  then have "elf_image loaded_file [Some sample_seg] 0x40000002 = seg_byte loaded_file sample_seg 0x40000002"
    by (intro elf_image_seg[OF loaded_file_ok]) (simp_all add: segs_def page_base_def)
  also have "\<dots> = sample_elf ! 86" by (simp add: seg_byte_def sample_seg_def loaded_file_nth)
  also have "\<dots> = 0xEB" by (simp add: sample_elf_def bytes32_def bytes16_def nth_append)
  finally show ?thesis .
qed

theorem elf_exec_loads_witness:
  "\<exists>k k' pd. elf_exec elf_disk [97] (replicate 65536 0, k) = Inr (loaded_file, k') \<and>
     t_cr3 (task_pool (kn_sched k') ! 2) = pd \<and> t_regs (task_pool (kn_sched k') ! 2) ! 8 = 0x40000000 \<and>
     (\<exists>pa. walk (mm_mem (kn_cpu k')) pd 0x40000002 = Some pa \<and> mm_mem (kn_cpu k') pa = 0xEB)"
proof -
  obtain k where "loads_sample k" using loads_sample_ex by blast
  note k = sample_load_facts[OF this]
  have 0: "0 \<notin> set [97 :: u8]" "length (replicate 65536 (0 :: u8)) = 65536" "(3 :: u32) \<noteq> 0" "ntasks (kn_sched k) < MAX_TASKS"
    using k(10) by simp_all
  obtain k' pd kst where r: "elf_exec elf_disk [97] (replicate 65536 0, k) = Inr (loaded_file, k')"
    "runs_image (mm_mem (kn_cpu k')) pd (insert USER_STACK_VIRT (set (elf_pages [Some sample_seg]))) (elf_image loaded_file [Some sample_seg])"
    "task_pool (kn_sched k') ! 2 = elf_task 0x40000000 pd kst"
    using elf_exec_loads[OF k(1) elf_disk_ok k(2) 0(1,2) k(3) 0(3) k(4,5) loaded_file_fields(5) loaded_file_ok loaded_file_fields(1) k(6-9) 0(4)]
    unfolding k(10) by blast
  have "page_base 0x40000002 \<in> insert USER_STACK_VIRT (set (elf_pages [Some sample_seg]))" by (simp add: sample_seg_pages page_base_def)
  then obtain pa where "walk (mm_mem (kn_cpu k')) pd 0x40000002 = Some pa" "mm_mem (kn_cpu k') pa = 0xEB"
    using spec[OF conjunct1[OF r(2)[unfolded runs_image_def]], of "0x40000002"] sample_code by auto
  moreover have "t_cr3 (task_pool (kn_sched k') ! 2) = pd" "t_regs (task_pool (kn_sched k') ! 2) ! 8 = 0x40000000"
    unfolding r(3) by (simp_all add: elf_task_def fresh_task_def fresh_regs_def nth_append)
  ultimately show ?thesis using r(1) by blast
qed

text \<open>What the loader prints when it gives up.\<close>

definition elf_complaint :: "nat \<Rightarrow> u32 \<Rightarrow> u8 list \<Rightarrow> screen \<Rightarrow> screen" where
  "elf_complaint sz ino name d =
     (if ino = 0 then print [10] (print name (print (cstr ''  [!!] ELF: archivo no encontrado: '') d))
      else if sz < 52 then print (cstr ''  [!!] ELF: archivo demasiado pequeno'' @ [10]) d
      else print (cstr ''  [!!] ELF: magic invalido'' @ [10]) d)"

text \<open>C29: A name that is not in the root directory, a file of fewer than 52 bytes and a file without the
  ELF magic are each reported on the screen with their message (the first with the name), and nothing else
  happens: memory, frames, tasks and open files stay as they were, and so does the buffer of the loader
  when there was no file to read.\<close>

theorem elf_exec_rejects:
  assumes "ext2_ok (kn_fs k)" and "disk_ok disk" and "holds_dir disk (kn_fs k) 2 xs" and "0 \<notin> set name" and "length buf = 65536"
    and ino: "ino = dir_lookup xs name" and sz: "sz = elf_size disk (kn_fs k) ino"
    and "ino = 0 \<or> sz < 52 \<or> \<not> elf_magic (elf_file disk (kn_fs k) ino buf)"
  shows "\<exists>e. same_fs (kn_fs k) e \<and> elf_exec disk name (buf, k) = Inr (if ino = 0 then buf else elf_file disk (kn_fs k) ino buf,
    k\<lparr>kn_fs := e, kn_screen := elf_complaint sz ino name (kn_screen k)\<rparr>)"
  using elf_exec_read[OF assms(1-5) ino[symmetric] sz refl] assms(8) by (auto simp: elf_complaint_def)

theorem elf_exec_rejects_witness:
  "\<exists>k buf' e. elf_exec sample_disk [97] (replicate 65536 0, k) =
     Inr (buf', k\<lparr>kn_fs := e, kn_screen := print (cstr ''  [!!] ELF: magic invalido'' @ [10]) (kn_screen k)\<rparr>)"
proof -
  define k where "k = \<lparr>kn_cpu = cold_machine, kn_pmm = pmm_blank, kn_sched = two_tasks, kn_screen = blank_screen, kn_kb = idle_keyboard,
    kn_fs = sample_fs, kn_nodes = blank_pool\<rparr>"
  have f: "kn_fs k = sample_fs" by (simp add: k_def)
  have d: "dir_lookup sample_dir [97] = 3" by (simp add: dir_lookup_def sample_dir_def)
  have n: "0 \<notin> set [97 :: u8]" "length (replicate 65536 (0 :: u8)) = 65536" by simp_all
  have sz: "elf_size sample_disk sample_fs 3 = 1100" by (simp add: elf_size_def sample_inodes sample_inode_fields sample_fs_ok)
  then have "elf_file sample_disk sample_fs 3 (replicate 65536 0) ! 0 = 7"
    by (simp add: elf_file_def nth_append file_byte_def sample_inodes sample_inode_fields sample_fs_ok sample_blocks)
  then have m: "\<not> elf_magic (elf_file sample_disk sample_fs 3 (replicate 65536 0))" by (simp add: elf_magic_def)
  show ?thesis
    using elf_exec_rejects[OF sample_fs_ok(1)[folded f] sample_disk_ok sample_holds_dir[folded f] n refl refl, unfolded f d sz]
    by (auto simp: m elf_complaint_def)
qed

end
