(* ===== verification/Segments.thy ===== *)
theory Segments
  imports Machine Screen
begin

text \<open>
  \<^verbatim>\<open>arch/gdt.c\<close>, \<^verbatim>\<open>arch/idt.c\<close> and \<^verbatim>\<open>arch/tss.c\<close>: the descriptor tables as the kernel's C objects, the
  copies of them in low memory that the processor reads, the registers that point to those copies,
  and the exception handlers. Addresses fixed by the linker (the assembly stubs, \<^verbatim>\<open>ktss\<close>) are
  parameters. The handlers print and then spin: they return the screen beside their outcome.
\<close>

section \<open>Descriptors\<close>

record gdtdesc =
  lim0_15 :: u16
  base0_15 :: u16
  base16_23 :: u8
  acces :: u8
  lim16_19 :: u8
  other :: u8
  base24_31 :: u8

record idtdesc =
  offset0_15 :: u16
  select :: u16
  ty :: u16
  offset16_31 :: u16

text \<open>The bytes of the packed structs; \<^verbatim>\<open>lim16_19\<close> and \<^verbatim>\<open>other\<close> share a byte.\<close>

definition gdt_bytes :: "gdtdesc \<Rightarrow> u8 list" where
  "gdt_bytes d = bytes16 (lim0_15 d) @ bytes16 (base0_15 d) @
     [base16_23 d, acces d, lim16_19 d OR push_bit 4 (other d), base24_31 d]"

definition idt_bytes :: "idtdesc \<Rightarrow> u8 list" where
  "idt_bytes d = bytes16 (offset0_15 d) @ bytes16 (select d) @ bytes16 (ty d) @ bytes16 (offset16_31 d)"

definition init_gdt_desc :: "u32 \<Rightarrow> u32 \<Rightarrow> u8 \<Rightarrow> u8 \<Rightarrow> gdtdesc" where
  "init_gdt_desc base limite ac oth =
     \<lparr>lim0_15 = ucast (limite AND 0x0000FFFF),
      base0_15 = ucast (base AND 0x0000FFFF),
      base16_23 = ucast (drop_bit 16 (base AND 0x00FF0000)),
      acces = ac,
      lim16_19 = ucast (drop_bit 16 (limite AND 0x000F0000)) AND 0x0F,
      other = (oth AND 0x0F) AND 0x0F,
      base24_31 = ucast (drop_bit 24 (base AND 0xFF000000))\<rparr>"

definition init_idt_desc :: "u16 \<Rightarrow> u32 \<Rightarrow> u16 \<Rightarrow> idtdesc" where
  "init_idt_desc sel offset type =
     \<lparr>offset0_15 = ucast (offset AND 0x0000FFFF),
      select = sel,
      ty = type,
      offset16_31 = ucast (drop_bit 16 (offset AND 0xFFFF0000))\<rparr>"

section \<open>The tables\<close>

abbreviation (input) "GDTSIZE \<equiv> (8 :: nat)"
abbreviation (input) "GDTBASE \<equiv> (0x00000D00 :: u32)"
abbreviation (input) "IDTSIZE \<equiv> (256 :: nat)"
abbreviation (input) "IDTBASE \<equiv> (0x00000500 :: u32)"
abbreviation (input) "TSS_SIZE \<equiv> (104 :: nat)"

text \<open>
  The static tables, the processor's table registers and selectors, and the bytes sent to the
  interrupt controllers, in order.
\<close>

record tables =
  kgdt :: "gdtdesc list"
  kgdtr :: "u16 \<times> u32"
  kidt :: "idtdesc list"
  kidtr :: "u16 \<times> u32"
  ktss :: "u8 list"
  r_gdtr :: "u16 \<times> u32"
  r_idtr :: "u16 \<times> u32"
  r_cs :: u16
  r_ds :: u16
  r_tr :: u16
  pic :: "(u16 \<times> u8) list"

definition init_gdt :: "u32 \<Rightarrow> tables \<times> mach \<Rightarrow> (tables \<times> mach) outcome" where
  "init_gdt addr_ktss = (\<lambda>(t, c).
     (let g = kgdt t;
          g = g[0 := init_gdt_desc 0x0 0x0 0x00 0x00];
          g = g[1 := init_gdt_desc 0x0 0xFFFFF 0x9B 0x0D];
          g = g[2 := init_gdt_desc 0x0 0xFFFFF 0x93 0x0D];
          g = g[3 := init_gdt_desc 0x0 0x0 0x97 0x0D];
          g = g[4 := init_gdt_desc 0x0 0xFFFFF 0xFF 0x0D];
          g = g[5 := init_gdt_desc 0x0 0xFFFFF 0xF3 0x0D];
          g = g[6 := init_gdt_desc 0x0 0x0 0xF7 0x0D];
          g = g[7 := init_gdt_desc addr_ktss (of_nat TSS_SIZE) 0x89 0x00];
          t = t\<lparr>kgdt := g, kgdtr := (of_nat (GDTSIZE * 8), GDTBASE)\<rparr>;
          src = concat (map gdt_bytes (kgdt t)) in
      bindo (for_try 0 (unat (fst (kgdtr t))) (\<lambda>i. kst8 (GDTBASE + of_nat i) (src ! i)) c) (\<lambda>c.
      Inr (t\<lparr>r_gdtr := kgdtr t, r_ds := 0x10, r_cs := 0x08\<rparr>, c))))"

text \<open>The assembly entry points the gates lead to.\<close>

datatype stub = IdtDefault | IdtDiv0 | IdtIsr nat | IdtGpf | IdtPagefault | IdtIrq nat | IdtSyscall

definition pic_outb :: "u16 \<Rightarrow> u8 \<Rightarrow> tables \<Rightarrow> tables" where
  "pic_outb port v t = t\<lparr>pic := pic t @ [(port, v)]\<rparr>"

abbreviation (input) "PIC_MASTER_CMD \<equiv> (0x20 :: u16)"
abbreviation (input) "PIC_MASTER_DATA \<equiv> (0x21 :: u16)"
abbreviation (input) "PIC_SLAVE_CMD \<equiv> (0xA0 :: u16)"
abbreviation (input) "PIC_SLAVE_DATA \<equiv> (0xA1 :: u16)"

definition init_idt :: "(stub \<Rightarrow> u32) \<Rightarrow> tables \<times> mach \<Rightarrow> (tables \<times> mach) outcome" where
  "init_idt adr = (\<lambda>(t, c).
     (let t = pic_outb PIC_MASTER_CMD 0x11 t;
          t = pic_outb PIC_MASTER_DATA 0x20 t;
          t = pic_outb PIC_MASTER_DATA 0x04 t;
          t = pic_outb PIC_MASTER_DATA 0x01 t;
          t = pic_outb PIC_SLAVE_CMD 0x11 t;
          t = pic_outb PIC_SLAVE_DATA 0x28 t;
          t = pic_outb PIC_SLAVE_DATA 0x02 t;
          t = pic_outb PIC_SLAVE_DATA 0x01 t;
          t = pic_outb PIC_MASTER_DATA 0xFC t;
          t = pic_outb PIC_SLAVE_DATA 0xFF t;
          g = for_range 0 IDTSIZE (\<lambda>i g. g[i := init_idt_desc 0x08 (adr IdtDefault) 0x8E00]) (kidt t);
          g = g[0 := init_idt_desc 0x08 (adr IdtDiv0) 0x8E00];
          g = g[1 := init_idt_desc 0x08 (adr (IdtIsr 1)) 0x8E00];
          g = g[2 := init_idt_desc 0x08 (adr (IdtIsr 2)) 0x8E00];
          g = g[3 := init_idt_desc 0x08 (adr (IdtIsr 3)) 0x8E00];
          g = g[4 := init_idt_desc 0x08 (adr (IdtIsr 4)) 0x8E00];
          g = g[5 := init_idt_desc 0x08 (adr (IdtIsr 5)) 0x8E00];
          g = g[6 := init_idt_desc 0x08 (adr (IdtIsr 6)) 0x8E00];
          g = g[7 := init_idt_desc 0x08 (adr (IdtIsr 7)) 0x8E00];
          g = g[9 := init_idt_desc 0x08 (adr (IdtIsr 9)) 0x8E00];
          g = g[15 := init_idt_desc 0x08 (adr (IdtIsr 15)) 0x8E00];
          g = g[16 := init_idt_desc 0x08 (adr (IdtIsr 16)) 0x8E00];
          g = g[19 := init_idt_desc 0x08 (adr (IdtIsr 19)) 0x8E00];
          g = g[20 := init_idt_desc 0x08 (adr (IdtIsr 20)) 0x8E00];
          g = g[8 := init_idt_desc 0x08 (adr (IdtIsr 8)) 0x8E00];
          g = g[10 := init_idt_desc 0x08 (adr (IdtIsr 10)) 0x8E00];
          g = g[11 := init_idt_desc 0x08 (adr (IdtIsr 11)) 0x8E00];
          g = g[12 := init_idt_desc 0x08 (adr (IdtIsr 12)) 0x8E00];
          g = g[13 := init_idt_desc 0x08 (adr IdtGpf) 0x8E00];
          g = g[14 := init_idt_desc 0x08 (adr IdtPagefault) 0x8E00];
          g = g[17 := init_idt_desc 0x08 (adr (IdtIsr 17)) 0x8E00];
          g = g[32 := init_idt_desc 0x08 (adr (IdtIrq 0)) 0x8E00];
          g = g[33 := init_idt_desc 0x08 (adr (IdtIrq 1)) 0x8E00];
          g = g[34 := init_idt_desc 0x08 (adr (IdtIrq 2)) 0x8E00];
          g = g[35 := init_idt_desc 0x08 (adr (IdtIrq 3)) 0x8E00];
          g = g[36 := init_idt_desc 0x08 (adr (IdtIrq 4)) 0x8E00];
          g = g[37 := init_idt_desc 0x08 (adr (IdtIrq 5)) 0x8E00];
          g = g[38 := init_idt_desc 0x08 (adr (IdtIrq 6)) 0x8E00];
          g = g[39 := init_idt_desc 0x08 (adr (IdtIrq 7)) 0x8E00];
          g = g[0x30 := init_idt_desc 0x08 (adr IdtSyscall) 0xEF00];
          t = t\<lparr>kidt := g, kidtr := (of_nat (IDTSIZE * 8), IDTBASE)\<rparr>;
          src = concat (map idt_bytes (kidt t)) in
      bindo (for_try 0 (unat (fst (kidtr t))) (\<lambda>j. kst8 (IDTBASE + of_nat j) (src ! j)) c) (\<lambda>c.
      Inr (t\<lparr>r_idtr := kidtr t\<rparr>, c))))"

section \<open>The task state segment\<close>

text \<open>\<^verbatim>\<open>ss0\<close>, \<^verbatim>\<open>esp0\<close> and \<^verbatim>\<open>iomap_base\<close> lie at offsets 8, 4 and 102 of the packed struct.\<close>

definition put_bytes :: "nat \<Rightarrow> u8 list \<Rightarrow> u8 list \<Rightarrow> u8 list" where
  "put_bytes off bs p = take off p @ bs @ drop (off + length bs) p"

definition init_tss :: "u32 \<Rightarrow> tables \<Rightarrow> tables" where
  "init_tss kernel_stack t =
     (let p = for_range 0 TSS_SIZE (\<lambda>i p. p[i := 0]) (ktss t);
          p = put_bytes 8 (bytes16 0x18) p;
          p = put_bytes 4 (bytes32 kernel_stack) p;
          p = put_bytes 102 (bytes16 (of_nat TSS_SIZE)) p
      in t\<lparr>ktss := p\<rparr>)"

section \<open>Exception handlers\<close>

text \<open>\<^verbatim>\<open>for (j = 28; j >= 0; j -= 4)\<close>\<close>

definition print_hex :: "u32 \<Rightarrow> screen \<Rightarrow> screen" where
  "print_hex val d = for_range 0 8 (\<lambda>i d.
     let nibble = ucast (drop_bit (28 - 4 * i) val) AND 0xF :: u8
     in putcar (if nibble < 10 then 0x30 + nibble else 0x41 + nibble - 10) d) d"

definition idt_handler_pagefault :: "u32 \<Rightarrow> u32 \<Rightarrow> u32 \<Rightarrow> u32 \<Rightarrow> screen \<Rightarrow> screen \<times> unit outcome" where
  "idt_handler_pagefault cr2 cr3 error eip d =
     (let faulting_addr = cr2;
          d = set_kattr 0x0C d;
          d = print ([10] @ cstr ''[!] PAGE FAULT addr=0x'') d;
          d = print_hex faulting_addr d;
          d = print (cstr '' eip=0x'') d;
          d = print_hex eip d;
          d = print (cstr '' err=0x'') d;
          d = print_hex error d;
          d = print (if error AND 4 \<noteq> 0 then cstr '' [USER]'' else cstr '' [KERN]'') d;
          d = print ([10] @ cstr ''    cr3=0x'') d;
          d = print_hex cr3 d;
          d = putcar 10 d
      in (d, Inl Halted))"

definition idt_handler_default :: "screen \<Rightarrow> screen \<times> unit outcome" where
  "idt_handler_default d =
     (let d = set_kattr 0x0C d in (print ([10] @ cstr ''[!] Interrupcion no manejada'' @ [10]) d, Inr ()))"

definition idt_handler_gpf :: "u32 \<Rightarrow> screen \<Rightarrow> screen \<times> unit outcome" where
  "idt_handler_gpf error_code d =
     (let d = set_kattr 0x0C d;
          d = print ([10] @ cstr ''[!] GENERAL PROTECTION FAULT  error_code: 0x'') d;
          d = print_hex error_code d;
          d = putcar 10 d
      in (d, Inl Halted))"

definition idt_handler_numbered :: "u32 \<Rightarrow> screen \<Rightarrow> screen \<times> unit outcome" where
  "idt_handler_numbered n d =
     (let d = set_kattr 0x0C d;
          d = print ([10] @ cstr ''[!] EXCEPCION #'') d;
          d = (if n \<ge> 10 then putcar (ucast (0x30 + n div 10)) d else d);
          d = putcar (ucast (0x30 + n mod 10)) d;
          d = putcar 10 d
      in (d, Inl Halted))"

definition idt_handler_div0 :: "screen \<Rightarrow> screen \<times> unit outcome" where
  "idt_handler_div0 d =
     (let d = set_kattr 0x0C d in (print ([10] @ cstr ''[!] EXCEPCION: Division por cero'' @ [10]) d, Inl Halted))"

section \<open>What the processor reads\<close>

definition mem16 :: "mem \<Rightarrow> u32 \<Rightarrow> u16" where
  "mem16 m a = ucast (m a) OR push_bit 8 (ucast (m (a + 1)))"

text \<open>Base, limit, access byte and flags of a segment; selector, offset and type of a gate.\<close>

definition seg_at :: "mem \<Rightarrow> u32 \<Rightarrow> u32 \<times> u32 \<times> u8 \<times> u8" where
  "seg_at m a =
     (ucast (mem16 m (a + 2)) OR push_bit 16 (ucast (m (a + 4))) OR push_bit 24 (ucast (m (a + 7))),
      ucast (mem16 m a) OR push_bit 16 (ucast (m (a + 6) AND 0x0F)), m (a + 5), drop_bit 4 (m (a + 6)))"

definition gate_at :: "mem \<Rightarrow> u32 \<Rightarrow> u16 \<times> u32 \<times> u16" where
  "gate_at m a = (mem16 m (a + 2), ucast (mem16 m a) OR push_bit 16 (ucast (mem16 m (a + 6))), mem16 m (a + 4))"

definition holds_bytes :: "mem \<Rightarrow> u32 \<Rightarrow> u8 list \<Rightarrow> bool" where
  "holds_bytes m a bs \<longleftrightarrow> (\<forall>j<length bs. m (a + of_nat j) = bs ! j)"

lemma holds_bytes_at:
  assumes "holds_bytes m a bs" and "length bs = 8"
  shows "m a = bs ! 0" "m (a + 1) = bs ! 1" "m (a + 2) = bs ! 2" "m (a + 3) = bs ! 3" "m (a + 4) = bs ! 4"
    "m (a + 5) = bs ! 5" "m (a + 6) = bs ! 6" "m (a + 7) = bs ! 7"
proof -
  have h: "m (a + of_nat j) = bs ! j" if "j < 8" for j using assms that by (simp add: holds_bytes_def)
  show "m a = bs ! 0" "m (a + 1) = bs ! 1" "m (a + 2) = bs ! 2" "m (a + 3) = bs ! 3" "m (a + 4) = bs ! 4"
    "m (a + 5) = bs ! 5" "m (a + 6) = bs ! 6" "m (a + 7) = bs ! 7"
    using h[of 0] h[of 1] h[of 2] h[of 3] h[of 4] h[of 5] h[of 6] h[of 7] by simp_all
qed

lemma length_desc_bytes [simp]: "length (gdt_bytes d) = 8" "length (idt_bytes e) = 8"
  by (simp_all add: gdt_bytes_def idt_bytes_def bytes16_def)

lemma word_halves:
  "ucast (ucast (w AND 0x0000FFFF) :: u16) OR push_bit 16 (ucast (ucast (drop_bit 16 (w AND 0xFFFF0000)) :: u16)) = (w :: u32)"
proof (rule bit_word_eqI)
  fix n assume n: "n < LENGTH(32)"
  have m: "(0x0000FFFF :: u32) = mask 16" "(0xFFFF0000 :: u32) = push_bit 16 (mask 16)" by (simp_all add: mask_eq_exp_minus_1 push_bit_eq_mult)
  show "bit (ucast (ucast (w AND 0x0000FFFF) :: u16) OR push_bit 16 (ucast (ucast (drop_bit 16 (w AND 0xFFFF0000)) :: u16)) :: u32) n = bit w n"
    unfolding m using n by (cases "n < 16") (auto simp: bit_simps)
qed

lemma base_parts:
  "ucast (ucast (w AND 0x0000FFFF) :: u16) OR push_bit 16 (ucast (ucast (drop_bit 16 (w AND 0x00FF0000)) :: u8)) OR
   push_bit 24 (ucast (ucast (drop_bit 24 (w AND 0xFF000000)) :: u8)) = (w :: u32)"
proof (rule bit_word_eqI)
  fix n assume n: "n < LENGTH(32)"
  have m: "(0x0000FFFF :: u32) = mask 16" "(0x00FF0000 :: u32) = push_bit 16 (mask 8)" "(0xFF000000 :: u32) = push_bit 24 (mask 8)"
    by (simp_all add: mask_eq_exp_minus_1 push_bit_eq_mult)
  consider "n < 16" | "16 \<le> n" "n < 24" | "24 \<le> n" by linarith
  then show "bit (ucast (ucast (w AND 0x0000FFFF) :: u16) OR push_bit 16 (ucast (ucast (drop_bit 16 (w AND 0x00FF0000)) :: u8)) OR
     push_bit 24 (ucast (ucast (drop_bit 24 (w AND 0xFF000000)) :: u8)) :: u32) n = bit w n"
    unfolding m using n by cases (auto simp: bit_simps)
qed

lemma bit_beyond: "unat (w :: 'a::len word) < 2 ^ k \<Longrightarrow> k \<le> n \<Longrightarrow> \<not> bit w n"
proof -
  assume "unat w < 2 ^ k" "k \<le> n"
  then have "drop_bit n (unat w) = 0" by (simp add: drop_bit_eq_div div_less order_less_le_trans[OF _ power_increasing])
  then have "\<not> bit (unat w) n" by (simp add: bit_iff_odd_drop_bit)
  then show ?thesis by (simp add: bit_unsigned_iff)
qed

lemma limit_parts:
  assumes "unat (w :: u32) < 2 ^ 20"
  shows "ucast (ucast (w AND 0x0000FFFF) :: u16) OR push_bit 16 (ucast (ucast (drop_bit 16 (w AND 0x000F0000)) AND 0x0F :: u8)) = w"
proof (rule bit_word_eqI)
  fix n assume n: "n < LENGTH(32)"
  have m: "(0x0000FFFF :: u32) = mask 16" "(0x000F0000 :: u32) = push_bit 16 (mask 4)" "(0x0F :: u8) = mask 4"
    by (simp_all add: mask_eq_exp_minus_1 push_bit_eq_mult)
  consider "n < 16" | "16 \<le> n" "n < 20" | "20 \<le> n" by linarith
  then show "bit (ucast (ucast (w AND 0x0000FFFF) :: u16) OR push_bit 16 (ucast (ucast (drop_bit 16 (w AND 0x000F0000)) AND 0x0F :: u8)) :: u32) n = bit w n"
    unfolding m using n bit_beyond[OF assms, of n] by cases (auto simp: bit_simps)
qed

lemma nibbles:
  "((x AND 0x0F) OR push_bit 4 (y AND 0x0F)) AND 0x0F = (x AND 0x0F :: u8)"
  "drop_bit 4 ((x AND 0x0F) OR push_bit 4 (y AND 0x0F)) = (y AND 0x0F :: u8)"
proof -
  have m: "(0x0F :: u8) = mask 4" by (simp add: mask_eq_exp_minus_1)
  show "((x AND 0x0F) OR push_bit 4 (y AND 0x0F)) AND 0x0F = (x AND 0x0F :: u8)"
    unfolding m by (rule bit_word_eqI) (auto simp: bit_simps)
  show "drop_bit 4 ((x AND 0x0F) OR push_bit 4 (y AND 0x0F)) = (y AND 0x0F :: u8)"
    unfolding m by (rule bit_word_eqI) (auto simp: bit_simps)
qed

text \<open>Writing a descriptor and reading it back.\<close>

lemma seg_at_desc:
  assumes "holds_bytes m a (gdt_bytes (init_gdt_desc base limite ac oth))" and "unat limite < 2 ^ 20" and "unat oth < 16"
  shows "seg_at m a = (base, limite, ac, oth)"
proof -
  have oth: "oth AND 0x0F = oth"
  proof (rule bit_word_eqI)
    fix n
    have m: "(0x0F :: u8) = mask 4" by (simp add: mask_eq_exp_minus_1)
    show "bit (oth AND 0x0F) n = bit oth n" unfolding m using bit_beyond[of oth 4 n] assms(3)
      by (cases "4 \<le> n") (auto simp: bit_simps dest: bit_imp_le_length)
  qed
  have low: "((x AND 0x0F) OR push_bit 4 oth) AND 0x0F = x AND 0x0F" for x using nibbles(1)[of x oth] by (simp only: oth)
  have high: "drop_bit 4 (push_bit 4 oth) = oth" using nibbles(2)[of 0 oth] by (simp add: oth)
  show ?thesis using holds_bytes_at[OF assms(1) length_desc_bytes(1)] oth
    by (simp add: low high seg_at_def mem16_def gdt_bytes_def init_gdt_desc_def bytes16_def le16_bytes add.assoc
        base_parts[simplified] limit_parts[OF assms(2), simplified] and.assoc)
qed

lemma gate_at_desc:
  assumes "holds_bytes m a (idt_bytes (init_idt_desc sel offset type))"
  shows "gate_at m a = (sel, offset, type)"
  using holds_bytes_at[OF assms length_desc_bytes(2)]
  by (simp add: gate_at_def mem16_def idt_bytes_def init_idt_desc_def bytes16_def le16_bytes add.assoc word_halves[simplified])

lemma concat_nth:
  assumes "\<And>x. length (f x) = n" and "v < length xs" and "j < n"
  shows "concat (map f xs) ! (n * v + j) = f (xs ! v) ! j"
  using concat_entries(2)[of xs f n] assms by simp

lemma length_concat_same: "(\<And>x. length (f x) = n) \<Longrightarrow> length (concat (map f xs)) = n * length xs"
  by (induction xs) simp_all

lemma table_entry:
  assumes len: "\<And>x. length (f x) = (8 :: nat)" and v: "v < length xs" and n: "8 * length xs \<le> 2 ^ 32"
  shows "holds_bytes (patch a (concat (map f xs)) m) (a + of_nat (8 * v)) (f (xs ! v))"
  unfolding holds_bytes_def
proof (intro allI impI)
  fix j assume "j < length (f (xs ! v))"
  then have j: "j < 8" by (simp add: len)
  then have "8 * v + j < length (concat (map f xs))" using v by (simp add: length_concat_same[of f 8] len)
  from patch_nth[OF this, of a m] show "patch a (concat (map f xs)) m (a + of_nat (8 * v) + of_nat j) = f (xs ! v) ! j"
    using n concat_nth[of f 8 v xs j] v j len by (simp add: length_concat_same[of f 8] len add.assoc)
qed

section \<open>The installed tables\<close>

text \<open>Base, limit, access byte and flags that each selector is meant to have.\<close>

definition segments :: "u32 \<Rightarrow> (u32 \<times> u32 \<times> u8 \<times> u8) list" where
  "segments addr_ktss =
     [(0, 0, 0, 0), (0, 0xFFFFF, 0x9B, 0xD), (0, 0xFFFFF, 0x93, 0xD), (0, 0, 0x97, 0xD),
      (0, 0xFFFFF, 0xFF, 0xD), (0, 0xFFFFF, 0xF3, 0xD), (0, 0, 0xF7, 0xD), (addr_ktss, 104, 0x89, 0)]"

definition desc_of :: "u32 \<times> u32 \<times> u8 \<times> u8 \<Rightarrow> gdtdesc" where
  "desc_of = (\<lambda>(base, limite, ac, oth). init_gdt_desc base limite ac oth)"

lemma init_gdt_memory:
  assumes off: "\<not> paging_on c" and len: "length (kgdt t) = 8"
  shows "init_gdt k (t, c) = Inr (t\<lparr>kgdt := map desc_of (segments k), kgdtr := (64, 0xD00), r_gdtr := (64, 0xD00), r_ds := 0x10, r_cs := 0x08\<rparr>,
    c\<lparr>mm_mem := patch 0xD00 (concat (map gdt_bytes (map desc_of (segments k)))) (mm_mem c)\<rparr>)"
proof -
  have g: "xs[0 := a, 1 := b, 2 := cc, 3 := d, 4 := e, 5 := f, 6 := g, 7 := h] = [a, b, cc, d, e, f, g, h]"
    if "length xs = 8" for xs :: "gdtdesc list" and a b cc d e f g h
    using that by (auto simp: length_Suc_conv numeral_eq_Suc)
  have "for_try 0 64 (\<lambda>i. kst8 (0xD00 + of_nat i) (concat (map gdt_bytes (map desc_of (segments k))) ! i)) c =
      Inr (c\<lparr>mm_mem := patch 0xD00 (concat (map gdt_bytes (map desc_of (segments k)))) (mm_mem c)\<rparr>)"
    using off by (intro flat_copy) (simp_all add: segments_def)
  then show ?thesis unfolding init_gdt_def Let_def prod.case g[OF len] by (simp add: segments_def desc_of_def)
qed

text \<open>The stub each vector leads to.\<close>

definition stub_of :: "nat \<Rightarrow> stub" where
  "stub_of v =
     (if v = 0 then IdtDiv0 else if v = 13 then IdtGpf else if v = 14 then IdtPagefault
      else if v \<in> {1..12} \<union> {15, 16, 17, 19, 20} then IdtIsr v
      else if v \<in> {32..39} then IdtIrq (v - 32) else if v = 0x30 then IdtSyscall else IdtDefault)"

definition gate_of :: "(stub \<Rightarrow> u32) \<Rightarrow> nat \<Rightarrow> idtdesc" where
  "gate_of adr v = init_idt_desc 0x08 (adr (stub_of v)) (if v = 0x30 then 0xEF00 else 0x8E00)"

lemma kidt_filled:
  assumes "length g = 256" and "\<And>v. v < 256 \<Longrightarrow> g ! v = gate_of adr v"
  shows "g = map (gate_of adr) [0..<256]"
  using assms by (intro nth_equalityI) simp_all

text \<open>The entries the code sets one by one, after the fill.\<close>

lemma idt_updates:
  "(replicate 256 (init_idt_desc 0x08 (adr IdtDefault) 0x8E00))
    [0 := init_idt_desc 0x08 (adr IdtDiv0) 0x8E00,
     1 := init_idt_desc 0x08 (adr (IdtIsr 1)) 0x8E00,
     2 := init_idt_desc 0x08 (adr (IdtIsr 2)) 0x8E00,
     3 := init_idt_desc 0x08 (adr (IdtIsr 3)) 0x8E00,
     4 := init_idt_desc 0x08 (adr (IdtIsr 4)) 0x8E00,
     5 := init_idt_desc 0x08 (adr (IdtIsr 5)) 0x8E00,
     6 := init_idt_desc 0x08 (adr (IdtIsr 6)) 0x8E00,
     7 := init_idt_desc 0x08 (adr (IdtIsr 7)) 0x8E00,
     9 := init_idt_desc 0x08 (adr (IdtIsr 9)) 0x8E00,
     15 := init_idt_desc 0x08 (adr (IdtIsr 15)) 0x8E00,
     16 := init_idt_desc 0x08 (adr (IdtIsr 16)) 0x8E00,
     19 := init_idt_desc 0x08 (adr (IdtIsr 19)) 0x8E00,
     20 := init_idt_desc 0x08 (adr (IdtIsr 20)) 0x8E00,
     8 := init_idt_desc 0x08 (adr (IdtIsr 8)) 0x8E00,
     10 := init_idt_desc 0x08 (adr (IdtIsr 10)) 0x8E00,
     11 := init_idt_desc 0x08 (adr (IdtIsr 11)) 0x8E00,
     12 := init_idt_desc 0x08 (adr (IdtIsr 12)) 0x8E00,
     13 := init_idt_desc 0x08 (adr IdtGpf) 0x8E00,
     14 := init_idt_desc 0x08 (adr IdtPagefault) 0x8E00,
     17 := init_idt_desc 0x08 (adr (IdtIsr 17)) 0x8E00,
     32 := init_idt_desc 0x08 (adr (IdtIrq 0)) 0x8E00,
     33 := init_idt_desc 0x08 (adr (IdtIrq 1)) 0x8E00,
     34 := init_idt_desc 0x08 (adr (IdtIrq 2)) 0x8E00,
     35 := init_idt_desc 0x08 (adr (IdtIrq 3)) 0x8E00,
     36 := init_idt_desc 0x08 (adr (IdtIrq 4)) 0x8E00,
     37 := init_idt_desc 0x08 (adr (IdtIrq 5)) 0x8E00,
     38 := init_idt_desc 0x08 (adr (IdtIrq 6)) 0x8E00,
     39 := init_idt_desc 0x08 (adr (IdtIrq 7)) 0x8E00,
     0x30 := init_idt_desc 0x08 (adr IdtSyscall) 0xEF00] =
   map (gate_of adr) [0..<256]"
  (is "?g = _")
proof (rule kidt_filled)
  fix v :: nat assume v: "v < 256"
  show "?g ! v = gate_of adr v"
  proof (cases "v < 49")
    case True
    have "\<forall>v \<in> set [0..<49]. ?g ! v = gate_of adr v" by (simp add: upt_rec gate_of_def stub_of_def numeral_2_eq_2[symmetric])
    with True show ?thesis by simp
  next
    case False
    then have "stub_of v = IdtDefault" "v \<noteq> 48" by (auto simp: stub_of_def)
    with v False show ?thesis by (simp add: gate_of_def)
  qed
qed simp

lemma init_idt_memory:
  assumes off: "\<not> paging_on c" and len: "length (kidt t) = 256"
  shows "\<exists>t'. init_idt adr (t, c) =
      Inr (t', c\<lparr>mm_mem := patch 0x500 (concat (map idt_bytes (map (gate_of adr) [0..<256]))) (mm_mem c)\<rparr>) \<and>
    r_idtr t' = (2048, 0x500) \<and> kgdt t' = kgdt t \<and> r_gdtr t' = r_gdtr t \<and> ktss t' = ktss t \<and>
    pic t' = pic t @ [(0x20, 0x11), (0x21, 0x20), (0x21, 0x04), (0x21, 0x01), (0xA0, 0x11), (0xA1, 0x28), (0xA1, 0x02), (0xA1, 0x01),
      (0x21, 0xFC), (0xA1, 0xFF)]"
proof -
  have len8: "length (concat (map idt_bytes (map (gate_of adr) [0..<256]))) = 2048"
    by (subst length_concat_same[of idt_bytes 8]) simp_all
  have copy: "for_try 0 2048 (\<lambda>i. kst8 (0x500 + of_nat i) (concat (map idt_bytes (map (gate_of adr) [0..<256])) ! i)) c =
      Inr (c\<lparr>mm_mem := patch 0x500 (concat (map idt_bytes (map (gate_of adr) [0..<256]))) (mm_mem c)\<rparr>)"
    using off len8 by (intro flat_copy) (simp_all del: map_map)
  have fill: "for_range 0 256 (\<lambda>i g. g[i := init_idt_desc 0x08 (adr IdtDefault) 0x8E00]) (kidt t) =
      replicate 256 (init_idt_desc 0x08 (adr IdtDefault) 0x8E00)" by (rule fill_const[OF len])
  show ?thesis unfolding init_idt_def Let_def prod.case
    by (simp add: pic_outb_def fill idt_updates copy del: map_map upt_Suc One_nat_def)
qed

lemma length_segments [simp]: "length (segments k) = 8"
  by (simp add: segments_def)

lemma seg_at_table:
  assumes "i < 8"
  shows "seg_at (patch a (concat (map gdt_bytes (map desc_of (segments k)))) m) (a + of_nat (8 * i)) = segments k ! i"
proof -
  obtain base limite ac oth where e: "segments k ! i = (base, limite, ac, oth)" by (cases "segments k ! i")
  have "\<forall>x \<in> set (segments k). unat (fst (snd x)) < 2 ^ 20 \<and> unat (snd (snd (snd x))) < 16" by (simp add: segments_def)
  then have b: "unat limite < 2 ^ 20" "unat oth < 16" using nth_mem[of i "segments k"] assms by (auto simp: e)
  have "holds_bytes (patch a (concat (map gdt_bytes (map desc_of (segments k)))) m) (a + of_nat (8 * i)) (gdt_bytes (init_gdt_desc base limite ac oth))"
    using table_entry[of gdt_bytes i "map desc_of (segments k)" a m] assms e by (simp add: desc_of_def del: map_map)
  from seg_at_desc[OF this b] e show ?thesis by simp
qed

lemma gate_at_table:
  assumes "v < 256"
  shows "gate_at (patch a (concat (map idt_bytes (map (gate_of adr) [0..<256]))) m) (a + of_nat (8 * v)) =
    (0x08, adr (stub_of v), if v = 0x30 then 0xEF00 else 0x8E00)"
  using table_entry[of idt_bytes v "map (gate_of adr) [0..<256]" a m] assms
  by (intro gate_at_desc) (simp add: gate_of_def del: map_map)

lemma patch_table_outside:
  assumes "\<And>x. length (f x) = (8 :: nat)" and "length xs = n" and "\<not> (unat a \<le> unat y \<and> unat y < unat a + 8 * n)"
    and "unat a + 8 * n \<le> 2 ^ 32"
  shows "patch a (concat (map f xs)) m y = m y"
proof (rule patch_outside)
  show "length (concat (map f xs)) \<le> unat (y - a)"
    using assms unat_sub_if'[of y a] by (auto simp: length_concat_same[of f 8])
qed

lemma seg_at_cong: "(\<And>j. j < 8 \<Longrightarrow> m' (a + of_nat j) = m (a + of_nat j)) \<Longrightarrow> seg_at m' a = seg_at m a"
proof -
  assume e: "\<And>j. j < 8 \<Longrightarrow> m' (a + of_nat j) = m (a + of_nat j)"
  show ?thesis using e[of 0] e[of 1] e[of 2] e[of 3] e[of 4] e[of 5] e[of 6] e[of 7]
    by (simp add: seg_at_def mem16_def add.assoc)
qed

lemma gate_at_cong: "(\<And>j. j < 8 \<Longrightarrow> m' (a + of_nat j) = m (a + of_nat j)) \<Longrightarrow> gate_at m' a = gate_at m a"
proof -
  assume e: "\<And>j. j < 8 \<Longrightarrow> m' (a + of_nat j) = m (a + of_nat j)"
  show ?thesis using e[of 0] e[of 1] e[of 2] e[of 3] e[of 4] e[of 5] e[of 6] e[of 7]
    by (simp add: gate_at_def mem16_def add.assoc)
qed

text \<open>Both tables in place, as \<^verbatim>\<open>_start\<close> and \<^verbatim>\<open>kmain\<close> install them.\<close>

lemma tables_installed:
  assumes off: "\<not> paging_on c" and len: "length (kgdt t) = 8" "length (kidt t) = 256"
  shows "\<exists>t1 c1 t2 m. init_gdt k (t, c) = Inr (t1, c1) \<and> init_idt adr (t1, c1) = Inr (t2, c\<lparr>mm_mem := m\<rparr>) \<and>
    r_gdtr t2 = (64, 0xD00) \<and> r_idtr t2 = (2048, 0x500) \<and> ktss t2 = ktss t \<and>
    (\<forall>i<8. seg_at m (0xD00 + of_nat (8 * i)) = segments k ! i) \<and>
    (\<forall>v<256. gate_at m (0x500 + of_nat (8 * v)) = (0x08, adr (stub_of v), if v = 0x30 then 0xEF00 else 0x8E00)) \<and>
    (\<forall>a. \<not> (0x500 \<le> unat a \<and> unat a < 0xD40) \<longrightarrow> m a = mm_mem c a)"
proof -
  let ?g = "concat (map gdt_bytes (map desc_of (segments k)))" and ?i = "concat (map idt_bytes (map (gate_of adr) [0..<256]))"
  let ?t1 = "t\<lparr>kgdt := map desc_of (segments k), kgdtr := (64, 0xD00), r_gdtr := (64, 0xD00), r_ds := 0x10, r_cs := 0x08\<rparr>"
  define m1 where "m1 = patch 0xD00 ?g (mm_mem c)"
  define m where "m = patch 0x500 ?i m1"
  have 1: "init_gdt k (t, c) = Inr (?t1, c\<lparr>mm_mem := m1\<rparr>)" using init_gdt_memory[OF off len(1)] by (simp add: m1_def)
  have "\<not> paging_on (c\<lparr>mm_mem := m1\<rparr>)" "length (kidt ?t1) = 256" using off len by (simp_all add: paging_on_def)
  from init_idt_memory[OF this] obtain t2 where 2: "init_idt adr (?t1, c\<lparr>mm_mem := m1\<rparr>) = Inr (t2, c\<lparr>mm_mem := m\<rparr>)"
    "r_idtr t2 = (2048, 0x500)" "r_gdtr t2 = (64, 0xD00)" "ktss t2 = ktss t" by (auto simp: m_def)
  have out: "m a = m1 a" if "\<not> (0x500 \<le> unat a \<and> unat a < 0xD00)" for a
    unfolding m_def by (rule patch_table_outside[where n = 256]) (use that in simp_all)
  have out1: "m1 a = mm_mem c a" if "\<not> (0xD00 \<le> unat a \<and> unat a < 0xD40)" for a
    unfolding m1_def by (rule patch_table_outside[where n = 8]) (use that in simp_all)
  have "seg_at m (0xD00 + of_nat (8 * i)) = segments k ! i" if i: "i < 8" for i
  proof -
    have "m (0xD00 + of_nat (8 * i) + of_nat j) = m1 (0xD00 + of_nat (8 * i) + of_nat j)" if "j < 8" for j
    proof (rule out)
      have "unat (of_nat (0xD00 + 8 * i + j) :: u32) = 0xD00 + 8 * i + j" by (rule unat_of_nat_lt) (use i that in simp)
      then have "unat ((0xD00 :: u32) + of_nat (8 * i) + of_nat j) = 0xD00 + 8 * i + j" by simp
      then show "\<not> (0x500 \<le> unat ((0xD00 :: u32) + of_nat (8 * i) + of_nat j) \<and> unat ((0xD00 :: u32) + of_nat (8 * i) + of_nat j) < 0xD00)" by simp
    qed
    then have "seg_at m (0xD00 + of_nat (8 * i)) = seg_at m1 (0xD00 + of_nat (8 * i))" by (rule seg_at_cong)
    then show ?thesis using seg_at_table[OF i, of "0xD00" k "mm_mem c"] by (simp only: m1_def)
  qed
  moreover have "gate_at m (0x500 + of_nat (8 * v)) = (0x08, adr (stub_of v), if v = 0x30 then 0xEF00 else 0x8E00)" if "v < 256" for v
    using gate_at_table[OF that] by (simp only: m_def)
  moreover have "m a = mm_mem c a" if "\<not> (0x500 \<le> unat a \<and> unat a < 0xD40)" for a
    using out[of a] out1[of a] that by auto
  ultimately show ?thesis using 1 2 by blast
qed

text \<open>The fields of the task state segment, and nothing else.\<close>

lemma init_tss_fields:
  assumes "length (ktss t) = 104"
  shows "init_tss st t = t\<lparr>ktss := replicate 4 0 @ bytes32 st @ bytes16 0x18 @ replicate 92 0 @ bytes16 104\<rparr>"
    and "le32 (ktss (init_tss st t)) 4 = st" and "length (ktss (init_tss st t)) = 104"
proof -
  have r: "replicate 104 (0 :: u8) = replicate 4 0 @ replicate 4 0 @ replicate 2 0 @ replicate 92 0 @ replicate 2 0"
    by (simp flip: replicate_add)
  show e: "init_tss st t = t\<lparr>ktss := replicate 4 0 @ bytes32 st @ bytes16 0x18 @ replicate 92 0 @ bytes16 104\<rparr>"
    unfolding init_tss_def Let_def fill_const[OF assms] unfolding r by (simp add: put_bytes_def bytes16_def bytes32_def)
  show "le32 (ktss (init_tss st t)) 4 = st" unfolding e by (simp add: le32_def bytes32_def nth_append le32_bytes)
  show "length (ktss (init_tss st t)) = 104" unfolding e by (simp add: bytes32_def bytes16_def)
qed

section \<open>Hexadecimal output\<close>

definition hex_char :: "nat \<Rightarrow> u8" where
  "hex_char d = of_nat (if d < 10 then 48 + d else 55 + d)"

definition hex_digits :: "u32 \<Rightarrow> u8 list" where
  "hex_digits w = map (\<lambda>i. hex_char (unat w div 16 ^ (7 - i) mod 16)) [0..<8]"

definition hex_value :: "u8 list \<Rightarrow> nat" where
  "hex_value s = foldl (\<lambda>n ch. 16 * n + (if ch \<le> 57 then unat ch - 48 else unat ch - 55)) 0 s"

lemma unat_hex_char: "d < 16 \<Longrightarrow> unat (hex_char d) = (if d < 10 then 48 + d else 55 + d)"
  unfolding hex_char_def by (rule unat_of_nat_lt) simp

lemma hex_char_range: "d < 16 \<Longrightarrow> hex_char d \<in> {48..57} \<union> {65..70}"
  by (auto simp: word_le_nat_alt unat_hex_char)

lemma hex_char_value: "d < 16 \<Longrightarrow> (if hex_char d \<le> 57 then unat (hex_char d) - 48 else unat (hex_char d) - 55) = d"
  by (simp add: word_le_nat_alt unat_hex_char)

lemma hex_digits_range: "set (hex_digits w) \<subseteq> {48..57} \<union> {65..70}"
proof -
  have "hex_char (n mod 16) \<in> {48..57} \<union> {65..70}" for n by (rule hex_char_range) simp
  then show ?thesis unfolding hex_digits_def set_map by (intro image_subsetI)
qed

lemma hex_digits_nonzero: "0 \<notin> set (hex_digits w)"
proof
  assume "0 \<in> set (hex_digits w)"
  then have "(0 :: u8) \<in> {48..57} \<union> {65..70}" using hex_digits_range by blast
  then show False by (simp add: word_le_nat_alt)
qed

lemma hex_digit:
  fixes w :: u32
  assumes "i < 8"
  defines "nibble \<equiv> ucast (drop_bit (28 - 4 * i) w) AND 0xF :: u8"
  shows "(if nibble < 10 then 0x30 + nibble else 0x41 + nibble - 10) = hex_char (unat w div 16 ^ (7 - i) mod 16)"
proof -
  let ?d = "unat w div 16 ^ (7 - i) mod 16"
  have m: "(0xF :: u8) = mask 4" by (simp add: mask_eq_exp_minus_1)
  have "nibble = take_bit 4 (ucast (drop_bit (28 - 4 * i) w))" unfolding nibble_def m take_bit_eq_mask ..
  then have "unat nibble = take_bit 4 (take_bit 8 (unat (drop_bit (28 - 4 * i) w)))"
    by (simp only: unsigned_take_bit_eq unsigned_ucast_eq) simp
  then have "unat nibble = unat (drop_bit (28 - 4 * i) w) mod 16" by (simp add: take_bit_eq_mod mod_mod_cancel)
  moreover have "(2 :: nat) ^ (28 - 4 * i) = 16 ^ (7 - i)"
    using assms(1) power_mult[of "2 :: nat" 4 "7 - i"] by (simp add: diff_mult_distrib2)
  moreover have "unat (drop_bit k w) = unat w div 2 ^ k" for k
    by (simp only: unat_drop_bit_eq) (simp only: drop_bit_eq_div)
  ultimately have n: "unat nibble = ?d" by simp
  have "nibble < 10 \<longleftrightarrow> ?d < 10" using n by (simp add: word_less_nat_alt)
  moreover have "nibble = of_nat ?d" unfolding n[symmetric] by simp
  ultimately show ?thesis by (cases "?d < 10") (simp_all add: hex_char_def)
qed

lemma print_fold: "0 \<notin> set s \<Longrightarrow> print s d = fold putcar s d"
  by (induction s arbitrary: d) auto

lemma fold_putcar_cong: "(\<And>i. i \<in> set xs \<Longrightarrow> f i = g i) \<Longrightarrow> fold (\<lambda>i. putcar (f i)) xs d = fold putcar (map g xs) d"
  by (induction xs arbitrary: d) auto

lemma print_hex_digits: "print_hex w d = print (hex_digits w) d"
proof -
  have "print_hex w d = fold putcar (hex_digits w) d"
    unfolding print_hex_def for_range_def hex_digits_def Let_def
    by (rule fold_putcar_cong) (use hex_digit[of _ w] in simp)
  then show ?thesis by (simp add: print_fold hex_digits_nonzero)
qed

lemma hex_value_digits: "hex_value (hex_digits w) = unat w"
proof -
  let ?D = "\<lambda>i. unat w div 16 ^ (7 - i) mod 16"
  have "foldl (\<lambda>n ch. 16 * n + (if ch \<le> 57 then unat ch - 48 else unat ch - 55)) 0
      (map (\<lambda>i. hex_char (?D i)) [0..<k]) = unat w div 16 ^ (8 - k)"
    if "k \<le> 8" for k using that
  proof (induction k)
    case 0
    then show ?case using unat_lt32[of w] by simp
  next
    case (Suc k)
    then have "8 - k = Suc (7 - k)" by simp
    then have "unat w div 16 ^ (8 - k) = unat w div 16 ^ (7 - k) div 16"
      by (simp only: power_Suc2 div_mult2_eq)
    with Suc hex_char_value[of "?D k"] show ?case by simp
  qed
  from this[of 8] show ?thesis by (simp add: hex_value_def hex_digits_def)
qed

section \<open>Properties\<close>

text \<open>A segment descriptor packed by \<open>init_gdt_desc\<close> and laid out in memory is read back by the
  processor with exactly the base, the limit of up to 20 bits, the access byte and the four flags
  it was made from.\<close>

theorem gdt_desc_roundtrip:
  assumes "holds_bytes m a (gdt_bytes (init_gdt_desc base limite ac oth))" and "unat limite < 2 ^ 20" and "unat oth < 16"
  shows "seg_at m a = (base, limite, ac, oth)"
  using seg_at_desc[OF assms] .

theorem gdt_desc_roundtrip_witness:
  "seg_at (patch 0x100 (gdt_bytes (init_gdt_desc 0x12345678 0xABCDE 0x9B 0xD)) (\<lambda>_. 0)) 0x100 = (0x12345678, 0xABCDE, 0x9B, 0xD)"
  by (rule gdt_desc_roundtrip) (simp_all add: holds_bytes_def patch_def)

text \<open>The order of \<^verbatim>\<open>_start\<close> and \<^verbatim>\<open>kmain\<close> leaves both tables intact: after \<open>init_gdt\<close> and \<open>init_idt\<close>
  the eight segments the processor finds behind GDTR are the intended ones, each of the 256 gates
  behind IDTR leads to its stub in the kernel's code segment, and memory outside 0x500-0xD3F is
  untouched.\<close>

theorem descriptor_tables_installed:
  assumes "\<not> paging_on c" and "length (kgdt t) = 8" and "length (kidt t) = 256"
  shows "\<exists>t1 c1 t2 m. init_gdt k (t, c) = Inr (t1, c1) \<and> init_idt adr (t1, c1) = Inr (t2, c\<lparr>mm_mem := m\<rparr>) \<and>
    (\<forall>i<8. seg_at m (snd (r_gdtr t2) + of_nat (8 * i)) = segments k ! i) \<and>
    (\<forall>v<256. gate_at m (snd (r_idtr t2) + of_nat (8 * v)) = (0x08, adr (stub_of v), if v = 0x30 then 0xEF00 else 0x8E00)) \<and>
    (\<forall>a. \<not> (0x500 \<le> unat a \<and> unat a < 0xD40) \<longrightarrow> m a = mm_mem c a)"
proof -
  obtain t1 c1 t2 m where r: "init_gdt k (t, c) = Inr (t1, c1)" "init_idt adr (t1, c1) = Inr (t2, c\<lparr>mm_mem := m\<rparr>)"
    "r_gdtr t2 = (64, 0xD00)" "r_idtr t2 = (2048, 0x500)" "\<forall>i<8. seg_at m (0xD00 + of_nat (8 * i)) = segments k ! i"
    "\<forall>v<256. gate_at m (0x500 + of_nat (8 * v)) = (0x08, adr (stub_of v), if v = 0x30 then 0xEF00 else 0x8E00)"
    "\<forall>a. \<not> (0x500 \<le> unat a \<and> unat a < 0xD40) \<longrightarrow> m a = mm_mem c a"
    using tables_installed[OF assms] by blast
  then show ?thesis by (intro exI[of _ t1] exI[of _ c1] exI[of _ t2] exI[of _ m]) simp
qed

definition cold_tables :: tables where
  "cold_tables = \<lparr>kgdt = replicate 8 (init_gdt_desc 0 0 0 0), kgdtr = (0, 0), kidt = replicate 256 (init_idt_desc 0 0 0), kidtr = (0, 0),
     ktss = replicate 104 0, r_gdtr = (0, 0), r_idtr = (0, 0), r_cs = 0, r_ds = 0, r_tr = 0, pic = []\<rparr>"

theorem descriptor_tables_installed_witness:
  "\<exists>t1 c1 t2 m. init_gdt 0x5000 (cold_tables, cold_machine) = Inr (t1, c1) \<and>
     init_idt (\<lambda>s. if s = IdtSyscall then 0x1234 else 0) (t1, c1) = Inr (t2, cold_machine\<lparr>mm_mem := m\<rparr>) \<and>
     gate_at m (snd (r_idtr t2) + of_nat (8 * 48)) = (8, 0x1234, 0xEF00)"
proof -
  note cold_machine_flat
  moreover have "length (kgdt cold_tables) = 8" "length (kidt cold_tables) = 256" by (simp_all add: cold_tables_def)
  ultimately obtain t1 c1 t2 m where r: "init_gdt 0x5000 (cold_tables, cold_machine) = Inr (t1, c1)"
    "init_idt (\<lambda>s. if s = IdtSyscall then 0x1234 else 0) (t1, c1) = Inr (t2, cold_machine\<lparr>mm_mem := m\<rparr>)"
    "\<forall>v<256. gate_at m (snd (r_idtr t2) + of_nat (8 * v)) =
       (0x08, if stub_of v = IdtSyscall then 0x1234 else 0, if v = 0x30 then 0xEF00 else 0x8E00)"
    using descriptor_tables_installed[where c = cold_machine and t = cold_tables and k = "0x5000" and adr = "\<lambda>s. if s = IdtSyscall then 0x1234 else 0"] by blast
  moreover have "stub_of 48 = IdtSyscall" by (simp add: stub_of_def)
  ultimately show ?thesis using r(3)[rule_format, of 48] by (intro exI[of _ t1] exI[of _ c1] exI[of _ t2] exI[of _ m]) simp
qed

text \<open>Software interrupts that ring 3 may raise: a present gate of privilege level 3.\<close>

definition ring3_gate :: "mem \<Rightarrow> u32 \<Rightarrow> nat \<Rightarrow> bool" where
  "ring3_gate m base v = (let (_, _, type) = gate_at m (base + of_nat (8 * v)) in bit type 15 \<and> drop_bit 13 type AND 3 = 3)"

text \<open>C30: Once \<open>init_idt\<close> has run, the only interrupt that a program in ring 3 may raise by an INT
  instruction is 0x30, and its gate leads to the system call stub; every other vector of the table,
  the exceptions and the timer included, is closed to it.\<close>

theorem idt_only_syscall_open:
  assumes "\<not> paging_on c" and "length (kidt t) = 256"
  shows "\<exists>t' m. init_idt adr (t, c) = Inr (t', c\<lparr>mm_mem := m\<rparr>) \<and>
    (\<forall>v<256. ring3_gate m (snd (r_idtr t')) v \<longleftrightarrow> v = 0x30) \<and>
    fst (snd (gate_at m (snd (r_idtr t') + 0x180))) = adr IdtSyscall"
proof -
  obtain t' where t': "init_idt adr (t, c) =
      Inr (t', c\<lparr>mm_mem := patch 0x500 (concat (map idt_bytes (map (gate_of adr) [0..<256]))) (mm_mem c)\<rparr>)" "r_idtr t' = (2048, 0x500)"
    using init_idt_memory[OF assms] by blast
  let ?m = "patch 0x500 (concat (map idt_bytes (map (gate_of adr) [0..<256]))) (mm_mem c)"
  have "ring3_gate ?m 0x500 v \<longleftrightarrow> v = 0x30" if "v < 256" for v
    unfolding ring3_gate_def gate_at_table[OF that] by (simp add: bit_simps drop_bit_eq_div)
  moreover have "gate_at ?m (0x500 + 0x180) = (0x08, adr IdtSyscall, 0xEF00)"
    using gate_at_table[where v = 48 and adr = adr and a = "0x500" and m = "mm_mem c"] by (simp add: stub_of_def)
  ultimately show ?thesis using t' by (intro exI[of _ t'] exI[of _ ?m]) simp
qed

theorem idt_only_syscall_open_witness:
  "\<exists>t' m. init_idt (\<lambda>s. if s = IdtSyscall then 0x1234 else 0) (cold_tables, cold_machine) = Inr (t', cold_machine\<lparr>mm_mem := m\<rparr>) \<and>
     ring3_gate m (snd (r_idtr t')) 48 \<and> \<not> ring3_gate m (snd (r_idtr t')) 32"
proof -
  have "length (kidt cold_tables) = 256" by (simp add: cold_tables_def)
  from idt_only_syscall_open[OF cold_machine_flat this, of "\<lambda>s. if s = IdtSyscall then 0x1234 else 0"] obtain t' m where
    r: "init_idt (\<lambda>s. if s = IdtSyscall then 0x1234 else 0) (cold_tables, cold_machine) = Inr (t', cold_machine\<lparr>mm_mem := m\<rparr>)"
    "\<forall>v<256. ring3_gate m (snd (r_idtr t')) v \<longleftrightarrow> v = 0x30" by blast
  from r(2) have "ring3_gate m (snd (r_idtr t')) 48" "\<not> ring3_gate m (snd (r_idtr t')) 32" by simp_all
  with r(1) show ?thesis by blast
qed

text \<open>The fault reports show the values they are given: \<open>print_hex\<close> prints eight hexadecimal
  digits, and reading them back gives the number.\<close>

theorem print_hex_reads_back:
  "\<exists>s. print_hex w d = print s d \<and> length s = 8 \<and> hex_value s = unat w \<and> set s \<subseteq> {48..57} \<union> {65..70}"
  by (intro exI[of _ "hex_digits w"] conjI print_hex_digits hex_value_digits hex_digits_range) (simp add: hex_digits_def)

end
