(* ===== verification/CString.thy ===== *)
theory CString
  imports Syscall "HOL-Library.List_Lexorder"
begin

text \<open>
  \<^verbatim>\<open>lib/string.c\<close>: the string and block routines on the machine's memory. A scan that finds no null
  byte in the whole address space repeats itself for ever; a copy of a string may run for ever when
  source and destination overlap, so it is a partial function.
\<close>

section \<open>Scanning and comparing\<close>

function kstrlen_from :: "mach \<Rightarrow> u32 \<Rightarrow> nat \<Rightarrow> u32 outcome" where
  "kstrlen_from c s n =
     (if n < 2 ^ 32 then bindo (kld8 (s + of_nat n) c) (\<lambda>v. if v \<noteq> 0 then kstrlen_from c s (n + 1) else Inr (of_nat n))
      else Inl Halted)"
  by pat_completeness auto
termination
  by (relation "measure (\<lambda>(c, s, n). 2 ^ 32 - n)") auto

definition kstrlen :: "mach \<Rightarrow> u32 \<Rightarrow> u32 outcome" where
  "kstrlen c s = kstrlen_from c s 0"

definition char_diff :: "mach \<Rightarrow> u32 \<Rightarrow> u32 \<Rightarrow> int outcome" where
  "char_diff c s t = bindo (kld8 s c) (\<lambda>x. bindo (kld8 t c) (\<lambda>y. Inr (uint x - uint y)))"

text \<open>\<^verbatim>\<open>*s && *t && *s == *t\<close>\<close>

definition same_char :: "mach \<Rightarrow> u32 \<Rightarrow> u32 \<Rightarrow> bool outcome" where
  "same_char c s t =
     bindo (kld8 s c) (\<lambda>x. if x = 0 then Inr False
     else bindo (kld8 t c) (\<lambda>y. if y = 0 then Inr False else Inr (x = y)))"

function kstrcmp_from :: "mach \<Rightarrow> u32 \<Rightarrow> u32 \<Rightarrow> nat \<Rightarrow> int outcome" where
  "kstrcmp_from c s t n =
     (if n < 2 ^ 32
      then bindo (same_char c (s + of_nat n) (t + of_nat n)) (\<lambda>b.
        if b then kstrcmp_from c s t (n + 1) else char_diff c (s + of_nat n) (t + of_nat n))
      else Inl Halted)"
  by pat_completeness auto
termination
  by (relation "measure (\<lambda>(c, s, t, n). 2 ^ 32 - n)") auto

definition kstrcmp :: "mach \<Rightarrow> u32 \<Rightarrow> u32 \<Rightarrow> int outcome" where
  "kstrcmp c s t = kstrcmp_from c s t 0"

fun kstrncmp_from :: "mach \<Rightarrow> u32 \<Rightarrow> u32 \<Rightarrow> nat \<Rightarrow> int outcome" where
  "kstrncmp_from c s t 0 = Inr 0"
| "kstrncmp_from c s t (Suc n) =
     bindo (same_char c s t) (\<lambda>b. if b then kstrncmp_from c (s + 1) (t + 1) n else char_diff c s t)"

definition kstrncmp :: "mach \<Rightarrow> u32 \<Rightarrow> u32 \<Rightarrow> u32 \<Rightarrow> int outcome" where
  "kstrncmp c s t n = kstrncmp_from c s t (unat n)"

section \<open>Copying\<close>

partial_function (option) kstrcpy_from :: "u32 \<Rightarrow> u32 \<Rightarrow> mach \<Rightarrow> mach outcome option" where
  "kstrcpy_from d s c =
     (case kld8 s c of Inl x \<Rightarrow> Some (Inl x)
      | Inr v \<Rightarrow>
        (case kst8 d v c of Inl x \<Rightarrow> Some (Inl x)
         | Inr c \<Rightarrow> if v \<noteq> 0 then kstrcpy_from (d + 1) (s + 1) c else Some (Inr c)))"

definition kstrcpy :: "u32 \<Rightarrow> u32 \<Rightarrow> mach \<Rightarrow> (u32 \<times> mach) outcome option" where
  "kstrcpy dst src c = map_option (\<lambda>r. bindo r (\<lambda>c. Inr (dst, c))) (kstrcpy_from dst src c)"

definition kmemset :: "u32 \<Rightarrow> int \<Rightarrow> u32 \<Rightarrow> mach \<Rightarrow> (u32 \<times> mach) outcome" where
  "kmemset dst v n c =
     bindo (for_try 0 (unat n) (\<lambda>i. kst8 (dst + of_nat i) (word_of_int v)) c) (\<lambda>c. Inr (dst, c))"

definition kmemcpy :: "u32 \<Rightarrow> u32 \<Rightarrow> u32 \<Rightarrow> mach \<Rightarrow> (u32 \<times> mach) outcome" where
  "kmemcpy dst src n c =
     bindo (for_try 0 (unat n) (\<lambda>i c. bindo (kld8 (src + of_nat i) c) (\<lambda>v. kst8 (dst + of_nat i) v c)) c) (\<lambda>c. Inr (dst, c))"

declare kstrlen_from.simps [simp del] kstrcmp_from.simps [simp del]

section \<open>Strings in memory\<close>

abbreviation str_at :: "mach \<Rightarrow> u32 \<Rightarrow> u8 list \<Rightarrow> bool" where
  "str_at c a s \<equiv> names (user_ptr c a) s"

lemma str_at_iff: "str_at c a s \<longleftrightarrow> 0 \<notin> set s \<and> (\<forall>i<length s. kld8 (a + of_nat i) c = Inr (s ! i)) \<and> kld8 (a + of_nat (length s)) c = Inr 0"
  by (simp add: names_def user_ptr_def)

lemma str_at_read: "str_at c a s \<Longrightarrow> i \<le> length s \<Longrightarrow> kld8 (a + of_nat i) c = Inr ((s @ [0]) ! i)"
  by (auto simp: str_at_iff nth_append le_less)

lemma str_at_Cons: "str_at c a (x # s) \<longleftrightarrow> x \<noteq> 0 \<and> kld8 a c = Inr x \<and> str_at c (a + 1) s"
  by (auto simp: str_at_iff less_Suc_eq_0_disj algebra_simps)

lemma str_at_Nil: "str_at c a [] \<longleftrightarrow> kld8 a c = Inr 0"
  by (simp add: str_at_iff)

text \<open>A null-terminated string is shorter than the address space.\<close>

lemma str_at_length:
  assumes "str_at c a s"
  shows "length s < 2 ^ 32"
proof (rule ccontr)
  assume "\<not> length s < 2 ^ 32"
  then obtain i where i: "length s = 2 ^ 32 + i" by (metis le_iff_add not_less)
  have "(of_nat (2 ^ 32) :: u32) = 0" by simp
  then have "(of_nat (length s) :: u32) = of_nat i" by (simp only: i of_nat_add) simp
  moreover have "i < length s" by (simp add: i)
  ultimately have "Inr (s ! i) = (Inr 0 :: u8 outcome)" using assms by (metis str_at_iff)
  with \<open>i < length s\<close> assms show False by (metis nth_mem str_at_iff sum.inject(2))
qed

lemma kstrlen_at: "str_at c a s \<Longrightarrow> n \<le> length s \<Longrightarrow> kstrlen_from c a n = Inr (of_nat (length s))"
proof (induction "length s - n" arbitrary: n)
  case 0
  then show ?case using str_at_length[of c a s] by (subst kstrlen_from.simps) (simp add: str_at_iff)
next
  case (Suc k)
  then have "n < length s" by simp
  moreover from this Suc.prems have "kld8 (a + of_nat n) c = Inr (s ! n)" "s ! n \<noteq> 0" by (auto simp: str_at_iff dest: nth_mem)
  ultimately show ?case using Suc str_at_length[of c a s] by (subst kstrlen_from.simps) simp
qed

text \<open>The difference the comparison returns: of the first two characters that differ, the end of a
  string counting as 0.\<close>

fun str_diff :: "u8 list \<Rightarrow> u8 list \<Rightarrow> int" where
  "str_diff (x # s) (y # t) = (if x = y then str_diff s t else uint x - uint y)"
| "str_diff [] (y # t) = - uint y"
| "str_diff (x # s) [] = uint x"
| "str_diff [] [] = 0"

lemma uint_pos_iff: "0 < uint (x :: u8) \<longleftrightarrow> x \<noteq> 0"
  using uint_0_iff[of x] uint_ge_0[of x] by linarith

lemma str_diff_lex: "0 \<notin> set s \<Longrightarrow> 0 \<notin> set t \<Longrightarrow> (str_diff s t = 0 \<longleftrightarrow> s = t) \<and> (str_diff s t < 0 \<longleftrightarrow> s < t)"
  by (induction s t rule: str_diff.induct) (auto simp: word_less_def uint_pos_iff word_uint_eq_iff)

lemma kstrcmp_at:
  "str_at c (a + of_nat n) s \<Longrightarrow> str_at c (b + of_nat n) t \<Longrightarrow> n + length s < 2 ^ 32 \<Longrightarrow>
   kstrcmp_from c a b n = Inr (str_diff s t)"
proof (induction s arbitrary: t n)
  case Nil
  then show ?case by (subst kstrcmp_from.simps; cases t) (simp_all add: str_at_Cons str_at_Nil same_char_def char_diff_def)
next
  case (Cons x s)
  show ?case
  proof (cases t)
    case Nil
    with Cons.prems show ?thesis by (subst kstrcmp_from.simps) (simp add: str_at_Cons str_at_Nil same_char_def char_diff_def)
  next
    case t: (Cons y t')
    with Cons.prems Cons.IH[of "n + 1" t'] have "kstrcmp_from c a b (n + 1) = Inr (str_diff s t')"
      by (simp add: str_at_Cons algebra_simps)
    with Cons.prems t show ?thesis by (subst kstrcmp_from.simps) (simp add: str_at_Cons same_char_def char_diff_def)
  qed
qed

lemma kstrncmp_at:
  "str_at c a s \<Longrightarrow> str_at c b t \<Longrightarrow> kstrncmp_from c a b n = Inr (str_diff (take n s) (take n t))"
proof (induction n arbitrary: a b s t)
  case (Suc n)
  then show ?case by (cases s; cases t) (auto simp: str_at_Cons str_at_Nil same_char_def char_diff_def)
qed simp

section \<open>Copies with paging off\<close>

lemma kld8_flat: "\<not> paging_on c \<Longrightarrow> kld8 a c = Inr (mm_mem c a)"
  by (simp add: kld8_def translate_def)

lemma kst8_flat: "\<not> paging_on c \<Longrightarrow> kst8 a v c = Inr (c\<lparr>mm_mem := (mm_mem c)(a := v)\<rparr>)"
  by (simp add: kst8_def translate_def)

lemma flat_update [simp]: "paging_on (c\<lparr>mm_mem := m\<rparr>) = paging_on c"
  by (simp add: paging_on_def)

definition apart :: "u32 \<Rightarrow> u32 \<Rightarrow> nat \<Rightarrow> bool" where
  "apart dst src n \<longleftrightarrow> n \<le> 2 ^ 32 \<and> (\<forall>i<n. n \<le> unat (src + of_nat i - dst))"

lemma kmemcpy_flat:
  assumes off: "\<not> paging_on c" and ap: "apart dst src (unat n)"
  shows "kmemcpy dst src n c =
    Inr (dst, c\<lparr>mm_mem := patch dst (map (\<lambda>i. mm_mem c (src + of_nat i)) [0..<unat n]) (mm_mem c)\<rparr>)"
proof -
  let ?bs = "map (\<lambda>i. mm_mem c (src + of_nat i)) [0..<unat n]"
  let ?st = "\<lambda>i. c\<lparr>mm_mem := patch dst (take i ?bs) (mm_mem c)\<rparr>"
  have "for_try 0 (unat n) (\<lambda>i c. bindo (kld8 (src + of_nat i) c) (\<lambda>v. kst8 (dst + of_nat i) v c)) c = Inr (?st (unat n))"
  proof (rule for_try_states[where st = ?st])
    fix i assume i: "i < unat n"
    have "patch dst (take i ?bs) (mm_mem c) (src + of_nat i) = mm_mem c (src + of_nat i)"
      using ap i by (intro patch_outside) (auto simp: apart_def)
    moreover have "?bs ! i = mm_mem c (src + of_nat i)" using i by simp
    ultimately show "bindo (kld8 (src + of_nat i) (?st i)) (\<lambda>v. kst8 (dst + of_nat i) v (?st i)) = Inr (?st (Suc i))"
      using off patch_step[of i ?bs dst "mm_mem c"] ap i by (simp add: kld8_flat kst8_flat apart_def)
  qed (simp_all add: patch_def)
  then show ?thesis by (simp add: kmemcpy_def)
qed

lemma kmemset_flat:
  "\<not> paging_on c \<Longrightarrow> kmemset dst v n c = Inr (dst, c\<lparr>mm_mem := patch dst (replicate (unat n) (word_of_int v)) (mm_mem c)\<rparr>)"
  using flat_copy[of c "unat n" "replicate (unat n) (word_of_int v)" "\<lambda>i. kst8 (dst + of_nat i) (word_of_int v)" dst] unat_lt32[of n]
  by (simp add: kmemset_def)

lemma patch_Cons:
  "length s < 2 ^ 32 \<Longrightarrow> patch (d + 1) s (m(d := x)) = patch d (x # s) m"
proof
  fix y assume l: "length s < 2 ^ 32"
  show "patch (d + 1) s (m(d := x)) y = patch d (x # s) m y"
  proof (cases "y = d")
    case True
    have "unat (d - (d + 1)) = 2 ^ 32 - 1" by (simp add: unsigned_minus_1_eq_mask mask_eq_exp_minus_1)
    with True l show ?thesis by (simp add: patch_def)
  next
    case False
    then have "y - d \<noteq> 0" by simp
    then have "unat (y - d) = Suc (unat (y - d - 1))" by (metis Suc_pred' unat_gt_0 unat_minus_one)
    moreover have "unat (y - (d + 1)) = unat (y - d - 1)" by (simp add: algebra_simps)
    ultimately show ?thesis using False by (simp add: patch_def)
  qed
qed

lemma kstrcpy_flat:
  "\<not> paging_on c \<Longrightarrow> str_at c src s \<Longrightarrow> apart dst src (length s + 1) \<Longrightarrow>
   kstrcpy_from dst src c = Some (Inr (c\<lparr>mm_mem := patch dst (s @ [0]) (mm_mem c)\<rparr>))"
proof (induction s arbitrary: c dst src)
  case Nil
  then have "mm_mem c src = 0" by (simp add: str_at_Nil kld8_flat)
  moreover have "(mm_mem c)(dst := 0) = patch dst [0] (mm_mem c)" using patch_step[of 0 "[0]" dst "mm_mem c"] by simp
  ultimately show ?case using Nil(1) by (subst kstrcpy_from.simps) (simp add: kld8_flat kst8_flat)
next
  case (Cons x s)
  let ?c = "c\<lparr>mm_mem := (mm_mem c)(dst := x)\<rparr>"
  have n: "length s + 2 \<le> 2 ^ 32" and ap: "\<And>i. i < length s + 2 \<Longrightarrow> length s + 2 \<le> unat (src + of_nat i - dst)"
    using Cons.prems(3) by (simp_all add: apart_def)
  have ne: "src + of_nat i \<noteq> dst" if "i < length s + 2" for i using ap[OF that] by auto
  have x: "mm_mem c src = x" "x \<noteq> 0" "str_at c (src + 1) s" using Cons.prems(1,2) by (simp_all add: str_at_Cons kld8_flat)
  have "kld8 (src + 1 + of_nat i) ?c = kld8 (src + 1 + of_nat i) c" if "i \<le> length s" for i
    using ne[of "Suc i"] that Cons.prems(1) by (simp add: kld8_flat add.assoc)
  then have "str_at ?c (src + 1) s" using x(3) by (simp add: str_at_iff)
  moreover have "length s + 1 \<le> unat (src + 1 + of_nat i - (dst + 1))" if "i < length s + 1" for i
    using ap[of i] that by (simp add: algebra_simps)
  then have "apart (dst + 1) (src + 1) (length s + 1)" using n unfolding apart_def by simp
  ultimately have "kstrcpy_from (dst + 1) (src + 1) ?c = Some (Inr (?c\<lparr>mm_mem := patch (dst + 1) (s @ [0]) (mm_mem ?c)\<rparr>))"
    using Cons.prems(1) by (intro Cons.IH) simp_all
  moreover have "patch (dst + 1) (s @ [0]) ((mm_mem c)(dst := x)) = patch dst (x # s @ [0]) (mm_mem c)"
    using n by (intro patch_Cons) simp
  ultimately show ?case using Cons.prems(1) x by (subst kstrcpy_from.simps) (simp add: kld8_flat kst8_flat)
qed

section \<open>Properties\<close>

text \<open>C39: \<open>kstrcmp\<close> is lexicographic comparison: on two null-terminated strings it returns 0 exactly
  when they are equal and a negative number exactly when the first comes first in the
  lexicographic order of their unsigned characters; \<open>kstrncmp\<close> does the same on their first n
  characters, and \<open>kstrlen\<close> counts them.\<close>

theorem kstrcmp_lexicographic:
  assumes "str_at c a s" and "str_at c b t"
  shows "\<exists>r r'. kstrcmp c a b = Inr r \<and> (r = 0 \<longleftrightarrow> s = t) \<and> (r < 0 \<longleftrightarrow> s < t) \<and>
    kstrncmp c a b n = Inr r' \<and> (r' = 0 \<longleftrightarrow> take (unat n) s = take (unat n) t) \<and> (r' < 0 \<longleftrightarrow> take (unat n) s < take (unat n) t) \<and>
    kstrlen c a = Inr (of_nat (length s))"
proof -
  have z: "0 \<notin> set s" "0 \<notin> set t" using assms by (simp_all add: str_at_iff)
  have "kstrcmp c a b = Inr (str_diff s t)"
    using kstrcmp_at[of c a 0 s b t] assms str_at_length[OF assms(1)] by (simp add: kstrcmp_def)
  moreover have "kstrncmp c a b n = Inr (str_diff (take (unat n) s) (take (unat n) t))"
    using kstrncmp_at[OF assms] by (simp add: kstrncmp_def)
  moreover have "kstrlen c a = Inr (of_nat (length s))" using kstrlen_at[OF assms(1), of 0] by (simp add: kstrlen_def)
  moreover have "0 \<notin> set (take (unat n) s)" "0 \<notin> set (take (unat n) t)" using z by (auto dest: in_set_takeD)
  ultimately show ?thesis using str_diff_lex[OF z] str_diff_lex[of "take (unat n) s" "take (unat n) t"] by blast
qed

text \<open>Two strings in a flat memory.\<close>

definition two_strings :: mach where
  "two_strings = cold_machine\<lparr>mm_mem := patch 0x100 [97, 98, 0, 97, 99, 0] (\<lambda>_. 1)\<rparr>"

lemma two_strings_at: "\<not> paging_on two_strings" "str_at two_strings 0x100 [97, 98]" "str_at two_strings 0x103 [97, 99]"
  using cold_machine_flat by (simp_all add: two_strings_def str_at_Cons str_at_Nil kld8_flat patch_def)

theorem kstrcmp_lexicographic_witness:
  "\<exists>r. kstrcmp two_strings 0x100 0x103 = Inr r \<and> r < 0 \<and> kstrncmp two_strings 0x100 0x103 1 = Inr 0 \<and> kstrlen two_strings 0x100 = Inr 2"
proof -
  obtain r r' where r: "kstrcmp two_strings 0x100 0x103 = Inr r" "r < 0 \<longleftrightarrow> [97, 98 :: u8] < [97, 99]"
    "kstrncmp two_strings 0x100 0x103 1 = Inr r'" "r' = 0 \<longleftrightarrow> take (unat (1 :: u32)) [97, 98 :: u8] = take (unat (1 :: u32)) [97, 99]"
    "kstrlen two_strings 0x100 = Inr (of_nat (length [97, 98 :: u8]))"
    using kstrcmp_lexicographic[OF two_strings_at(2,3), of 1] by blast
  moreover have "[97, 98 :: u8] < [97, 99]" by simp
  ultimately show ?thesis by simp
qed

text \<open>With paging off, \<open>kstrcpy\<close> returns and puts the string with its null byte at the destination,
  changing nothing else, whenever source and destination do not overlap; \<open>kmemcpy\<close> and \<open>kmemset\<close>
  likewise write exactly their n bytes.\<close>

theorem kstrcpy_copies:
  assumes "\<not> paging_on c" and "str_at c src s" and "apart dst src (length s + 1)" and "apart dst src (unat n)"
  shows "kstrcpy dst src c = Some (Inr (dst, c\<lparr>mm_mem := patch dst (s @ [0]) (mm_mem c)\<rparr>)) \<and>
    kmemcpy dst src n c = Inr (dst, c\<lparr>mm_mem := patch dst (map (\<lambda>i. mm_mem c (src + of_nat i)) [0..<unat n]) (mm_mem c)\<rparr>) \<and>
    kmemset dst v n c = Inr (dst, c\<lparr>mm_mem := patch dst (replicate (unat n) (word_of_int v)) (mm_mem c)\<rparr>)"
  using kstrcpy_flat[OF assms(1-3)] kmemcpy_flat[OF assms(1,4)] kmemset_flat[OF assms(1)] by (simp add: kstrcpy_def)

theorem kstrcpy_copies_witness:
  "\<exists>c. kstrcpy 0x200 0x100 two_strings = Some (Inr (0x200, c)) \<and> mm_mem c 0x201 = 98"
proof -
  have "apart 0x200 0x100 n" if "n \<le> 256" for n
    using that by (auto simp: apart_def unat_sub_if' unat_word_ariths)
  from kstrcpy_copies[OF two_strings_at(1,2) this this[of "unat 1"]] show ?thesis by (simp add: patch_def)
qed

end
