(* ===== verification/Launch.thy ===== *)
theory Launch
  imports Segments Paging Kernel_Steps
begin

text \<open>
  \<^verbatim>\<open>process/task.c\<close>: the two built-in tasks are copied out of the kernel image, given address spaces
  and registered, and the first one is entered. Where the linker put their code is a parameter.
  The field \<^verbatim>\<open>ktss.esp0\<close> is part of the scheduler's state, which updates it at every switch.
\<close>

section \<open>Operations\<close>

abbreviation (input) "TASK_A_CODE_PHYS \<equiv> (0x00300000 :: u32)"
abbreviation (input) "TASK_A_STACK_PHYS \<equiv> (0x0030F000 :: u32)"
abbreviation (input) "TASK_B_CODE_PHYS \<equiv> (0x00301000 :: u32)"
abbreviation (input) "TASK_B_STACK_PHYS \<equiv> (0x0030E000 :: u32)"
abbreviation (input) "TASK_CODE_VIRT \<equiv> (0x40000000 :: u32)"
abbreviation (input) "TASK_STACK_VIRT \<equiv> (0x40001000 :: u32)"
abbreviation (input) "TASK_A_KSTACK_TOP \<equiv> (0x00321000 :: u32)"
abbreviation (input) "TASK_B_KSTACK_TOP \<equiv> (0x00323000 :: u32)"

text \<open>\<^verbatim>\<open>for (i = 0; i < 1024; i++) dst[i] = src[i]\<close>\<close>

definition copy_code :: "u32 \<Rightarrow> u32 \<Rightarrow> mach \<Rightarrow> mach outcome" where
  "copy_code src dst c = for_try 0 1024 (\<lambda>i c. bindo (kld8 (src + of_nat i) c) (\<lambda>v. kst8 (dst + of_nat i) v c)) c"

definition say :: "u8 list \<Rightarrow> kernel \<Rightarrow> kernel" where
  "say s k = k\<lparr>kn_screen := print s (kn_screen k)\<rparr>"

definition launch_tasks :: "u32 \<Rightarrow> u32 \<Rightarrow> tables \<times> kernel \<Rightarrow> (tables \<times> kernel) outcome" where
  "launch_tasks code_a code_b = (\<lambda>(t, k).
     (let k = k\<lparr>kn_screen := set_kattr 0x07 (kn_screen k)\<rparr> in
      bindo (copy_code code_a TASK_A_CODE_PHYS (kn_cpu k)) (\<lambda>c.
      let k = say (cstr ''  [OK] Tarea A copiada a 0x30000'' @ [10]) (k\<lparr>kn_cpu := c\<rparr>) in
      bindo (create_task_space TASK_A_CODE_PHYS TASK_A_STACK_PHYS TASK_CODE_VIRT TASK_STACK_VIRT
               TASK_A_PD_ADDR TASK_A_PT_ADDR (kn_cpu k)) (\<lambda>c.
      let k = say (cstr ''  [OK] Espacio de memoria A creado'' @ [10]) (k\<lparr>kn_cpu := c\<rparr>) in
      bindo (copy_code code_b TASK_B_CODE_PHYS (kn_cpu k)) (\<lambda>c.
      let k = say (cstr ''  [OK] Tarea B copiada a 0x31000'' @ [10]) (k\<lparr>kn_cpu := c\<rparr>) in
      bindo (create_task_space TASK_B_CODE_PHYS TASK_B_STACK_PHYS TASK_CODE_VIRT TASK_STACK_VIRT
               TASK_B_PD_ADDR TASK_B_PT_ADDR (kn_cpu k)) (\<lambda>c.
      let k = say (cstr ''  [OK] Espacio de memoria B creado'' @ [10]) (k\<lparr>kn_cpu := c\<rparr>);
          t = init_tss TASK_A_KSTACK_TOP t;
          k = k\<lparr>kn_sched := (kn_sched k)\<lparr>tss_esp0 := le32 (ktss t) 4\<rparr>\<rparr>;
          t = t\<lparr>r_tr := 0x38\<rparr>;
          k = say (cstr ''  [OK] TSS listo (pilas kernel separadas)'' @ [10]) k in
      bindo (sched_add_task TASK_CODE_VIRT 0x23 0x202 (TASK_STACK_VIRT + 0xFF0) 0x33 TASK_A_PD_ADDR TASK_A_KSTACK_TOP (kn_sched k)) (\<lambda>s.
      bindo (sched_add_task TASK_CODE_VIRT 0x23 0x202 (TASK_STACK_VIRT + 0xFF0) 0x33 TASK_B_PD_ADDR TASK_B_KSTACK_TOP s) (\<lambda>s.
      let k = say (cstr ''  [OK] Scheduler: 2 tareas registradas'' @ [10]) (k\<lparr>kn_sched := s\<rparr>);
          k = say (cstr ''  [OK] Tareas A y B registradas. Llamar sched_enter() para iniciar.'' @ [10]) k
      in Inr (t, k)))))))))"

text \<open>
  The frame that \<^verbatim>\<open>iret\<close> pops: instruction pointer, code selector, flags, stack pointer and stack
  selector, whose upper half is whatever EAX held.
\<close>

definition sched_enter :: "u32 \<Rightarrow> u32 \<Rightarrow> mach \<Rightarrow> u32 list \<times> mach" where
  "sched_enter eax eflags c =
     (let c = c\<lparr>mm_cr3 := TASK_A_PD_ADDR\<rparr>;
          eax = (eax AND 0xFFFF0000) OR 0x33
      in ([0x40000000, 0x23, eflags OR 0x200, 0x40001FF0, eax], c))"

section \<open>Copying the code\<close>

lemma copy_code_kernel:
  assumes ks: "kernel_space c" and dst: "task_frame dst" and src: "\<And>i. i < 1024 \<Longrightarrow> unat (src + of_nat i) < 0x1000000 \<and> page_base (src + of_nat i) \<noteq> dst"
  shows "\<exists>m'. copy_code src dst c = Inr (c\<lparr>mm_mem := m'\<rparr>) \<and> agree_off dst (mm_mem c) m' \<and> kernel_space (c\<lparr>mm_mem := m'\<rparr>) \<and>
    (\<forall>j<1024. m' (dst + of_nat j) = mm_mem c (src + of_nat j))"
proof -
  have win: "id_window (c\<lparr>mm_mem := m'\<rparr>)" if "agree_off dst (mm_mem c) m'" for m'
    using kernel_space_window[OF task_frame_write[OF ks dst that]] .
  have body: "bindo (kld8 (src + of_nat i) (c\<lparr>mm_mem := m'\<rparr>)) (\<lambda>v. kst8 (dst + of_nat i) v (c\<lparr>mm_mem := m'\<rparr>)) =
      kst8 (dst + of_nat i) (mm_mem c (src + of_nat i)) (c\<lparr>mm_mem := m'\<rparr>)" if "i < 1024" "agree_off dst (mm_mem c) m'" for i m'
    using id_windowD[OF win[OF that(2)], of "src + of_nat i"] src[OF that(1)] that(2) by (simp add: kld8_def agree_off_def)
  have "page_aligned dst" "unat dst < 0x1000000" using dst by (simp_all add: task_frame_def)
  from byte_loop[OF this _ win body, of 1024] obtain m' where m': "copy_code src dst c = Inr (c\<lparr>mm_mem := m'\<rparr>)"
    "agree_off dst (mm_mem c) m'" "\<forall>j<4096. m' (dst + of_nat j) = (if j < 1024 then mm_mem c (src + of_nat j) else mm_mem c (dst + of_nat j))"
    by (auto simp: copy_code_def)
  with task_frame_write[OF ks dst m'(2)] show ?thesis by auto
qed

text \<open>Task code linked below 2 MB, as the kernel image is.\<close>

definition in_image :: "u32 \<Rightarrow> bool" where
  "in_image a \<longleftrightarrow> unat a + 1024 \<le> 0x200000"

lemma in_image_byte:
  assumes "in_image a" and "i < 1024"
  shows "unat (a + of_nat i) < 0x200000" "unat (page_base (a + of_nat i)) < 0x200000"
proof -
  have "unat (a + of_nat i) = unat a + i" using assms by (simp add: in_image_def unat_add_no_wrap)
  then show 1: "unat (a + of_nat i) < 0x200000" using assms by (simp add: in_image_def)
  have "unat (page_base (a + of_nat i)) \<le> unat (a + of_nat i)" by (simp add: unat_page_base)
  with 1 show "unat (page_base (a + of_nat i)) < 0x200000" by simp
qed

lemma copy_image:
  assumes ks: "kernel_space c" and a: "in_image a" and dst: "page_aligned dst" "0x300000 \<le> unat dst" "unat dst < 0x1000000"
  shows "\<exists>c'. copy_code a dst c = Inr c' \<and> agree_outside {dst} (mm_mem c) (mm_mem c') \<and> kernel_space c' \<and>
    (\<forall>j<1024. mm_mem c' (dst + of_nat j) = mm_mem c (a + of_nat j))"
proof -
  have f: "task_frame dst" using dst by (intro task_frame_range) simp_all
  have "unat (a + of_nat i) < 0x1000000 \<and> page_base (a + of_nat i) \<noteq> dst" if "i < 1024" for i
    using in_image_byte[OF a that] dst(2) by auto
  from copy_code_kernel[OF ks f this] show ?thesis by (auto simp: agree_outside_def agree_off_def)
qed

section \<open>The tables of the two tasks\<close>

definition task_tables :: "mem \<Rightarrow> u32 \<Rightarrow> u32 \<Rightarrow> u32 \<Rightarrow> u32 \<Rightarrow> bool" where
  "task_tables m pd pt code_phys stack_phys \<longleftrightarrow>
     (\<forall>i<1024. ld32 m (slot pd i) = task_dir_entry pt (pd_index TASK_CODE_VIRT) i) \<and>
     (\<forall>j<1024. ld32 m (slot pt j) = (if j = pt_index TASK_CODE_VIRT then code_phys OR 7
        else if j = pt_index TASK_STACK_VIRT then stack_phys OR 7 else 0))"

lemma task_tables_agree:
  assumes "task_tables m pd pt code_phys stack_phys" and "agree_outside P m m'"
    and "page_aligned pd" "pd \<notin> P" "page_aligned pt" "pt \<notin> P"
  shows "task_tables m' pd pt code_phys stack_phys"
  using assms(1) ld32_agree_outside[OF assms(2,3) _ assms(4)] ld32_agree_outside[OF assms(2,5) _ assms(6)]
  by (simp add: task_tables_def)

lemma create_task_tables:
  assumes "kernel_space c" and "task_frame pd" and "task_frame pt" and "pd \<noteq> pt"
  shows "\<exists>c'. create_task_space code_phys stack_phys TASK_CODE_VIRT TASK_STACK_VIRT pd pt c = Inr c' \<and> kernel_space c' \<and>
    agree_outside {pd, pt} (mm_mem c) (mm_mem c') \<and> task_tables (mm_mem c') pd pt code_phys stack_phys"
proof -
  have cd: "4 \<le> pd_index TASK_CODE_VIRT" "pd_index TASK_CODE_VIRT < 768" "pt_index TASK_STACK_VIRT \<noteq> pt_index TASK_CODE_VIRT"
    by (simp_all add: pd_index_eq pt_index_eq)
  obtain m' where "create_task_space code_phys stack_phys TASK_CODE_VIRT TASK_STACK_VIRT pd pt c = Inr (c\<lparr>mm_mem := m'\<rparr>)"
    "kernel_space (c\<lparr>mm_mem := m'\<rparr>)" "agree_outside {pd, pt} (mm_mem c) m'" "task_tables m' pd pt code_phys stack_phys"
    using create_task_space_tables[OF assms cd, of code_phys stack_phys] unfolding task_tables_def by blast
  then show ?thesis by (intro exI[of _ "c\<lparr>mm_mem := m'\<rparr>"]) simp
qed

lemma task_tables_view:
  assumes "task_tables m pd pt code_phys stack_phys" and "window_tables m"
    and "page_aligned pd" "page_aligned pt" "page_aligned code_phys" "page_aligned stack_phys"
  shows "walk m pd va = task_view code_phys stack_phys TASK_CODE_VIRT TASK_STACK_VIRT va"
    and "user_writable m pd va \<longleftrightarrow> task_user TASK_CODE_VIRT TASK_STACK_VIRT va"
proof -
  have cd: "4 \<le> pd_index TASK_CODE_VIRT" "pd_index TASK_CODE_VIRT < 768" "pd_index TASK_STACK_VIRT = pd_index TASK_CODE_VIRT"
    by (simp_all add: pd_index_eq)
  have t: "ld32 m (slot pd i) = task_dir_entry pt (pd_index TASK_CODE_VIRT) i"
    "ld32 m (slot pt i) = (if i = pt_index TASK_CODE_VIRT then code_phys OR 7 else if i = pt_index TASK_STACK_VIRT then stack_phys OR 7 else 0)"
    if "i < 1024" for i using assms(1) that unfolding task_tables_def by blast+
  note w = task_space_walk[OF assms(3,4,2) cd t(1) t(2) assms(5,6)]
  show "walk m pd va = task_view code_phys stack_phys TASK_CODE_VIRT TASK_STACK_VIRT va"
    and "user_writable m pd va \<longleftrightarrow> task_user TASK_CODE_VIRT TASK_STACK_VIRT va" using w by blast+
qed

section \<open>Launching\<close>

text \<open>The pages the launch writes, and what it leaves in them.\<close>

definition task_pages :: "u32 set" where
  "task_pages = {TASK_A_PD_ADDR, TASK_A_PT_ADDR, TASK_B_PD_ADDR, TASK_B_PT_ADDR, TASK_A_CODE_PHYS, TASK_B_CODE_PHYS}"

definition code_at :: "mem \<Rightarrow> u32 \<Rightarrow> mem \<Rightarrow> u32 \<Rightarrow> bool" where
  "code_at m dst m0 src \<longleftrightarrow> (\<forall>j<1024. m (dst + of_nat j) = m0 (src + of_nat j))"

lemma code_at_agree:
  "code_at m dst m0 src \<Longrightarrow> agree_outside P m m' \<Longrightarrow> page_aligned dst \<Longrightarrow> dst \<notin> P \<Longrightarrow> code_at m' dst m0 src"
  by (simp add: code_at_def agree_outside_def page_base_byte)

definition tasks_in_memory :: "u32 \<Rightarrow> u32 \<Rightarrow> mem \<Rightarrow> mem \<Rightarrow> bool" where
  "tasks_in_memory a b m0 m \<longleftrightarrow>
     task_tables m TASK_A_PD_ADDR TASK_A_PT_ADDR TASK_A_CODE_PHYS TASK_A_STACK_PHYS \<and>
     task_tables m TASK_B_PD_ADDR TASK_B_PT_ADDR TASK_B_CODE_PHYS TASK_B_STACK_PHYS \<and>
     code_at m TASK_A_CODE_PHYS m0 a \<and> code_at m TASK_B_CODE_PHYS m0 b"

lemma tasks_in_memory_agree:
  assumes "tasks_in_memory a b m0 m" and "agree_outside P m m'" and "P \<inter> task_pages = {}"
  shows "tasks_in_memory a b m0 m'"
proof -
  have "page_aligned p" if "p \<in> task_pages" for p using that by (auto simp: task_pages_def page_aligned_def)
  moreover have "p \<notin> P" if "p \<in> task_pages" for p using that assms(3) by auto
  ultimately show ?thesis using assms(1) task_tables_agree[OF _ assms(2)] code_at_agree[OF _ assms(2)]
    by (auto simp: tasks_in_memory_def task_pages_def)
qed

lemma build_tasks:
  assumes ks: "kernel_space c" and im: "in_image a" "in_image b"
  shows "\<exists>c1 c2 c3 c4. copy_code a TASK_A_CODE_PHYS c = Inr c1 \<and>
    create_task_space TASK_A_CODE_PHYS TASK_A_STACK_PHYS TASK_CODE_VIRT TASK_STACK_VIRT TASK_A_PD_ADDR TASK_A_PT_ADDR c1 = Inr c2 \<and>
    copy_code b TASK_B_CODE_PHYS c2 = Inr c3 \<and>
    create_task_space TASK_B_CODE_PHYS TASK_B_STACK_PHYS TASK_CODE_VIRT TASK_STACK_VIRT TASK_B_PD_ADDR TASK_B_PT_ADDR c3 = Inr c4 \<and>
    kernel_space c4 \<and> agree_outside task_pages (mm_mem c) (mm_mem c4) \<and> tasks_in_memory a b (mm_mem c) (mm_mem c4)"
proof -
  have al: "page_aligned TASK_A_CODE_PHYS" "page_aligned TASK_B_CODE_PHYS" "page_aligned TASK_A_PD_ADDR" "page_aligned TASK_A_PT_ADDR"
    by (simp_all add: page_aligned_def)
  have fr: "task_frame TASK_A_PD_ADDR" "task_frame TASK_A_PT_ADDR" "task_frame TASK_B_PD_ADDR" "task_frame TASK_B_PT_ADDR"
    by (simp_all add: task_frame_range page_aligned_def)
  obtain c1 where 1: "copy_code a TASK_A_CODE_PHYS c = Inr c1" "agree_outside {TASK_A_CODE_PHYS} (mm_mem c) (mm_mem c1)" "kernel_space c1"
    "code_at (mm_mem c1) TASK_A_CODE_PHYS (mm_mem c) a" using copy_image[OF ks im(1) al(1)] by (auto simp: code_at_def)
  obtain c2 where 2: "create_task_space TASK_A_CODE_PHYS TASK_A_STACK_PHYS TASK_CODE_VIRT TASK_STACK_VIRT TASK_A_PD_ADDR TASK_A_PT_ADDR c1 = Inr c2"
    "kernel_space c2" "agree_outside {TASK_A_PD_ADDR, TASK_A_PT_ADDR} (mm_mem c1) (mm_mem c2)"
    "task_tables (mm_mem c2) TASK_A_PD_ADDR TASK_A_PT_ADDR TASK_A_CODE_PHYS TASK_A_STACK_PHYS"
    using create_task_tables[OF 1(3) fr(1,2)] by auto
  obtain c3 where 3: "copy_code b TASK_B_CODE_PHYS c2 = Inr c3" "agree_outside {TASK_B_CODE_PHYS} (mm_mem c2) (mm_mem c3)" "kernel_space c3"
    "code_at (mm_mem c3) TASK_B_CODE_PHYS (mm_mem c2) b" using copy_image[OF 2(2) im(2) al(2)] by (auto simp: code_at_def)
  obtain c4 where 4: "create_task_space TASK_B_CODE_PHYS TASK_B_STACK_PHYS TASK_CODE_VIRT TASK_STACK_VIRT TASK_B_PD_ADDR TASK_B_PT_ADDR c3 = Inr c4"
    "kernel_space c4" "agree_outside {TASK_B_PD_ADDR, TASK_B_PT_ADDR} (mm_mem c3) (mm_mem c4)"
    "task_tables (mm_mem c4) TASK_B_PD_ADDR TASK_B_PT_ADDR TASK_B_CODE_PHYS TASK_B_STACK_PHYS"
    using create_task_tables[OF 3(3) fr(3,4)] by auto
  have early: "page_base (b + of_nat j) \<notin> {TASK_A_CODE_PHYS, TASK_A_PD_ADDR, TASK_A_PT_ADDR}" if "j < 1024" for j
    using in_image_byte(2)[OF im(2) that] by auto
  have 12: "agree_outside {TASK_A_CODE_PHYS, TASK_A_PD_ADDR, TASK_A_PT_ADDR} (mm_mem c) (mm_mem c2)"
    using 1(2) 2(3) by (auto simp: agree_outside_def)
  then have "code_at (mm_mem c3) TASK_B_CODE_PHYS (mm_mem c) b" using 3(4) early by (simp add: code_at_def agree_outside_def)
  moreover have 34: "agree_outside {TASK_B_CODE_PHYS, TASK_B_PD_ADDR, TASK_B_PT_ADDR} (mm_mem c2) (mm_mem c4)"
    using 3(2) 4(3) by (auto simp: agree_outside_def)
  moreover have "agree_outside task_pages (mm_mem c) (mm_mem c4)" using 12 34 by (auto simp: agree_outside_def task_pages_def)
  ultimately have "tasks_in_memory a b (mm_mem c) (mm_mem c4)"
    using task_tables_agree[OF 2(4) 34 al(3) _ al(4)] 4(4) code_at_agree[OF _ 4(3) al(2)] code_at_agree[OF code_at_agree[OF 1(4) 2(3) al(1)] 34 al(1)]
    by (simp add: tasks_in_memory_def)
  with 1 2 3 4 \<open>agree_outside task_pages (mm_mem c) (mm_mem c4)\<close> show ?thesis by blast
qed

text \<open>The registers and tables of a built-in task.\<close>

definition built_in :: "u32 \<Rightarrow> u32 \<Rightarrow> task" where
  "built_in pd kstack_top = fresh_task (fresh_regs 0x40000000 0x23 0x202 0x40001FF0 0x33) pd kstack_top"

lemma launch_tasks_eq:
  assumes "copy_code a TASK_A_CODE_PHYS (kn_cpu k) = Inr c1"
    and "create_task_space TASK_A_CODE_PHYS TASK_A_STACK_PHYS TASK_CODE_VIRT TASK_STACK_VIRT TASK_A_PD_ADDR TASK_A_PT_ADDR c1 = Inr c2"
    and "copy_code b TASK_B_CODE_PHYS c2 = Inr c3"
    and "create_task_space TASK_B_CODE_PHYS TASK_B_STACK_PHYS TASK_CODE_VIRT TASK_STACK_VIRT TASK_B_PD_ADDR TASK_B_PT_ADDR c3 = Inr c4"
    and "le32 (ktss (init_tss TASK_A_KSTACK_TOP t)) 4 = TASK_A_KSTACK_TOP"
    and "sched_add_task 0x40000000 0x23 0x202 0x40001FF0 0x33 TASK_A_PD_ADDR TASK_A_KSTACK_TOP ((kn_sched k)\<lparr>tss_esp0 := TASK_A_KSTACK_TOP\<rparr>) = Inr s1"
    and "sched_add_task 0x40000000 0x23 0x202 0x40001FF0 0x33 TASK_B_PD_ADDR TASK_B_KSTACK_TOP s1 = Inr s2"
  shows "\<exists>d. launch_tasks a b (t, k) = Inr ((init_tss TASK_A_KSTACK_TOP t)\<lparr>r_tr := 0x38\<rparr>, k\<lparr>kn_screen := d, kn_cpu := c4, kn_sched := s2\<rparr>)"
  using assms by (cases k) (simp add: launch_tasks_def Let_def say_def)

lemma sched_inv_esp0: "sched_inv s \<Longrightarrow> sched_inv (s\<lparr>tss_esp0 := e\<rparr>)"
  by (simp add: sched_inv_def)

lemma open_fds_esp0: "open_fds (s\<lparr>tss_esp0 := e\<rparr>) = open_fds s"
  by (simp add: open_fds_def)

lemma add_task_esp0:
  "sched_inv s \<Longrightarrow> ntasks s < 8 \<Longrightarrow> sched_add_task eip cs eflags user_esp ss cr3 kst s = Inr s' \<Longrightarrow> tss_esp0 s' = tss_esp0 s"
  by (auto simp: sched_add_task_state)

definition built_in_tasks :: "sched \<Rightarrow> bool" where
  "built_in_tasks s \<longleftrightarrow> task_pool s ! 0 = built_in TASK_A_PD_ADDR TASK_A_KSTACK_TOP \<and>
     task_pool s ! 1 = built_in TASK_B_PD_ADDR TASK_B_KSTACK_TOP"

lemma register_built_ins:
  assumes s: "sched_inv s" "ntasks s = 0" "open_fds s = {}"
  shows "\<exists>s1 s2. sched_add_task 0x40000000 0x23 0x202 0x40001FF0 0x33 TASK_A_PD_ADDR TASK_A_KSTACK_TOP s = Inr s1 \<and>
    sched_add_task 0x40000000 0x23 0x202 0x40001FF0 0x33 TASK_B_PD_ADDR TASK_B_KSTACK_TOP s1 = Inr s2 \<and>
    sched_inv s2 \<and> ntasks s2 = 2 \<and> cur_task s2 = Some 0 \<and> tss_esp0 s2 = tss_esp0 s \<and> built_in_tasks s2 \<and> open_fds s2 = {}"
proof -
  have lt: "ntasks s < 8" using s by simp
  obtain s1 where 1: "sched_add_task 0x40000000 0x23 0x202 0x40001FF0 0x33 TASK_A_PD_ADDR TASK_A_KSTACK_TOP s = Inr s1"
    "sched_inv s1" "ntasks s1 = 1" "task_pool s1 ! 0 = built_in TASK_A_PD_ADDR TASK_A_KSTACK_TOP" "cur_task s1 = Some 0"
    using registers_task[OF s(1) lt, of "0x40000000" "0x23" "0x202" "0x40001FF0" "0x33" TASK_A_PD_ADDR TASK_A_KSTACK_TOP] s(2)
    by (auto simp: built_in_def)
  have lt1: "ntasks s1 < 8" using 1 by simp
  obtain s2 where 2: "sched_add_task 0x40000000 0x23 0x202 0x40001FF0 0x33 TASK_B_PD_ADDR TASK_B_KSTACK_TOP s1 = Inr s2"
    "sched_inv s2" "ntasks s2 = 2" "built_in_tasks s2" "cur_task s2 = Some 0"
    using registers_task[OF 1(2) lt1, of "0x40000000" "0x23" "0x202" "0x40001FF0" "0x33" TASK_B_PD_ADDR TASK_B_KSTACK_TOP] 1(3-5)
    by (auto simp: built_in_def built_in_tasks_def)
  have "tss_esp0 s2 = tss_esp0 s" using add_task_esp0[OF 1(2) lt1 2(1)] add_task_esp0[OF s(1) lt 1(1)] by simp
  with 1 2 add_task_no_files[OF 1(2) lt1 add_task_no_files[OF s(1) lt s(3) 1(1)] 2(1)] show ?thesis by blast
qed

lemma launch_runs:
  assumes ks: "kernel_space (kn_cpu k)" and im: "in_image a" "in_image b"
    and s: "sched_inv (kn_sched k)" "ntasks (kn_sched k) = 0" "open_fds (kn_sched k) = {}" and tss: "length (ktss t) = 104"
  shows "\<exists>d c s. launch_tasks a b (t, k) = Inr ((init_tss TASK_A_KSTACK_TOP t)\<lparr>r_tr := 0x38\<rparr>, k\<lparr>kn_screen := d, kn_cpu := c, kn_sched := s\<rparr>) \<and>
    kernel_space c \<and> agree_outside task_pages (mm_mem (kn_cpu k)) (mm_mem c) \<and> tasks_in_memory a b (mm_mem (kn_cpu k)) (mm_mem c) \<and>
    sched_inv s \<and> ntasks s = 2 \<and> cur_task s = Some 0 \<and> tss_esp0 s = TASK_A_KSTACK_TOP \<and> built_in_tasks s \<and> open_fds s = {}"
proof -
  let ?s = "(kn_sched k)\<lparr>tss_esp0 := TASK_A_KSTACK_TOP\<rparr>"
  obtain c1 c2 c3 c where m: "copy_code a TASK_A_CODE_PHYS (kn_cpu k) = Inr c1"
    "create_task_space TASK_A_CODE_PHYS TASK_A_STACK_PHYS TASK_CODE_VIRT TASK_STACK_VIRT TASK_A_PD_ADDR TASK_A_PT_ADDR c1 = Inr c2"
    "copy_code b TASK_B_CODE_PHYS c2 = Inr c3"
    "create_task_space TASK_B_CODE_PHYS TASK_B_STACK_PHYS TASK_CODE_VIRT TASK_STACK_VIRT TASK_B_PD_ADDR TASK_B_PT_ADDR c3 = Inr c"
    and post: "kernel_space c" "agree_outside task_pages (mm_mem (kn_cpu k)) (mm_mem c)" "tasks_in_memory a b (mm_mem (kn_cpu k)) (mm_mem c)"
    using build_tasks[OF ks im] by blast
  have "sched_inv ?s" "ntasks ?s = 0" "open_fds ?s = {}" using s by (simp_all add: sched_inv_esp0 open_fds_esp0)
  from register_built_ins[OF this] obtain s1 s2 where r: "sched_add_task 0x40000000 0x23 0x202 0x40001FF0 0x33 TASK_A_PD_ADDR TASK_A_KSTACK_TOP ?s = Inr s1"
    "sched_add_task 0x40000000 0x23 0x202 0x40001FF0 0x33 TASK_B_PD_ADDR TASK_B_KSTACK_TOP s1 = Inr s2"
    and reg: "sched_inv s2 \<and> ntasks s2 = 2 \<and> cur_task s2 = Some 0 \<and> tss_esp0 s2 = TASK_A_KSTACK_TOP \<and> built_in_tasks s2 \<and> open_fds s2 = {}"
    by auto
  from launch_tasks_eq[OF m init_tss_fields(2)[OF tss] r] post reg show ?thesis by blast
qed

section \<open>Properties\<close>

text \<open>C23: Launching the two built-in tasks with paging on and an empty scheduler succeeds: two tasks are
  registered, the first one running, each with its own directory and kernel stack, both starting at
  0x40000000 in ring 3 with interrupts on. In memory each task sees the first 4 KB page of its own code
  at 0x40000000 (1024 bytes of it copied from the kernel image), its own stack page at 0x40001000 and the
  16 MB identity window, at 0 and at 0xC0000000. At 0x40000000 and 0x40001000 the two tasks have different
  frames; but ring 3 may write the window at 0 as well as its two pages (nothing else), and through it every
  frame below 16 MB, the other task's and the page tables included. Memory outside the six pages they own is
  left unchanged by the launch.\<close>

theorem launch_tasks_spaces:
  assumes "kernel_space (kn_cpu k)" and "in_image a" and "in_image b"
    and "sched_inv (kn_sched k)" and "ntasks (kn_sched k) = 0" and "open_fds (kn_sched k) = {}" and "length (ktss t) = 104"
  shows "\<exists>t' k'. launch_tasks a b (t, k) = Inr (t', k') \<and> kernel_space (kn_cpu k') \<and>
    sched_inv (kn_sched k') \<and> ntasks (kn_sched k') = 2 \<and> cur_task (kn_sched k') = Some 0 \<and>
    tss_esp0 (kn_sched k') = TASK_A_KSTACK_TOP \<and> built_in_tasks (kn_sched k') \<and>
    (\<forall>va. walk (mm_mem (kn_cpu k')) TASK_A_PD_ADDR va = task_view TASK_A_CODE_PHYS TASK_A_STACK_PHYS TASK_CODE_VIRT TASK_STACK_VIRT va \<and>
          walk (mm_mem (kn_cpu k')) TASK_B_PD_ADDR va = task_view TASK_B_CODE_PHYS TASK_B_STACK_PHYS TASK_CODE_VIRT TASK_STACK_VIRT va \<and>
          (user_writable (mm_mem (kn_cpu k')) TASK_A_PD_ADDR va \<longleftrightarrow> task_user TASK_CODE_VIRT TASK_STACK_VIRT va) \<and>
          (user_writable (mm_mem (kn_cpu k')) TASK_B_PD_ADDR va \<longleftrightarrow> task_user TASK_CODE_VIRT TASK_STACK_VIRT va)) \<and>
    code_at (mm_mem (kn_cpu k')) TASK_A_CODE_PHYS (mm_mem (kn_cpu k)) a \<and> code_at (mm_mem (kn_cpu k')) TASK_B_CODE_PHYS (mm_mem (kn_cpu k)) b \<and>
    agree_outside task_pages (mm_mem (kn_cpu k)) (mm_mem (kn_cpu k'))"
proof -
  obtain d c s where l: "launch_tasks a b (t, k) = Inr ((init_tss TASK_A_KSTACK_TOP t)\<lparr>r_tr := 0x38\<rparr>, k\<lparr>kn_screen := d, kn_cpu := c, kn_sched := s\<rparr>)"
    and c: "kernel_space c" "agree_outside task_pages (mm_mem (kn_cpu k)) (mm_mem c)" "tasks_in_memory a b (mm_mem (kn_cpu k)) (mm_mem c)"
    and s: "sched_inv s \<and> ntasks s = 2 \<and> cur_task s = Some 0 \<and> tss_esp0 s = TASK_A_KSTACK_TOP \<and> built_in_tasks s"
    using launch_runs[OF assms] by blast
  have w: "window_tables (mm_mem c)" using c(1) by (simp add: kernel_space_def in_space_def)
  note t = c(3)[unfolded tasks_in_memory_def]
  have "page_aligned TASK_A_PD_ADDR" "page_aligned TASK_A_PT_ADDR" "page_aligned TASK_A_CODE_PHYS" "page_aligned TASK_A_STACK_PHYS"
    "page_aligned TASK_B_PD_ADDR" "page_aligned TASK_B_PT_ADDR" "page_aligned TASK_B_CODE_PHYS" "page_aligned TASK_B_STACK_PHYS"
    by (simp_all add: page_aligned_def)
  then show ?thesis using l c(1,2) s t task_tables_view[OF conjunct1[OF t] w] task_tables_view[OF conjunct1[OF conjunct2[OF t]] w]
    by simp
qed

theorem launch_tasks_spaces_witness:
  "\<exists>c t' k'. init_paging cold_machine = Inr c \<and>
    launch_tasks 0x100000 0x101000 (cold_tables, sample_kernel\<lparr>kn_cpu := c, kn_sched := blank_sched\<rparr>) = Inr (t', k') \<and>
    ntasks (kn_sched k') = 2 \<and> walk (mm_mem (kn_cpu k')) TASK_A_PD_ADDR 0x40000123 = Some 0x300123 \<and>
    walk (mm_mem (kn_cpu k')) TASK_B_PD_ADDR 0x40000123 = Some 0x301123"
proof -
  obtain c where c: "init_paging cold_machine = Inr c" "kernel_space c"
    using init_paging_kernel_space[OF cold_machine_flat] by blast
  let ?k = "sample_kernel\<lparr>kn_cpu := c, kn_sched := blank_sched\<rparr>"
  have "in_image 0x100000" "in_image 0x101000" by (simp_all add: in_image_def)
  moreover have "kernel_space (kn_cpu ?k)" "sched_inv (kn_sched ?k)" "ntasks (kn_sched ?k) = 0" "open_fds (kn_sched ?k) = {}"
    using c blank_sched_inv blank_sched_files by simp_all
  moreover have "length (ktss cold_tables) = 104" by (simp add: cold_tables_def)
  ultimately obtain t' k' where r: "launch_tasks 0x100000 0x101000 (cold_tables, ?k) = Inr (t', k')" "ntasks (kn_sched k') = 2"
    "\<And>va. walk (mm_mem (kn_cpu k')) TASK_A_PD_ADDR va = task_view TASK_A_CODE_PHYS TASK_A_STACK_PHYS TASK_CODE_VIRT TASK_STACK_VIRT va"
    "\<And>va. walk (mm_mem (kn_cpu k')) TASK_B_PD_ADDR va = task_view TASK_B_CODE_PHYS TASK_B_STACK_PHYS TASK_CODE_VIRT TASK_STACK_VIRT va"
    using launch_tasks_spaces[of ?k "0x100000" "0x101000" cold_tables] by blast
  have "walk (mm_mem (kn_cpu k')) TASK_A_PD_ADDR 0x40000123 = Some 0x300123" "walk (mm_mem (kn_cpu k')) TASK_B_PD_ADDR 0x40000123 = Some 0x301123"
    unfolding r(3,4) by (simp_all add: task_view_def page_base_def)
  with c r show ?thesis by blast
qed

text \<open>What \<^verbatim>\<open>iret\<close> pops is the context registered for task A, with the caller's flags and interrupts on.\<close>

lemma sched_enter_task_a:
  assumes "built_in_tasks s" and "sched_enter eax eflags c = (f, c')"
  shows "f ! 0 = t_regs (task_pool s ! 0) ! 8" and "f ! 1 = t_regs (task_pool s ! 0) ! 9" and "f ! 2 = eflags OR 0x200"
    and "f ! 3 = t_regs (task_pool s ! 0) ! 11" and "f ! 4 AND 0xFFFF = t_regs (task_pool s ! 0) ! 12"
    and "c' = c\<lparr>mm_cr3 := t_cr3 (task_pool s ! 0)\<rparr>"
proof -
  have "((eax AND 0xFFFF0000) OR 0x33) AND 0xFFFF = (0x33 :: u32)" by (intro bit_eqI) (auto simp: bit_simps numeral_eq_Suc less_Suc_eq)
  with assms show "f ! 0 = t_regs (task_pool s ! 0) ! 8" and "f ! 1 = t_regs (task_pool s ! 0) ! 9" and "f ! 2 = eflags OR 0x200"
    and "f ! 3 = t_regs (task_pool s ! 0) ! 11" and "f ! 4 AND 0xFFFF = t_regs (task_pool s ! 0) ! 12"
    and "c' = c\<lparr>mm_cr3 := t_cr3 (task_pool s ! 0)\<rparr>"
    by (auto simp: sched_enter_def Let_def built_in_tasks_def built_in_def fresh_task_def fresh_regs_def numeral_eq_Suc)
qed

end
