(* ===== verification/Boot.thy ===== *)
theory Boot
  imports ELF Launch
begin

text \<open>
  \<^verbatim>\<open>kernel/kernel.c\<close>: from the jump of the boot loader to the first instruction in ring 3. The whole
  system is the C tables, the kernel's state, the loader's file buffer and the buffer for \<^verbatim>\<open>hola.txt\<close>.
  The interrupts that \<^verbatim>\<open>sti\<close> lets in while the kernel starts are not modelled: the timer's handler
  returns at once in ring 0, and the keyboard's only queues and echoes.
\<close>

section \<open>Operations\<close>

record system =
  s_tables :: tables
  s_kernel :: kernel
  s_elf :: "u8 list"
  s_content :: "u8 list"

text \<open>The first Linux partition of the master boot record, or 0.\<close>

definition mbr_find_partition :: "disk \<Rightarrow> u32" where
  "mbr_find_partition disk =
     (let mbr = disk_sector disk 0 in
      if mbr ! 510 \<noteq> 0x55 \<or> mbr ! 511 \<noteq> 0xAA then 0
      else case find (\<lambda>i. mbr ! (0x1BE + i * 16 + 4) = 0x83) [0..<4] of
             Some i \<Rightarrow> le32 mbr (0x1BE + i * 16 + 8)
           | None \<Rightarrow> 0)"

definition colour :: "u8 \<Rightarrow> kernel \<Rightarrow> kernel" where
  "colour a k = k\<lparr>kn_screen := set_kattr a (kn_screen k)\<rparr>"

text \<open>The block of \<^verbatim>\<open>kmain\<close> that shows the file \<^verbatim>\<open>hola.txt\<close>.\<close>

definition show_hola :: "disk \<Rightarrow> u8 list \<times> kernel \<Rightarrow> (u8 list \<times> kernel) outcome" where
  "show_hola disk = (\<lambda>(content, k).
     bindo (ext2_find disk EXT2_ROOT_INODE (literal (cstr ''hola.txt'')) (kn_fs k)) (\<lambda>(ino, e).
     if ino \<noteq> 0 then
       bindo (ext2_read_file disk ino content 127 e) (\<lambda>(bytes, e, content).
       bindo (put8 content (unat bytes) 0) (\<lambda>content.
       let k = say (cstr ''  [Ext2] hola.txt: '') (k\<lparr>kn_fs := e\<rparr>);
           k = say content k
       in Inr (content, k)))
     else Inr (content, k\<lparr>kn_fs := e\<rparr>)))"

text \<open>The parts of \<^verbatim>\<open>kmain\<close>: devices and memory, the file system, the tasks.\<close>

definition boot_memory :: "(stub \<Rightarrow> u32) \<Rightarrow> tables \<times> kernel \<Rightarrow> (tables \<times> kernel) outcome" where
  "boot_memory adr = (\<lambda>(t, k).
     (let k = say (cstr ''================================'' @ [10]) (colour 0x0F k);
          k = say (cstr ''  PepinOS Paso 23 - Shell Interactivo'' @ [10]) (colour 0x0B k);
          k = say (cstr ''================================'' @ [10, 10]) (colour 0x0F k);
          k = say (cstr ''  [OK] GDT con ring 3 y TSS'' @ [10]) (colour 0x07 k) in
      bindo (init_idt adr (t, kn_cpu k)) (\<lambda>(t, c).
      let k = say (cstr ''  [OK] IDT lista'' @ [10]) (k\<lparr>kn_cpu := c\<rparr>);
          k = k\<lparr>kn_kb := init_keyboard (kn_kb k)\<rparr>;
          k = say (cstr ''  [OK] Interrupciones activas'' @ [10]) k in
      bindo (init_paging (kn_cpu k)) (\<lambda>c.
      let k = say (cstr ''  [OK] Paginacion kernel activa'' @ [10]) (k\<lparr>kn_cpu := c\<rparr>);
          k = k\<lparr>kn_pmm := pmm_init (32 * 1024 * 1024) (kn_pmm k)\<rparr>;
          k = say (cstr ''  [OK] PMM: memoria fisica lista'' @ [10]) k in
      bindo (vmm_init (kn_pmm k) (kn_cpu k)) (\<lambda>(p, c).
      Inr (t, say (cstr ''  [OK] VMM: listo'' @ [10]) (k\<lparr>kn_pmm := p, kn_cpu := c\<rparr>)))))))"

definition boot_files :: "disk \<Rightarrow> u8 list \<times> kernel \<Rightarrow> (u8 list \<times> kernel) outcome" where
  "boot_files disk = (\<lambda>(content, k).
     (let part_lba = mbr_find_partition disk;
          k = k\<lparr>kn_fs := ext2_set_partition part_lba (kn_fs k)\<rparr> in
      bindo (ext2_init disk (kn_fs k) (kn_screen k)) (\<lambda>(e, d).
      let k = k\<lparr>kn_fs := e, kn_screen := d\<rparr>;
          k = k\<lparr>kn_nodes := vfs_init (kn_nodes k)\<rparr>;
          k = say (cstr ''  [OK] VFS: listo'' @ [10]) k;
          k = say (cstr ''  [Ext2] Directorio raiz:'' @ [10]) k in
      bindo (ext2_ls disk EXT2_ROOT_INODE (kn_fs k) (kn_screen k)) (\<lambda>(e, d).
      let k = k\<lparr>kn_fs := e, kn_screen := d\<rparr> in
      bindo (show_hola disk (content, k)) (\<lambda>(content, k).
      Inr (content, say [10] k))))))"

definition boot_tasks :: "disk \<Rightarrow> u32 \<Rightarrow> u32 \<Rightarrow> u32 \<Rightarrow> u32 \<Rightarrow> system \<Rightarrow> (u32 list \<times> system) outcome" where
  "boot_tasks disk code_a code_b eax eflags s =
     (let k = say (cstr ''Iniciando multitarea:'' @ [10]) (s_kernel s) in
      bindo (launch_tasks code_a code_b (s_tables s, k)) (\<lambda>(t, k).
      bindo (elf_exec disk (cstr ''shell.elf'') (s_elf s, k)) (\<lambda>(elf, k).
      let (frame, c) = sched_enter eax eflags (kn_cpu k)
      in Inr (frame, s\<lparr>s_tables := t, s_kernel := k\<lparr>kn_cpu := c\<rparr>, s_elf := elf\<rparr>))))"

definition kmain :: "disk \<Rightarrow> (stub \<Rightarrow> u32) \<Rightarrow> u32 \<Rightarrow> u32 \<Rightarrow> u32 \<Rightarrow> u32 \<Rightarrow> system \<Rightarrow> (u32 list \<times> system) outcome" where
  "kmain disk adr code_a code_b eax eflags s =
     bindo (boot_memory adr (s_tables s, s_kernel s)) (\<lambda>(t, k).
     bindo (boot_files disk (s_content s, k)) (\<lambda>(content, k).
     boot_tasks disk code_a code_b eax eflags (s\<lparr>s_tables := t, s_kernel := k, s_content := content\<rparr>)))"

definition boot :: "disk \<Rightarrow> u32 \<Rightarrow> (stub \<Rightarrow> u32) \<Rightarrow> u32 \<Rightarrow> u32 \<Rightarrow> u32 \<Rightarrow> u32 \<Rightarrow> system \<Rightarrow> (u32 list \<times> system) outcome" where
  "boot disk addr_ktss adr code_a code_b eax eflags s =
     (let k = s_kernel s;
          k = k\<lparr>kn_screen := (kn_screen k)\<lparr>kY := 0\<rparr>\<rparr>;
          k = colour 0x0A k;
          k = say (cstr ''PepinOS: iniciando...'' @ [10]) k in
      bindo (init_gdt addr_ktss (s_tables s, kn_cpu k)) (\<lambda>(t, c).
      kmain disk adr code_a code_b eax eflags (s\<lparr>s_tables := t, s_kernel := k\<lparr>kn_cpu := c\<rparr>\<rparr>)))"

section \<open>Devices and memory\<close>

definition tables_in_place :: "u32 \<Rightarrow> (stub \<Rightarrow> u32) \<Rightarrow> mem \<Rightarrow> bool" where
  "tables_in_place addr_ktss adr m \<longleftrightarrow>
     (\<forall>i<8. seg_at m (0xD00 + of_nat (8 * i)) = segments addr_ktss ! i) \<and>
     (\<forall>v<256. gate_at m (0x500 + of_nat (8 * v)) = (0x08, adr (stub_of v), if v = 0x30 then 0xEF00 else 0x8E00))"

lemma tables_in_place_agree:
  assumes t: "tables_in_place k adr m" and ag: "agree_outside P m m'" and P: "0 \<notin> P"
  shows "tables_in_place k adr m'"
proof -
  have low: "m' (of_nat n) = m (of_nat n)" if "n < 4096" for n
  proof -
    have "unat (of_nat n :: u32) = n" using that by (intro unat_of_nat_lt) simp
    then have "page_base (of_nat n) = 0" using that by (simp add: word_unat_eq_iff unat_page_base)
    with ag P show ?thesis by (auto simp: agree_outside_def)
  qed
  have "seg_at m' (0xD00 + of_nat (8 * i)) = seg_at m (0xD00 + of_nat (8 * i))" if "i < 8" for i
    using low[of "0xD00 + 8 * i + j" for j] that by (intro seg_at_cong) (simp add: add.assoc)
  moreover have "gate_at m' (0x500 + of_nat (8 * v)) = gate_at m (0x500 + of_nat (8 * v))" if "v < 256" for v
    using low[of "0x500 + 8 * v + j" for j] that by (intro gate_at_cong) (simp add: add.assoc)
  ultimately show ?thesis using t by (simp add: tables_in_place_def)
qed

lemma boot_memory_runs:
  assumes idt: "init_idt adr (t, kn_cpu k) = Inr (t2, c)" and off: "\<not> paging_on c"
  shows "\<exists>d c'. boot_memory adr (t, k) = Inr (t2, k\<lparr>kn_screen := d, kn_cpu := c', kn_pmm := pmm_init 0x2000000 (kn_pmm k)\<rparr>) \<and>
    kernel_space c' \<and> agree_outside (insert KERNEL_PD_ADDR window_pages) (mm_mem c) (mm_mem c')"
proof -
  obtain c' where c': "init_paging c = Inr c'" "kernel_space c'" "agree_outside (insert KERNEL_PD_ADDR window_pages) (mm_mem c) (mm_mem c')"
    using init_paging_kernel_space[OF off] by blast
  have "\<exists>d. boot_memory adr (t, k) = Inr (t2, k\<lparr>kn_screen := d, kn_cpu := c', kn_pmm := pmm_init 0x2000000 (kn_pmm k)\<rparr>)"
    using idt c'(1) by (cases k) (simp add: boot_memory_def Let_def say_def colour_def vmm_init_def init_keyboard_def)
  with c'(2,3) show ?thesis by blast
qed

section \<open>Files\<close>

text \<open>A disk that the driver can mount: 512-byte sectors, the magic number, blocks of at most 4 KB.\<close>

definition ext2_disk :: "disk \<Rightarrow> ext2 \<Rightarrow> bool" where
  "ext2_disk disk e \<longleftrightarrow> disk_ok disk \<and> le16 (superblock disk e) 56 = 0xEF53 \<and> le32 (superblock disk e) 24 \<le> 2 \<and>
     unat (le16 (superblock disk e) 88) \<le> 1024"

lemma same_fs_dir: "same_fs e e' \<Longrightarrow> holds_dir disk e' ino xs = holds_dir disk e ino xs"
  by (simp add: holds_dir_def same_fs_inode same_fs_block same_fs_bsize)

lemma show_hola_runs:
  assumes fs: "ext2_ok (kn_fs k)" "disk_ok disk" "holds_dir disk (kn_fs k) 2 xs" and len: "length content = 128"
  shows "\<exists>content' d e. show_hola disk (content, k) = Inr (content', k\<lparr>kn_screen := d, kn_fs := e\<rparr>) \<and> length content' = 128 \<and> same_fs (kn_fs k) e"
proof -
  let ?ino = "dir_lookup xs (cstr ''hola.txt'')"
  have "0 \<notin> set (cstr ''hola.txt'')" by (simp add: cstr_def)
  from find_in_dir[OF fs names_literal[OF this]] obtain e1 where
    e1: "ext2_find disk 2 (literal (cstr ''hola.txt'')) (kn_fs k) = Inr (?ino, e1)" "same_fs (kn_fs k) e1" by blast
  show ?thesis
  proof (cases "?ino = 0")
    case True
    with e1 len show ?thesis by (intro exI[of _ content] exI[of _ "kn_screen k"] exI[of _ e1]) (simp add: show_hola_def)
  next
    case False
    define n where "n = min (min (unat (i_size (inode_bytes disk e1 ?ino))) (unat (127 :: u32))) (12 * bsize e1)"
    have n: "n \<le> 127" by (simp add: n_def)
    obtain e2 where e2: "same_fs e1 e2" "ext2_read_file disk ?ino content 127 e1 =
        Inr (of_nat n, e2, map (file_byte disk e1 (inode_bytes disk e1 ?ino)) [0..<n] @ drop n content)"
      using read_file_bytes[OF same_fs_ok[OF e1(2) fs(1)] fs(2) n_def, of content] n len by auto
    have "unat (of_nat n :: u32) = n" using n by (intro unat_of_nat_lt) simp
    then show ?thesis using e1(1) e2(2) False n len same_fs_trans[OF e1(2) e2(1)]
      by (cases k) (simp add: show_hola_def put8_def say_def Let_def)
  qed
qed

lemma boot_files_runs:
  assumes disk: "ext2_disk disk e0" and e0: "e0 = ext2_set_partition (mbr_find_partition disk) (kn_fs k)"
    and bufs: "buffers_ok (kn_fs k)" and dir: "holds_dir disk (mounted disk e0) 2 xs" and len: "length content = 128"
  shows "\<exists>content' d e. boot_files disk (content, k) =
      Inr (content', k\<lparr>kn_screen := d, kn_fs := e, kn_nodes := vfs_init (kn_nodes k)\<rparr>) \<and> length content' = 128 \<and>
    ext2_ok e \<and> same_fs (mounted disk e0) e"
proof -
  have d: "disk_ok disk" using disk by (simp add: ext2_disk_def)
  have "buffers_ok e0" using bufs by (simp add: e0 ext2_set_partition_def buffers_ok_def)
  from ext2_init_mounted[OF d this, of "kn_screen k"] disk obtain e1 where
    e1: "ext2_init disk e0 (kn_screen k) = Inr (e1, print (cstr ''  [OK] Ext2: filesystem montado'' @ [10]) (kn_screen k))"
      "ext2_ok e1" "same_fs (mounted disk e0) e1" by (auto simp: ext2_disk_def)
  have h1: "holds_dir disk e1 2 xs" using dir same_fs_dir[OF e1(3)] by simp
  define k1 where "k1 = say (cstr ''  [Ext2] Directorio raiz:'' @ [10]) (say (cstr ''  [OK] VFS: listo'' @ [10])
    (k\<lparr>kn_fs := e1, kn_screen := print (cstr ''  [OK] Ext2: filesystem montado'' @ [10]) (kn_screen k), kn_nodes := vfs_init (kn_nodes k)\<rparr>))"
  obtain e2 where e2: "ext2_ls disk 2 e1 (kn_screen k1) = Inr (e2, fold ls_line xs (kn_screen k1))" "same_fs e1 e2"
    using ls_in_dir[OF e1(2) d h1] by blast
  define k2 where "k2 = k1\<lparr>kn_fs := e2, kn_screen := fold ls_line xs (kn_screen k1)\<rparr>"
  have "ext2_ok (kn_fs k2)" "holds_dir disk (kn_fs k2) 2 xs"
    using same_fs_ok[OF e2(2) e1(2)] same_fs_dir[OF e2(2)] h1 by (simp_all add: k2_def)
  from show_hola_runs[OF this(1) d this(2) len] obtain content' d3 e3 where
    s: "show_hola disk (content, k2) = Inr (content', k2\<lparr>kn_screen := d3, kn_fs := e3\<rparr>)" "length content' = 128" "same_fs e2 e3"
    by (auto simp: k2_def)
  have "boot_files disk (content, k) = Inr (content', say [10] (k2\<lparr>kn_screen := d3, kn_fs := e3\<rparr>))"
    using e1(1) e2(1) s(1) by (simp add: boot_files_def Let_def e0[symmetric] k1_def k2_def say_def)
  moreover have "say [10] (k2\<lparr>kn_screen := d3, kn_fs := e3\<rparr>) = k\<lparr>kn_screen := print [10] d3, kn_fs := e3, kn_nodes := vfs_init (kn_nodes k)\<rparr>"
    by (cases k) (simp add: k2_def k1_def say_def)
  moreover have "same_fs e1 e3" using same_fs_trans[OF e2(2) s(3)] .
  ultimately show ?thesis using s(2) same_fs_ok[OF _ e1(2), of e3] same_fs_trans[OF e1(3), of e3]
    by (intro exI[of _ content'] exI[of _ "print [10] d3"] exI[of _ e3]) simp
qed

section \<open>The whole start\<close>

text \<open>The system as the boot loader leaves it: C objects of their sizes, no task, no open file, paging off.\<close>

definition cold_system :: "system \<Rightarrow> bool" where
  "cold_system s \<longleftrightarrow> (let t = s_tables s; k = s_kernel s in
     length (kgdt t) = 8 \<and> length (kidt t) = 256 \<and> length (ktss t) = 104 \<and>
     \<not> paging_on (kn_cpu k) \<and> length (pmm_bitmap (kn_pmm k)) = 256 \<and>
     sched_inv (kn_sched k) \<and> ntasks (kn_sched k) = 0 \<and> open_fds (kn_sched k) = {} \<and> kb_inv (kn_kb k) \<and>
     buffers_ok (kn_fs k) \<and> inode_size (kn_fs k) = 0 \<and> pool_ok (kn_nodes k) \<and> length (s_elf s) = 65536 \<and> length (s_content s) = 128)"

text \<open>The two built-in tasks in memory: code, tables, and the kernel's descriptor tables under them.\<close>

definition started :: "u32 \<Rightarrow> (stub \<Rightarrow> u32) \<Rightarrow> u32 \<Rightarrow> u32 \<Rightarrow> mem \<Rightarrow> tables \<Rightarrow> mem \<Rightarrow> bool" where
  "started addr_ktss adr code_a code_b m0 t m \<longleftrightarrow>
     r_gdtr t = (64, 0xD00) \<and> r_idtr t = (2048, 0x500) \<and> r_tr t = 0x38 \<and> le32 (ktss t) 4 = TASK_A_KSTACK_TOP \<and>
     tables_in_place addr_ktss adr m \<and> tasks_in_memory code_a code_b m0 m"

definition code_image :: "u32 \<Rightarrow> bool" where
  "code_image a \<longleftrightarrow> 0x1000 \<le> unat a \<and> in_image a"

lemma init_windows: "0 \<notin> insert KERNEL_PD_ADDR window_pages" "p \<in> insert KERNEL_PD_ADDR window_pages \<Longrightarrow> 0x200000 \<le> unat p"
  by (auto simp: window_pages_def unat_kpt_page) (auto simp: word_unat_eq_iff unat_kpt_page)

lemma image_untouched:
  assumes img: "code_image a" and i: "i < 1024"
    and low: "\<forall>a. \<not> (0x500 \<le> unat a \<and> unat a < 0xD40) \<longrightarrow> m a = m0 a"
    and win: "agree_outside (insert KERNEL_PD_ADDR window_pages) m m1"
  shows "m1 (a + of_nat i) = m0 (a + of_nat i)"
proof -
  have im: "in_image a" "0x1000 \<le> unat a" using img by (simp_all add: code_image_def)
  have "unat (a + of_nat i) = unat a + i" using im(1) i by (simp add: in_image_def unat_add_no_wrap)
  then have "m (a + of_nat i) = m0 (a + of_nat i)" using low im(2) by simp
  moreover have "page_base (a + of_nat i) \<notin> insert KERNEL_PD_ADDR window_pages" using init_windows(2) in_image_byte(2)[OF im(1) i] by force
  ultimately show ?thesis using win by (simp add: agree_outside_def)
qed

text \<open>Everything up to the file system, and then up to the loading of the shell.\<close>

lemma boot_until_files:
  assumes cold: "cold_system s"
  shows "\<exists>t k m. boot disk addr_ktss adr code_a code_b eax eflags s =
      bindo (boot_files disk (s_content s, k)) (\<lambda>(content, k).
        boot_tasks disk code_a code_b eax eflags (s\<lparr>s_tables := t, s_kernel := k, s_content := content\<rparr>)) \<and>
    r_gdtr t = (64, 0xD00) \<and> r_idtr t = (2048, 0x500) \<and> ktss t = ktss (s_tables s) \<and> tables_in_place addr_ktss adr m \<and>
    (\<forall>a. \<not> (0x500 \<le> unat a \<and> unat a < 0xD40) \<longrightarrow> m a = mm_mem (kn_cpu (s_kernel s)) a) \<and>
    kernel_space (kn_cpu k) \<and> agree_outside (insert KERNEL_PD_ADDR window_pages) m (mm_mem (kn_cpu k)) \<and>
    kn_pmm k = pmm_init 0x2000000 (kn_pmm (s_kernel s)) \<and> kn_sched k = kn_sched (s_kernel s) \<and> kn_kb k = kn_kb (s_kernel s) \<and>
    kn_fs k = kn_fs (s_kernel s) \<and> kn_nodes k = kn_nodes (s_kernel s)"
proof -
  let ?k = "s_kernel s" and ?t = "s_tables s"
  note c = cold[unfolded cold_system_def Let_def]
  obtain t1 c1 t2 m where tb: "init_gdt addr_ktss (?t, kn_cpu ?k) = Inr (t1, c1)" "init_idt adr (t1, c1) = Inr (t2, (kn_cpu ?k)\<lparr>mm_mem := m\<rparr>)"
    "r_gdtr t2 = (64, 0xD00)" "r_idtr t2 = (2048, 0x500)" "ktss t2 = ktss ?t" "tables_in_place addr_ktss adr m"
    "\<forall>a. \<not> (0x500 \<le> unat a \<and> unat a < 0xD40) \<longrightarrow> m a = mm_mem (kn_cpu ?k) a"
    using tables_installed[where c = "kn_cpu ?k" and t = ?t and k = addr_ktss and adr = adr] c unfolding tables_in_place_def by blast
  define k0 where "k0 = say (cstr ''PepinOS: iniciando...'' @ [10]) (colour 0x0A (?k\<lparr>kn_screen := (kn_screen ?k)\<lparr>kY := 0\<rparr>\<rparr>))"
  define k1 where "k1 = k0\<lparr>kn_cpu := c1\<rparr>"
  have k0: "kn_cpu k0 = kn_cpu ?k" by (simp add: k0_def say_def colour_def)
  have k1: "kn_cpu k1 = c1" "kn_pmm k1 = kn_pmm ?k" "kn_sched k1 = kn_sched ?k" "kn_kb k1 = kn_kb ?k" "kn_fs k1 = kn_fs ?k" "kn_nodes k1 = kn_nodes ?k"
    by (simp_all add: k1_def k0_def say_def colour_def)
  have off: "\<not> paging_on ((kn_cpu ?k)\<lparr>mm_mem := m\<rparr>)" using c by (simp add: paging_on_def)
  obtain d c2 where m2: "boot_memory adr (t1, k1) = Inr (t2, k1\<lparr>kn_screen := d, kn_cpu := c2, kn_pmm := pmm_init 0x2000000 (kn_pmm k1)\<rparr>)"
    "kernel_space c2" "agree_outside (insert KERNEL_PD_ADDR window_pages) m (mm_mem c2)"
    using boot_memory_runs[of adr t1 k1 t2, OF _ off] tb(2) by (auto simp: k1(1))
  have "boot disk addr_ktss adr code_a code_b eax eflags s =
      bindo (boot_files disk (s_content s, k1\<lparr>kn_screen := d, kn_cpu := c2, kn_pmm := pmm_init 0x2000000 (kn_pmm k1)\<rparr>)) (\<lambda>(content, k).
        boot_tasks disk code_a code_b eax eflags (s\<lparr>s_tables := t2, s_kernel := k, s_content := content\<rparr>))"
    unfolding boot_def kmain_def Let_def using tb(1) m2(1) by (simp add: k0_def[symmetric] k0 k1_def[symmetric])
  then show ?thesis using tb(3-7) m2(2,3)
    by (intro exI[of _ t2] exI[of _ "k1\<lparr>kn_screen := d, kn_cpu := c2, kn_pmm := pmm_init 0x2000000 (kn_pmm k1)\<rparr>"] exI[of _ m]) (simp add: k1)
qed

lemma boot_prefix:
  assumes cold: "cold_system s" and img: "code_image code_a" "code_image code_b"
    and e0: "e0 = ext2_set_partition (mbr_find_partition disk) (kn_fs (s_kernel s))"
    and disk: "ext2_disk disk e0" and dir: "holds_dir disk (mounted disk e0) 2 xs"
  shows "\<exists>t k content. boot disk addr_ktss adr code_a code_b eax eflags s =
      bindo (elf_exec disk (cstr ''shell.elf'') (s_elf s, k)) (\<lambda>(elf, k). let (frame, c) = sched_enter eax eflags (kn_cpu k)
        in Inr (frame, \<lparr>s_tables = t, s_kernel = k\<lparr>kn_cpu := c\<rparr>, s_elf = elf, s_content = content\<rparr>)) \<and>
    started addr_ktss adr code_a code_b (mm_mem (kn_cpu (s_kernel s))) t (mm_mem (kn_cpu k)) \<and>
    kernel_space (kn_cpu k) \<and> kn_pmm k = pmm_init 0x2000000 (kn_pmm (s_kernel s)) \<and> sched_inv (kn_sched k) \<and> ntasks (kn_sched k) = 2 \<and>
    cur_task (kn_sched k) = Some 0 \<and> built_in_tasks (kn_sched k) \<and> open_fds (kn_sched k) = {} \<and>
    kb_inv (kn_kb k) \<and> ext2_ok (kn_fs k) \<and> same_fs (mounted disk e0) (kn_fs k) \<and> pool_ok (kn_nodes k) \<and> used_nodes (kn_nodes k) = {}"
proof -
  let ?k = "s_kernel s" and ?m0 = "mm_mem (kn_cpu (s_kernel s))" and ?top = TASK_A_KSTACK_TOP
  note c = cold[unfolded cold_system_def Let_def]
  obtain t2 k2 m where b: "boot disk addr_ktss adr code_a code_b eax eflags s =
      bindo (boot_files disk (s_content s, k2)) (\<lambda>(content, k).
        boot_tasks disk code_a code_b eax eflags (s\<lparr>s_tables := t2, s_kernel := k, s_content := content\<rparr>))"
    and t2: "r_gdtr t2 = (64, 0xD00)" "r_idtr t2 = (2048, 0x500)" "ktss t2 = ktss (s_tables s)" "tables_in_place addr_ktss adr m"
    and low: "\<forall>a. \<not> (0x500 \<le> unat a \<and> unat a < 0xD40) \<longrightarrow> m a = ?m0 a"
    and k2: "kernel_space (kn_cpu k2)" "agree_outside (insert KERNEL_PD_ADDR window_pages) m (mm_mem (kn_cpu k2))"
      "kn_pmm k2 = pmm_init 0x2000000 (kn_pmm ?k)" "kn_sched k2 = kn_sched ?k" "kn_kb k2 = kn_kb ?k" "kn_fs k2 = kn_fs ?k" "kn_nodes k2 = kn_nodes ?k"
    using boot_until_files[OF cold] by blast
  obtain content d e where m3: "boot_files disk (s_content s, k2) =
      Inr (content, k2\<lparr>kn_screen := d, kn_fs := e, kn_nodes := vfs_init (kn_nodes k2)\<rparr>)" "ext2_ok e" "same_fs (mounted disk e0) e"
    using boot_files_runs[OF disk, of k2 xs "s_content s"] dir c e0 by (auto simp: k2)
  define k3 where "k3 = say (cstr ''Iniciando multitarea:'' @ [10]) (k2\<lparr>kn_screen := d, kn_fs := e, kn_nodes := vfs_init (kn_nodes k2)\<rparr>)"
  have k3: "kn_cpu k3 = kn_cpu k2" "kn_pmm k3 = pmm_init 0x2000000 (kn_pmm ?k)" "kn_sched k3 = kn_sched ?k" "kn_kb k3 = kn_kb ?k" "kn_fs k3 = e"
    "kn_nodes k3 = vfs_init (kn_nodes ?k)" by (simp_all add: k3_def k2 say_def)
  have "kernel_space (kn_cpu k3)" "in_image code_a" "in_image code_b" "sched_inv (kn_sched k3)" "ntasks (kn_sched k3) = 0"
    "open_fds (kn_sched k3) = {}" "length (ktss t2) = 104" using k2(1) img c t2(3) by (simp_all add: k3 code_image_def)
  from launch_runs[OF this] obtain d4 c4 s4 where m4: "launch_tasks code_a code_b (t2, k3) =
      Inr ((init_tss ?top t2)\<lparr>r_tr := 0x38\<rparr>, k3\<lparr>kn_screen := d4, kn_cpu := c4, kn_sched := s4\<rparr>)"
    "kernel_space c4" "agree_outside task_pages (mm_mem (kn_cpu k2)) (mm_mem c4)" "tasks_in_memory code_a code_b (mm_mem (kn_cpu k2)) (mm_mem c4)"
    and s4: "sched_inv s4" "ntasks s4 = 2" "cur_task s4 = Some 0" "built_in_tasks s4" "open_fds s4 = {}"
    unfolding k3(1) by blast
  have "tables_in_place addr_ktss adr (mm_mem c4)"
    using tables_in_place_agree[OF tables_in_place_agree[OF t2(4) k2(2) init_windows(1)] m4(3)] by (simp add: task_pages_def)
  moreover have "tasks_in_memory code_a code_b ?m0 (mm_mem c4)"
    using m4(4) image_untouched[OF img(1) _ low k2(2)] image_untouched[OF img(2) _ low k2(2)] by (simp add: tasks_in_memory_def code_at_def)
  ultimately have "started addr_ktss adr code_a code_b ?m0 ((init_tss ?top t2)\<lparr>r_tr := 0x38\<rparr>) (mm_mem c4)"
    using init_tss_fields[where t = t2 and st = ?top] c t2(1-3) by (simp add: started_def)
  moreover have "boot disk addr_ktss adr code_a code_b eax eflags s =
      bindo (elf_exec disk (cstr ''shell.elf'') (s_elf s, k3\<lparr>kn_screen := d4, kn_cpu := c4, kn_sched := s4\<rparr>)) (\<lambda>(elf, k).
        let (frame, c) = sched_enter eax eflags (kn_cpu k)
        in Inr (frame, \<lparr>s_tables = (init_tss ?top t2)\<lparr>r_tr := 0x38\<rparr>, s_kernel = k\<lparr>kn_cpu := c\<rparr>, s_elf = elf, s_content = content\<rparr>))"
    unfolding b m3(1) using m4(1) by (cases s) (simp add: boot_tasks_def k3_def[symmetric])
  ultimately show ?thesis using m4(2) s4 c m3(2,3) vfs_init_unused[of "kn_nodes ?k"]
    by (intro exI[of _ "(init_tss ?top t2)\<lparr>r_tr := 0x38\<rparr>"] exI[of _ "k3\<lparr>kn_screen := d4, kn_cpu := c4, kn_sched := s4\<rparr>"] exI[of _ content])
       (simp add: k3)
qed

lemma boot_frames:
  assumes "length (pmm_bitmap p) = 256"
  shows "pmm_safe (pmm_init 0x2000000 p)" and "card (low_frames (pmm_init 0x2000000 p)) = 3072"
    and "a \<in> free_addrs (pmm_init 0x2000000 p) \<Longrightarrow> 0x400000 \<le> unat a"
proof -
  let ?p = "pmm_init 0x2000000 p" and ?f = "\<lambda>n. of_nat n * 4096 :: u32"
  show "pmm_safe ?p" using assms by (simp add: pmm_safe_def pmm_init_inv pmm_init_free_frames)
  have free: "free_addrs ?p = ?f ` {1024..<8192}"
    using pmm_init_free_frames[OF assms, of "0x2000000"] by (simp add: free_addrs_def managed_pages_def)
  then have low: "low_frames ?p = ?f ` {1024..<4096}" by (auto simp: low_frames_def frame_address)
  have "inj_on ?f {1024..<4096}" by (rule inj_on_inverseI[of _ "\<lambda>w. unat w div 4096"]) (simp add: frame_address)
  then show "card (low_frames ?p) = 3072" by (simp add: low card_image)
  show "0x400000 \<le> unat a" if "a \<in> free_addrs ?p" using that by (auto simp: free frame_address)
qed

lemma task_tables_window: "task_tables m pd pt c s \<Longrightarrow> window_dir m pd"
  by (simp add: task_tables_def window_dir_def task_dir_entry_def)

lemma same_fs_elf:
  assumes "same_fs e e'"
  shows "elf_size disk e' ino = elf_size disk e ino" and "elf_file disk e' ino buf = elf_file disk e ino buf"
  using assms by (simp_all add: elf_size_def elf_file_def same_fs_inode same_fs_bsize same_fs_file)

text \<open>The frame and address space in which task A begins.\<close>

definition enters_task_a :: "u32 list \<Rightarrow> mach \<Rightarrow> bool" where
  "enters_task_a frame c \<longleftrightarrow> length frame = 5 \<and> frame ! 0 = TASK_CODE_VIRT \<and> frame ! 1 = 0x23 \<and> bit (frame ! 2) 9 \<and>
     frame ! 3 = TASK_STACK_VIRT + 0xFF0 \<and> frame ! 4 AND 0xFFFF = 0x33 \<and> in_space TASK_A_PD_ADDR c"

lemma sched_enter_enters:
  assumes ks: "kernel_space c" and t: "task_tables (mm_mem c) TASK_A_PD_ADDR pt code stack"
  shows "\<exists>frame. sched_enter eax eflags c = (frame, c\<lparr>mm_cr3 := TASK_A_PD_ADDR\<rparr>) \<and> enters_task_a frame (c\<lparr>mm_cr3 := TASK_A_PD_ADDR\<rparr>)"
proof -
  have "((eax AND 0xFFFF0000) OR 0x33) AND 0xFFFF = (0x33 :: u32)" by (intro bit_eqI) (auto simp: bit_simps numeral_eq_Suc less_Suc_eq)
  moreover have "bit (eflags OR 0x200) 9" by (simp add: bit_simps)
  moreover have "in_space TASK_A_PD_ADDR (c\<lparr>mm_cr3 := TASK_A_PD_ADDR\<rparr>)"
    using ks task_tables_window[OF t] by (simp add: kernel_space_def in_space_def paging_on_def page_aligned_def)
  ultimately show ?thesis by (simp add: sched_enter_def enters_task_a_def numeral_eq_Suc)
qed

section \<open>Properties\<close>

text \<open>C1: The whole start of the system, from the jump of the boot loader to the \<^verbatim>\<open>iret\<close> into ring 3: on a
  disk whose root directory holds a well-formed program \<^verbatim>\<open>shell.elf\<close>, booting ends with the kernel's
  invariant established, the descriptor tables and the task state segment in place, three tasks
  registered (A and B with their code and tables in memory, and the shell, whose address space holds
  exactly its image and a stack), and the processor entering task A in that task's address space.\<close>

theorem boot_starts_shell:
  assumes cold: "cold_system s" and img: "code_image code_a" "code_image code_b"
    and e0: "e0 = ext2_set_partition (mbr_find_partition disk) (kn_fs (s_kernel s))"
    and disk: "ext2_disk disk e0" and dir: "holds_dir disk (mounted disk e0) 2 xs"
    and ino: "dir_lookup xs (cstr ''shell.elf'') = ino" "ino \<noteq> 0" and size: "52 \<le> elf_size disk (mounted disk e0) ino"
    and elf: "file = elf_file disk (mounted disk e0) ino (s_elf s)" "elf_magic file" "elf_ok file hs" "e_entry file = Inr entry"
    and fits: "2 * length (elf_pages hs) + 4 \<le> 3072"
  shows "\<exists>frame s' pd kstack. boot disk addr_ktss adr code_a code_b eax eflags s = Inr (frame, s') \<and>
    kernel_inv (s_kernel s') \<and> ntasks (kn_sched (s_kernel s')) = 3 \<and> cur_task (kn_sched (s_kernel s')) = Some 0 \<and>
    started addr_ktss adr code_a code_b (mm_mem (kn_cpu (s_kernel s))) (s_tables s') (mm_mem (kn_cpu (s_kernel s'))) \<and>
    built_in_tasks (kn_sched (s_kernel s')) \<and> task_pool (kn_sched (s_kernel s')) ! 2 = elf_task entry pd kstack \<and>
    runs_image (mm_mem (kn_cpu (s_kernel s'))) pd (insert USER_STACK_VIRT (set (elf_pages hs))) (elf_image file hs) \<and>
    pmm_safe (kn_pmm (s_kernel s')) \<and> enters_task_a frame (kn_cpu (s_kernel s'))"
proof -
  note c = cold[unfolded cold_system_def Let_def]
  obtain t k content where b: "boot disk addr_ktss adr code_a code_b eax eflags s =
      bindo (elf_exec disk (cstr ''shell.elf'') (s_elf s, k)) (\<lambda>(elf, k). let (frame, c) = sched_enter eax eflags (kn_cpu k)
        in Inr (frame, \<lparr>s_tables = t, s_kernel = k\<lparr>kn_cpu := c\<rparr>, s_elf = elf, s_content = content\<rparr>))"
    "started addr_ktss adr code_a code_b (mm_mem (kn_cpu (s_kernel s))) t (mm_mem (kn_cpu k))"
    and k: "kernel_space (kn_cpu k)" "kn_pmm k = pmm_init 0x2000000 (kn_pmm (s_kernel s))" "sched_inv (kn_sched k)" "ntasks (kn_sched k) = 2"
    "cur_task (kn_sched k) = Some 0" "built_in_tasks (kn_sched k)" "open_fds (kn_sched k) = {}" "kb_inv (kn_kb k)" "ext2_ok (kn_fs k)"
    "same_fs (mounted disk e0) (kn_fs k)" "pool_ok (kn_nodes k)" "used_nodes (kn_nodes k) = {}"
    using boot_prefix[OF cold img e0 disk dir] by blast
  have d: "disk_ok disk" "holds_dir disk (kn_fs k) 2 xs" "0 \<notin> set (cstr ''shell.elf'')" "length (s_elf s) = 65536"
    using disk dir same_fs_dir[OF k(10)] c by (simp_all add: ext2_disk_def cstr_def)
  have pm: "length (pmm_bitmap (kn_pmm (s_kernel s))) = 256" using c by simp
  have lt: "ntasks (kn_sched k) < MAX_TASKS" using k(4) by simp
  obtain k' pd kst where r: "elf_exec disk (cstr ''shell.elf'') (s_elf s, k) = Inr (file, k')"
    "runs_image (mm_mem (kn_cpu k')) pd (insert USER_STACK_VIRT (set (elf_pages hs))) (elf_image file hs)"
    "pmm_safe (kn_pmm k')" "kernel_space (kn_cpu k')" "agree_outside (free_addrs (kn_pmm k)) (mm_mem (kn_cpu k)) (mm_mem (kn_cpu k'))"
    "same_fs (kn_fs k) (kn_fs k')" "kn_kb k' = kn_kb k" "kn_nodes k' = kn_nodes k"
    "sched_add_task entry 0x23 0x202 (USER_STACK_VIRT + 0xFF0) 0x33 pd (kst + 4096) (kn_sched k) = Inr (kn_sched k')"
    using elf_exec_runs[of k disk xs "cstr ''shell.elf''" "s_elf s" ino "file" hs entry, OF k(9) d ino]
      size elf fits k(1,3) lt boot_frames(1,2)[OF pm] by (auto simp: same_fs_elf[OF k(10)] k(2))
  have s': "sched_inv (kn_sched k')" "ntasks (kn_sched k') = 3" "cur_task (kn_sched k') = Some 0" "built_in_tasks (kn_sched k')"
    "task_pool (kn_sched k') ! 2 = elf_task entry pd kst"
    using registers_task[OF k(3) lt, of entry "0x23" "0x202" "USER_STACK_VIRT + 0xFF0" "0x33" pd "kst + 4096"] r(9) k(4-6)
    by (auto simp: built_in_tasks_def elf_task_def)
  have "kernel_inv k'"
    using s'(1) k(8) same_fs_ok[OF r(6) k(9)] r(7,8) k(11,12)
      files_ok_none[OF add_task_no_files[OF k(3) lt k(7) r(9)]] by (simp add: kernel_inv_def)
  then have inv: "kernel_inv (k'\<lparr>kn_cpu := x\<rparr>)" for x by (simp add: kernel_inv_def)
  have "unat a < 0x400000" if "a \<in> insert 0 task_pages" for a using that by (auto simp: task_pages_def)
  then have 0: "0 \<notin> free_addrs (kn_pmm k)" "free_addrs (kn_pmm k) \<inter> task_pages = {}"
    using boot_frames(3)[OF pm] by (force simp: k(2))+
  have st: "started addr_ktss adr code_a code_b (mm_mem (kn_cpu (s_kernel s))) t (mm_mem (kn_cpu k'))"
    using b(2) tables_in_place_agree[OF _ r(5) 0(1)] tasks_in_memory_agree[OF _ r(5) 0(2)] by (auto simp: started_def)
  then obtain frame where f: "sched_enter eax eflags (kn_cpu k') = (frame, (kn_cpu k')\<lparr>mm_cr3 := TASK_A_PD_ADDR\<rparr>)"
    "enters_task_a frame ((kn_cpu k')\<lparr>mm_cr3 := TASK_A_PD_ADDR\<rparr>)"
    using sched_enter_enters[OF r(4)] unfolding started_def tasks_in_memory_def by blast
  let ?s' = "\<lparr>s_tables = t, s_kernel = k'\<lparr>kn_cpu := (kn_cpu k')\<lparr>mm_cr3 := TASK_A_PD_ADDR\<rparr>\<rparr>, s_elf = file, s_content = content\<rparr>"
  have "boot disk addr_ktss adr code_a code_b eax eflags s = Inr (frame, ?s')" unfolding b(1) r(1) by (simp add: f(1))
  then show ?thesis using inv st s' r(2,3) f(2) by (intro exI[of _ frame] exI[of _ ?s'] exI[of _ pd] exI[of _ kst]) simp
qed

text \<open>The system at power-on, and a disk without partitions whose root directory holds a small program under
  the name the kernel starts.\<close>

definition power_on :: system where
  "power_on = \<lparr>s_tables = cold_tables,
     s_kernel = \<lparr>kn_cpu = cold_machine, kn_pmm = pmm_blank, kn_sched = blank_sched, kn_screen = blank_screen, kn_kb = idle_keyboard,
       kn_fs = cold_fs, kn_nodes = blank_pool\<rparr>,
     s_elf = replicate 65536 0, s_content = replicate 128 0\<rparr>"

definition boot_dir :: "dirent list" where
  "boot_dir = [\<lparr>de_ino = 3, de_type = 1, de_name = cstr ''shell.elf'', de_pad = replicate 19 0\<rparr>]"

definition boot_disk :: disk where
  "boot_disk l = (if l = 12 then layout boot_dir @ replicate 476 0 else elf_disk l)"

lemma power_on_cold: "cold_system power_on"
  using cold_machine_flat blank_sched_inv blank_sched_files idle_keyboard cold_fs_buffers blank_pool_ok
  by (simp add: cold_system_def power_on_def cold_tables_def pmm_blank_def cold_fs_def)

lemma length_boot_dir: "length (layout boot_dir) = 36"
  by (simp add: boot_dir_def layout_def dirent_bytes_def bytes32_def bytes16_def cstr_def)

lemma boot_disk_sectors: "boot_disk 0 = replicate 512 0" "boot_disk 2 = sample_disk 2" "boot_disk 4 = sample_disk 4" "boot_disk 5 = replicate 512 0"
  by (simp_all add: boot_disk_def elf_disk_def sample_disk_def)

lemma boot_disk_mount:
  "mbr_find_partition boot_disk = 0" "ext2_set_partition 0 cold_fs = cold_fs" "ext2_disk boot_disk cold_fs" "mounted boot_disk cold_fs = sample_fs"
proof -
  show "mbr_find_partition boot_disk = 0" by (simp add: mbr_find_partition_def disk_sector_def boot_disk_sectors)
  show "ext2_set_partition 0 cold_fs = cold_fs" by (simp add: ext2_set_partition_def cold_fs_def)
  have sb: "superblock boot_disk cold_fs = superblock sample_disk cold_fs"
    by (simp add: superblock_def cold_fs_def disk_sector_def boot_disk_sectors)
  have "disk_ok boot_disk" using elf_disk_ok by (simp add: disk_ok_def boot_disk_def length_boot_dir)
  then show "ext2_disk boot_disk cold_fs" by (simp add: ext2_disk_def sb sample_superblock)
  have "le32 (superblock sample_disk cold_fs) 40 = 8" "le32 (superblock sample_disk cold_fs) 76 = 0"
    by (simp_all add: superblock_def cold_fs_def disk_sector_def sample_disk_def le32_def bytes32_def bytes16_def nth_append)
  moreover have "block_data boot_disk e 2 = sample_disk 4 @ replicate 512 0" if "block_size e = 1024" "part_lba e = 0" for e
    using that by (simp add: block_data_def bsize_def disk_sector_def boot_disk_sectors upt_rec[of _ "Suc _"] upt_rec[of _ "numeral _"])
  moreover have "take 32 (sample_disk 4) = replicate 8 0 @ bytes32 5 @ replicate 20 0" "length (sample_disk 4) = 512"
    by (simp_all add: sample_disk_def bytes32_def)
  ultimately show "mounted boot_disk cold_fs = sample_fs"
    by (simp add: mounted_def sb sample_superblock Let_def) (simp add: cold_fs_def sample_fs_def)
qed

lemma boot_disk_files:
  "holds_dir boot_disk sample_fs 2 boot_dir" "elf_size boot_disk sample_fs 3 = 1100" "elf_file boot_disk sample_fs 3 (replicate 65536 0) = loaded_file"
proof -
  have blk: "block_data boot_disk sample_fs 5 = block_data elf_disk sample_fs 5" "block_data boot_disk sample_fs 7 = block_data elf_disk sample_fs 7"
    "block_data boot_disk sample_fs 6 = layout boot_dir @ replicate 476 0 @ replicate 512 0"
    by (simp_all add: block_data_def sample_fs_def cold_fs_def bsize_def disk_sector_def boot_disk_def elf_disk_def sample_disk_def upt_rec)
  have "inode_block sample_fs n = 5" if "n \<in> {2, 3}" for n
    using that by (auto simp: inode_block_def bg_inode_table_def sample_fs_def cold_fs_def le32_def bytes32_def nth_append)
  then have "inode_bytes boot_disk sample_fs n = inode_bytes elf_disk sample_fs n" if "n \<in> {2, 3}" for n
    using that blk(1) by (auto simp: inode_bytes_def)
  then have ino: "inode_bytes boot_disk sample_fs 2 = sample_inode 36 6" "inode_bytes boot_disk sample_fs 3 = sample_inode 1100 7"
    by (simp_all add: elf_disk_inodes)
  show "holds_dir boot_disk sample_fs 2 boot_dir"
    by (simp add: holds_dir_def ino sample_inode_fields blk length_boot_dir sample_fs_ok)
       (simp add: boot_dir_def dirent_ok_def de_len_def cstr_def)
  show sz: "elf_size boot_disk sample_fs 3 = 1100" by (simp add: elf_size_def ino sample_inode_fields sample_fs_ok)
  have "file_byte boot_disk sample_fs (sample_inode 1100 7) i = file_byte elf_disk sample_fs (sample_inode 1100 7) i" if "i < 1100" for i
  proof -
    have "i div 1024 = 0 \<or> i div 1024 = 1" using that by auto
    then show ?thesis by (auto simp: file_byte_def sample_fs_ok sample_inode_fields blk)
  qed
  then show "elf_file boot_disk sample_fs 3 (replicate 65536 0) = loaded_file"
    by (simp add: loaded_file_def elf_file_def sz sample_elf_size ino elf_disk_inodes)
qed

theorem boot_starts_shell_witness:
  "\<exists>frame s' pd kstack. boot boot_disk 0x5000 (\<lambda>_. 0x1234) 0x100000 0x101000 0 2 power_on = Inr (frame, s') \<and>
     ntasks (kn_sched (s_kernel s')) = 3 \<and> task_pool (kn_sched (s_kernel s')) ! 2 = elf_task 0x40000000 pd kstack \<and>
     enters_task_a frame (kn_cpu (s_kernel s'))"
proof -
  have img: "code_image 0x100000" "code_image 0x101000" by (simp_all add: code_image_def in_image_def)
  have fs: "kn_fs (s_kernel power_on) = cold_fs" "s_elf power_on = replicate 65536 0" by (simp_all add: power_on_def)
  have e0: "cold_fs = ext2_set_partition (mbr_find_partition boot_disk) (kn_fs (s_kernel power_on))" by (simp add: fs boot_disk_mount)
  have ino: "dir_lookup boot_dir (cstr ''shell.elf'') = 3" "(3 :: u32) \<noteq> 0" by (simp_all add: dir_lookup_def boot_dir_def)
  have size: "52 \<le> elf_size boot_disk sample_fs 3" and f: "loaded_file = elf_file boot_disk sample_fs 3 (s_elf power_on)"
    and fits: "2 * length (elf_pages [Some sample_seg]) + 4 \<le> 3072" by (simp_all add: boot_disk_files fs sample_seg_pages)
  show ?thesis
    using boot_starts_shell[OF power_on_cold img e0 boot_disk_mount(3), unfolded boot_disk_mount(4), OF boot_disk_files(1) ino size f
      loaded_file_fields(5) loaded_file_ok loaded_file_fields(1) fits, of "0x5000" "\<lambda>_. 0x1234" 0 2] by blast
qed

text \<open>C31: The kernel cannot start without a file system: when the partition it picks has no ext2 magic
  number the driver only prints a warning and stays unmounted, and the listing of the root directory
  that follows divides by the inode size 0, whatever else the disk and the machine hold.\<close>

theorem boot_needs_ext2:
  assumes cold: "cold_system s" and e0: "e0 = ext2_set_partition (mbr_find_partition disk) (kn_fs (s_kernel s))"
    and magic: "le16 (superblock disk e0) 56 \<noteq> 0xEF53"
  shows "boot disk addr_ktss adr code_a code_b eax eflags s = Inl DivideError"
proof -
  obtain t k where b: "boot disk addr_ktss adr code_a code_b eax eflags s =
      bindo (boot_files disk (s_content s, k)) (\<lambda>(content, k).
        boot_tasks disk code_a code_b eax eflags (s\<lparr>s_tables := t, s_kernel := k, s_content := content\<rparr>))"
    and k: "kn_fs k = kn_fs (s_kernel s)" using boot_until_files[OF cold] by blast
  have "inode_size e0 = 0" using cold by (simp add: e0 ext2_set_partition_def cold_system_def Let_def)
  from ls_unmounted[OF magic this] obtain e' where e': "ext2_init disk e0 (kn_screen k) =
      Inr (e', print (cstr ''  [!!] Ext2: magic invalido '' @ [0xE2, 0x80, 0x94] @ cstr '' no es ext2'' @ [10]) (kn_screen k))"
    "\<And>d. ext2_ls disk 2 e' d = Inl DivideError" by blast
  have "boot_files disk (s_content s, k) = Inl DivideError" using e' by (simp add: boot_files_def Let_def say_def k e0[symmetric])
  then show ?thesis by (simp add: b)
qed

theorem boot_needs_ext2_witness:
  "boot (\<lambda>_. replicate 512 0) 0x5000 (\<lambda>_. 0) 0x100000 0x101000 0 2 power_on = Inl DivideError"
proof (rule boot_needs_ext2[OF power_on_cold refl])
  show "le16 (superblock (\<lambda>_. replicate 512 0) (ext2_set_partition (mbr_find_partition (\<lambda>_. replicate 512 0)) (kn_fs (s_kernel power_on)))) 56 \<noteq> 0xEF53"
    by (simp add: superblock_def disk_sector_def le16_def)
qed

text \<open>A partition table as the MBR holds it.\<close>

record partition =
  pe_head :: "u8 list"
  pe_type :: u8
  pe_end :: "u8 list"
  pe_lba :: u32
  pe_count :: u32

definition entry_bytes :: "partition \<Rightarrow> u8 list" where
  "entry_bytes p = pe_head p @ [pe_type p] @ pe_end p @ bytes32 (pe_lba p) @ bytes32 (pe_count p)"

definition mbr_sector :: "u8 list \<Rightarrow> partition list \<Rightarrow> u8 list" where
  "mbr_sector code ps = code @ concat (map entry_bytes ps) @ [0x55, 0xAA]"

text \<open>Finding the file system: on a disk with a master boot record of four partition entries the kernel
  takes the first one of type 0x83 (Linux) and starts at its first sector; with no such entry it takes
  the disk as a whole.\<close>

theorem mbr_find_partition_first:
  assumes "length code = 446" and "length ps = 4" and "\<forall>p \<in> set ps. length (pe_head p) = 4 \<and> length (pe_end p) = 3"
    and "disk 0 = mbr_sector code ps"
  shows "mbr_find_partition disk = (case find (\<lambda>p. pe_type p = 0x83) ps of Some p \<Rightarrow> pe_lba p | None \<Rightarrow> 0)"
proof -
  have len: "length (entry_bytes p) = 16" if "p \<in> set ps" for p using that assms(3) by (simp add: entry_bytes_def bytes32_def)
  have at: "disk 0 ! (446 + i * 16 + j) = entry_bytes (ps ! i) ! j" if "i < 4" "j < 16" for i j
    using that assms(1,2) len concat_entries(1)[of ps entry_bytes 16] concat_entries(2)[of ps entry_bytes 16 i j] by (simp add: assms(4) mbr_sector_def nth_append ac_simps)
  have all: "length (concat (map entry_bytes ps)) = 64" using len assms(2) concat_entries(1)[of ps entry_bytes 16] by simp
  have sig: "disk 0 ! 510 = 0x55" "disk 0 ! 511 = 0xAA" using all assms(1) by (simp_all add: assms(4) mbr_sector_def nth_append)
  have f: "disk 0 ! (446 + i * 16 + 4) = pe_type (ps ! i)" "le32 (disk 0) (446 + i * 16 + 8) = pe_lba (ps ! i)" if "i < 4" for i
    using that assms(2,3) at[OF that, of 4] at[OF that, of 8] at[OF that, of 9] at[OF that, of 10] at[OF that, of 11]
    by (simp_all add: le32_def entry_bytes_def nth_append bytes32_def le32_bytes add.assoc)
  have "find (\<lambda>p. pe_type p = 0x83) ps = map_option ((!) ps) (find (\<lambda>i. pe_type (ps ! i) = 0x83) [0..<4])"
    using find_map_nth[of "\<lambda>p. pe_type p = 0x83" ps] assms(2) by simp
  moreover have "find (\<lambda>i. disk 0 ! (446 + i * 16 + 4) = 0x83) [0..<4] = find (\<lambda>i. pe_type (ps ! i) = 0x83) [0..<4]"
    by (intro find_cong refl) (use f(1) in simp)
  moreover have "i < 4" if "find (\<lambda>i. pe_type (ps ! i) = 0x83) [0..<4] = Some i" for i using that by (auto simp: find_Some_iff)
  ultimately show ?thesis using sig f(2) by (simp add: mbr_find_partition_def disk_sector_def Let_def split: option.split)
qed

theorem mbr_find_partition_first_witness:
  "mbr_find_partition (\<lambda>_. mbr_sector (replicate 446 0) [\<lparr>pe_head = replicate 4 0, pe_type = 0x82, pe_end = [0, 0, 0], pe_lba = 1, pe_count = 2\<rparr>,
     \<lparr>pe_head = replicate 4 0, pe_type = 0x83, pe_end = [0, 0, 0], pe_lba = 2048, pe_count = 4096\<rparr>,
     \<lparr>pe_head = replicate 4 0, pe_type = 0x83, pe_end = [0, 0, 0], pe_lba = 8192, pe_count = 4096\<rparr>,
     \<lparr>pe_head = replicate 4 0, pe_type = 0, pe_end = [0, 0, 0], pe_lba = 0, pe_count = 0\<rparr>]) = 2048"
  by (subst mbr_find_partition_first[OF _ _ _ refl]) simp_all

end
