(* ===== verification/User_Space.thy ===== *)
theory User_Space
  imports ELF
begin

text \<open>
  The memory of a program in ring 3, as the interface its code is verified against: every byte of its
  own pages can be loaded and stored, and a store changes that byte only. The address space the loader
  builds is an instance of the interface, whatever the program does to its own bytes. What lies outside
  the interface is that every program may also write the kernel's 16 MB window, page tables included.
\<close>

section \<open>The interface\<close>

locale user_memory =
  fixes ok :: "mach \<Rightarrow> bool" and own :: "u32 set"
  assumes load: "ok c \<Longrightarrow> a \<in> own \<Longrightarrow> \<exists>v. uld8 a c = Inr v"
    and store: "ok c \<Longrightarrow> a \<in> own \<Longrightarrow> \<exists>c'. ust8 a v c = Inr c' \<and> ok c' \<and>
      (\<forall>b \<in> own. uld8 b c' = (if b = a then Inr v else uld8 b c))"

text \<open>A program's stores, one after the other, and what they make of the contents of its memory.\<close>

primrec ust_all :: "(u32 \<times> u8) list \<Rightarrow> mach \<Rightarrow> mach outcome" where
  "ust_all [] c = Inr c"
| "ust_all (w # ws) c = bindo (ust8 (fst w) (snd w) c) (ust_all ws)"

primrec written :: "(u32 \<times> u8) list \<Rightarrow> (u32 \<Rightarrow> u8) \<Rightarrow> u32 \<Rightarrow> u8" where
  "written [] img = img"
| "written (w # ws) img = written ws (img(fst w := snd w))"

context user_memory begin

lemma stores:
  "ok c \<Longrightarrow> fst ` set ws \<subseteq> own \<Longrightarrow> \<forall>b \<in> own. uld8 b c = Inr (img b) \<Longrightarrow>
   \<exists>c'. ust_all ws c = Inr c' \<and> ok c' \<and> (\<forall>b \<in> own. uld8 b c' = Inr (written ws img b))"
proof (induction ws arbitrary: c img)
  case (Cons w ws)
  obtain c1 where c1: "ust8 (fst w) (snd w) c = Inr c1" "ok c1" "\<forall>b \<in> own. uld8 b c1 = (if b = fst w then Inr (snd w) else uld8 b c)"
    using store[OF Cons.prems(1), of "fst w" "snd w"] Cons.prems(2) by auto
  then have "\<forall>b \<in> own. uld8 b c1 = Inr ((img(fst w := snd w)) b)" using Cons.prems(3) by simp
  from Cons.IH[OF c1(2) _ this] Cons.prems(2) c1(1) show ?case by (auto simp: fun_upd_def)
qed simp

end

section \<open>The space the loader builds\<close>

definition user_space :: "u32 \<Rightarrow> u32 set \<Rightarrow> mach \<Rightarrow> bool" where
  "user_space pd V c \<longleftrightarrow> (let m = mm_mem c in paging_on c \<and> mm_cr3 c = pd \<and> page_aligned pd \<and>
     (\<forall>va. page_base va \<in> V \<longrightarrow> 0x1000000 \<le> unat va \<and>
        (\<exists>pa. walk m pd va = Some pa \<and> user_writable m pd va \<and> page_base pa \<noteq> pd \<and> page_base pa \<notin> tables_of m pd)) \<and>
     (\<forall>va va' pa. page_base va \<in> V \<longrightarrow> page_base va' \<in> V \<longrightarrow> walk m pd va = Some pa \<longrightarrow> walk m pd va' = Some pa \<longrightarrow> va = va'))"

definition in_pages :: "u32 set \<Rightarrow> u32 set" where
  "in_pages V = {a. page_base a \<in> V}"

lemma user_spaceD:
  assumes "user_space pd V c" and "page_base va \<in> V"
  obtains pa where "translate c va = Some pa" "walk (mm_mem c) pd va = Some pa" "user_writable (mm_mem c) pd va"
    "page_base pa \<noteq> pd" "page_base pa \<notin> tables_of (mm_mem c) pd" "4 \<le> pd_index va"
proof -
  obtain pa where "walk (mm_mem c) pd va = Some pa" "user_writable (mm_mem c) pd va" "page_base pa \<noteq> pd"
    "page_base pa \<notin> tables_of (mm_mem c) pd" "paging_on c" "mm_cr3 c = pd" "0x1000000 \<le> unat va"
    using assms unfolding user_space_def Let_def by blast
  moreover have "4 \<le> pd_index va" using div_le_mono[OF calculation(7), of 4194304] by (simp add: pd_index_eq)
  ultimately show thesis using that by (simp add: translate_def)
qed

lemma user_space_store:
  assumes us: "user_space pd V c" and a: "page_base a \<in> V" "walk (mm_mem c) pd a = Some pa"
  shows "user_space pd V (c\<lparr>mm_mem := (mm_mem c)(pa := v)\<rparr>)"
    and "page_base va \<in> V \<Longrightarrow> walk ((mm_mem c)(pa := v)) pd va = walk (mm_mem c) pd va"
    and "page_base va \<in> V \<Longrightarrow> user_writable ((mm_mem c)(pa := v)) pd va = user_writable (mm_mem c) pd va"
    and "tables_of ((mm_mem c)(pa := v)) pd = tables_of (mm_mem c) pd"
proof -
  let ?m = "mm_mem c" and ?m' = "(mm_mem c)(pa := v)"
  have pd: "page_aligned pd" using us by (simp add: user_space_def Let_def)
  obtain pa' where "walk ?m pd a = Some pa'" "page_base pa' \<noteq> pd" "page_base pa' \<notin> tables_of ?m pd" using user_spaceD[OF us a(1)] .
  then have t: "page_base pa \<noteq> pd" "page_base pa \<notin> tables_of ?m pd" using a(2) by simp_all
  have ag: "agree_off (page_base pa) ?m ?m'" by (simp add: agree_off_def)
  have dir: "ld32 ?m' (slot pd i) = ld32 ?m (slot pd i)" if "i < 1024" for i using ld32_agree_off[OF ag pd] t(1) that by simp
  then have tab: "table_of ?m' pd i = table_of ?m pd i" if "i < 1024" for i using that pd by (simp add: table_of_def page_base_id)
  then show tabs: "tables_of ?m' pd = tables_of ?m pd" by (intro tables_of_cong)
  have we: "walk_entry ?m' pd va = walk_entry ?m pd va" if "page_base va \<in> V" for va
  proof (rule walk_entry_cong[OF pd dir[OF pd_index_lt]])
    fix pt assume pt: "table_of ?m pd (pd_index va) = Some pt"
    have "4 \<le> pd_index va" using user_spaceD[OF us that] .
    with pt have "pt \<in> tables_of ?m pd" by (auto simp: tables_of_def)
    then have "page_base pa \<noteq> pt" using t(2) by blast
    moreover have "page_aligned pt" using pt by (auto simp: table_of_def Let_def split: if_splits)
    ultimately show "ld32 ?m' (slot pt (pt_index va)) = ld32 ?m (slot pt (pt_index va))" by (intro ld32_agree_off[OF ag _ pt_index_lt])
  qed
  show w: "walk ?m' pd va = walk ?m pd va" if "page_base va \<in> V" for va using we[OF that] by (simp add: walk_def)
  show u: "user_writable ?m' pd va = user_writable ?m pd va" if "page_base va \<in> V" for va using we[OF that] by (simp add: user_writable_def)
  show "user_space pd V (c\<lparr>mm_mem := ?m'\<rparr>)" using us w u tabs by (simp add: user_space_def Let_def paging_on_def)
qed

lemma uld8_own:
  assumes us: "user_space pd V c" and a: "page_base a \<in> V" "walk (mm_mem c) pd a = Some pa"
  shows "uld8 a c = Inr (mm_mem c pa)"
proof -
  obtain pb where "translate c a = Some pb" "walk (mm_mem c) pd a = Some pb" "user_writable (mm_mem c) pd a"
    using user_spaceD[OF us a(1)] .
  moreover have "mm_cr3 c = pd" using us by (simp add: user_space_def Let_def)
  ultimately show ?thesis using a(2) writable_readable by (simp add: uld8_def kld8_def)
qed

text \<open>A byte stored through a translation of the space, as ring 3 sees it.\<close>

lemma user_space_poke:
  assumes us: "user_space pd V c" and a: "a \<in> in_pages V" "walk (mm_mem c) pd a = Some pa"
  shows "user_space pd V (c\<lparr>mm_mem := (mm_mem c)(pa := v)\<rparr>)"
    and "b \<in> in_pages V \<Longrightarrow> walk ((mm_mem c)(pa := v)) pd b = walk (mm_mem c) pd b"
    and "b \<in> in_pages V \<Longrightarrow> uld8 b (c\<lparr>mm_mem := (mm_mem c)(pa := v)\<rparr>) = (if b = a then Inr v else uld8 b c)"
proof -
  have pa: "page_base a \<in> V" using a(1) by (simp add: in_pages_def)
  note st = user_space_store[OF us pa a(2), where v = v]
  show us': "user_space pd V (c\<lparr>mm_mem := (mm_mem c)(pa := v)\<rparr>)" by (rule st(1))
  assume "b \<in> in_pages V"
  then have b: "page_base b \<in> V" by (simp add: in_pages_def)
  show "walk ((mm_mem c)(pa := v)) pd b = walk (mm_mem c) pd b" by (rule st(2)[OF b])
  obtain pb where pb: "walk (mm_mem c) pd b = Some pb" using user_spaceD[OF us b] .
  have "pb = pa \<longleftrightarrow> b = a" using us pa b a(2) pb by (auto simp: user_space_def Let_def)
  then show "uld8 b (c\<lparr>mm_mem := (mm_mem c)(pa := v)\<rparr>) = (if b = a then Inr v else uld8 b c)"
    using uld8_own[OF us' b] uld8_own[OF us b pb] st(2)[OF b] pb by auto
qed

text \<open>A dword the kernel stores there.\<close>

lemma user_space_kst32:
  assumes us: "user_space pd V c" and own: "va \<in> in_pages V" "va + 1 \<in> in_pages V" "va + 2 \<in> in_pages V" "va + 3 \<in> in_pages V"
  shows "\<exists>c'. kst32 va v c = Inr c' \<and> user_space pd V c' \<and>
    (\<forall>b \<in> in_pages V - {va, va + 1, va + 2, va + 3}. uld8 b c' = uld8 b c)"
proof -
  let ?m = "mm_mem c"
  have tr: "\<exists>pa. translate c b = Some pa \<and> walk ?m pd b = Some pa" if "b \<in> in_pages V" for b
  proof -
    have "page_base b \<in> V" using that by (simp add: in_pages_def)
    from user_spaceD[OF us this] show ?thesis by metis
  qed
  obtain p0 p1 p2 p3 where t: "translate c va = Some p0" "translate c (va + 1) = Some p1" "translate c (va + 2) = Some p2" "translate c (va + 3) = Some p3"
    and w: "walk ?m pd va = Some p0" "walk ?m pd (va + 1) = Some p1" "walk ?m pd (va + 2) = Some p2" "walk ?m pd (va + 3) = Some p3"
    using tr[OF own(1)] tr[OF own(2)] tr[OF own(3)] tr[OF own(4)] by metis
  define c1 where "c1 = c\<lparr>mm_mem := ?m(p0 := ucast v)\<rparr>"
  note s1 = user_space_poke[OF us own(1) w(1), where v = "ucast v", folded c1_def]
  have m1: "mm_mem c1 = ?m(p0 := ucast v)" by (simp add: c1_def)
  have w1: "walk (mm_mem c1) pd (va + 1) = Some p1" "walk (mm_mem c1) pd (va + 2) = Some p2" "walk (mm_mem c1) pd (va + 3) = Some p3"
    using s1(2)[OF own(2)] s1(2)[OF own(3)] s1(2)[OF own(4)] w by (simp_all add: m1)
  define c2 where "c2 = c1\<lparr>mm_mem := (mm_mem c1)(p1 := ucast (drop_bit 8 v))\<rparr>"
  note s2 = user_space_poke[OF s1(1) own(2) w1(1), where v = "ucast (drop_bit 8 v)", folded c2_def]
  have w2: "walk (mm_mem c2) pd (va + 2) = Some p2" "walk (mm_mem c2) pd (va + 3) = Some p3"
    using s2(2)[OF own(3)] s2(2)[OF own(4)] w1 by (simp_all add: c2_def)
  define c3 where "c3 = c2\<lparr>mm_mem := (mm_mem c2)(p2 := ucast (drop_bit 16 v))\<rparr>"
  note s3 = user_space_poke[OF s2(1) own(3) w2(1), where v = "ucast (drop_bit 16 v)", folded c3_def]
  have w3: "walk (mm_mem c3) pd (va + 3) = Some p3" using s3(2)[OF own(4)] w2 by (simp add: c3_def)
  define c4 where "c4 = c3\<lparr>mm_mem := (mm_mem c3)(p3 := ucast (drop_bit 24 v))\<rparr>"
  note s4 = user_space_poke[OF s3(1) own(4) w3, where v = "ucast (drop_bit 24 v)", folded c4_def]
  have "kst32 va v c = Inr c4" by (simp add: kst32_def t c1_def c2_def c3_def c4_def)
  moreover have "uld8 b c4 = uld8 b c" if "b \<in> in_pages V - {va, va + 1, va + 2, va + 3}" for b
    using that s1(3)[of b] s2(3)[of b] s3(3)[of b] s4(3)[of b] by simp
  ultimately show ?thesis using s4(1) by blast
qed

interpretation loader: user_memory "user_space pd V" "in_pages V" for pd V
proof
  fix c a v assume us: "user_space pd V c" and own: "a \<in> in_pages V"
  then have a: "page_base a \<in> V" by (simp add: in_pages_def)
  obtain pa where pa: "translate c a = Some pa" "walk (mm_mem c) pd a = Some pa" "user_writable (mm_mem c) pd a"
    using user_spaceD[OF us a] .
  show "\<exists>v. uld8 a c = Inr v" using uld8_own[OF us a pa(2)] by blast
  have "ust8 a v c = Inr (c\<lparr>mm_mem := (mm_mem c)(pa := v)\<rparr>)" using pa us by (simp add: ust8_def kst8_def user_space_def Let_def)
  then show "\<exists>c'. ust8 a v c = Inr c' \<and> user_space pd V c' \<and> (\<forall>b \<in> in_pages V. uld8 b c' = (if b = a then Inr v else uld8 b c))"
    using user_space_poke(1,3)[OF us own pa(2), where v = v] by blast
qed

text \<open>The loader's result, entered by a switch of CR3, is such a space, and holds the image.\<close>

lemma runs_image_space:
  assumes "runs_image (mm_mem c) pd V img" and "paging_on c" and "page_aligned pd" and "\<And>v. v \<in> V \<Longrightarrow> 0x1000000 \<le> unat v"
  shows "user_space pd V (c\<lparr>mm_cr3 := pd\<rparr>)" and "a \<in> in_pages V \<Longrightarrow> uld8 a (c\<lparr>mm_cr3 := pd\<rparr>) = Inr (img a)"
proof -
  have high: "0x1000000 \<le> unat va" if "page_base va \<in> V" for va using assms(4)[OF that] by (simp add: unat_page_base)
  show us: "user_space pd V (c\<lparr>mm_cr3 := pd\<rparr>)"
    using assms(1-3) high unfolding runs_image_def user_space_def Let_def by (simp add: paging_on_def) (metis linorder_not_le)
  show "uld8 a (c\<lparr>mm_cr3 := pd\<rparr>) = Inr (img a)" if "a \<in> in_pages V"
  proof -
    have a: "page_base a \<in> V" using that by (simp add: in_pages_def)
    then obtain pa where "walk (mm_mem c) pd a = Some pa" "mm_mem c pa = img a"
      using assms(1) high[OF a] unfolding runs_image_def by (metis linorder_not_le)
    with uld8_own[OF us a, of pa] show ?thesis by simp
  qed
qed

text \<open>A program's own stores land in frames that are neither its directory nor its tables.\<close>

definition tables_kept :: "u32 \<Rightarrow> mach \<Rightarrow> mach \<Rightarrow> bool" where
  "tables_kept pd c c' \<longleftrightarrow> tables_of (mm_mem c') pd = tables_of (mm_mem c) pd \<and>
     (\<forall>x. page_base x \<in> insert pd (tables_of (mm_mem c) pd) \<longrightarrow> mm_mem c' x = mm_mem c x)"

lemma store_keeps_tables:
  assumes us: "user_space pd V c" and a: "a \<in> in_pages V" and run: "ust8 a v c = Inr c'"
  shows "tables_kept pd c c'"
proof -
  have av: "page_base a \<in> V" using a by (simp add: in_pages_def)
  obtain pa where pa: "translate c a = Some pa" "walk (mm_mem c) pd a = Some pa" "user_writable (mm_mem c) pd a"
    "page_base pa \<noteq> pd" "page_base pa \<notin> tables_of (mm_mem c) pd" using user_spaceD[OF us av] .
  have "c' = c\<lparr>mm_mem := (mm_mem c)(pa := v)\<rparr>" using run pa(1) by (auto simp: ust8_def kst8_def split: if_splits)
  then show ?thesis using user_space_store(4)[OF us av pa(2)] pa(4,5) by (auto simp: tables_kept_def)
qed

lemma stores_keep_tables:
  "user_space pd V c \<Longrightarrow> fst ` set ws \<subseteq> in_pages V \<Longrightarrow> ust_all ws c = Inr c' \<Longrightarrow> tables_kept pd c c'"
proof (induction ws arbitrary: c)
  case (Cons w ws)
  then have a: "fst w \<in> in_pages V" by simp
  obtain c1 where c1: "ust8 (fst w) (snd w) c = Inr c1" "user_space pd V c1" using loader.store[OF Cons.prems(1) a, of "snd w"] by blast
  have "tables_kept pd c c1" by (rule store_keeps_tables[OF Cons.prems(1) a c1(1)])
  moreover have "tables_kept pd c1 c'" using Cons.IH[OF c1(2)] Cons.prems(2,3) c1(1) by simp
  ultimately show ?case by (simp add: tables_kept_def)
qed (simp add: tables_kept_def)

text \<open>What ring 3 finds outside its own pages: the window, open, and nothing else.\<close>

lemma runs_image_edges:
  assumes "runs_image (mm_mem c) pd V img" and "paging_on c"
  defines "c' \<equiv> c\<lparr>mm_cr3 := pd\<rparr>"
  shows "unat a < 0x1000000 \<Longrightarrow> ust8 a v c' = Inr (c'\<lparr>mm_mem := (mm_mem c')(a := v)\<rparr>)"
    and "0x1000000 \<le> unat a \<Longrightarrow> a \<notin> in_pages V \<Longrightarrow> ust8 a v c' = Inl PageFault \<and> uld8 a c' = Inl PageFault"
proof -
  have w: "if unat a < 0x1000000 then walk (mm_mem c) pd a = Some a \<and> user_writable (mm_mem c) pd a
        else if page_base a \<in> V then \<exists>pa. walk (mm_mem c) pd a = Some pa \<and> user_writable (mm_mem c) pd a \<and> mm_mem c pa = img a
        else walk (mm_mem c) pd a = None" using assms(1) by (simp add: runs_image_def)
  then show "unat a < 0x1000000 \<Longrightarrow> ust8 a v c' = Inr (c'\<lparr>mm_mem := (mm_mem c')(a := v)\<rparr>)"
    using assms(2) by (simp add: c'_def ust8_def kst8_def translate_def paging_on_def)
  show "0x1000000 \<le> unat a \<Longrightarrow> a \<notin> in_pages V \<Longrightarrow> ust8 a v c' = Inl PageFault \<and> uld8 a c' = Inl PageFault"
    using w by (simp add: c'_def ust8_def uld8_def user_writable_def user_readable_def walk_def in_pages_def)
qed

lemma elf_pages_high: "elf_ok file hs \<Longrightarrow> v \<in> set (elf_pages hs) \<Longrightarrow> 0x1000000 \<le> unat v"
proof -
  assume ok: "elf_ok file hs" and v: "v \<in> set (elf_pages hs)"
  obtain h where sg: "h \<in> set (segs hs)" "v \<in> set (seg_pages h)" using v by (auto simp: elf_pages_def)
  have h: "seg_ok h" using ok sg(1) by (simp add: elf_ok_def)
  have "v \<in> (\<lambda>k. of_nat (k * 4096)) ` {unat (p_vaddr h) div 4096..<(unat (p_vaddr h) + unat (p_memsz h) + 4095) div 4096}"
    using sg(2) unfolding seg_pages_def set_map set_upt .
  then obtain i where v: "v = of_nat (i * 4096)" and m: "i \<in> {unat (p_vaddr h) div 4096..<(unat (p_vaddr h) + unat (p_memsz h) + 4095) div 4096}"
    by (rule imageE)
  note i = m[unfolded atLeastLessThan_iff, THEN conjunct1] m[unfolded atLeastLessThan_iff, THEN conjunct2] v
  have "0x1000000 \<le> unat (p_vaddr h)" using h by (simp add: seg_ok_def)
  from div_le_mono[OF this, of 4096] have "4096 \<le> unat (p_vaddr h) div 4096" by simp
  moreover have "unat v = i * 4096" unfolding i(3) by (rule seg_page_at(1)[OF h i(1,2)])
  ultimately show "0x1000000 \<le> unat v" using i(1) by linarith
qed

lemma free_addr_aligned: "a \<in> free_addrs p \<Longrightarrow> page_aligned a"
  by (auto simp: free_addrs_def page_aligned_def unat_word_ariths dvd_mod)

text \<open>All that ring 3 can do with memory: its own bytes are an array that starts as \<open>img\<close>, the kernel's
  window is open, the rest faults.\<close>

definition ring3_memory :: "u32 \<Rightarrow> u32 set \<Rightarrow> (u32 \<Rightarrow> u8) \<Rightarrow> mach \<Rightarrow> bool" where
  "ring3_memory pd own img c \<longleftrightarrow>
     (\<forall>ws. fst ` set ws \<subseteq> own \<longrightarrow> (\<exists>c'. ust_all ws c = Inr c' \<and> tables_kept pd c c' \<and>
        (\<forall>b \<in> own. uld8 b c' = Inr (written ws img b)))) \<and>
     (\<forall>a v. a \<notin> own \<longrightarrow> (if unat a < 0x1000000 then ust8 a v c = Inr (c\<lparr>mm_mem := (mm_mem c)(a := v)\<rparr>)
        else ust8 a v c = Inl PageFault \<and> uld8 a c = Inl PageFault))"

text \<open>C16: The memory a loaded program runs in, with the new task's directory in CR3 after an \<open>elf_exec\<close>
  as in C4. Its own memory is the pages of its segments and its stack page: they hold the file's image,
  and any sequence of stores into them by ring 3 succeeds, leaves each byte as last written and the
  directory and its page tables as they were. A store or load of ring 3 above the kernel's 16 MB window
  and outside these pages faults. A store into the window, though, is not stopped by anything: it goes
  to the physical byte of that number, page tables and all.\<close>

theorem loaded_program_owns_pages:
  assumes "ext2_ok (kn_fs k)" and "disk_ok disk" and "holds_dir disk (kn_fs k) 2 xs" and "0 \<notin> set name" and "length buf = 65536"
    and "dir_lookup xs name = ino" and "ino \<noteq> 0" and "52 \<le> elf_size disk (kn_fs k) ino"
    and "file = elf_file disk (kn_fs k) ino buf" and "elf_magic file" and ok: "elf_ok file hs" and "e_entry file = Inr entry"
    and "kernel_space (kn_cpu k)" and pm: "pmm_safe (kn_pmm k)"
    and "2 * length (elf_pages hs) + 4 \<le> card (low_frames (kn_pmm k))"
    and "sched_inv (kn_sched k)" and "ntasks (kn_sched k) < MAX_TASKS"
  defines "own \<equiv> in_pages (insert USER_STACK_VIRT (set (elf_pages hs)))"
  shows "\<exists>k' pd kstack. elf_exec disk name (buf, k) = Inr (file, k') \<and> task_pool (kn_sched k') ! ntasks (kn_sched k) = elf_task entry pd kstack \<and>
    ring3_memory pd own (elf_image file hs) ((kn_cpu k')\<lparr>mm_cr3 := pd\<rparr>)"
proof -
  define V where "V = insert USER_STACK_VIRT (set (elf_pages hs))"
  obtain k' pd kst where r: "elf_exec disk name (buf, k) = Inr (file, k')" "task_pool (kn_sched k') ! ntasks (kn_sched k) = elf_task entry pd kst"
    "runs_image (mm_mem (kn_cpu k')) pd V (elf_image file hs)" "pd \<in> free_addrs (kn_pmm k)" "kernel_space (kn_cpu k')"
    using elf_exec_runs[OF assms(1-17)] unfolding V_def by blast
  have pd: "page_aligned pd" using free_addr_aligned[OF r(4)] .
  have on: "paging_on (kn_cpu k')" using r(5) by (simp add: kernel_space_def in_space_def)
  have hi: "0x1000000 \<le> unat v" if "v \<in> V" for v using that elf_pages_high[OF ok] by (auto simp: V_def)
  let ?c = "(kn_cpu k')\<lparr>mm_cr3 := pd\<rparr>"
  have us: "user_space pd V ?c" "\<And>a. a \<in> in_pages V \<Longrightarrow> uld8 a ?c = Inr (elf_image file hs a)"
    using runs_image_space[OF r(3) on pd hi] by blast+
  have "\<exists>c'. ust_all ws ?c = Inr c' \<and> tables_kept pd ?c c' \<and> (\<forall>b \<in> in_pages V. uld8 b c' = Inr (written ws (elf_image file hs) b))"
    if "fst ` set ws \<subseteq> in_pages V" for ws
    using loader.stores[OF us(1) that, of "elf_image file hs"] us(2) stores_keep_tables[OF us(1) that] by blast
  moreover have "if unat a < 0x1000000 then ust8 a v ?c = Inr (?c\<lparr>mm_mem := (mm_mem ?c)(a := v)\<rparr>)
        else ust8 a v ?c = Inl PageFault \<and> uld8 a ?c = Inl PageFault" if "a \<notin> in_pages V" for a v
    using runs_image_edges[OF r(3) on, of a v] that by auto
  ultimately have "ring3_memory pd own (elf_image file hs) ?c" unfolding ring3_memory_def own_def V_def[symmetric] by blast
  with r(1,2) show ?thesis by blast
qed

theorem loaded_program_owns_pages_witness:
  "\<exists>k k' pd kstack c. elf_exec elf_disk [97] (replicate 65536 0, k) = Inr (loaded_file, k') \<and> t_cr3 (task_pool (kn_sched k') ! 2) = pd \<and>
     ust_all [(0x40000001, 7), (0x40000003, 8), (0x40000001, 9)] ((kn_cpu k')\<lparr>mm_cr3 := pd\<rparr>) = Inr c \<and> uld8 0x40000001 c = Inr 9 \<and> uld8 0x40000002 c = Inr 0xEB"
proof -
  obtain k where "loads_sample k" using loads_sample_ex by blast
  note k = sample_load_facts[OF this]
  have 0: "0 \<notin> set [97 :: u8]" "length (replicate 65536 (0 :: u8)) = 65536" "(3 :: u32) \<noteq> 0" "ntasks (kn_sched k) < MAX_TASKS"
    using k(10) by simp_all
  let ?own = "in_pages (insert USER_STACK_VIRT (set (elf_pages [Some sample_seg])))" and ?ws = "[(0x40000001, 7), (0x40000003, 8), (0x40000001, 9)] :: (u32 \<times> u8) list"
  have own: "{0x40000001, 0x40000002, 0x40000003} \<subseteq> ?own" by (simp add: in_pages_def sample_seg_pages page_base_def)
  then have ws: "fst ` set ?ws \<subseteq> ?own" by simp
  obtain k' pd kst where r: "elf_exec elf_disk [97] (replicate 65536 0, k) = Inr (loaded_file, k')" "task_pool (kn_sched k') ! 2 = elf_task 0x40000000 pd kst"
    "ring3_memory pd ?own (elf_image loaded_file [Some sample_seg]) ((kn_cpu k')\<lparr>mm_cr3 := pd\<rparr>)"
    using loaded_program_owns_pages[OF k(1) elf_disk_ok k(2) 0(1,2) k(3) 0(3) k(4,5) loaded_file_fields(5) loaded_file_ok loaded_file_fields(1) k(6-9) 0(4)]
    unfolding k(10) by blast
  from r(3)[unfolded ring3_memory_def, THEN conjunct1, rule_format, OF ws] obtain c where "ust_all ?ws ((kn_cpu k')\<lparr>mm_cr3 := pd\<rparr>) = Inr c" "\<forall>b \<in> ?own. uld8 b c = Inr (written ?ws (elf_image loaded_file [Some sample_seg]) b)" by blast
  moreover from this(2) own have "uld8 0x40000001 c = Inr 9" "uld8 0x40000002 c = Inr 0xEB" using sample_code by simp_all
  moreover have "t_cr3 (task_pool (kn_sched k') ! 2) = pd" unfolding r(2) by (simp add: elf_task_def fresh_task_def)
  ultimately show ?thesis using r(1) by blast
qed

end
