(* ===== verification/Shell.thy ===== *)
theory Shell
  imports User_Space Kernel_Steps CString
begin

text \<open>
  \<^verbatim>\<open>user/shell.c\<close> and \<^verbatim>\<open>user/hello.c\<close>: programs in ring 3. Their variables and string literals are
  bytes of their own address space, accessed with the rights of ring 3; everything else they do is an
  INT 0x30, which runs the kernel's own handler. Where the linker put the objects of a program is a
  parameter. The program runs on its own here, except that keys may arrive between the steps of the
  shell's loop (\<open>shell_session\<close>); ticks that switch tasks are steps of \<^verbatim>\<open>Kernel_Steps\<close>.
\<close>

section \<open>System call wrappers\<close>

text \<open>
  Only \<^verbatim>\<open>SYS_SIGRETURN\<close> looks at the interrupt frame; the wrapper of that call is given the whole
  frame. The registers a call does not set are 0 here and are read by no handler.
\<close>

definition int30 :: "disk \<Rightarrow> u32 \<Rightarrow> u32 \<Rightarrow> u32 \<Rightarrow> u32 \<Rightarrow> kernel \<Rightarrow> (u32 \<times> kernel) outcome" where
  "int30 disk eax ebx ecx edx k = bindo (syscall_handler disk [] eax ebx ecx edx k) (\<lambda>(r, _, k). Inr (r, k))"

definition sh_print :: "disk \<Rightarrow> u32 \<Rightarrow> kernel \<Rightarrow> kernel outcome" where
  "sh_print disk s k = bindo (int30 disk 0 s 0 0 k) (\<lambda>(_, k). Inr k)"

definition sh_setcolor :: "disk \<Rightarrow> u8 \<Rightarrow> kernel \<Rightarrow> kernel outcome" where
  "sh_setcolor disk attr k = bindo (int30 disk 2 (ucast attr) 0 0 k) (\<lambda>(_, k). Inr k)"

definition sh_open :: "disk \<Rightarrow> u32 \<Rightarrow> kernel \<Rightarrow> (u32 \<times> kernel) outcome" where
  "sh_open disk path k = int30 disk 3 path 0 0 k"

definition sh_close :: "disk \<Rightarrow> u32 \<Rightarrow> kernel \<Rightarrow> kernel outcome" where
  "sh_close disk fd k = bindo (int30 disk 4 fd 0 0 k) (\<lambda>(_, k). Inr k)"

definition sh_read :: "disk \<Rightarrow> u32 \<Rightarrow> u32 \<Rightarrow> u32 \<Rightarrow> kernel \<Rightarrow> (u32 \<times> kernel) outcome" where
  "sh_read disk fd buf count k = int30 disk 5 fd buf count k"

definition sh_getchar :: "disk \<Rightarrow> kernel \<Rightarrow> (u32 \<times> kernel) outcome" where
  "sh_getchar disk k = int30 disk 6 0 0 0 k"

definition sh_ls :: "disk \<Rightarrow> kernel \<Rightarrow> kernel outcome" where
  "sh_ls disk k = bindo (int30 disk 7 0 0 0 k) (\<lambda>(_, k). Inr k)"

definition sh_sigaction :: "disk \<Rightarrow> u32 \<Rightarrow> u32 \<Rightarrow> kernel \<Rightarrow> kernel outcome" where
  "sh_sigaction disk sig handler k = bindo (int30 disk 8 sig handler 0 k) (\<lambda>(_, k). Inr k)"

definition sh_kill :: "disk \<Rightarrow> u32 \<Rightarrow> kernel \<Rightarrow> kernel outcome" where
  "sh_kill disk sig k = bindo (int30 disk 9 sig 0 0 k) (\<lambda>(_, k). Inr k)"

definition sh_sigreturn :: "disk \<Rightarrow> u32 list \<Rightarrow> kernel \<Rightarrow> (u32 \<times> u32 list \<times> kernel) outcome" where
  "sh_sigreturn disk frame k = syscall_handler disk frame 10 0 0 0 k"

definition sh_store :: "u32 \<Rightarrow> u8 \<Rightarrow> kernel \<Rightarrow> kernel outcome" where
  "sh_store a v k = bindo (ust8 a v (kn_cpu k)) (\<lambda>c. Inr (k\<lparr>kn_cpu := c\<rparr>))"

section \<open>String helpers\<close>

text \<open>\<^verbatim>\<open>*a && *b && *a == *b\<close>\<close>

definition both_same :: "mach \<Rightarrow> u32 \<Rightarrow> u32 \<Rightarrow> bool outcome" where
  "both_same c a b =
     bindo (uld8 a c) (\<lambda>x. if x = 0 then Inr False else bindo (uld8 b c) (\<lambda>y. Inr (y \<noteq> 0 \<and> x = y)))"

function str_eq_from :: "mach \<Rightarrow> u32 \<Rightarrow> u32 \<Rightarrow> nat \<Rightarrow> bool outcome" where
  "str_eq_from c a b n =
     (if n < 2 ^ 32
      then bindo (both_same c (a + of_nat n) (b + of_nat n)) (\<lambda>go.
        if go then str_eq_from c a b (n + 1)
        else bindo (uld8 (a + of_nat n) c) (\<lambda>x. bindo (uld8 (b + of_nat n) c) (\<lambda>y. Inr (x = y))))
      else Inl Halted)"
  by pat_completeness auto
termination
  by (relation "measure (\<lambda>(c, a, b, n). 2 ^ 32 - n)") auto

definition str_eq :: "mach \<Rightarrow> u32 \<Rightarrow> u32 \<Rightarrow> bool outcome" where
  "str_eq c a b = str_eq_from c a b 0"

function str_starts_from :: "mach \<Rightarrow> u32 \<Rightarrow> u32 \<Rightarrow> nat \<Rightarrow> bool outcome" where
  "str_starts_from c s prefix n =
     (if n < 2 ^ 32
      then bindo (uld8 (prefix + of_nat n) c) (\<lambda>y.
        if y = 0 then Inr True
        else bindo (uld8 (s + of_nat n) c) (\<lambda>x. if x \<noteq> y then Inr False else str_starts_from c s prefix (n + 1)))
      else Inl Halted)"
  by pat_completeness auto
termination
  by (relation "measure (\<lambda>(c, s, prefix, n). 2 ^ 32 - n)") auto

definition str_starts :: "mach \<Rightarrow> u32 \<Rightarrow> u32 \<Rightarrow> bool outcome" where
  "str_starts c s prefix = str_starts_from c s prefix 0"

text \<open>\<^verbatim>\<open>while (P(s[n])) n++\<close>\<close>

function skip_while :: "mach \<Rightarrow> (u8 \<Rightarrow> bool) \<Rightarrow> u32 \<Rightarrow> nat \<Rightarrow> nat outcome" where
  "skip_while c P s n =
     (if n < 2 ^ 32 then bindo (uld8 (s + of_nat n) c) (\<lambda>v. if P v then skip_while c P s (n + 1) else Inr n)
      else Inl Halted)"
  by pat_completeness auto
termination
  by (relation "measure (\<lambda>(c, P, s, n). 2 ^ 32 - n)") auto

definition str_skip_word :: "mach \<Rightarrow> u32 \<Rightarrow> u32 outcome" where
  "str_skip_word c s =
     bindo (skip_while c (\<lambda>v. v \<noteq> 0 \<and> v \<noteq> 32) s 0) (\<lambda>n.
     bindo (skip_while c (\<lambda>v. v = 32) s n) (\<lambda>n. Inr (s + of_nat n)))"

text \<open>The \<^verbatim>\<open>int\<close> of the sum wraps around, as the compiled code does.\<close>

function str_atoi_from :: "mach \<Rightarrow> u32 \<Rightarrow> nat \<Rightarrow> u32 \<Rightarrow> u32 outcome" where
  "str_atoi_from c s i n =
     (if i < 2 ^ 32
      then bindo (uld8 (s + of_nat i) c) (\<lambda>v.
        if 48 \<le> v \<and> v \<le> 57 then str_atoi_from c s (i + 1) (n * 10 + (ucast v - 48)) else Inr n)
      else Inl Halted)"
  by pat_completeness auto
termination
  by (relation "measure (\<lambda>(c, s, i, n). 2 ^ 32 - i)") auto

definition str_atoi :: "mach \<Rightarrow> u32 \<Rightarrow> u32 outcome" where
  "str_atoi c s = str_atoi_from c s 0 0"

declare str_eq_from.simps [simp del] str_starts_from.simps [simp del] skip_while.simps [simp del] str_atoi_from.simps [simp del]

section \<open>Signal handlers\<close>

text \<open>Where the linker puts the string literals, the two static buffers and the handlers.\<close>

record image =
  lit :: "u8 list \<Rightarrow> u32"
  line_adr :: u32
  cat_adr :: u32
  on_sigint :: u32
  on_sigusr1 :: u32
  on_sigterm :: u32

definition sigint_handler :: "disk \<Rightarrow> image \<Rightarrow> u32 list \<Rightarrow> kernel \<Rightarrow> (u32 \<times> u32 list \<times> kernel) outcome" where
  "sigint_handler disk im frame k =
     bindo (sh_setcolor disk 0x0C k) (\<lambda>k.
     bindo (sh_print disk (lit im ([10] @ cstr ''[SIGINT] Ctrl+C recibido. Escribe '' @ [0x27] @ cstr ''help'' @ [0x27] @ cstr '' para ver comandos.'' @ [10])) k) (\<lambda>k.
     sh_sigreturn disk frame k))"

definition sigusr1_handler :: "disk \<Rightarrow> image \<Rightarrow> u32 list \<Rightarrow> kernel \<Rightarrow> (u32 \<times> u32 list \<times> kernel) outcome" where
  "sigusr1_handler disk im frame k =
     bindo (sh_setcolor disk 0x0E k) (\<lambda>k.
     bindo (sh_print disk (lit im (cstr ''[SIGUSR1] Senal de usuario 1 recibida.'' @ [10])) k) (\<lambda>k.
     sh_sigreturn disk frame k))"

text \<open>It never returns; this is the state after \<open>n\<close> rounds of its final loop.\<close>

primrec drain_keys :: "disk \<Rightarrow> nat \<Rightarrow> kernel \<Rightarrow> kernel outcome" where
  "drain_keys disk 0 k = Inr k"
| "drain_keys disk (Suc n) k = bindo (sh_getchar disk k) (\<lambda>(_, k). drain_keys disk n k)"

definition sigterm_handler :: "disk \<Rightarrow> image \<Rightarrow> nat \<Rightarrow> kernel \<Rightarrow> kernel outcome" where
  "sigterm_handler disk im n k =
     bindo (sh_setcolor disk 0x0C k) (\<lambda>k.
     bindo (sh_print disk (lit im (cstr ''[SIGTERM] Terminando...'' @ [10])) k) (\<lambda>k.
     drain_keys disk n k))"

section \<open>Commands\<close>

primrec sh_prints :: "disk \<Rightarrow> u32 list \<Rightarrow> kernel \<Rightarrow> kernel outcome" where
  "sh_prints disk [] k = Inr k"
| "sh_prints disk (s # ss) k = bindo (sh_print disk s k) (sh_prints disk ss)"

definition cmd_help :: "disk \<Rightarrow> image \<Rightarrow> kernel \<Rightarrow> kernel outcome" where
  "cmd_help disk im k =
     bindo (sh_setcolor disk 0x0B k) (\<lambda>k.
     bindo (sh_print disk (lit im (cstr ''Comandos disponibles:'' @ [10])) k) (\<lambda>k.
     bindo (sh_setcolor disk 0x07 k) (\<lambda>k.
     sh_prints disk (map (lit im)
       [cstr ''  help          - muestra esta ayuda'' @ [10],
        cstr ''  ls            - lista el directorio raiz'' @ [10],
        cstr ''  cat <archivo> - muestra el contenido de un archivo'' @ [10],
        cstr ''  echo <texto>  - imprime texto'' @ [10],
        cstr ''  clear         - limpia la pantalla'' @ [10],
        cstr ''  raise <N>     - envia la senal N al proceso actual'' @ [10],
        [10] @ cstr ''Senales instaladas:'' @ [10],
        cstr ''  SIGINT  (2)   - Ctrl+C'' @ [10],
        cstr ''  SIGUSR1 (10)  - raise 10'' @ [10],
        cstr ''  SIGTERM (15)  - raise 15'' @ [10]]) k)))"

definition cmd_cat :: "disk \<Rightarrow> image \<Rightarrow> u32 \<Rightarrow> kernel \<Rightarrow> kernel outcome" where
  "cmd_cat disk im filename k =
     bindo (uld8 filename (kn_cpu k)) (\<lambda>v.
     if v = 0 then
       bindo (sh_setcolor disk 0x0C k) (sh_print disk (lit im (cstr ''uso: cat <archivo>'' @ [10])))
     else
     bindo (sh_open disk filename k) (\<lambda>(fd, k).
     if sint fd < 0 then
       bindo (sh_setcolor disk 0x0C k) (sh_prints disk [lit im (cstr ''cat: no encontrado: ''), filename, lit im [10]])
     else
     bindo (sh_setcolor disk 0x0F k) (\<lambda>k.
     bindo (sh_read disk fd (cat_adr im) (512 - 1) k) (\<lambda>(n, k).
     bindo (if sint n > 0 then
              bindo (sh_store (cat_adr im + n) 0 k) (\<lambda>k.
              bindo (sh_print disk (cat_adr im) k) (\<lambda>k.
              bindo (uld8 (cat_adr im + (n - 1)) (kn_cpu k)) (\<lambda>v.
              if v \<noteq> 10 then sh_print disk (lit im [10]) k else Inr k)))
            else Inr k) (\<lambda>k.
     sh_close disk fd k)))))"

definition cmd_echo :: "disk \<Rightarrow> image \<Rightarrow> u32 \<Rightarrow> kernel \<Rightarrow> kernel outcome" where
  "cmd_echo disk im s k = bindo (sh_setcolor disk 0x0F k) (sh_prints disk [s, lit im [10]])"

definition cmd_clear :: "disk \<Rightarrow> image \<Rightarrow> kernel \<Rightarrow> kernel outcome" where
  "cmd_clear disk im k =
     bindo (sh_setcolor disk 0x00 k) (\<lambda>k.
     bindo (for_try 0 25 (\<lambda>i. sh_print disk (lit im [10])) k) (\<lambda>k.
     sh_setcolor disk 0x0F k))"

definition cmd_raise :: "disk \<Rightarrow> image \<Rightarrow> u32 \<Rightarrow> kernel \<Rightarrow> kernel outcome" where
  "cmd_raise disk im arg k =
     bindo (uld8 arg (kn_cpu k)) (\<lambda>v.
     if v = 0 then
       bindo (sh_setcolor disk 0x0C k) (sh_print disk (lit im (cstr ''uso: raise <numero_senal>'' @ [10])))
     else
     bindo (str_atoi (kn_cpu k) arg) (\<lambda>sig.
     if sint sig \<le> 0 then
       bindo (sh_setcolor disk 0x0C k) (sh_print disk (lit im (cstr ''raise: numero de senal invalido'' @ [10])))
     else
     bindo (sh_setcolor disk 0x07 k) (\<lambda>k.
     bindo (sh_prints disk [lit im (cstr ''Enviando senal ''), arg, lit im (cstr ''...'' @ [10])] k) (\<lambda>k.
     sh_kill disk sig k))))"

text \<open>\<^verbatim>\<open>if (test) yes else no\<close>, the test being a comparison of strings in memory.\<close>

definition if_str :: "bool outcome \<Rightarrow> 'a outcome \<Rightarrow> 'a outcome \<Rightarrow> 'a outcome" where
  "if_str test yes no = bindo test (\<lambda>b. if b then yes else no)"

definition execute :: "disk \<Rightarrow> image \<Rightarrow> u32 \<Rightarrow> kernel \<Rightarrow> kernel outcome" where
  "execute disk im line k =
     (let c = kn_cpu k; eq = (\<lambda>s. str_eq c line (lit im (cstr s))); starts = (\<lambda>s. str_starts c line (lit im (cstr s))) in
      if_str (eq ''help'') (cmd_help disk im k)
     (if_str (eq ''ls'') (sh_ls disk k)
     (if_str (starts ''cat '') (bindo (str_skip_word c line) (\<lambda>p. cmd_cat disk im p k))
     (if_str (eq ''cat'') (cmd_cat disk im (lit im []) k)
     (if_str (starts ''echo '') (bindo (str_skip_word c line) (\<lambda>p. cmd_echo disk im p k))
     (if_str (eq ''echo'') (sh_print disk (lit im [10]) k)
     (if_str (eq ''clear'') (cmd_clear disk im k)
     (if_str (starts ''raise '') (bindo (str_skip_word c line) (\<lambda>p. cmd_raise disk im p k))
     (if_str (eq ''raise'') (cmd_raise disk im (lit im []) k)
     (if_str (bindo (uld8 line c) (\<lambda>v. Inr (v = 0))) (Inr k)
        (bindo (sh_setcolor disk 0x0C k) (sh_prints disk [lit im (cstr ''desconocido: ''), line, lit im [10]]))))))))))))"

section \<open>The shell\<close>

text \<open>\<^verbatim>\<open>do { c = sys_getchar(); } while (c == 0)\<close>: with no key pressed this does not end.\<close>

partial_function (option) wait_char :: "disk \<Rightarrow> kernel \<Rightarrow> (u32 \<times> kernel) outcome option" where
  "wait_char disk k =
     (case sh_getchar disk k of Inl e \<Rightarrow> Some (Inl e)
      | Inr r \<Rightarrow> if fst r = 0 then wait_char disk (snd r) else Some (Inr r))"

partial_function (option) read_line :: "disk \<Rightarrow> image \<Rightarrow> u32 \<Rightarrow> kernel \<Rightarrow> kernel outcome option" where
  "read_line disk im pos k =
     (case wait_char disk k of None \<Rightarrow> None | Some (Inl e) \<Rightarrow> Some (Inl e)
      | Some (Inr r) \<Rightarrow>
          if fst r = 10 \<or> fst r = 13 then Some (sh_store (line_adr im + pos) 0 (snd r))
          else if fst r = 8 \<or> fst r = 127 then
            (if sint pos > 0 then
               (case sh_print disk (lit im [8, 32, 8]) (snd r) of Inl e \<Rightarrow> Some (Inl e)
                | Inr k \<Rightarrow> read_line disk im (pos - 1) k)
             else read_line disk im pos (snd r))
          else if sint pos < 128 - 1 then
            (case sh_store (line_adr im + pos) (ucast (fst r)) (snd r) of Inl e \<Rightarrow> Some (Inl e)
             | Inr k \<Rightarrow> read_line disk im (pos + 1) k)
          else read_line disk im pos (snd r))"

text \<open>One round of the main loop, and what precedes the loop.\<close>

definition shell_turn :: "disk \<Rightarrow> image \<Rightarrow> kernel \<Rightarrow> kernel outcome option" where
  "shell_turn disk im k =
     (case bindo (sh_setcolor disk 0x0A k) (\<lambda>k. bindo (sh_print disk (lit im (cstr ''pepinos$ '')) k) (sh_setcolor disk 0x0F)) of
        Inl e \<Rightarrow> Some (Inl e)
      | Inr k \<Rightarrow> map_option (\<lambda>r. bindo r (\<lambda>k. bindo (sh_print disk (lit im [10]) k) (\<lambda>k.
          bindo (sh_setcolor disk 0x07 k) (execute disk im (line_adr im))))) (read_line disk im 0 k))"

definition shell_init :: "disk \<Rightarrow> image \<Rightarrow> kernel \<Rightarrow> kernel outcome" where
  "shell_init disk im k =
     bindo (sh_sigaction disk 2 (on_sigint im) k) (\<lambda>k.
     bindo (sh_sigaction disk 10 (on_sigusr1 im) k) (\<lambda>k.
     bindo (sh_sigaction disk 15 (on_sigterm im) k) (\<lambda>k.
     bindo (sh_setcolor disk 0x0B k) (\<lambda>k.
     bindo (sh_print disk (lit im ([10] @ cstr ''  PepinOS Shell  (paso 24 - senales POSIX)'' @ [10])) k) (\<lambda>k.
     bindo (sh_setcolor disk 0x07 k) (\<lambda>k.
     sh_prints disk (map (lit im)
       [cstr ''  help: comandos disponibles'' @ [10],
        cstr ''  Ctrl+C envia SIGINT | '' @ [0x27] @ cstr ''raise N'' @ [0x27] @ cstr '' envia la senal N'' @ [10, 10]]) k))))))"

text \<open>
  The loop never ends, and keys arrive while it runs. So that a run can be as long as it is in the machine, its
  loop is also given step by step: the program is about to print the prompt, about to ask for the next
  character of a line of which it has \<open>pos\<close>, or about to run the line it has read. A session is a
  sequence of events, the program going on or the keyboard's interrupt with a scan code, in any order.
\<close>

datatype phase = At_Prompt | Editing u32 | Running

definition edit_char :: "disk \<Rightarrow> image \<Rightarrow> u32 \<Rightarrow> u32 \<Rightarrow> kernel \<Rightarrow> (phase \<times> kernel) outcome" where
  "edit_char disk im c pos k =
     (if c = 0 then Inr (Editing pos, k)
      else if c = 10 \<or> c = 13 then bindo (sh_store (line_adr im + pos) 0 k) (\<lambda>k. Inr (Running, k))
      else if c = 8 \<or> c = 127 then
        (if sint pos > 0 then bindo (sh_print disk (lit im [8, 32, 8]) k) (\<lambda>k. Inr (Editing (pos - 1), k)) else Inr (Editing pos, k))
      else if sint pos < 128 - 1 then bindo (sh_store (line_adr im + pos) (ucast c) k) (\<lambda>k. Inr (Editing (pos + 1), k))
      else Inr (Editing pos, k))"

fun shell_step :: "disk \<Rightarrow> image \<Rightarrow> phase \<times> kernel \<Rightarrow> (phase \<times> kernel) outcome" where
  "shell_step disk im (At_Prompt, k) =
     bindo (bindo (sh_setcolor disk 0x0A k) (\<lambda>k. bindo (sh_print disk (lit im (cstr ''pepinos$ '')) k) (sh_setcolor disk 0x0F)))
       (\<lambda>k. Inr (Editing 0, k))"
| "shell_step disk im (Editing pos, k) = bindo (sh_getchar disk k) (\<lambda>r. edit_char disk im (fst r) pos (snd r))"
| "shell_step disk im (Running, k) =
     bindo (sh_print disk (lit im [10]) k) (\<lambda>k. bindo (sh_setcolor disk 0x07 k) (\<lambda>k.
       bindo (execute disk im (line_adr im) k) (\<lambda>k. Inr (At_Prompt, k))))"

datatype event = Key u8 | Go

definition key_arrives :: "u8 \<Rightarrow> kernel \<Rightarrow> kernel" where
  "key_arrives scancode k =
     (case keyboard_handler scancode (kn_kb k, kn_screen k, kn_sched k) of (kb, d, s) \<Rightarrow> k\<lparr>kn_kb := kb, kn_screen := d, kn_sched := s\<rparr>)"

fun shell_event :: "disk \<Rightarrow> image \<Rightarrow> event \<Rightarrow> phase \<times> kernel \<Rightarrow> (phase \<times> kernel) outcome" where
  "shell_event disk im (Key scancode) (p, k) = Inr (p, key_arrives scancode k)"
| "shell_event disk im Go s = shell_step disk im s"

primrec shell_session :: "disk \<Rightarrow> image \<Rightarrow> event list \<Rightarrow> phase \<times> kernel \<Rightarrow> (phase \<times> kernel) outcome" where
  "shell_session disk im [] s = Inr s"
| "shell_session disk im (e # es) s = bindo (shell_event disk im e s) (shell_session disk im es)"

definition shell_start :: "disk \<Rightarrow> image \<Rightarrow> event list \<Rightarrow> kernel \<Rightarrow> (phase \<times> kernel) outcome" where
  "shell_start disk im es k = bindo (shell_init disk im k) (\<lambda>k. shell_session disk im es (At_Prompt, k))"

section \<open>The program hello\<close>

text \<open>Its buffer is on the stack; after the file it prints dots for ever, here \<open>n\<close> of them.\<close>

definition hello_start :: "disk \<Rightarrow> (u8 list \<Rightarrow> u32) \<Rightarrow> u32 \<Rightarrow> nat \<Rightarrow> kernel \<Rightarrow> kernel outcome" where
  "hello_start disk lits buf n k =
     bindo (sh_setcolor disk 0x0A k) (\<lambda>k.
     bindo (sh_print disk (lits (cstr ''hola desde PepinOS!'' @ [10])) k) (\<lambda>k.
     bindo (sh_open disk (lits (cstr ''hola.txt'')) k) (\<lambda>(fd, k).
     bindo (if sint fd \<ge> 0 then
              bindo (sh_read disk fd buf 63 k) (\<lambda>(n, k).
              bindo (if sint n > 0 then
                       bindo (sh_store (buf + n) 0 k) (\<lambda>k.
                       bindo (sh_setcolor disk 0x0E k) (\<lambda>k.
                       sh_prints disk [lits (cstr ''hola.txt: ''), buf] k))
                     else Inr k) (\<lambda>k.
              sh_close disk fd k))
            else Inr k) (\<lambda>k.
     bindo (sh_setcolor disk 0x0A k) (\<lambda>k.
     for_try 0 n (\<lambda>i. sh_print disk (lits (cstr ''.''))) k)))))"

section \<open>Strings of a program\<close>

definition user_str :: "mach \<Rightarrow> u32 \<Rightarrow> cptr" where
  "user_str c a i = uld8 (a + of_nat i) c"

abbreviation ustr :: "mach \<Rightarrow> u32 \<Rightarrow> u8 list \<Rightarrow> bool" where
  "ustr c a s \<equiv> names (user_str c a) s"

lemma ustr_iff: "ustr c a s \<longleftrightarrow> 0 \<notin> set s \<and> (\<forall>i<length s. uld8 (a + of_nat i) c = Inr (s ! i)) \<and> uld8 (a + of_nat (length s)) c = Inr 0"
  by (simp add: names_def user_str_def)

lemma ustr_Nil: "ustr c a [] \<longleftrightarrow> uld8 a c = Inr 0"
  by (simp add: ustr_iff)

lemma ustr_Cons: "ustr c a (x # s) \<longleftrightarrow> x \<noteq> 0 \<and> uld8 a c = Inr x \<and> ustr c (a + 1) s"
  by (auto simp: ustr_iff less_Suc_eq_0_disj algebra_simps)

lemma ustr_drop: "ustr c a s \<Longrightarrow> i \<le> length s \<Longrightarrow> ustr c (a + of_nat i) (drop i s)"
  unfolding ustr_iff
proof (intro conjI)
  assume a: "0 \<notin> set s \<and> (\<forall>i<length s. uld8 (a + of_nat i) c = Inr (s ! i)) \<and> uld8 (a + of_nat (length s)) c = Inr 0" and i: "i \<le> length s"
  show "0 \<notin> set (drop i s)" using a in_set_dropD[of 0 i s] by blast
  have e: "a + of_nat i + of_nat j = a + of_nat (i + j)" for j by (simp add: add.assoc)
  show "\<forall>j<length (drop i s). uld8 (a + of_nat i + of_nat j) c = Inr (drop i s ! j)" using a i unfolding e by (auto simp del: of_nat_add)
  show "uld8 (a + of_nat i + of_nat (length (drop i s))) c = Inr 0" using a i unfolding e by simp
qed

lemma ustr_str_at: "ustr c a s \<Longrightarrow> str_at c a s"
  by (auto simp: ustr_iff str_at_iff intro: uld8_kld8)

lemmas ustr_length = str_at_length[OF ustr_str_at]

lemma ustr_cong: "ustr c a s \<Longrightarrow> (\<And>i. i \<le> length s \<Longrightarrow> uld8 (a + of_nat i) c' = uld8 (a + of_nat i) c) \<Longrightarrow> ustr c' a s"
  by (simp add: ustr_iff)

lemma str_eq_at:
  "ustr c (a + of_nat n) s \<Longrightarrow> ustr c (b + of_nat n) t \<Longrightarrow> n + length s < 2 ^ 32 \<Longrightarrow> str_eq_from c a b n = Inr (s = t)"
proof (induction s arbitrary: t n)
  case Nil
  then show ?case by (subst str_eq_from.simps; cases t) (auto simp: ustr_Cons ustr_Nil both_same_def)
next
  case (Cons x s)
  show ?case
  proof (cases t)
    case Nil
    with Cons.prems show ?thesis by (subst str_eq_from.simps) (simp add: ustr_Cons ustr_Nil both_same_def)
  next
    case t: (Cons y t')
    with Cons.prems Cons.IH[of "n + 1" t'] have "str_eq_from c a b (n + 1) = Inr (s = t')" by (simp add: ustr_Cons algebra_simps)
    with Cons.prems t show ?thesis by (subst str_eq_from.simps) (auto simp: ustr_Cons both_same_def)
  qed
qed

lemma str_starts_at:
  "ustr c (a + of_nat n) s \<Longrightarrow> ustr c (b + of_nat n) t \<Longrightarrow> n + length t < 2 ^ 32 \<Longrightarrow>
   str_starts_from c a b n = Inr (take (length t) s = t)"
proof (induction t arbitrary: s n)
  case Nil
  then show ?case by (subst str_starts_from.simps) (simp add: ustr_Nil)
next
  case (Cons y t)
  show ?case
  proof (cases s)
    case Nil
    with Cons.prems show ?thesis by (subst str_starts_from.simps) (auto simp: ustr_Cons ustr_Nil)
  next
    case s: (Cons x s')
    with Cons.prems Cons.IH[of "n + 1" s'] have "str_starts_from c a b (n + 1) = Inr (take (length t) s' = t)"
      by (simp add: ustr_Cons algebra_simps)
    with Cons.prems s show ?thesis by (subst str_starts_from.simps) (auto simp: ustr_Cons)
  qed
qed

lemma skip_while_at:
  "ustr c (a + of_nat n) s \<Longrightarrow> n + length s < 2 ^ 32 \<Longrightarrow> \<not> P 0 \<Longrightarrow> skip_while c P a n = Inr (n + length (takeWhile P s))"
proof (induction s arbitrary: n)
  case (Cons x s)
  then have "P x \<Longrightarrow> skip_while c P a (n + 1) = Inr (n + 1 + length (takeWhile P s))"
    using Cons.IH[of "n + 1"] by (simp add: ustr_Cons algebra_simps)
  with Cons.prems show ?case by (subst skip_while.simps) (auto simp: ustr_Cons)
qed (subst skip_while.simps, simp add: ustr_Nil)

text \<open>The first word of a line, and what follows it and the spaces after it.\<close>

definition word_of :: "u8 list \<Rightarrow> u8 list" where
  "word_of s = takeWhile (\<lambda>v. v \<noteq> 32) s"

definition arg_of :: "u8 list \<Rightarrow> u8 list" where
  "arg_of s = dropWhile (\<lambda>v. v = 32) (dropWhile (\<lambda>v. v \<noteq> 32) s)"

lemma skip_word_at:
  assumes s: "ustr c a s"
  obtains p where "str_skip_word c a = Inr p" and "ustr c p (arg_of s)"
proof -
  let ?P = "\<lambda>v :: u8. v \<noteq> 0 \<and> v \<noteq> 32" and ?n = "length (word_of s)"
  have 0: "0 \<notin> set s" using s by (simp add: ustr_iff)
  then have w: "takeWhile ?P s = word_of s" unfolding word_of_def by (intro takeWhile_cong) auto
  have len: "?n \<le> length s" by (simp add: word_of_def length_takeWhile_le)
  have d: "drop ?n s = dropWhile (\<lambda>v. v \<noteq> 32) s" by (simp add: word_of_def dropWhile_eq_drop)
  let ?t = "drop ?n s" let ?m = "length (takeWhile (\<lambda>v. v = 32) ?t)"
  have t: "ustr c (a + of_nat ?n) ?t" by (rule ustr_drop[OF s len])
  have "skip_while c ?P a 0 = Inr ?n" using skip_while_at[of c a 0 s ?P] s ustr_length[OF s] by (simp add: w)
  moreover have "skip_while c (\<lambda>v. v = 32) a ?n = Inr (?n + ?m)"
    using skip_while_at[OF t, of "\<lambda>v. v = 32"] ustr_length[OF s] len by simp
  moreover have "ustr c (a + of_nat ?n + of_nat ?m) (drop ?m ?t)"
    by (rule ustr_drop[OF t]) (rule length_takeWhile_le)
  moreover have "drop ?m ?t = arg_of s" by (simp only: arg_of_def d dropWhile_eq_drop)
  ultimately show thesis by (intro that[of "a + of_nat (?n + ?m)"]) (simp_all add: str_skip_word_def add.assoc)
qed

definition digit :: "u8 \<Rightarrow> bool" where
  "digit v \<longleftrightarrow> 48 \<le> v \<and> v \<le> 57"

text \<open>The number that the digits at the start of a string denote.\<close>

definition decimal :: "u8 list \<Rightarrow> nat" where
  "decimal s = foldl (\<lambda>n v. n * 10 + (unat v - 48)) 0 (takeWhile digit s)"

lemma str_atoi_at:
  "ustr c (a + of_nat i) s \<Longrightarrow> i + length s < 2 ^ 32 \<Longrightarrow>
   str_atoi_from c a i (of_nat n) = Inr (of_nat (foldl (\<lambda>n v. n * 10 + (unat v - 48)) n (takeWhile digit s)))"
proof (induction s arbitrary: i n)
  case Nil
  then show ?case by (subst str_atoi_from.simps) (simp add: ustr_Nil)
next
  case (Cons x s)
  show ?case
  proof (cases "digit x")
    case True
    then have "48 \<le> unat x" by (simp add: digit_def word_le_nat_alt)
    then have "of_nat n * 10 + (ucast x - 48) = (of_nat (n * 10 + (unat x - 48)) :: u32)"
      by (simp add: of_nat_diff)
    moreover have "str_atoi_from c a (i + 1) (of_nat (n * 10 + (unat x - 48))) =
        Inr (of_nat (foldl (\<lambda>n v. n * 10 + (unat v - 48)) (n * 10 + (unat x - 48)) (takeWhile digit s)))"
      using Cons.prems Cons.IH[of "i + 1" "n * 10 + (unat x - 48)"] by (simp add: ustr_Cons algebra_simps)
    ultimately show ?thesis using True Cons.prems by (subst str_atoi_from.simps) (simp add: ustr_Cons digit_def)
  next
    case False
    then have "takeWhile digit (x # s) = []" "\<not> (48 \<le> x \<and> x \<le> 57)" by (simp_all add: digit_def)
    then show ?thesis using Cons.prems by (subst str_atoi_from.simps) (auto simp: ustr_Cons)
  qed
qed

section \<open>What the calls do\<close>

lemma chars_from_names:
  assumes nm: "names p s" and len: "length s < 2 ^ 32"
  shows "n \<le> length s \<Longrightarrow> chars_from p n = Inr (drop n s)"
proof (induction "length s - n" arbitrary: n)
  case 0
  then show ?case using nm len by (subst chars_from.simps) (simp add: names_def)
next
  case (Suc k)
  then have n: "n < length s" by simp
  then have "p n = Inr (s ! n)" "s ! n \<noteq> 0" using nm by (simp add: names_def, metis names_def nth_mem)
  then show ?case using Suc n len by (subst chars_from.simps) (simp add: Cons_nth_drop_Suc)
qed

lemma sh_print_at:
  assumes "ustr (kn_cpu k) a s"
  shows "sh_print disk a k = Inr (k\<lparr>kn_screen := print s (set_kattr 0x0F (kn_screen k))\<rparr>)"
  using chars_from_names[OF ustr_str_at[OF assms], of 0] ustr_length[OF assms]
  by (simp add: sh_print_def int30_def syscall_handler_def keep_frame_def sys_print_def)

lemma byte_ucast: "ucast (ucast v :: u32) = (v :: u8)"
  by (intro bit_word_eqI) (simp add: bit_simps)

lemma sh_setcolor_eq: "sh_setcolor disk a k = Inr (k\<lparr>kn_screen := set_kattr a (kn_screen k)\<rparr>)"
  by (simp add: sh_setcolor_def int30_def syscall_handler_def keep_frame_def sys_setcolor_def byte_ucast)

lemma sh_getchar_eq: "sh_getchar disk k = Inr (ucast (fst (kb_getchar (kn_kb k))), k\<lparr>kn_kb := snd (kb_getchar (kn_kb k))\<rparr>)"
  by (simp add: sh_getchar_def int30_def syscall_handler_def keep_frame_def sys_getchar_def case_prod_beta)

lemma sh_store_eq: "ust8 a v (kn_cpu k) = Inr c \<Longrightarrow> sh_store a v k = Inr (k\<lparr>kn_cpu := c\<rparr>)"
  by (simp add: sh_store_def)

section \<open>Reading a line\<close>

text \<open>What a line becomes as its keys arrive: 8 and 127 delete, the rest is appended, up to 127 characters.\<close>

fun edited :: "u8 list \<Rightarrow> u8 list \<Rightarrow> u8 list" where
  "edited acc [] = acc"
| "edited acc (c # cs) =
     (if c = 0 then edited acc cs
      else if c = 8 \<or> c = 127 then edited (butlast acc) cs
      else if length acc < 127 then edited (acc @ [c]) cs
      else edited acc cs)"

definition in_buffer :: "u32 \<Rightarrow> nat \<Rightarrow> u32 \<Rightarrow> bool" where
  "in_buffer a n b \<longleftrightarrow> (\<exists>i<n. b = a + of_nat i)"

lemma wait_char_queue:
  assumes kb: "kb_inv (kn_kb k)" and q: "kb_queue (kn_kb k) = c # cs"
  obtains kb' where "kb_inv kb'" "kb_queue kb' = cs"
    "wait_char disk k = (if c = 0 then wait_char disk (k\<lparr>kn_kb := kb'\<rparr>) else Some (Inr (ucast c, k\<lparr>kn_kb := kb'\<rparr>)))"
proof -
  have g: "fst (kb_getchar (kn_kb k)) = c" "kb_queue (snd (kb_getchar (kn_kb k))) = cs" using kb_queue_getchar[OF kb] q by simp_all
  have z: "(ucast c :: u32) = 0 \<longleftrightarrow> c = 0" using byte_ucast[of c] by (metis unsigned_0)
  have "wait_char disk k = (if c = 0 then wait_char disk (k\<lparr>kn_kb := snd (kb_getchar (kn_kb k))\<rparr>)
      else Some (Inr (ucast c, k\<lparr>kn_kb := snd (kb_getchar (kn_kb k))\<rparr>)))"
    by (subst wait_char.simps) (simp add: sh_getchar_eq g(1) z)
  with that[OF kb_inv_getchar[OF kb] g(2)] show thesis .
qed

lemma unat_byte: "unat (ucast (c :: u8) :: u32) = unat c"
proof -
  have "unat c < 256" using unsigned_less[of c] by simp
  then show ?thesis by (simp add: unsigned_ucast_eq take_bit_nat_eq_self)
qed

lemma key_codes:
  "(ucast c :: u32) = 10 \<longleftrightarrow> c = (10 :: u8)" "(ucast c :: u32) = 13 \<longleftrightarrow> c = (13 :: u8)" "(ucast c :: u32) = 8 \<longleftrightarrow> c = (8 :: u8)"
  "(ucast c :: u32) = 127 \<longleftrightarrow> c = (127 :: u8)"
  by (simp_all add: word_unat_eq_iff unat_byte)

lemma read_line_cong: "wait_char disk k = wait_char disk k' \<Longrightarrow> read_line disk im pos k = read_line disk im pos k'"
  by (simp add: read_line.simps[of disk im pos k] read_line.simps[of disk im pos k'])

lemma read_line_key:
  assumes "wait_char disk k = Some (Inr (ucast c, k1))" and "c \<noteq> 10" and "c \<noteq> 13"
  shows "read_line disk im pos k =
    (if c = 8 \<or> c = 127 then
       (if sint pos > 0 then (case sh_print disk (lit im [8, 32, 8]) k1 of Inl e \<Rightarrow> Some (Inl e) | Inr k \<Rightarrow> read_line disk im (pos - 1) k)
        else read_line disk im pos k1)
     else if sint pos < 127 then
       (case sh_store (line_adr im + pos) c k1 of Inl e \<Rightarrow> Some (Inl e) | Inr k \<Rightarrow> read_line disk im (pos + 1) k)
     else read_line disk im pos k1)"
  using assms by (subst read_line.simps) (simp add: key_codes byte_ucast)

lemma read_line_end:
  "wait_char disk k = Some (Inr (ucast (e :: u8), k1)) \<Longrightarrow> e = 10 \<or> e = 13 \<Longrightarrow> read_line disk im pos k = Some (sh_store (line_adr im + pos) 0 k1)"
  by (subst read_line.simps) (auto simp: key_codes)

lemma sint_small: "n < 2 ^ 31 \<Longrightarrow> sint (of_nat n :: u32) = int n"
  by (simp add: sint_uint signed_take_bit_int_eq_self_iff unsigned_of_nat take_bit_nat_eq_self)

text \<open>The loop of the editor, with the characters so far in the buffer.\<close>

definition line_state :: "(mach \<Rightarrow> bool) \<Rightarrow> image \<Rightarrow> u8 list \<Rightarrow> kernel \<Rightarrow> bool" where
  "line_state ok im acc k \<longleftrightarrow> ok (kn_cpu k) \<and> kb_inv (kn_kb k) \<and> length acc \<le> 127 \<and> 0 \<notin> set acc \<and>
     (\<forall>i<length acc. uld8 (line_adr im + of_nat i) (kn_cpu k) = Inr (acc ! i)) \<and> ustr (kn_cpu k) (lit im [8, 32, 8]) [8, 32, 8]"

definition line_done :: "(mach \<Rightarrow> bool) \<Rightarrow> u32 set \<Rightarrow> image \<Rightarrow> u8 list \<Rightarrow> u8 list \<Rightarrow> kernel \<Rightarrow> kernel \<Rightarrow> bool" where
  "line_done ok own im s rest k k' \<longleftrightarrow> (\<exists>c kb d. k' = k\<lparr>kn_cpu := c, kn_kb := kb, kn_screen := d\<rparr> \<and> ok c \<and> kb_inv kb \<and>
     kb_queue kb = rest \<and> ustr c (line_adr im) s \<and> (\<forall>b \<in> own. \<not> in_buffer (line_adr im) 128 b \<longrightarrow> uld8 b c = uld8 b (kn_cpu k)))"

lemma edited_step: "edited acc (x # cs) = edited (edited acc [x]) cs"
  by simp

lemma edited_cases: "edited acc [x] = (if x = 0 then acc else if x = 8 \<or> x = 127 then butlast acc else if length acc < 127 then acc @ [x] else acc)"
  by simp

text \<open>What the editor may have changed since \<open>k\<close>: the buffer, the keyboard and the screen.\<close>

definition line_kept :: "u32 set \<Rightarrow> image \<Rightarrow> u8 list \<Rightarrow> kernel \<Rightarrow> kernel \<Rightarrow> bool" where
  "line_kept own im q k k' \<longleftrightarrow> (\<exists>c kb d. k' = k\<lparr>kn_cpu := c, kn_kb := kb, kn_screen := d\<rparr> \<and> kb_queue kb = q \<and>
     (\<forall>b \<in> own. \<not> in_buffer (line_adr im) 128 b \<longrightarrow> uld8 b c = uld8 b (kn_cpu k)))"

lemma line_kept_trans: "line_kept own im q k k' \<Longrightarrow> line_kept own im q' k' k'' \<Longrightarrow> line_kept own im q' k k''"
  unfolding line_kept_def by fastforce

text \<open>The loop after one key that has no effect.\<close>

lemma line_stays:
  assumes "line_state ok im acc k" and "kb_inv kb" and "kb_queue kb = q"
  shows "line_state ok im acc (k\<lparr>kn_kb := kb, kn_screen := d\<rparr>)" "line_kept own im q k (k\<lparr>kn_kb := kb, kn_screen := d\<rparr>)"
proof -
  show "line_state ok im acc (k\<lparr>kn_kb := kb, kn_screen := d\<rparr>)" using assms by (simp add: line_state_def)
  show "line_kept own im q k (k\<lparr>kn_kb := kb, kn_screen := d\<rparr>)"
    unfolding line_kept_def using assms(3) by (intro exI[of _ "kn_cpu k"] exI[of _ kb] exI[of _ d]) simp
qed

lemma read_line_deletes:
  fixes x :: u8
  assumes st: "line_state ok im acc k" and w: "wait_char disk k = Some (Inr (ucast x, k\<lparr>kn_kb := kb\<rparr>))"
    and kb: "kb_inv kb" "kb_queue kb = q" and x: "x = 8 \<or> x = 127"
  shows "\<exists>k'. read_line disk im (of_nat (length acc)) k = read_line disk im (of_nat (length (butlast acc))) k' \<and>
    line_state ok im (butlast acc) k' \<and> line_kept own im q k k'"
proof -
  have x': "x \<noteq> 10" "x \<noteq> 13" using x by auto
  have sl: "sint (of_nat (length acc) :: u32) = int (length acc)" using st by (intro sint_small) (simp add: line_state_def)
  note key = read_line_key[OF w x', of im "of_nat (length acc)", unfolded sl if_P[OF x]]
  show ?thesis
  proof (cases "acc = []")
    case True
    then show ?thesis using key line_stays[OF st kb, where d = "kn_screen k"] by (intro exI[of _ "k\<lparr>kn_kb := kb\<rparr>"]) simp
  next
    case False
    let ?d = "print [8, 32, 8] (set_kattr 0x0F (kn_screen k))"
    have u: "ustr (kn_cpu (k\<lparr>kn_kb := kb\<rparr>)) (lit im [8, 32, 8]) [8, 32, 8]" using st by (simp add: line_state_def)
    have "(of_nat (length acc) :: u32) - 1 = of_nat (length (butlast acc))" using False by (cases acc) simp_all
    then have "read_line disk im (of_nat (length acc)) k = read_line disk im (of_nat (length (butlast acc))) (k\<lparr>kn_kb := kb, kn_screen := ?d\<rparr>)"
      using key False sh_print_at[OF u, of disk] by simp
    moreover have "line_state ok im (butlast acc) (k\<lparr>kn_kb := kb, kn_screen := ?d\<rparr>)"
      using line_stays(1)[OF st kb, where d = ?d] by (auto simp: line_state_def nth_butlast dest: in_set_butlastD)
    ultimately show ?thesis using line_stays(2)[OF st kb] by blast
  qed
qed

context user_memory
begin

lemma store_byte:
  assumes "ok (kn_cpu k)" and "a \<in> own"
  shows "\<exists>c. sh_store a v k = Inr (k\<lparr>kn_cpu := c\<rparr>) \<and> ok c \<and> (\<forall>b \<in> own. uld8 b c = (if b = a then Inr v else uld8 b (kn_cpu k)))"
  using store[OF assms, of v] by (auto simp: sh_store_def)

lemma line_append:
  assumes st: "line_state ok im acc k" and own: "\<forall>i<128. line_adr im + of_nat i \<in> own"
    and del: "\<forall>i\<le>3. lit im [8, 32, 8] + of_nat i \<in> own \<and> \<not> in_buffer (line_adr im) 128 (lit im [8, 32, 8] + of_nat i)"
    and v: "v \<noteq> 0" "length acc < 127"
  obtains c where "sh_store (line_adr im + of_nat (length acc)) v k = Inr (k\<lparr>kn_cpu := c\<rparr>)" "line_state ok im (acc @ [v]) (k\<lparr>kn_cpu := c\<rparr>)"
    "\<forall>b \<in> own. \<not> in_buffer (line_adr im) 128 b \<longrightarrow> uld8 b c = uld8 b (kn_cpu k)"
proof -
  let ?a = "line_adr im + of_nat (length acc)"
  have ok: "ok (kn_cpu k)" and a: "?a \<in> own" using st own v by (simp_all add: line_state_def)
  obtain c where c: "sh_store ?a v k = Inr (k\<lparr>kn_cpu := c\<rparr>)" "ok c" "\<And>b. b \<in> own \<Longrightarrow> uld8 b c = (if b = ?a then Inr v else uld8 b (kn_cpu k))"
    using store_byte[OF ok a, of v] by blast
  have other: "uld8 b c = uld8 b (kn_cpu k)" if b: "b \<in> own" "\<not> in_buffer (line_adr im) 128 b" for b
  proof -
    have "length acc < 128" using v(2) by simp
    then have "b \<noteq> ?a" using b(2) unfolding in_buffer_def by blast
    with c(3)[OF b(1)] show ?thesis by simp
  qed
  have "uld8 (line_adr im + of_nat i) c = Inr ((acc @ [v]) ! i)" if "i < length (acc @ [v])" for i
  proof -
    have "line_adr im + of_nat i \<in> own" using own that v(2) by simp
    moreover have "line_adr im + of_nat i = ?a \<longleftrightarrow> i = length acc" using of_nat_inj32[of i "length acc"] that v(2) by simp
    moreover have "i < length acc \<Longrightarrow> uld8 (line_adr im + of_nat i) (kn_cpu k) = Inr (acc ! i)" using st by (simp add: line_state_def)
    ultimately show ?thesis using c(3)[of "line_adr im + of_nat i"] that by (simp add: nth_append)
  qed
  moreover have "ustr c (lit im [8, 32, 8]) [8, 32, 8]"
  proof (rule ustr_cong)
    show "ustr (kn_cpu k) (lit im [8, 32, 8]) [8, 32, 8]" using st by (simp add: line_state_def)
    show "uld8 (lit im [8, 32, 8] + of_nat i) c = uld8 (lit im [8, 32, 8] + of_nat i) (kn_cpu k)" if "i \<le> length [8, 32, 8 :: u8]" for i
      using other del that by simp
  qed
  ultimately have "line_state ok im (acc @ [v]) (k\<lparr>kn_cpu := c\<rparr>)" using st c(2) v by (simp add: line_state_def)
  with c(1) other show thesis using that by blast
qed

lemma read_line_inserts:
  assumes own: "\<forall>i<128. line_adr im + of_nat i \<in> own"
    and del: "\<forall>i\<le>3. lit im [8, 32, 8] + of_nat i \<in> own \<and> \<not> in_buffer (line_adr im) 128 (lit im [8, 32, 8] + of_nat i)"
    and st: "line_state ok im acc k" and w: "wait_char disk k = Some (Inr (ucast x, k\<lparr>kn_kb := kb\<rparr>))"
    and kb: "kb_inv kb" "kb_queue kb = q" and x: "x \<notin> {0, 8, 10, 13, 127}"
  shows "\<exists>k'. read_line disk im (of_nat (length acc)) k = read_line disk im (of_nat (length (edited acc [x]))) k' \<and>
    line_state ok im (edited acc [x]) k' \<and> line_kept own im q k k'"
proof -
  have x': "x \<noteq> 10" "x \<noteq> 13" "x \<noteq> 0" "\<not> (x = 8 \<or> x = 127)" using x by auto
  have sl: "sint (of_nat (length acc) :: u32) = int (length acc)" using st by (intro sint_small) (simp add: line_state_def)
  note key = read_line_key[OF w x'(1,2), of im "of_nat (length acc)", unfolded sl if_not_P[OF x'(4)]]
  note stay = line_stays[OF st kb, where d = "kn_screen k"]
  show ?thesis
  proof (cases "length acc < 127")
    case True
    have stk: "line_state ok im acc (k\<lparr>kn_kb := kb\<rparr>)" using stay(1) by simp
    obtain c where c: "sh_store (line_adr im + of_nat (length acc)) x (k\<lparr>kn_kb := kb\<rparr>) = Inr (k\<lparr>kn_kb := kb, kn_cpu := c\<rparr>)"
      "line_state ok im (acc @ [x]) (k\<lparr>kn_kb := kb, kn_cpu := c\<rparr>)"
      "\<forall>b \<in> own. \<not> in_buffer (line_adr im) 128 b \<longrightarrow> uld8 b c = uld8 b (kn_cpu k)"
      using line_append[OF stk own del x'(3) True] by auto
    have "line_kept own im q k (k\<lparr>kn_kb := kb, kn_cpu := c\<rparr>)"
      unfolding line_kept_def using c(3) kb(2) by (intro exI[of _ c] exI[of _ kb] exI[of _ "kn_screen k"]) simp
    moreover have "read_line disk im (of_nat (length acc)) k = read_line disk im (of_nat (length (acc @ [x]))) (k\<lparr>kn_kb := kb, kn_cpu := c\<rparr>)"
      using key True c(1) by (simp add: add.commute)
    ultimately show ?thesis using c(2) x' True by auto
  next
    case False
    then show ?thesis using key stay x' by (intro exI[of _ "k\<lparr>kn_kb := kb\<rparr>"]) simp
  qed
qed

lemma read_line_step:
  assumes own: "\<forall>i<128. line_adr im + of_nat i \<in> own"
    and del: "\<forall>i\<le>3. lit im [8, 32, 8] + of_nat i \<in> own \<and> \<not> in_buffer (line_adr im) 128 (lit im [8, 32, 8] + of_nat i)"
    and st: "line_state ok im acc k" and q: "kb_queue (kn_kb k) = x # q" and x: "x \<noteq> 10" "x \<noteq> 13"
  shows "\<exists>k'. read_line disk im (of_nat (length acc)) k = read_line disk im (of_nat (length (edited acc [x]))) k' \<and>
    line_state ok im (edited acc [x]) k' \<and> line_kept own im q k k'"
proof -
  have kbi: "kb_inv (kn_kb k)" using st by (simp add: line_state_def)
  obtain kb where kb: "kb_inv kb" "kb_queue kb = q"
    "wait_char disk k = (if x = 0 then wait_char disk (k\<lparr>kn_kb := kb\<rparr>) else Some (Inr (ucast x, k\<lparr>kn_kb := kb\<rparr>)))"
    using wait_char_queue[OF kbi q, of disk] by blast
  consider "x = 0" | "x \<noteq> 0" "x = 8 \<or> x = 127" | "x \<notin> {0, 8, 10, 13, 127}" using x by auto
  then show ?thesis
  proof cases
    case 1
    then have "read_line disk im (of_nat (length acc)) k = read_line disk im (of_nat (length acc)) (k\<lparr>kn_kb := kb\<rparr>)"
      using kb(3) by (intro read_line_cong) simp
    then show ?thesis using 1 line_stays[OF st kb(1,2), where d = "kn_screen k"] by (intro exI[of _ "k\<lparr>kn_kb := kb\<rparr>"]) simp
  next
    case 2
    then show ?thesis using read_line_deletes[OF st _ kb(1,2), of disk x] kb(3) by simp
  next
    case 3
    then show ?thesis using read_line_inserts[OF own del st _ kb(1,2) 3, of disk] kb(3) by simp
  qed
qed

text \<open>A run of keys, then the line end.\<close>

lemma read_line_keys:
  assumes own: "\<forall>i<128. line_adr im + of_nat i \<in> own"
    and del: "\<forall>i\<le>3. lit im [8, 32, 8] + of_nat i \<in> own \<and> \<not> in_buffer (line_adr im) 128 (lit im [8, 32, 8] + of_nat i)"
  shows "line_state ok im acc k \<Longrightarrow> kb_queue (kn_kb k) = cs @ q \<Longrightarrow> 10 \<notin> set cs \<Longrightarrow> 13 \<notin> set cs \<Longrightarrow>
    \<exists>k'. read_line disk im (of_nat (length acc)) k = read_line disk im (of_nat (length (edited acc cs))) k' \<and>
      line_state ok im (edited acc cs) k' \<and> line_kept own im q k k'"
proof (induction cs arbitrary: acc k)
  case Nil
  then have "kb_inv (kn_kb k)" "kb_queue (kn_kb k) = q" by (simp_all add: line_state_def)
  from line_stays[OF Nil.prems(1) this, where d = "kn_screen k"] show ?case by (intro exI[of _ k]) simp
next
  case (Cons x cs)
  have x: "kb_queue (kn_kb k) = x # (cs @ q)" "x \<noteq> 10" "x \<noteq> 13" using Cons.prems by simp_all
  obtain k1 where k1: "read_line disk im (of_nat (length acc)) k = read_line disk im (of_nat (length (edited acc [x]))) k1"
    "line_state ok im (edited acc [x]) k1" "line_kept own im (cs @ q) k k1"
    using read_line_step[OF own del Cons.prems(1) x, of disk] by blast
  have "kb_queue (kn_kb k1) = cs @ q" using k1(3) by (auto simp: line_kept_def)
  from Cons.IH[OF k1(2) this] Cons.prems(3,4) obtain k2 where k2:
    "read_line disk im (of_nat (length (edited acc [x]))) k1 = read_line disk im (of_nat (length (edited (edited acc [x]) cs))) k2"
    "line_state ok im (edited (edited acc [x]) cs) k2" "line_kept own im q k1 k2" by (auto simp del: edited.simps)
  show ?case unfolding edited_step[of acc x cs]
    by (intro exI[of _ k2] conjI k2(2) line_kept_trans[OF k1(3) k2(3)]) (simp only: k1(1) k2(1))
qed

lemma read_line_finish:
  assumes own: "\<forall>i<128. line_adr im + of_nat i \<in> own" and e: "e = 10 \<or> e = 13"
    and st: "line_state ok im acc k" and q: "kb_queue (kn_kb k) = e # rest"
  shows "\<exists>k'. read_line disk im (of_nat (length acc)) k = Some (Inr k') \<and> line_done ok own im acc rest k k'"
proof -
  have s: "kb_inv (kn_kb k)" "ok (kn_cpu k)" "length acc \<le> 127" "0 \<notin> set acc"
    "\<And>i. i < length acc \<Longrightarrow> uld8 (line_adr im + of_nat i) (kn_cpu k) = Inr (acc ! i)" using st by (simp_all add: line_state_def)
  have e0: "e \<noteq> 0" using e by auto
  obtain kb where kb: "kb_inv kb" "kb_queue kb = rest" "wait_char disk k = Some (Inr (ucast e, k\<lparr>kn_kb := kb\<rparr>))"
    using wait_char_queue[OF s(1) q, of disk] e0 by (metis (no_types))
  have a: "line_adr im + of_nat (length acc) \<in> own" using own s(3) by simp
  obtain c where c: "sh_store (line_adr im + of_nat (length acc)) 0 (k\<lparr>kn_kb := kb\<rparr>) = Inr (k\<lparr>kn_kb := kb, kn_cpu := c\<rparr>)" "ok c"
    "\<And>b. b \<in> own \<Longrightarrow> uld8 b c = (if b = line_adr im + of_nat (length acc) then Inr 0 else uld8 b (kn_cpu k))"
    using store_byte[of "k\<lparr>kn_kb := kb\<rparr>" "line_adr im + of_nat (length acc)" 0] s(2) a by auto
  have "uld8 (line_adr im + of_nat i) c = Inr (acc ! i)" if "i < length acc" for i
    using c(3)[of "line_adr im + of_nat i"] own s(3) s(5)[OF that] that of_nat_inj32[of i "length acc"] by simp
  then have "ustr c (line_adr im) acc" using c(3)[OF a] s(4) by (simp add: ustr_iff)
  moreover have "uld8 b c = uld8 b (kn_cpu k)" if "b \<in> own" "\<not> in_buffer (line_adr im) 128 b" for b
    using c(3)[OF that(1)] that(2) s(3) by (auto simp: in_buffer_def)
  ultimately have "line_done ok own im acc rest k (k\<lparr>kn_kb := kb, kn_cpu := c\<rparr>)"
    unfolding line_done_def using kb(1,2) c(2) by (intro exI[of _ c] exI[of _ kb] exI[of _ "kn_screen k"]) simp
  then show ?thesis using read_line_end[OF kb(3) e] c(1) by simp
qed

lemma read_line_edits:
  assumes own: "\<forall>i<128. line_adr im + of_nat i \<in> own"
    and del: "\<forall>i\<le>3. lit im [8, 32, 8] + of_nat i \<in> own \<and> \<not> in_buffer (line_adr im) 128 (lit im [8, 32, 8] + of_nat i)"
    and e: "e = 10 \<or> e = 13"
    and st: "line_state ok im acc k" "kb_queue (kn_kb k) = cs @ e # rest" "10 \<notin> set cs" "13 \<notin> set cs"
  shows "\<exists>k'. read_line disk im (of_nat (length acc)) k = Some (Inr k') \<and> line_done ok own im (edited acc cs) rest k k'"
proof -
  obtain k1 where k1: "read_line disk im (of_nat (length acc)) k = read_line disk im (of_nat (length (edited acc cs))) k1"
    "line_state ok im (edited acc cs) k1" "line_kept own im (e # rest) k k1" using read_line_keys[OF own del st, of disk] by blast
  have "kb_queue (kn_kb k1) = e # rest" using k1(3) by (auto simp: line_kept_def)
  from read_line_finish[OF own e k1(2) this, of disk] obtain k' where
    "read_line disk im (of_nat (length (edited acc cs))) k1 = Some (Inr k')" "line_done ok own im (edited acc cs) rest k1 k'" by blast
  with k1(1,3) show ?thesis unfolding line_done_def line_kept_def by fastforce
qed

end

text \<open>
  Running a line: the command it stands for. The first word selects among \<^verbatim>\<open>cat\<close>, \<^verbatim>\<open>echo\<close> and \<^verbatim>\<open>raise\<close>;
  the commands without an argument are recognised only when they are the whole line, as in the code.
\<close>

datatype command = CHelp | CLs | CCat "u8 list" | CEcho "u8 list" | CNewline | CClear | CRaise "u8 list" | CNothing | CUnknown

definition parse :: "u8 list \<Rightarrow> command" where
  "parse s =
     (let w = word_of s; alone = (w = s); arg = arg_of s in
      if s = [] then CNothing
      else if w = cstr ''cat'' then CCat arg
      else if w = cstr ''echo'' then (if alone then CNewline else CEcho arg)
      else if w = cstr ''raise'' then CRaise arg
      else if s = cstr ''help'' then CHelp
      else if s = cstr ''ls'' then CLs
      else if s = cstr ''clear'' then CClear
      else CUnknown)"

definition words :: "u8 list set" where
  "words = {[], cstr ''help'', cstr ''ls'', cstr ''cat '', cstr ''cat'', cstr ''echo '', cstr ''echo'', cstr ''clear'', cstr ''raise '', cstr ''raise''}"

text \<open>A command on an argument that lies somewhere in memory as a string.\<close>

definition runs_on :: "(u32 \<Rightarrow> kernel \<Rightarrow> kernel outcome) \<Rightarrow> u8 list \<Rightarrow> kernel \<Rightarrow> kernel outcome \<Rightarrow> bool" where
  "runs_on cmd arg k r \<longleftrightarrow> (\<exists>p. ustr (kn_cpu k) p arg \<and> r = cmd p k)"

definition performs :: "disk \<Rightarrow> image \<Rightarrow> command \<Rightarrow> kernel \<Rightarrow> kernel outcome \<Rightarrow> bool" where
  "performs disk im cmd k r =
     (case cmd of CHelp \<Rightarrow> r = cmd_help disk im k | CLs \<Rightarrow> r = sh_ls disk k
      | CCat a \<Rightarrow> runs_on (cmd_cat disk im) a k r | CEcho a \<Rightarrow> runs_on (cmd_echo disk im) a k r
      | CNewline \<Rightarrow> r = sh_print disk (lit im [10]) k | CClear \<Rightarrow> r = cmd_clear disk im k
      | CRaise a \<Rightarrow> runs_on (cmd_raise disk im) a k r | CNothing \<Rightarrow> r = Inr k
      | CUnknown \<Rightarrow> r = bindo (sh_setcolor disk 0x0C k) (sh_prints disk [lit im (cstr ''desconocido: ''), line_adr im, lit im [10]]))"

lemma starts_word:
  assumes "32 \<notin> set w"
  shows "take (Suc (length w)) s = w @ [32] \<longleftrightarrow> word_of s = w \<and> word_of s \<noteq> s"
proof
  assume t: "take (Suc (length w)) s = w @ [32]"
  define u where "u = drop (Suc (length w)) s"
  have "s = take (Suc (length w)) s @ u" by (simp add: u_def)
  then have s: "s = w @ 32 # u" unfolding t by simp
  have "takeWhile (\<lambda>v. v \<noteq> 32) (w @ 32 # u) = w" using assms by (induction w) simp_all
  then show "word_of s = w \<and> word_of s \<noteq> s" by (simp add: word_of_def s)
next
  assume a: "word_of s = w \<and> word_of s \<noteq> s"
  have sp: "s = w @ dropWhile (\<lambda>v. v \<noteq> 32) s" using a takeWhile_dropWhile_id[of "\<lambda>v. v \<noteq> 32" s] by (simp add: word_of_def)
  with a obtain v t where d: "dropWhile (\<lambda>v. v \<noteq> 32) s = v # t" by (cases "dropWhile (\<lambda>v. v \<noteq> 32) s") auto
  then have "v = 32" by (simp add: dropWhile_eq_Cons_conv)
  with sp d have "s = w @ 32 # t" by simp
  then show "take (Suc (length w)) s = w @ [32]" by simp
qed

lemma word_alone: "32 \<notin> set w \<Longrightarrow> word_of w = w" and arg_alone: "word_of s = s \<Longrightarrow> arg_of s = []"
proof -
  show "32 \<notin> set w \<Longrightarrow> word_of w = w" by (auto simp: word_of_def takeWhile_eq_all_conv)
  assume "word_of s = s"
  then have "dropWhile (\<lambda>v. v \<noteq> 32) s = []" by (metis append_self_conv takeWhile_dropWhile_id word_of_def)
  then show "arg_of s = []" by (simp only: arg_of_def dropWhile.simps)
qed

lemma word_is: "32 \<notin> set w \<Longrightarrow> s = w \<longleftrightarrow> word_of s = w \<and> word_of s = s"
  using word_alone by metis

lemma char_code: "(of_char a :: u8) = of_char b \<longleftrightarrow> a = b"
proof
  assume "(of_char a :: u8) = of_char b"
  then have "(of_nat (of_char a) :: u8) = of_nat (of_char b)" by (simp only: of_nat_of_char)
  then have "(of_char a :: nat) mod 256 = of_char b mod 256" unfolding word_of_nat_eq_iff by (simp add: take_bit_eq_mod)
  then show "a = b" by simp
qed simp

lemma cstr_eq: "cstr a = cstr b \<longleftrightarrow> a = b"
proof -
  have "inj (of_char :: char \<Rightarrow> u8)" by (intro injI) (simp add: char_code)
  then show ?thesis by (simp add: cstr_def inj_map_eq_map)
qed

text \<open>The tests of \<^verbatim>\<open>execute\<close>, as questions about the first word of the line.\<close>

lemma str_eq_word:
  assumes "ustr c l s" and "ustr c a w" and "32 \<notin> set w"
  shows "str_eq c l a = Inr (word_of s = w \<and> word_of s = s)"
  using str_eq_at[of c l 0 s a w] assms(1,2) ustr_length[OF assms(1)] word_is[OF assms(3), of s] by (simp add: str_eq_def)

lemma str_starts_word:
  assumes "ustr c l s" and "ustr c a (w @ [32])" and "32 \<notin> set w"
  shows "str_starts c l a = Inr (word_of s = w \<and> word_of s \<noteq> s)"
  using str_starts_at[of c l 0 s a "w @ [32]"] assms(1,2) ustr_length[OF assms(2)] starts_word[OF assms(3), of s] by (simp add: str_starts_def)

definition commands :: "string set" where
  "commands = {''help'', ''ls'', ''cat'', ''echo'', ''clear'', ''raise''}"

lemma command_words:
  assumes "x \<in> commands"
  shows "32 \<notin> set (cstr x)" "cstr x \<in> words" "x \<in> {''cat'', ''echo'', ''raise''} \<Longrightarrow> cstr (x @ '' '') \<in> words" "cstr (x @ '' '') = cstr x @ [32]"
  using assms by (auto simp: commands_def words_def cstr_def)

lemma execute_at:
  assumes s: "ustr (kn_cpu k) (line_adr im) s" and lits: "\<forall>w \<in> words. ustr (kn_cpu k) (lit im w) w"
    and p: "str_skip_word (kn_cpu k) (line_adr im) = Inr p"
  defines "is \<equiv> \<lambda>x. word_of s = cstr x" and "alone \<equiv> word_of s = s"
  shows "execute disk im (line_adr im) k =
     (if is ''help'' \<and> alone then cmd_help disk im k else if is ''ls'' \<and> alone then sh_ls disk k
      else if is ''cat'' \<and> \<not> alone then cmd_cat disk im p k else if is ''cat'' \<and> alone then cmd_cat disk im (lit im []) k
      else if is ''echo'' \<and> \<not> alone then cmd_echo disk im p k else if is ''echo'' \<and> alone then sh_print disk (lit im [10]) k
      else if is ''clear'' \<and> alone then cmd_clear disk im k
      else if is ''raise'' \<and> \<not> alone then cmd_raise disk im p k else if is ''raise'' \<and> alone then cmd_raise disk im (lit im []) k
      else if s = [] then Inr k
      else bindo (sh_setcolor disk 0x0C k) (sh_prints disk [lit im (cstr ''desconocido: ''), line_adr im, lit im [10]]))"
proof -
  let ?c = "kn_cpu k" and ?l = "line_adr im"
  have e: "bindo (uld8 ?l ?c) (\<lambda>v. Inr (v = 0)) = Inr (s = [])" using s by (cases s) (simp_all add: ustr_Nil ustr_Cons)
  have eq: "str_eq ?c ?l (lit im (cstr x)) = Inr (is x \<and> alone)" if "x \<in> commands" for x
    using str_eq_word[OF s lits[rule_format, OF command_words(2)[OF that]] command_words(1)[OF that]] unfolding is_def alone_def .
  have st: "str_starts ?c ?l (lit im (cstr (x @ '' ''))) = Inr (is x \<and> \<not> alone)" if "x \<in> {''cat'', ''echo'', ''raise''}" for x
  proof -
    have x: "x \<in> commands" using that by (auto simp: commands_def)
    have "ustr ?c (lit im (cstr (x @ '' ''))) (cstr x @ [32])"
      using lits[rule_format, OF command_words(3)[OF x that]] unfolding command_words(4)[OF x] .
    from str_starts_word[OF s this command_words(1)[OF x]] show ?thesis unfolding is_def alone_def .
  qed
  note eq = eq[of "''help''"] eq[of "''ls''"] eq[of "''cat''"] eq[of "''echo''"] eq[of "''clear''"] eq[of "''raise''"]
  note st = st[of "''cat''", simplified] st[of "''echo''", simplified] st[of "''raise''", simplified]
  show ?thesis
    by (simp only: execute_def Let_def if_str_def eq[unfolded commands_def, simplified] st p e bindo.simps)
qed

lemma parse_at:
  assumes "s \<noteq> []"
  shows "parse s = (let w = word_of s; alone = (w = s) in
     if w = cstr ''cat'' then CCat (arg_of s) else if w = cstr ''echo'' then (if alone then CNewline else CEcho (arg_of s))
     else if w = cstr ''raise'' then CRaise (arg_of s) else if w = cstr ''help'' \<and> alone then CHelp
     else if w = cstr ''ls'' \<and> alone then CLs else if w = cstr ''clear'' \<and> alone then CClear else CUnknown)"
proof -
  have w: "(s = cstr x) = (word_of s = cstr x \<and> word_of s = s)" if "x \<in> commands" for x using word_is[OF command_words(1)[OF that]] .
  have "''help'' \<in> commands" "''ls'' \<in> commands" "''clear'' \<in> commands" by (simp_all add: commands_def)
  note isw = this[THEN w]
  show ?thesis unfolding parse_def Let_def isw if_not_P[OF assms] ..
qed

lemma execute_performs:
  assumes s: "ustr (kn_cpu k) (line_adr im) s" and lits: "\<forall>w \<in> words. ustr (kn_cpu k) (lit im w) w"
  shows "performs disk im (parse s) k (execute disk im (line_adr im) k)"
proof -
  obtain p where p: "str_skip_word (kn_cpu k) (line_adr im) = Inr p" "ustr (kn_cpu k) p (arg_of s)" using skip_word_at[OF s] .
  have empty: "ustr (kn_cpu k) (lit im []) []" using lits by (simp add: words_def)
  define w where "w = word_of s"
  define alone where "alone \<longleftrightarrow> word_of s = s"
  note run = execute_at[OF s lits p(1), of disk, folded w_def, folded alone_def]
  have arg: "alone \<Longrightarrow> arg_of s = []" by (simp add: alone_def arg_alone)
  have on: "runs_on f (arg_of s) k (f p k)" "alone \<Longrightarrow> runs_on f (arg_of s) k (f (lit im []) k)" for f
    using p(2) empty arg by (auto simp: runs_on_def)
  show ?thesis
  proof (cases "s = []")
    case True
    then have "w = []" "parse s = CNothing" by (simp_all add: w_def word_of_def parse_def)
    then show ?thesis unfolding run performs_def using True by (simp add: cstr_def)
  next
    case False
    note pa = parse_at[OF False, folded w_def, unfolded Let_def, folded w_def]
    have al: "(w = s) = alone" by (simp add: w_def alone_def)
    consider "w = cstr ''cat''" | "w = cstr ''echo''" | "w = cstr ''raise''" | "w = cstr ''help''" | "w = cstr ''ls''" | "w = cstr ''clear''"
      | "w \<notin> cstr ` commands" by (auto simp: commands_def)
    then show ?thesis unfolding run pa al performs_def
      by cases (cases alone; simp add: cstr_eq on False commands_def)+
  qed
qed

end
