(* ===== verification/Shell_Runs.thy ===== *)
theory Shell_Runs
  imports Shell
begin

text \<open>
  What the shell does for its user: a round of its main loop reads a line and runs the command the
  line names, and \<^verbatim>\<open>cat\<close>, \<^verbatim>\<open>raise\<close> and the number parser do what their help text promises. The program's
  memory is any instance of the interface \<^verbatim>\<open>user_memory\<close>; the space the loader builds is one.
\<close>

section \<open>Calls in a row\<close>

lemma kattr_scrollup: "kattr (scrollup n s) = kattr s"
  by (simp add: scrollup_def Let_def)

lemma kattr_putcar: "kattr (putcar c s) = kattr s"
  by (simp add: putcar_def Let_def update_cursor_fields kattr_scrollup)

lemma kattr_print: "kattr (print s d) = kattr d"
  by (induction s arbitrary: d) (simp_all add: kattr_putcar)

lemma set_kattr_print: "set_kattr a (print s (set_kattr a d)) = print s (set_kattr a d)"
proof -
  have "set_kattr (kattr d') d' = d'" for d' by (simp add: set_kattr_def)
  from this[of "print s (set_kattr a d)"] show ?thesis by (simp add: kattr_print) (simp add: set_kattr_def)
qed

lemma set_kattr_twice: "set_kattr a (set_kattr b d) = set_kattr a d"
  by (simp add: set_kattr_def)

lemma print_onto: "0 \<notin> set s \<Longrightarrow> print t (print s d) = print (s @ t) d"
  by (induction s arbitrary: d) auto

lemma int30_keep: "bindo (keep_frame frame m) (\<lambda>(r, _, k). Inr (r, k)) = m"
  by (cases m) (auto simp: keep_frame_def)

lemma sh_open_eq: "sh_open disk p k = sys_open disk p k"
  by (simp add: sh_open_def int30_def syscall_handler_def int30_keep)

lemma sh_read_eq: "sh_read disk fd b n k = sys_read disk fd b n k"
  by (simp add: sh_read_def int30_def syscall_handler_def int30_keep)

lemma sh_close_eq: "sys_close fd k = Inr (r, k') \<Longrightarrow> sh_close disk fd k = Inr k'"
  by (simp add: sh_close_def int30_def syscall_handler_def int30_keep)

lemma sh_kill_eq: "sys_kill sig k = Inr (r, k') \<Longrightarrow> sh_kill disk sig k = Inr k'"
  by (simp add: sh_kill_def int30_def syscall_handler_def int30_keep)

lemma sh_prints_at:
  "\<forall>x \<in> set ss. ustr (kn_cpu k) (fst x) (snd x) \<Longrightarrow> ss \<noteq> [] \<Longrightarrow>
   sh_prints disk (map fst ss) k = Inr (k\<lparr>kn_screen := print (concat (map snd ss)) (set_kattr 0x0F (kn_screen k))\<rparr>)"
proof (induction ss arbitrary: k)
  case (Cons x ss)
  have u: "ustr (kn_cpu k) (fst x) (snd x)" and z: "0 \<notin> set (snd x)" using Cons.prems(1) by (simp_all add: ustr_iff)
  let ?k = "k\<lparr>kn_screen := print (snd x) (set_kattr 0x0F (kn_screen k))\<rparr>"
  show ?case
  proof (cases "ss = []")
    case True
    then show ?thesis using sh_print_at[OF u, of disk] by simp
  next
    case False
    have "sh_prints disk (map fst ss) ?k = Inr (?k\<lparr>kn_screen := print (concat (map snd ss)) (set_kattr 0x0F (kn_screen ?k))\<rparr>)"
      using Cons.prems(1) False by (intro Cons.IH) simp_all
    then show ?thesis using sh_print_at[OF u, of disk] print_onto[OF z] by (simp add: set_kattr_print)
  qed
qed simp

lemma setcolor_print: "bindo (sh_setcolor disk a k) (sh_print disk s) = sh_print disk s k"
  by (simp add: sh_setcolor_eq) (simp add: sh_print_def int30_def syscall_handler_def keep_frame_def sys_print_def set_kattr_twice bindo_assoc)

section \<open>The program in its memory\<close>

text \<open>A literal lies in the program's own pages, away from the buffer that is being written.\<close>

definition holds_text_at :: "u32 set \<Rightarrow> (u32 \<Rightarrow> bool) \<Rightarrow> u32 \<Rightarrow> mach \<Rightarrow> u8 list \<Rightarrow> bool" where
  "holds_text_at own buf a c w \<longleftrightarrow> ustr c a w \<and> (\<forall>i\<le>length w. a + of_nat i \<in> own \<and> \<not> buf (a + of_nat i))"

abbreviation holds_text :: "u32 set \<Rightarrow> (u32 \<Rightarrow> bool) \<Rightarrow> image \<Rightarrow> mach \<Rightarrow> u8 list \<Rightarrow> bool" where
  "holds_text own buf im \<equiv> \<lambda>c w. holds_text_at own buf (lit im w) c w"

lemmas holds_text_def = holds_text_at_def

lemma holds_text_cong:
  "holds_text_at own buf a c w \<Longrightarrow> \<forall>b \<in> own. \<not> buf b \<longrightarrow> uld8 b c' = uld8 b c \<Longrightarrow> holds_text_at own buf a c' w"
  unfolding holds_text_def using ustr_cong[of c a w c'] by blast

abbreviation in_line :: "image \<Rightarrow> u32 \<Rightarrow> bool" where
  "in_line im \<equiv> in_buffer (line_adr im) 128"

abbreviation in_cat :: "image \<Rightarrow> u32 \<Rightarrow> bool" where
  "in_cat im \<equiv> in_buffer (cat_adr im) 512"

definition turn_words :: "u8 list set" where
  "turn_words = insert [8, 32, 8] (insert [10] (insert (cstr ''pepinos$ '') words))"

definition shell_image :: "u32 set \<Rightarrow> image \<Rightarrow> mach \<Rightarrow> bool" where
  "shell_image own im c \<longleftrightarrow> (\<forall>i<128. line_adr im + of_nat i \<in> own) \<and> (\<forall>w \<in> turn_words. holds_text own (in_line im) im c w)"

lemma shell_image_ustr: "shell_image own im c \<Longrightarrow> w \<in> turn_words \<Longrightarrow> ustr c (lit im w) w"
  by (simp add: shell_image_def holds_text_def)

lemma shell_image_cong:
  "shell_image own im c \<Longrightarrow> \<forall>b \<in> own. \<not> in_line im b \<longrightarrow> uld8 b c' = uld8 b c \<Longrightarrow> shell_image own im c'"
  by (auto simp: shell_image_def intro: holds_text_cong)

text \<open>The state in which a round runs its command: the line is in the buffer, its keys are consumed.\<close>

definition line_read :: "(mach \<Rightarrow> bool) \<Rightarrow> u32 set \<Rightarrow> image \<Rightarrow> u8 list \<Rightarrow> u8 list \<Rightarrow> kernel \<Rightarrow> kernel \<Rightarrow> bool" where
  "line_read ok own im s rest k k' \<longleftrightarrow> (\<exists>c kb d. k' = k\<lparr>kn_cpu := c, kn_kb := kb, kn_screen := d\<rparr> \<and> ok c \<and> kb_inv kb \<and>
     kb_queue kb = rest \<and> ustr c (line_adr im) s \<and> shell_image own im c)"

lemma in_buffer_Suc: "in_buffer a (Suc n) b \<longleftrightarrow> b = a \<or> in_buffer (a + 1) n b"
proof -
  have "a + of_nat (Suc i) = a + 1 + of_nat i" for i by simp
  then show ?thesis unfolding in_buffer_def using less_Suc_eq_0_disj[of _ n]
    by (metis add.right_neutral semiring_1_class.of_nat_0)
qed

lemma buffer_start:
  assumes "n < 2 ^ 32"
  shows "\<not> in_buffer (a + 1) n a"
proof
  assume "in_buffer (a + 1) n a"
  then obtain i where i: "i < n" "a = a + 1 + of_nat i" by (auto simp: in_buffer_def)
  have "a + 1 + of_nat i = a + of_nat (Suc i)" by simp
  with i(2) have "(of_nat (Suc i) :: u32) = 0" by (metis add_cancel_right_right)
  then have "2 ^ 32 dvd Suc i" by (simp only: word_of_nat_eq_0_iff len_num1 len_bit0) simp
  with i(1) assms show False by (auto dest: dvd_imp_le)
qed
context user_memory
begin

lemma read_line_runs:
  assumes ok: "ok (kn_cpu k)" "kb_inv (kn_kb k)" and im: "shell_image own im (kn_cpu k)"
    and q: "kb_queue (kn_kb k) = cs @ e # rest" "10 \<notin> set cs" "13 \<notin> set cs" "e = 10 \<or> e = 13"
  shows "\<exists>k'. read_line disk im 0 k = Some (Inr k') \<and> line_done ok own im (edited [] cs) rest k k' \<and> line_read ok own im (edited [] cs) rest k k'"
proof -
  have own: "\<forall>i<128. line_adr im + of_nat i \<in> own" using im by (simp add: shell_image_def)
  have t: "holds_text own (in_line im) im (kn_cpu k) [8, 32, 8]" using im by (simp add: shell_image_def turn_words_def)
  then have del: "\<forall>i\<le>3. lit im [8, 32, 8] + of_nat i \<in> own \<and> \<not> in_line im (lit im [8, 32, 8] + of_nat i)" by (simp add: holds_text_def)
  have "line_state ok im [] k" using ok t by (simp add: line_state_def holds_text_def)
  from read_line_edits[OF own del q(4) this q(1-3)] obtain k' where k': "read_line disk im 0 k = Some (Inr k')"
    "line_done ok own im (edited [] cs) rest k k'" by auto
  moreover have "line_read ok own im (edited [] cs) rest k k'"
    using k'(2) shell_image_cong[OF im] unfolding line_done_def line_read_def by blast
  ultimately show ?thesis by blast
qed

lemma shell_turn_runs:
  assumes ok: "ok (kn_cpu k)" "kb_inv (kn_kb k)" and im: "shell_image own im (kn_cpu k)"
    and q: "kb_queue (kn_kb k) = cs @ e # rest" "10 \<notin> set cs" "13 \<notin> set cs" "e = 10 \<or> e = 13"
  shows "\<exists>k1 r. line_read ok own im (edited [] cs) rest k k1 \<and> shell_turn disk im k = Some r \<and> performs disk im (parse (edited [] cs)) k1 r"
proof -
  have w: "cstr ''pepinos$ '' \<in> turn_words" "[10] \<in> turn_words" "words \<subseteq> turn_words" by (auto simp: turn_words_def)
  let ?d = "set_kattr 0x0F (print (cstr ''pepinos$ '') (set_kattr 0x0F (set_kattr 0x0A (kn_screen k))))"
  let ?k = "k\<lparr>kn_screen := ?d\<rparr>"
  have ka: "ustr (kn_cpu (k\<lparr>kn_screen := set_kattr 0x0A (kn_screen k)\<rparr>)) (lit im (cstr ''pepinos$ '')) (cstr ''pepinos$ '')"
    using shell_image_ustr[OF im w(1)] by simp
  have pre: "bindo (sh_setcolor disk 0x0A k) (\<lambda>k. bindo (sh_print disk (lit im (cstr ''pepinos$ '')) k) (sh_setcolor disk 0x0F)) = Inr ?k"
    using sh_print_at[OF ka] by (simp add: sh_setcolor_eq)
  have a: "ok (kn_cpu ?k)" "kb_inv (kn_kb ?k)" "shell_image own im (kn_cpu ?k)" "kb_queue (kn_kb ?k) = cs @ e # rest" using assms by simp_all
  obtain k' where k': "read_line disk im 0 ?k = Some (Inr k')" "line_read ok own im (edited [] cs) rest ?k k'"
    using read_line_runs[OF a q(2-4)] by blast
  have im': "shell_image own im (kn_cpu k')" "ustr (kn_cpu k') (line_adr im) (edited [] cs)" using k'(2) by (auto simp: line_read_def)
  let ?k1 = "k'\<lparr>kn_screen := set_kattr 0x07 (print [10] (set_kattr 0x0F (kn_screen k')))\<rparr>"
  have post: "bindo (sh_print disk (lit im [10]) k') (\<lambda>k. bindo (sh_setcolor disk 0x07 k) (execute disk im (line_adr im))) = execute disk im (line_adr im) ?k1"
    using sh_print_at[OF shell_image_ustr[OF im'(1) w(2)], of disk] by (simp add: sh_setcolor_eq)
  have "performs disk im (parse (edited [] cs)) ?k1 (execute disk im (line_adr im) ?k1)"
    using im' w(3) shell_image_ustr[OF im'(1)] by (intro execute_performs) auto
  moreover have "shell_turn disk im k = Some (execute disk im (line_adr im) ?k1)" unfolding shell_turn_def pre using k'(1) by (simp add: post)
  moreover have "line_read ok own im (edited [] cs) rest k ?k1"
  proof -
    obtain c kb d where "k' = ?k\<lparr>kn_cpu := c, kn_kb := kb, kn_screen := d\<rparr>" "ok c" "kb_inv kb" "kb_queue kb = rest"
      "ustr c (line_adr im) (edited [] cs)" "shell_image own im c" using k'(2) unfolding line_read_def by blast
    then show ?thesis unfolding line_read_def
      by (intro exI[of _ c] exI[of _ kb] exI[of _ "kn_screen ?k1"]) simp
  qed
  ultimately show ?thesis by blast
qed

lemma store_run:
  "ok c \<Longrightarrow> \<forall>i<length vs. a + of_nat i \<in> own \<Longrightarrow> length vs \<le> 2 ^ 31 \<Longrightarrow>
   \<exists>c'. store_bytes kst8 a vs c = Inr c' \<and> ok c' \<and> (\<forall>i<length vs. uld8 (a + of_nat i) c' = Inr (vs ! i)) \<and>
     (\<forall>b \<in> own. \<not> in_buffer a (length vs) b \<longrightarrow> uld8 b c' = uld8 b c)"
proof (induction vs arbitrary: a c)
  case Nil
  then show ?case by simp
next
  case (Cons v vs)
  have a: "a \<in> own" using Cons.prems(2)[rule_format, of 0] by simp
  have a1: "\<forall>i<length vs. a + 1 + of_nat i \<in> own"
  proof (intro allI impI)
    show "a + 1 + of_nat i \<in> own" if "i < length vs" for i using Cons.prems(2)[rule_format, of "Suc i"] that by (simp add: add.assoc)
  qed
  have len: "length vs \<le> 2 ^ 31" "length vs < 2 ^ 32" using Cons.prems(3) by simp_all
  obtain c1 where c1: "ust8 a v c = Inr c1" "ok c1" "\<forall>b \<in> own. uld8 b c1 = (if b = a then Inr v else uld8 b c)"
    using store[OF Cons.prems(1) a, of v] by (elim exE conjE)
  obtain c' where c': "store_bytes kst8 (a + 1) vs c1 = Inr c'" "ok c'" "\<forall>i<length vs. uld8 (a + 1 + of_nat i) c' = Inr (vs ! i)"
    "\<forall>b \<in> own. \<not> in_buffer (a + 1) (length vs) b \<longrightarrow> uld8 b c' = uld8 b c1" using Cons.IH[OF c1(2) a1 len(1)] by (elim exE conjE)
  have "uld8 (a + of_nat i) c' = Inr ((v # vs) ! i)" if "i < length (v # vs)" for i
  proof (cases i)
    case 0
    then show ?thesis using c'(4)[rule_format, OF a buffer_start[OF len(2)]] c1(3)[rule_format, OF a] by simp
  next
    case (Suc j)
    then show ?thesis using that c'(3)[rule_format, of j] by (simp add: add.assoc)
  qed
  moreover have "uld8 b c' = uld8 b c" if "b \<in> own" "\<not> in_buffer a (length (v # vs)) b" for b
    using that(2) c'(4)[rule_format, OF that(1)] c1(3)[rule_format, OF that(1)] by (simp add: in_buffer_Suc)
  moreover have "store_bytes kst8 a (v # vs) c = Inr c'" using ust8_kst8[OF c1(1)] c'(1) by simp
  ultimately show ?case using c'(2) by (intro exI[of _ c']) simp
qed

end

section \<open>The commands\<close>

definition sent :: "nat \<Rightarrow> int \<Rightarrow> sched \<Rightarrow> sched" where
  "sent cur n s = (if n < 32 then update_task cur (\<lambda>t. t\<lparr>t_sig_pending := t_sig_pending t OR push_bit (nat n) 1\<rparr>) s else s)"

lemma str_atoi_ustr:
  assumes s: "ustr c p s"
  shows "str_atoi c p = Inr (of_nat (decimal s))"
  using str_atoi_at[of c p 0 s 0] s ustr_length[OF s] by (simp add: str_atoi_def decimal_def)

text \<open>C38: \<^verbatim>\<open>raise N\<close> announces the signal and sends it: the signal becomes pending in the current task when its
  number is between 1 and 31. The kernel refuses larger numbers without the announcement saying so,
  and the number is what 32 bits keep of the digits; a number that is not positive is rejected.\<close>

theorem cmd_raise_sends:
  assumes cur: "cur_task (kn_sched k) = Some cur" and arg: "ustr (kn_cpu k) p arg" "arg \<noteq> []"
    and lits: "\<forall>w \<in> {cstr ''raise: numero de senal invalido'' @ [10], cstr ''Enviando senal '', cstr ''...'' @ [10]}. ustr (kn_cpu k) (lit im w) w"
  shows "let n = sint (of_nat (decimal arg) :: u32); d = set_kattr 0x0F (kn_screen k) in
    cmd_raise disk im p k = Inr (if n \<le> 0 then k\<lparr>kn_screen := print (cstr ''raise: numero de senal invalido'' @ [10]) d\<rparr>
      else k\<lparr>kn_screen := print (cstr ''Enviando senal '' @ arg @ cstr ''...'' @ [10]) d, kn_sched := sent cur n (kn_sched k)\<rparr>)"
proof -
  let ?w = "of_nat (decimal arg) :: u32"
  obtain v where v: "uld8 p (kn_cpu k) = Inr v" "v \<noteq> 0" using arg by (cases arg) (auto simp: ustr_Cons)
  have at: "str_atoi (kn_cpu k) p = Inr ?w" by (rule str_atoi_ustr[OF arg(1)])
  show ?thesis
  proof (cases "sint ?w \<le> 0")
    case True
    have "sh_print disk (lit im (cstr ''raise: numero de senal invalido'' @ [10])) k =
        Inr (k\<lparr>kn_screen := print (cstr ''raise: numero de senal invalido'' @ [10]) (set_kattr 0x0F (kn_screen k))\<rparr>)"
      by (rule sh_print_at) (use lits in simp)
    with True show ?thesis using v at by (simp add: cmd_raise_def setcolor_print Let_def)
  next
    case False
    let ?k = "k\<lparr>kn_screen := set_kattr 0x07 (kn_screen k)\<rparr>"
    have "sint ?w < 2 ^ 31" using sint_lt[of ?w] by simp
    then have "uint ?w = sint ?w" using False by (simp only: uint_sint) (simp add: take_bit_int_eq_self)
    then have u: "unat ?w = nat (sint ?w)" by (simp only: unat_eq_nat_uint)
    let ?ss = "[(lit im (cstr ''Enviando senal ''), cstr ''Enviando senal ''), (p, arg), (lit im (cstr ''...'' @ [10]), cstr ''...'' @ [10])]"
    have "sh_prints disk (map fst ?ss) ?k = Inr (?k\<lparr>kn_screen := print (concat (map snd ?ss)) (set_kattr 0x0F (kn_screen ?k))\<rparr>)"
      by (rule sh_prints_at) (use lits arg(1) in simp_all)
    then have pr: "sh_prints disk [lit im (cstr ''Enviando senal ''), p, lit im (cstr ''...'' @ [10])] ?k =
        Inr (k\<lparr>kn_screen := print (cstr ''Enviando senal '' @ arg @ cstr ''...'' @ [10]) (set_kattr 0x0F (kn_screen k))\<rparr>)"
      by (simp add: set_kattr_twice)
    have "\<exists>r. sys_kill ?w k' = Inr (r, k'\<lparr>kn_sched := sent cur (sint ?w) (kn_sched k')\<rparr>)" if "kn_sched k' = kn_sched k" for k'
      using cur False that u by (auto simp: sys_kill_def sched_current_task_def sent_def)
    then have kill: "sh_kill disk ?w k' = Inr (k'\<lparr>kn_sched := sent cur (sint ?w) (kn_sched k')\<rparr>)" if "kn_sched k' = kn_sched k" for k'
      using sh_kill_eq that by blast
    show ?thesis using v at False pr kill by (simp add: cmd_raise_def sh_setcolor_eq Let_def del: sh_prints.simps)
  qed
qed
text \<open>What \<^verbatim>\<open>cat\<close> prints of the bytes of a file: they end at the first null byte, and a newline follows when the last is none.\<close>

definition shown :: "u8 list \<Rightarrow> screen \<Rightarrow> screen" where
  "shown bs d = (if bs = [] then d
     else let d = print (takeWhile (\<lambda>v. v \<noteq> 0) bs) (set_kattr 0x0F d) in if last bs \<noteq> 10 then print [10] d else d)"

text \<open>The part of \<^verbatim>\<open>cat\<close> after the file is in the buffer.\<close>

definition cat_output :: "disk \<Rightarrow> image \<Rightarrow> u32 \<Rightarrow> kernel \<Rightarrow> kernel outcome" where
  "cat_output disk im n k =
     (if sint n > 0 then
        bindo (sh_store (cat_adr im + n) 0 k) (\<lambda>k.
        bindo (sh_print disk (cat_adr im) k) (\<lambda>k.
        bindo (uld8 (cat_adr im + (n - 1)) (kn_cpu k)) (\<lambda>v.
        if v \<noteq> 10 then sh_print disk (lit im [10]) k else Inr k)))
      else Inr k)"

lemma cmd_cat_found:
  assumes "uld8 p (kn_cpu k) = Inr v" and "v \<noteq> 0" and "sys_open disk p k = Inr (fd, k1)" and "\<not> sint fd < 0"
    and "sh_read disk fd (cat_adr im) (512 - 1) (k1\<lparr>kn_screen := set_kattr 0x0F (kn_screen k1)\<rparr>) = Inr (n, k2)"
  shows "cmd_cat disk im p k = bindo (cat_output disk im n k2) (sh_close disk fd)"
proof -
  have "cmd_cat disk im p k = bindo (sh_read disk fd (cat_adr im) (512 - 1) (k1\<lparr>kn_screen := set_kattr 0x0F (kn_screen k1)\<rparr>))
      (\<lambda>(n, k). bindo (cat_output disk im n k) (sh_close disk fd))"
    unfolding cmd_cat_def cat_output_def using assms(1-4) by (simp add: sh_open_eq sh_setcolor_eq)
  then show ?thesis unfolding assms(5) by simp
qed

lemma ustr_prefix:
  assumes "\<forall>i<length bs. uld8 (a + of_nat i) c = Inr (bs ! i)" and "uld8 (a + of_nat (length bs)) c = Inr 0"
  shows "ustr c a (takeWhile (\<lambda>v. v \<noteq> 0) bs)"
proof -
  let ?t = "takeWhile (\<lambda>v. v \<noteq> 0) bs"
  have le: "length ?t \<le> length bs" by (rule length_takeWhile_le)
  have "0 \<notin> set ?t" by (auto dest: set_takeWhileD)
  moreover have "uld8 (a + of_nat i) c = Inr (?t ! i)" if "i < length ?t" for i using that le assms(1) by (simp add: takeWhile_nth)
  moreover have "uld8 (a + of_nat (length ?t)) c = Inr 0"
  proof (cases "length ?t = length bs")
    case True
    with assms(2) show ?thesis by simp
  next
    case False
    then have "length ?t < length bs" using le by simp
    with assms(1) nth_length_takeWhile[of "\<lambda>v. v \<noteq> 0" bs] show ?thesis by auto
  qed
  ultimately show ?thesis by (simp add: ustr_iff)
qed

text \<open>
  How both programs look at a file: open it, read once into a buffer with room for a null byte, do
  something with the bytes there, close it.
\<close>

definition once_read :: "disk \<Rightarrow> ext2 \<Rightarrow> u32 \<Rightarrow> nat \<Rightarrow> u8 list" where
  "once_read disk e ino cnt = map (file_byte disk e (inode_bytes disk e ino)) [0..<pread_len disk e ino 0 (of_nat cnt)]"

lemma once_read_same_fs: "same_fs e e' \<Longrightarrow> once_read disk e' = once_read disk e"
  by (simp add: fun_eq_iff once_read_def same_fs_file same_fs_inode same_fs_bsize pread_len_def)

lemma length_once_read: "cnt < 2 ^ 31 \<Longrightarrow> length (once_read disk e ino cnt) \<le> cnt"
  by (simp add: once_read_def pread_len_def unat_of_nat_lt)

text \<open>Some work on the buffer, by what it does to the screen and to memory.\<close>

definition works_on :: "(mach \<Rightarrow> bool) \<Rightarrow> u32 set \<Rightarrow> u32 \<Rightarrow> nat \<Rightarrow> mach \<Rightarrow> u8 list \<Rightarrow> (u32 \<Rightarrow> kernel \<Rightarrow> kernel outcome) \<Rightarrow> (screen \<Rightarrow> screen) \<Rightarrow> bool" where
  "works_on ok own buf cnt c0 bs work show \<longleftrightarrow> (\<forall>k. ok (kn_cpu k) \<longrightarrow> (\<forall>i<length bs. uld8 (buf + of_nat i) (kn_cpu k) = Inr (bs ! i)) \<longrightarrow>
     (\<forall>b \<in> own. \<not> in_buffer buf (Suc cnt) b \<longrightarrow> uld8 b (kn_cpu k) = uld8 b c0) \<longrightarrow>
     (\<exists>c. work (of_nat (length bs)) k = Inr (k\<lparr>kn_cpu := c, kn_screen := show (kn_screen k)\<rparr>) \<and> ok c \<and>
       (\<forall>b \<in> own. \<not> in_buffer buf (Suc cnt) b \<longrightarrow> uld8 b c = uld8 b (kn_cpu k))))"

context user_memory
begin

lemma cat_shows:
  assumes ok: "ok (kn_cpu k)" and own: "\<forall>i<512. cat_adr im + of_nat i \<in> own"
    and nl: "holds_text own (in_cat im) im (kn_cpu k) [10]"
    and bs: "length bs < 512" "\<forall>i<length bs. uld8 (cat_adr im + of_nat i) (kn_cpu k) = Inr (bs ! i)"
  shows "\<exists>c. cat_output disk im (of_nat (length bs)) k = Inr (k\<lparr>kn_cpu := c, kn_screen := shown bs (kn_screen k)\<rparr>) \<and> ok c \<and>
    (\<forall>b \<in> own. \<not> in_cat im b \<longrightarrow> uld8 b c = uld8 b (kn_cpu k))"
proof (cases "bs = []")
  case True
  then show ?thesis using ok by (intro exI[of _ "kn_cpu k"]) (simp add: cat_output_def shown_def)
next
  case False
  let ?n = "length bs" let ?w = "of_nat ?n :: u32" let ?a = "cat_adr im + ?w"
  have pos: "sint ?w > 0" using False bs(1) sint_small[of ?n] by simp
  have a: "?a \<in> own" using own bs(1) by simp
  obtain c where c: "sh_store ?a 0 k = Inr (k\<lparr>kn_cpu := c\<rparr>)" "ok c" "\<forall>b \<in> own. uld8 b c = (if b = ?a then Inr 0 else uld8 b (kn_cpu k))"
    using store_byte[OF ok a, of 0] by blast
  have b: "uld8 (cat_adr im + of_nat i) c = Inr (bs ! i)" if "i < ?n" for i
  proof -
    have "cat_adr im + of_nat i \<in> own" using own that bs(1) by simp
    moreover have "cat_adr im + of_nat i \<noteq> ?a" using of_nat_inj32[of i ?n] that bs(1) by simp
    ultimately show ?thesis using c(3) bs(2) that by simp
  qed
  have keep: "\<forall>b \<in> own. \<not> in_cat im b \<longrightarrow> uld8 b c = uld8 b (kn_cpu k)" using c(3) bs(1) by (auto simp: in_buffer_def)
  let ?t = "takeWhile (\<lambda>v. v \<noteq> 0) bs"
  have "ustr c (cat_adr im) ?t" using ustr_prefix[of bs "cat_adr im" c] b c(3) a by simp
  then have pr: "sh_print disk (cat_adr im) (k\<lparr>kn_cpu := c\<rparr>) = Inr (k\<lparr>kn_cpu := c, kn_screen := print ?t (set_kattr 0x0F (kn_screen k))\<rparr>)"
    by (subst sh_print_at) simp_all
  have "?w - 1 = of_nat (?n - 1)" using False by (cases bs) simp_all
  then have l: "uld8 (cat_adr im + (?w - 1)) c = Inr (last bs)" using b[of "?n - 1"] False by (simp add: last_conv_nth)
  have "ustr c (lit im [10]) [10]" using holds_text_cong[OF nl keep] by (simp add: holds_text_def)
  then have "sh_print disk (lit im [10]) (k\<lparr>kn_cpu := c, kn_screen := d\<rparr>) = Inr (k\<lparr>kn_cpu := c, kn_screen := print [10] (set_kattr 0x0F d)\<rparr>)" for d
    using sh_print_at[of "k\<lparr>kn_cpu := c, kn_screen := d\<rparr>" "lit im [10]" "[10]" disk] by (simp del: print.simps)
  then have "cat_output disk im ?w k = Inr (k\<lparr>kn_cpu := c, kn_screen := shown bs (kn_screen k)\<rparr>)"
    using pos c(1) pr l False by (simp add: cat_output_def shown_def Let_def set_kattr_print del: print.simps)
  with c(2) keep show ?thesis by blast
qed

lemma sys_open_fresh:
  assumes inv: "kernel_inv k" and disk: "disk_ok disk" and dir: "holds_dir disk (kn_fs k) 2 xs"
    and cur: "cur_task (kn_sched k) = Some cur" and nm: "names (user_ptr (kn_cpu k) p) nm"
    and ino: "dir_lookup xs (path_name nm) = ino" "ino \<noteq> 0"
    and free: "used_nodes (kn_nodes k) \<noteq> {..<8}" "\<exists>j. 3 \<le> j \<and> j < 8 \<and> \<not> fd_used (cur_file (kn_sched k) cur j)"
  shows "\<exists>j n k1. sys_open disk p k = Inr (of_nat j, k1) \<and> 3 \<le> j \<and> j < 8 \<and> (cur, j) \<notin> open_fds (kn_sched k) \<and> n \<notin> used_nodes (kn_nodes k) \<and>
    kernel_inv k1 \<and> same_fs (kn_fs k) (kn_fs k1) \<and> cur_task (kn_sched k1) = Some cur \<and> kn_cpu k1 = kn_cpu k \<and> kn_screen k1 = kn_screen k \<and>
    cur_file (kn_sched k1) cur j = \<lparr>fd_node = Some n, fd_offset = 0, fd_used = True\<rparr> \<and> n_inode (kn_nodes k1 ! n) = ino \<and>
    open_fds (kn_sched k1) = insert (cur, j) (open_fds (kn_sched k)) \<and> used_nodes (kn_nodes k1) = insert n (used_nodes (kn_nodes k))"
proof -
  have i: "sched_inv (kn_sched k)" "pool_ok (kn_nodes k)" using inv by (simp_all add: kernel_inv_def)
  have c8: "cur < 8" using current_lt[OF i(1) cur] by simp
  obtain j n nd fs where j: "3 \<le> j" "j < 8" "(cur, j) \<notin> open_fds (kn_sched k)" and n: "n < 8" "n \<notin> used_nodes (kn_nodes k)" "n_used nd" "n_inode nd = ino"
    and fs: "same_fs (kn_fs k) fs" and op: "sys_open disk p k = Inr (of_nat j,
      set_file cur j \<lparr>fd_node = Some n, fd_offset = 0, fd_used = True\<rparr> (k\<lparr>kn_nodes := (kn_nodes k)[n := nd], kn_fs := fs\<rparr>))"
    using sys_open_opens[OF inv disk dir nm cur ino free] by blast
  note upd = cur_file_update[OF i(1) c8 j(2)] open_fds_update[OF i(1) c8 j(2)] used_nodes_open[OF i(2) n(1,3)]
  show ?thesis
    using sys_open_inv[OF inv disk op] op j n cur fs i(2)
    by (intro exI[of _ j] exI[of _ n] exI[of _ "set_file cur j \<lparr>fd_node = Some n, fd_offset = 0, fd_used = True\<rparr> (k\<lparr>kn_nodes := (kn_nodes k)[n := nd], kn_fs := fs\<rparr>)"])
       (simp add: set_file_def upd pool_ok_def)
qed

lemma reads_once:
  assumes inv: "kernel_inv k" and disk: "disk_ok disk" and cur: "cur_task (kn_sched k) = Some cur"
    and fd: "3 \<le> j" "j < 8" "cur_file (kn_sched k) cur j = \<lparr>fd_node = Some n, fd_offset = 0, fd_used = True\<rparr>"
    and ok: "ok (kn_cpu k)" and cnt: "cnt < 2 ^ 31" and own: "\<forall>i<cnt. buf + of_nat i \<in> own"
  defines "bs \<equiv> once_read disk (kn_fs k) (n_inode (kn_nodes k ! n)) cnt"
  shows "\<exists>c fs. sh_read disk (of_nat j) buf (of_nat cnt) k = Inr (of_nat (length bs),
      set_file cur j \<lparr>fd_node = Some n, fd_offset = of_nat (length bs), fd_used = True\<rparr> (k\<lparr>kn_fs := fs, kn_cpu := c\<rparr>)) \<and>
    same_fs (kn_fs k) fs \<and> ok c \<and> (\<forall>i<length bs. uld8 (buf + of_nat i) c = Inr (bs ! i)) \<and>
    (\<forall>b \<in> own. \<not> in_buffer buf (Suc cnt) b \<longrightarrow> uld8 b c = uld8 b (kn_cpu k))"
proof -
  have sl: "served_len disk (kn_fs k) ino 0 (of_nat cnt) = pread_len disk (kn_fs k) ino 0 (of_nat cnt)" for ino
    using cnt by (intro served_len_nowrap) (simp add: unat_of_nat_lt)
  have "fd_used (cur_file (kn_sched k) cur j)" by (simp add: fd(3))
  from sys_read_bytes[OF inv disk cur fd(1,2) this, where buf = buf and count = "of_nat cnt"] obtain fs where fs: "same_fs (kn_fs k) fs"
    and rd: "sys_read disk (of_nat j) buf (of_nat cnt) k = bindo (store_bytes kst8 buf bs (kn_cpu k)) (\<lambda>c.
      Inr (of_nat (length bs), set_file cur j \<lparr>fd_node = Some n, fd_offset = of_nat (length bs), fd_used = True\<rparr> (k\<lparr>kn_fs := fs, kn_cpu := c\<rparr>)))"
    by (auto simp: fd(3) bs_def once_read_def Let_def sl)
  have len: "length bs \<le> cnt" unfolding bs_def by (rule length_once_read[OF cnt])
  then have "\<forall>i<length bs. buf + of_nat i \<in> own" "length bs \<le> 2 ^ 31" using own cnt by simp_all
  from store_run[OF ok this] obtain c where c: "store_bytes kst8 buf bs (kn_cpu k) = Inr c" "ok c"
    "\<forall>i<length bs. uld8 (buf + of_nat i) c = Inr (bs ! i)"
    "\<forall>b \<in> own. \<not> in_buffer buf (length bs) b \<longrightarrow> uld8 b c = uld8 b (kn_cpu k)" by blast
  have "\<not> in_buffer buf (length bs) b" if "\<not> in_buffer buf (Suc cnt) b" for b using that len by (auto simp: in_buffer_def)
  with c fs show ?thesis by (intro exI[of _ c] exI[of _ fs]) (simp add: sh_read_eq rd)
qed

lemma file_session:
  assumes inv: "kernel_inv k" and disk: "disk_ok disk" and dir: "holds_dir disk (kn_fs k) 2 xs"
    and cur: "cur_task (kn_sched k) = Some cur" and nm: "ustr (kn_cpu k) p nm"
    and ino: "dir_lookup xs (path_name nm) = ino" "ino \<noteq> 0"
    and free: "used_nodes (kn_nodes k) \<noteq> {..<8}" "\<exists>j. 3 \<le> j \<and> j < 8 \<and> \<not> fd_used (cur_file (kn_sched k) cur j)"
    and ok: "ok (kn_cpu k)" and cnt: "cnt < 2 ^ 31" and own: "\<forall>i<cnt. buf + of_nat i \<in> own"
  defines "bs \<equiv> once_read disk (kn_fs k) ino cnt"
  assumes work: "works_on ok own buf cnt (kn_cpu k) bs work show"
  shows "\<exists>j k1 k2 k'. sh_open disk p k = Inr (of_nat j, k1) \<and> j < 8 \<and> kn_screen k1 = kn_screen k \<and>
    sh_read disk (of_nat j) buf (of_nat cnt) (k1\<lparr>kn_screen := d\<rparr>) = Inr (of_nat (length bs), k2) \<and>
    bindo (work (of_nat (length bs)) k2) (sh_close disk (of_nat j)) = Inr k' \<and>
    kernel_inv k' \<and> ok (kn_cpu k') \<and> (\<forall>b \<in> own. \<not> in_buffer buf (Suc cnt) b \<longrightarrow> uld8 b (kn_cpu k') = uld8 b (kn_cpu k)) \<and>
    open_fds (kn_sched k') = open_fds (kn_sched k) \<and> used_nodes (kn_nodes k') = used_nodes (kn_nodes k) \<and> kn_screen k' = show d"
proof -
  obtain j n k1 where op: "sys_open disk p k = Inr (of_nat j, k1)" and j: "3 \<le> j" "j < 8" "(cur, j) \<notin> open_fds (kn_sched k)" "n \<notin> used_nodes (kn_nodes k)"
    and inv1: "kernel_inv k1" and fs: "same_fs (kn_fs k) (kn_fs k1)" and k1: "cur_task (kn_sched k1) = Some cur" "kn_cpu k1 = kn_cpu k" "kn_screen k1 = kn_screen k"
      "cur_file (kn_sched k1) cur j = \<lparr>fd_node = Some n, fd_offset = 0, fd_used = True\<rparr>" "n_inode (kn_nodes k1 ! n) = ino"
      "open_fds (kn_sched k1) = insert (cur, j) (open_fds (kn_sched k))" "used_nodes (kn_nodes k1) = insert n (used_nodes (kn_nodes k))"
    using sys_open_fresh[OF inv disk dir cur ustr_str_at[OF nm] ino free] by blast
  let ?k1 = "k1\<lparr>kn_screen := d\<rparr>"
  have i1: "kernel_inv ?k1" "cur_task (kn_sched ?k1) = Some cur" "cur_file (kn_sched ?k1) cur j = \<lparr>fd_node = Some n, fd_offset = 0, fd_used = True\<rparr>"
    "kn_cpu ?k1 = kn_cpu k" using inv1 by (simp_all add: kernel_inv_def k1)
  have bs: "once_read disk (kn_fs ?k1) (n_inode (kn_nodes ?k1 ! n)) cnt = bs" by (simp add: k1(5) bs_def once_read_same_fs[OF fs])
  obtain c fs' where rd: "sh_read disk (of_nat j) buf (of_nat cnt) ?k1 = Inr (of_nat (length bs),
      set_file cur j \<lparr>fd_node = Some n, fd_offset = of_nat (length bs), fd_used = True\<rparr> (?k1\<lparr>kn_fs := fs', kn_cpu := c\<rparr>))"
    and c: "ok c" "\<forall>i<length bs. uld8 (buf + of_nat i) c = Inr (bs ! i)" "\<forall>b \<in> own. \<not> in_buffer buf (Suc cnt) b \<longrightarrow> uld8 b c = uld8 b (kn_cpu k)"
    using reads_once[OF i1(1) disk i1(2) j(1,2) i1(3) ok[folded i1(4)] cnt own] unfolding bs i1(4) by blast
  let ?k2 = "set_file cur j \<lparr>fd_node = Some n, fd_offset = of_nat (length bs), fd_used = True\<rparr> (?k1\<lparr>kn_fs := fs', kn_cpu := c\<rparr>)"
  have inv2: "kernel_inv ?k2" by (rule sys_read_inv[OF i1(1) disk rd[unfolded sh_read_eq]])
  have k2: "kn_cpu ?k2 = c" "kn_screen ?k2 = d" by (simp_all add: set_file_def)
  obtain c' where out: "work (of_nat (length bs)) ?k2 = Inr (?k2\<lparr>kn_cpu := c', kn_screen := show d\<rparr>)" "ok c'"
    "\<forall>b \<in> own. \<not> in_buffer buf (Suc cnt) b \<longrightarrow> uld8 b c' = uld8 b c"
    using work[unfolded works_on_def, rule_format, of ?k2, unfolded k2] c by blast
  let ?k3 = "?k2\<lparr>kn_cpu := c', kn_screen := show d\<rparr>"
  have inv3: "kernel_inv ?k3" using inv2 by (simp add: kernel_inv_def)
  have s1: "sched_inv (kn_sched k1)" "cur < 8" using inv1 current_lt[of "kn_sched k1"] k1(1) by (simp_all add: kernel_inv_def)
  have o3: "open_fds (kn_sched ?k3) = insert (cur, j) (open_fds (kn_sched k))" "cur_task (kn_sched ?k3) = Some cur"
    "fd_node (cur_file (kn_sched ?k3) cur j) = Some n" "used_nodes (kn_nodes ?k3) = insert n (used_nodes (kn_nodes k))"
    by (simp_all add: set_file_def open_fds_update[OF s1 j(2)] cur_file_update[OF s1 j(2)] k1)
  have mem: "(cur, j) \<in> open_fds (kn_sched ?k3)" unfolding o3(1) by simp
  obtain k' where cl: "sys_close (of_nat j) ?k3 = Inr (0, k')" and k': "kernel_inv k'" "open_fds (kn_sched k') = open_fds (kn_sched ?k3) - {(cur, j)}"
    "used_nodes (kn_nodes k') = used_nodes (kn_nodes ?k3) - {n}" "kn_screen k' = kn_screen ?k3" "kn_cpu k' = kn_cpu ?k3"
    using sys_close_open[OF inv3 o3(2) mem o3(3)] by blast
  have "bindo (work (of_nat (length bs)) ?k2) (sh_close disk (of_nat j)) = Inr k'" using out(1) sh_close_eq[OF cl] by simp
  moreover have "open_fds (kn_sched k') = open_fds (kn_sched k)" "used_nodes (kn_nodes k') = used_nodes (kn_nodes k)"
    using k'(2,3) o3(1,4) j(3,4) by auto
  moreover have "kn_screen k' = show d" "kn_cpu k' = c'" using k'(4,5) by simp_all
  moreover have "sh_open disk p k = Inr (of_nat j, k1)" by (simp add: sh_open_eq op)
  ultimately show ?thesis using rd k'(1) out(2,3) c(3) k1(3) j(2) by (metis (no_types, lifting))
qed

text \<open>The whole command, in a memory of the interface.\<close>

lemma cat_works:
  assumes own: "\<forall>i<512. cat_adr im + of_nat i \<in> own" and nl: "holds_text own (in_cat im) im c [10]" and bs: "length bs \<le> 511"
  shows "works_on ok own (cat_adr im) 511 c bs (cat_output disk im) (shown bs)"
  unfolding works_on_def
proof (intro allI impI)
  fix k :: kernel assume k: "ok (kn_cpu k)" "\<forall>i<length bs. uld8 (cat_adr im + of_nat i) (kn_cpu k) = Inr (bs ! i)"
    and same: "\<forall>b \<in> own. \<not> in_buffer (cat_adr im) (Suc 511) b \<longrightarrow> uld8 b (kn_cpu k) = uld8 b c"
  have "length bs < 512" "holds_text own (in_cat im) im (kn_cpu k) [10]" using holds_text_cong[OF nl] same bs by simp_all
  from cat_shows[OF k(1) own this(2,1) k(2)]
  show "\<exists>c. cat_output disk im (of_nat (length bs)) k = Inr (k\<lparr>kn_cpu := c, kn_screen := shown bs (kn_screen k)\<rparr>) \<and> ok c \<and>
      (\<forall>b \<in> own. \<not> in_buffer (cat_adr im) (Suc 511) b \<longrightarrow> uld8 b c = uld8 b (kn_cpu k))" by simp
qed

lemma cat_file:
  assumes inv: "kernel_inv k" and disk: "disk_ok disk" and dir: "holds_dir disk (kn_fs k) 2 xs"
    and cur: "cur_task (kn_sched k) = Some cur" and nm: "ustr (kn_cpu k) p nm" "nm \<noteq> []"
    and ino: "dir_lookup xs (path_name nm) = ino" "ino \<noteq> 0"
    and free: "used_nodes (kn_nodes k) \<noteq> {..<8}" "\<exists>j. 3 \<le> j \<and> j < 8 \<and> \<not> fd_used (cur_file (kn_sched k) cur j)"
    and ok: "ok (kn_cpu k)" and own: "\<forall>i<512. cat_adr im + of_nat i \<in> own" and nl: "holds_text own (in_cat im) im (kn_cpu k) [10]"
  shows "\<exists>k'. cmd_cat disk im p k = Inr k' \<and> kernel_inv k' \<and> ok (kn_cpu k') \<and> (\<forall>b \<in> own. \<not> in_cat im b \<longrightarrow> uld8 b (kn_cpu k') = uld8 b (kn_cpu k)) \<and>
    open_fds (kn_sched k') = open_fds (kn_sched k) \<and> used_nodes (kn_nodes k') = used_nodes (kn_nodes k) \<and>
    kn_screen k' = shown (once_read disk (kn_fs k) ino 511) (set_kattr 0x0F (kn_screen k))"
proof -
  let ?bs = "once_read disk (kn_fs k) ino 511" and ?d = "set_kattr 0x0F (kn_screen k)"
  obtain v where v: "uld8 p (kn_cpu k) = Inr v" "v \<noteq> 0" using nm by (cases nm) (auto simp: ustr_Cons)
  have own': "\<forall>i<511. cat_adr im + of_nat i \<in> own" using own by simp
  have "works_on ok own (cat_adr im) 511 (kn_cpu k) ?bs (cat_output disk im) (shown ?bs)" by (intro cat_works own nl length_once_read) simp
  from file_session[OF inv disk dir cur nm(1) ino free ok _ own' this, of ?d] obtain j k1 k2 k' where s: "sh_open disk p k = Inr (of_nat j, k1)" "j < 8"
    "kn_screen k1 = kn_screen k" "sh_read disk (of_nat j) (cat_adr im) (512 - 1) (k1\<lparr>kn_screen := ?d\<rparr>) = Inr (of_nat (length ?bs), k2)"
    "bindo (cat_output disk im (of_nat (length ?bs)) k2) (sh_close disk (of_nat j)) = Inr k'"
    and k': "kernel_inv k'" "ok (kn_cpu k')" "\<forall>b \<in> own. \<not> in_cat im b \<longrightarrow> uld8 b (kn_cpu k') = uld8 b (kn_cpu k)"
      "open_fds (kn_sched k') = open_fds (kn_sched k)" "used_nodes (kn_nodes k') = used_nodes (kn_nodes k)" "kn_screen k' = shown ?bs ?d" by auto
  have "\<not> sint (of_nat j :: u32) < 0" using sint_small[of j] s(2) by simp
  then have "cmd_cat disk im p k = Inr k'" using cmd_cat_found[OF v s(1)[unfolded sh_open_eq]] s(3-5) by simp
  with k' show ?thesis by blast
qed

end

text \<open>C14: \<^verbatim>\<open>cat\<close> shows a file: when the name is that of a file of the root directory and the kernel has a free node and
  the task a free descriptor, it prints the file's first 511 bytes up to the first null byte (all of a
  shorter text file), with a newline when the last byte is none, and closes what it opened. Nothing
  of the program's memory changes but the buffer, and the kernel's invariant holds.\<close>

theorem cmd_cat_shows_file:
  assumes "kernel_inv k" and "disk_ok disk" and "holds_dir disk (kn_fs k) 2 xs"
    and "cur_task (kn_sched k) = Some cur" and "ustr (kn_cpu k) p nm" "nm \<noteq> []"
    and "dir_lookup xs (path_name nm) = ino" "ino \<noteq> 0"
    and "used_nodes (kn_nodes k) \<noteq> {..<8}" "\<exists>j. 3 \<le> j \<and> j < 8 \<and> \<not> fd_used (cur_file (kn_sched k) cur j)"
    and "user_space pd V (kn_cpu k)" and "\<forall>i<512. cat_adr im + of_nat i \<in> in_pages V" and "holds_text (in_pages V) (in_cat im) im (kn_cpu k) [10]"
  shows "\<exists>k'. cmd_cat disk im p k = Inr k' \<and> kernel_inv k' \<and> user_space pd V (kn_cpu k') \<and>
    (\<forall>b \<in> in_pages V. \<not> in_cat im b \<longrightarrow> uld8 b (kn_cpu k') = uld8 b (kn_cpu k)) \<and>
    open_fds (kn_sched k') = open_fds (kn_sched k) \<and> used_nodes (kn_nodes k') = used_nodes (kn_nodes k) \<and>
    kn_screen k' = shown (map (file_byte disk (kn_fs k) (inode_bytes disk (kn_fs k) ino)) [0..<pread_len disk (kn_fs k) ino 0 511]) (set_kattr 0x0F (kn_screen k))"
  using loader.cat_file[OF assms] by (simp add: once_read_def)

section \<open>A machine with one page of a program\<close>

text \<open>The page at 0x40000000 lies in the frame 0x102000, its table in 0x101000, its directory in 0x100000.\<close>

definition page_space :: "u8 list \<Rightarrow> mach" where
  "page_space bs = \<lparr>mm_mem = st32 (st32 (patch 0x102000 bs (\<lambda>_. 0)) (slot 0x100000 256) 0x101007) (slot 0x101000 0) 0x102007,
     mm_cr3 = 0x100000, mm_cr0 = 0x80000000\<rparr>"

lemma page_space_tables:
  assumes "length bs \<le> 4096"
  shows "i < 1024 \<Longrightarrow> ld32 (mm_mem (page_space bs)) (slot 0x100000 i) = (if i = 256 then 0x101007 else 0)"
    and "i < 1024 \<Longrightarrow> ld32 (mm_mem (page_space bs)) (slot 0x101000 i) = (if i = 0 then 0x102007 else 0)"
    and "i < 4096 \<Longrightarrow> mm_mem (page_space bs) (0x102000 + of_nat i) = (if i < length bs then bs ! i else 0)"
proof -
  have al: "page_aligned 0x100000" "page_aligned 0x101000" "page_aligned 0x102000" by (simp_all add: page_aligned_def)
  have out: "patch 0x102000 bs (\<lambda>_. 0) x = 0" if "unat x < 0x102000" for x
  proof -
    have "length bs \<le> unat (x - 0x102000)" using assms that by (simp add: unat_sub_if')
    then show ?thesis by (simp add: patch_outside)
  qed
  have z: "ld32 (patch 0x102000 bs (\<lambda>_. 0)) (slot p i) = 0" if "p = 0x100000 \<or> p = 0x101000" "i < 1024" for p i
  proof -
    have "page_aligned p" using that(1) al by auto
    then have u: "unat (slot p i) = unat p + 4 * i" "4 dvd unat (slot p i)" using that(2) unat_slot slot_aligned by blast+
    have "ld32 (patch 0x102000 bs (\<lambda>_. 0)) (slot p i) = ld32 (\<lambda>_. 0) (slot p i)"
      by (rule ld32_cong[OF u(2)], rule out) (use that u(1) in auto)
    then show ?thesis by (simp add: ld32_def)
  qed
  show "i < 1024 \<Longrightarrow> ld32 (mm_mem (page_space bs)) (slot 0x100000 i) = (if i = 256 then 0x101007 else 0)"
    "i < 1024 \<Longrightarrow> ld32 (mm_mem (page_space bs)) (slot 0x101000 i) = (if i = 0 then 0x102007 else 0)"
    using al z by (simp_all add: page_space_def)
  assume i: "i < 4096"
  have u: "unat (0x102000 + of_nat i :: u32) = 0x102000 + i" using unat_page_byte[OF al(3) i] by simp
  have "mm_mem (page_space bs) (0x102000 + of_nat i) = patch 0x102000 bs (\<lambda>_. 0) (0x102000 + of_nat i)"
    using al slot_aligned unat_slot by (simp add: page_space_def st32_apply u)
  then show "mm_mem (page_space bs) (0x102000 + of_nat i) = (if i < length bs then bs ! i else 0)"
    using i assms patch_nth[of i bs "0x102000"] patch_outside[of bs "0x102000 + of_nat i" "0x102000"] by simp
qed

lemma program_page: "page_base va = 0x40000000 \<Longrightarrow> \<exists>i<4096. va = 0x40000000 + of_nat i"
proof -
  assume p: "page_base va = 0x40000000"
  have "unat va div 4096 * 4096 = 0x40000000" using unat_page_base[of va] p by simp
  then have u: "unat va = 0x40000000 + unat va mod 4096" using div_mult_mod_eq[of "unat va" 4096] by linarith
  have "va = of_nat (unat va)" by simp
  also have "\<dots> = 0x40000000 + of_nat (unat va mod 4096)" by (subst u) simp
  finally show ?thesis by (intro exI[of _ "unat va mod 4096"]) simp
qed

lemma page_space_walk:
  assumes "length bs \<le> 4096" and "i < 4096"
  shows "walk_entry (mm_mem (page_space bs)) 0x100000 (0x40000000 + of_nat i) = Some (0x101007, 0x102007)"
    and "walk (mm_mem (page_space bs)) 0x100000 (0x40000000 + of_nat i) = Some (0x102000 + of_nat i)"
proof -
  have al: "page_aligned 0x40000000" "page_aligned 0x102000" by (simp_all add: page_aligned_def)
  have u: "unat (0x40000000 + of_nat i :: u32) = 0x40000000 + i" using unat_page_byte[OF al(1) assms(2)] by simp
  have x: "pd_index (0x40000000 + of_nat i) = 256" "pt_index (0x40000000 + of_nat i) = 0" proof -
    have "(0x40000000 + i) div 4096 = 262144" using assms(2) by (intro div_nat_eqI) simp_all
    then show "pt_index (0x40000000 + of_nat i) = 0" by (simp add: pt_index_eq u)
    show "pd_index (0x40000000 + of_nat i) = 256" unfolding pd_index_eq u using assms(2) by (intro div_nat_eqI) simp_all
  qed
  have pb: "page_base 0x100000 = 0x100000" "page_base 0x101007 = 0x101000" "page_base 0x102007 = 0x102000" by (simp_all add: page_base_def)
  show w: "walk_entry (mm_mem (page_space bs)) 0x100000 (0x40000000 + of_nat i) = Some (0x101007, 0x102007)"
    by (simp add: walk_entry_def x pb page_space_tables[OF assms(1)] present_def)
  have "(262144 * 4096 + i) mod 4096 = i" using assms(2) by (simp only: mod_mult_self3 mod_less)
  then have "unat ((0x40000000 + of_nat i :: u32) AND 0xFFF) = i" by (simp add: unat_and_FFF u)
  then have "(0x40000000 + of_nat i :: u32) AND 0xFFF = of_nat i" using assms(2) by (simp add: word_unat_eq_iff)
  moreover have "0x102000 OR of_nat i = (0x102000 + of_nat i :: u32)"
    using unat_or_disjoint[OF al(2), of "of_nat i"] unat_page_byte[OF al(2) assms(2)] assms(2) by (simp add: word_unat_eq_iff)
  ultimately show "walk (mm_mem (page_space bs)) 0x100000 (0x40000000 + of_nat i) = Some (0x102000 + of_nat i)"
    by (simp add: walk_def w pb)
qed

lemma page_space_user:
  assumes "length bs \<le> 4096"
  shows "user_space 0x100000 {0x40000000} (page_space bs)"
    and "i < 4096 \<Longrightarrow> uld8 (0x40000000 + of_nat i) (page_space bs) = Inr (if i < length bs then bs ! i else 0)"
    and "i < 4096 \<Longrightarrow> 0x40000000 + of_nat i \<in> in_pages {0x40000000}"
proof -
  let ?m = "mm_mem (page_space bs)"
  have al: "page_aligned 0x40000000" "page_aligned 0x102000" "page_aligned 0x100000" by (simp_all add: page_aligned_def)
  have pb: "page_base 0x100000 = 0x100000" "page_base 0x101007 = 0x101000" by (simp_all add: page_base_def)
  have t: "tables_of ?m 0x100000 = {0x101000}"
    by (auto simp: tables_of_def table_of_def pb page_space_tables[OF assms] present_def Let_def split: if_splits intro!: exI[of _ 256])
  have b: "page_base (0x102000 + of_nat i) = 0x102000" "page_base (0x40000000 + of_nat i) = 0x40000000" if "i < 4096" for i
    using page_base_byte[OF al(2) that] page_base_byte[OF al(1) that] by simp_all
  have w: "user_writable ?m 0x100000 (0x40000000 + of_nat i)" if "i < 4096" for i
    by (simp add: user_writable_def page_space_walk[OF assms that])
  have inj: "(0x102000 + of_nat i :: u32) = 0x102000 + of_nat j \<longleftrightarrow> i = j" if "i < 4096" "j < 4096" for i j using page_byte_inj[OF al(2) that] .
  have hi: "0x1000000 \<le> unat (0x40000000 + of_nat i :: u32)" if "i < 4096" for i using unat_page_byte[OF al(1) that] by simp
  show us: "user_space 0x100000 {0x40000000} (page_space bs)"
    unfolding user_space_def Let_def
  proof (intro conjI allI impI)
    show "paging_on (page_space bs)" "mm_cr3 (page_space bs) = 0x100000" by (simp_all add: page_space_def paging_on_def bit_simps)
    show "page_aligned 0x100000" by (rule al)
    fix va assume "page_base va \<in> {0x40000000}"
    then obtain i where i: "i < 4096" "va = 0x40000000 + of_nat i" using program_page by blast
    show "0x1000000 \<le> unat va" using hi[OF i(1)] by (simp add: i(2))
    show "\<exists>pa. walk ?m 0x100000 va = Some pa \<and> user_writable ?m 0x100000 va \<and> page_base pa \<noteq> 0x100000 \<and> page_base pa \<notin> tables_of ?m 0x100000"
      using page_space_walk(2)[OF assms i(1)] w[OF i(1)] b(1)[OF i(1)] by (simp add: i(2) t)
    fix va' pa assume "page_base va' \<in> {0x40000000}" "walk ?m 0x100000 va = Some pa" "walk ?m 0x100000 va' = Some pa"
    moreover from this obtain j where j: "j < 4096" "va' = 0x40000000 + of_nat j" using program_page by blast
    ultimately show "va = va'" using page_space_walk(2)[OF assms i(1)] page_space_walk(2)[OF assms j(1)] inj[OF i(1) j(1)] by (simp add: i(2) j(2))
  qed
  assume i: "i < 4096"
  show "0x40000000 + of_nat i \<in> in_pages {0x40000000}" by (simp add: in_pages_def b(2)[OF i])
  show "uld8 (0x40000000 + of_nat i) (page_space bs) = Inr (if i < length bs then bs ! i else 0)"
    using uld8_own[OF us _ page_space_walk(2)[OF assms i]] b(2)[OF i] page_space_tables(3)[OF assms i] by simp
qed

text \<open>Its texts lie one behind the other from the offset 1024 on; the two buffers precede them.\<close>

definition text_layout :: "u8 list list \<Rightarrow> u8 list" where
  "text_layout ts = concat (map (\<lambda>t. t @ [0]) ts)"

definition text_pos :: "u8 list list \<Rightarrow> u8 list \<Rightarrow> nat" where
  "text_pos ts w = length (text_layout (takeWhile (\<lambda>t. t \<noteq> w) ts))"

text \<open>The texts of the start and of the handler of SIGINT.\<close>

definition init_words :: "u8 list list" where
  "init_words = [[10] @ cstr ''  PepinOS Shell  (paso 24 - senales POSIX)'' @ [10], cstr ''  help: comandos disponibles'' @ [10],
     cstr ''  Ctrl+C envia SIGINT | '' @ [0x27] @ cstr ''raise N'' @ [0x27] @ cstr '' envia la senal N'' @ [10, 10]]"

definition sigint_text :: "u8 list" where
  "sigint_text = [10] @ cstr ''[SIGINT] Ctrl+C recibido. Escribe '' @ [0x27] @ cstr ''help'' @ [0x27] @ cstr '' para ver comandos.'' @ [10]"

text \<open>The texts of \<^verbatim>\<open>user/hello.c\<close>, which shares the sample page.\<close>

abbreviation greeting :: "u8 list" where
  "greeting \<equiv> cstr ''hola desde PepinOS!'' @ [10]"

definition hello_words :: "u8 list list" where
  "hello_words = [greeting, cstr ''hola.txt'', cstr ''hola.txt: '', cstr ''.'']"

definition sample_texts :: "u8 list list" where
  "sample_texts = [[8, 32, 8], [10], cstr ''pepinos$ '', [], cstr ''help'', cstr ''ls'', cstr ''cat '', cstr ''cat'', cstr ''echo '', cstr ''echo'',
     cstr ''clear'', cstr ''raise '', cstr ''raise'', cstr ''raise: numero de senal invalido'' @ [10], cstr ''Enviando senal '', cstr ''...'' @ [10],
     cstr ''a'', cstr ''10'', cstr ''4294967298''] @ sigint_text # init_words @ hello_words"

definition sample_image :: image where
  "sample_image = \<lparr>lit = (\<lambda>w. 0x40000000 + of_nat (1024 + text_pos sample_texts w)), line_adr = 0x40000000, cat_adr = 0x40000100,
     on_sigint = 0x40000F00, on_sigusr1 = 0x40000F40, on_sigterm = 0x40000F80\<rparr>"

definition sample_shell :: mach where
  "sample_shell = page_space (replicate 1024 0 @ text_layout sample_texts)"

lemma text_at:
  assumes "w \<in> set ts"
  shows "\<exists>rest. drop (text_pos ts w) (text_layout ts) = w @ 0 # rest"
proof -
  have "\<exists>us. dropWhile (\<lambda>t. t \<noteq> w) ts = w # us" using assms by (induction ts) auto
  then obtain us where us: "dropWhile (\<lambda>t. t \<noteq> w) ts = w # us" ..
  have "text_layout ts = text_layout (takeWhile (\<lambda>t. t \<noteq> w) ts @ dropWhile (\<lambda>t. t \<noteq> w) ts)" by simp
  also have "\<dots> = text_layout (takeWhile (\<lambda>t. t \<noteq> w) ts) @ w @ 0 # text_layout us" unfolding us by (simp add: text_layout_def)
  finally show ?thesis by (simp add: text_pos_def)
qed

lemma sample_texts_fit: "length (text_layout sample_texts) \<le> 1000" "w \<in> set sample_texts \<Longrightarrow> 0 \<notin> set w"
  by (auto simp: sample_texts_def text_layout_def cstr_def init_words_def sigint_text_def hello_words_def)

lemma sample_page: "user_space 0x100000 {0x40000000} sample_shell"
    "i < 4096 \<Longrightarrow> uld8 (0x40000000 + of_nat i) sample_shell = Inr (if i < 1024 + length (text_layout sample_texts) then (replicate 1024 0 @ text_layout sample_texts) ! i else 0)"
    "i < 4096 \<Longrightarrow> 0x40000000 + of_nat i \<in> in_pages {0x40000000}"
  using page_space_user[of "replicate 1024 0 @ text_layout sample_texts"] sample_texts_fit(1) by (simp_all add: sample_shell_def)

text \<open>They stay clear of every buffer outside the second kilobyte of the page.\<close>

definition elsewhere :: "(u32 \<Rightarrow> bool) \<Rightarrow> bool" where
  "elsewhere buf \<longleftrightarrow> (\<forall>b. buf b \<longrightarrow> (\<exists>j<4096. (j < 1024 \<or> 2048 \<le> j) \<and> b = 0x40000000 + of_nat j))"

lemma elsewhere_buffer: "off + n \<le> 1024 \<or> 2048 \<le> off \<and> off + n \<le> 4096 \<Longrightarrow> elsewhere (in_buffer (0x40000000 + of_nat off) n)"
  unfolding elsewhere_def in_buffer_def
proof (intro allI impI)
  fix b :: u32 assume "off + n \<le> 1024 \<or> 2048 \<le> off \<and> off + n \<le> 4096" "\<exists>i<n. b = 0x40000000 + of_nat off + of_nat i"
  then obtain i where i: "i < n" "b = 0x40000000 + of_nat off + of_nat i" and n: "off + n \<le> 1024 \<or> 2048 \<le> off \<and> off + n \<le> 4096" by blast
  have "off + i < 4096" "off + i < 1024 \<or> 2048 \<le> off + i" using i(1) n by linarith+
  moreover have "b = 0x40000000 + of_nat (off + i)" by (simp add: i(2) add.assoc)
  ultimately show "\<exists>j<4096. (j < 1024 \<or> 2048 \<le> j) \<and> b = 0x40000000 + of_nat j" by blast
qed

lemma sample_text_off:
  assumes "w \<in> set sample_texts" and buf: "elsewhere buf"
  shows "holds_text (in_pages {0x40000000}) buf sample_image sample_shell w"
proof -
  let ?p = "text_pos sample_texts w"
  obtain rest where r: "drop ?p (text_layout sample_texts) = w @ 0 # rest" using text_at[OF assms(1)] by blast
  then have "length (drop ?p (text_layout sample_texts)) = length w + 1 + length rest" by simp
  then have len: "?p + length w < length (text_layout sample_texts)" by simp
  have ad: "lit sample_image w + of_nat i = 0x40000000 + of_nat (1024 + ?p + i)" for i by (simp add: sample_image_def)
  have lt: "1024 + ?p + i < 2048" if "i \<le> length w" for i using that len sample_texts_fit(1) by simp
  have lt4: "1024 + ?p + i < 4096" if "i \<le> length w" for i
    by (rule less_trans[OF lt[OF that]]) simp
  have at: "uld8 (lit sample_image w + of_nat i) sample_shell = Inr ((w @ 0 # rest) ! i)" if "i \<le> length w" for i
  proof -
    have "(w @ 0 # rest) ! i = text_layout sample_texts ! (?p + i)" using arg_cong[OF r, of "\<lambda>xs. xs ! i"] len by simp
    then show ?thesis unfolding ad sample_page(2)[OF lt4[OF that]] using that len by (simp add: nth_append add.assoc)
  qed
  have "\<not> buf (lit sample_image w + of_nat i)" if "i \<le> length w" for i
  proof
    assume "buf (lit sample_image w + of_nat i)"
    then obtain j where j: "j < 4096" "j < 1024 \<or> 2048 \<le> j" "0x40000000 + of_nat (1024 + ?p + i) = (0x40000000 + of_nat j :: u32)"
      using buf unfolding elsewhere_def ad by blast
    have "page_aligned 0x40000000" by (simp add: page_aligned_def)
    from page_byte_inj[OF this lt4[OF that] j(1)] j(3) have "1024 + ?p + i = j" by blast
    then show False using j(2) lt[OF that] by linarith
  qed
  moreover have "lit sample_image w + of_nat i \<in> in_pages {0x40000000}" if "i \<le> length w" for i unfolding ad using sample_page(3)[OF lt4[OF that]] .
  moreover have "ustr sample_shell (lit sample_image w) w"
    unfolding ustr_iff using sample_texts_fit(2)[OF assms(1)] at by (simp add: nth_append)
  ultimately show ?thesis by (simp add: holds_text_def)
qed

lemma sample_text:
  assumes "w \<in> set sample_texts" and "buf = in_line sample_image \<or> buf = in_cat sample_image"
  shows "holds_text (in_pages {0x40000000}) buf sample_image sample_shell w"
  using sample_text_off[OF assms(1)] elsewhere_buffer[of 0 128] elsewhere_buffer[of 256 512] assms(2) by (auto simp: sample_image_def)

lemma sample_buffers:
  "\<forall>i<128. line_adr sample_image + of_nat i \<in> in_pages {0x40000000}" "\<forall>i<512. cat_adr sample_image + of_nat i \<in> in_pages {0x40000000}"
  using sample_page(3)[of "256 + _"] sample_page(3) by (auto simp: sample_image_def)

lemma sample_shell_image: "shell_image (in_pages {0x40000000}) sample_image sample_shell"
proof -
  have "turn_words \<subseteq> set sample_texts" by (simp add: turn_words_def words_def sample_texts_def)
  then show ?thesis using sample_text sample_buffers(1) by (auto simp: shell_image_def)
qed

text \<open>A keyboard with keys waiting, and the kernel with the program running.\<close>

definition typed :: "u8 list \<Rightarrow> keyboard" where
  "typed cs = fold kb_put cs idle_keyboard"

lemma kb_put_all: "kb_inv kb \<Longrightarrow> length (kb_queue kb) + length cs < 64 \<Longrightarrow> kb_inv (fold kb_put cs kb) \<and> kb_queue (fold kb_put cs kb) = kb_queue kb @ cs"
proof (induction cs arbitrary: kb)
  case (Cons c cs)
  have "length (kb_queue kb) < 63" using Cons.prems(2) by simp
  then have "kb_queue (kb_put c kb) = kb_queue kb @ [c]" using kb_queue_put[OF Cons.prems(1)] by simp
  with Cons show ?case using kb_inv_put[OF Cons.prems(1), of c] Cons.IH[of "kb_put c kb"] by (simp del: length_kb_queue)
qed simp

lemma typed: "length cs < 64 \<Longrightarrow> kb_inv (typed cs)" "length cs < 64 \<Longrightarrow> kb_queue (typed cs) = cs"
  using kb_put_all[OF idle_keyboard(1), of cs] by (simp_all add: typed_def idle_keyboard(2) flip: length_kb_queue)

definition shell_kernel :: "u8 list \<Rightarrow> kernel" where
  "shell_kernel cs = sample_kernel\<lparr>kn_cpu := sample_shell, kn_kb := typed cs\<rparr>"

lemma shell_kernel_fields [simp]: "kn_cpu (shell_kernel cs) = sample_shell" "kn_kb (shell_kernel cs) = typed cs"
  "kn_sched (shell_kernel cs) = two_tasks" "kn_fs (shell_kernel cs) = sample_fs" "kn_nodes (shell_kernel cs) = blank_pool"
  by (simp_all add: shell_kernel_def sample_kernel_def)

lemma shell_kernel_inv: "length cs < 64 \<Longrightarrow> kernel_inv (shell_kernel cs)"
  using sample_kernel_inv typed(1) by (simp add: kernel_inv_def shell_kernel_def sample_kernel_def)

lemma edited_length: "length acc \<le> 127 \<Longrightarrow> length (edited acc cs) \<le> 127"
  by (induction acc cs rule: edited.induct) auto

lemma sample_ustr: "w \<in> set sample_texts \<Longrightarrow> ustr sample_shell (lit sample_image w) w"
  using sample_text[of w "in_line sample_image"] by (simp add: holds_text_def)

section \<open>Properties\<close>

text \<open>C13: The shell's line editor: with \<open>acc\<close> already in the line buffer and keys waiting up to a line end, reading returns
  with the buffer holding the edited line as a string, at most 127 characters of it: each key is
  appended while there is room, 8 and 127 delete the last one. The keys behind the line end stay
  queued, and no byte outside the 128 of the buffer changes.\<close>

theorem shell_reads_line:
  assumes us: "user_space pd V (kn_cpu k)" and kb: "kb_inv (kn_kb k)" and im: "shell_image (in_pages V) im (kn_cpu k)"
    and acc: "length acc \<le> 127" "0 \<notin> set acc" "\<forall>i<length acc. uld8 (line_adr im + of_nat i) (kn_cpu k) = Inr (acc ! i)"
    and q: "kb_queue (kn_kb k) = cs @ e # rest" "10 \<notin> set cs" "13 \<notin> set cs" "e = 10 \<or> e = 13"
  shows "\<exists>c kb d. read_line disk im (of_nat (length acc)) k = Some (Inr (k\<lparr>kn_cpu := c, kn_kb := kb, kn_screen := d\<rparr>)) \<and>
    user_space pd V c \<and> kb_inv kb \<and> kb_queue kb = rest \<and> ustr c (line_adr im) (edited acc cs) \<and> length (edited acc cs) \<le> 127 \<and>
    (\<forall>b \<in> in_pages V. \<not> in_line im b \<longrightarrow> uld8 b c = uld8 b (kn_cpu k))"
proof -
  have own: "\<forall>i<128. line_adr im + of_nat i \<in> in_pages V" using im by (simp add: shell_image_def)
  have t: "holds_text (in_pages V) (in_line im) im (kn_cpu k) [8, 32, 8]" using im by (simp add: shell_image_def turn_words_def)
  then have del: "\<forall>i\<le>3. lit im [8, 32, 8] + of_nat i \<in> in_pages V \<and> \<not> in_line im (lit im [8, 32, 8] + of_nat i)" by (simp add: holds_text_def)
  have "line_state (user_space pd V) im acc k" using us kb acc t by (simp add: line_state_def holds_text_def)
  from loader.read_line_edits[OF own del q(4) this q(1-3)] show ?thesis
    unfolding line_done_def using edited_length[OF acc(1)] by blast
qed

theorem shell_reads_line_witness:
  "\<exists>k'. read_line sample_disk sample_image 0 (shell_kernel (cstr ''lx'' @ [8] @ cstr ''s'' @ [10])) = Some (Inr k') \<and>
     ustr (kn_cpu k') (line_adr sample_image) (cstr ''ls'') \<and> kb_queue (kn_kb k') = []"
proof -
  let ?q = "cstr ''lx'' @ [8] @ cstr ''s'' @ [10]"
  have q: "kb_queue (kn_kb (shell_kernel ?q)) = (cstr ''lx'' @ [8] @ cstr ''s'') @ 10 # []" "length ?q < 64" by (simp_all add: typed(2) cstr_def)
  have e: "edited [] (cstr ''lx'' @ [8] @ cstr ''s'') = cstr ''ls''" "10 \<notin> set (cstr ''lx'' @ [8] @ cstr ''s'')" "13 \<notin> set (cstr ''lx'' @ [8] @ cstr ''s'')"
    by (simp_all add: cstr_def)
  from shell_reads_line[of "0x100000" "{0x40000000}" "shell_kernel ?q" sample_image "[]", OF _ _ _ _ _ _ q(1) e(2,3), of sample_disk]
  show ?thesis using sample_page(1) typed(1)[OF q(2)] sample_shell_image unfolding e(1) by force
qed

text \<open>C11: A round of the shell: with a line waiting at the keyboard the round terminates (or stops where its command stops), the
  edited line is in the buffer and its keys consumed when the command starts, and what runs is the
  command \<open>parse\<close> finds in it: \<^verbatim>\<open>cat\<close>, \<^verbatim>\<open>echo\<close> and \<^verbatim>\<open>raise\<close> are selected by the first word and are given
  what follows the spaces behind it; \<^verbatim>\<open>help\<close>, \<^verbatim>\<open>ls\<close> and \<^verbatim>\<open>clear\<close> only by the whole line; the empty line runs
  nothing, and any other line, \<^verbatim>\<open>ls\<close> with a space behind it included, is reported as unknown.\<close>

theorem shell_turn_runs_line:
  assumes "user_space pd V (kn_cpu k)" and "kb_inv (kn_kb k)" and "shell_image (in_pages V) im (kn_cpu k)"
    and "kb_queue (kn_kb k) = cs @ e # rest" "10 \<notin> set cs" "13 \<notin> set cs" "e = 10 \<or> e = 13"
  shows "\<exists>k1 r. line_read (user_space pd V) (in_pages V) im (edited [] cs) rest k k1 \<and> shell_turn disk im k = Some r \<and>
    performs disk im (parse (edited [] cs)) k1 r"
  by (rule loader.shell_turn_runs[OF assms])

theorem shell_turn_runs_line_witness:
  "\<exists>k1 r. shell_turn sample_disk sample_image (shell_kernel (cstr ''echo  hola'' @ [13])) = Some r \<and>
     runs_on (cmd_echo sample_disk sample_image) (cstr ''hola'') k1 r \<and> kb_queue (kn_kb k1) = []"
proof -
  let ?q = "cstr ''echo  hola'' @ [13]"
  have q: "kb_queue (kn_kb (shell_kernel ?q)) = cstr ''echo  hola'' @ 13 # []" "length ?q < 64" by (simp_all add: typed(2) cstr_def)
  have e: "edited [] (cstr ''echo  hola'') = cstr ''echo  hola''" "10 \<notin> set (cstr ''echo  hola'')" "13 \<notin> set (cstr ''echo  hola'')" by (simp_all add: cstr_def)
  have p: "parse (cstr ''echo  hola'') = CEcho (cstr ''hola'')" by (simp add: parse_def word_of_def arg_of_def cstr_def)
  from shell_turn_runs_line[of "0x100000" "{0x40000000}" "shell_kernel ?q" sample_image, OF _ _ _ q(1) e(2,3), of sample_disk]
  show ?thesis using sample_page(1) typed(1)[OF q(2)] sample_shell_image unfolding e(1) p performs_def line_read_def by force
qed

theorem cmd_raise_sends_witness:
  "\<exists>k'. cmd_raise sample_disk sample_image (lit sample_image (cstr ''4294967298'')) (shell_kernel []) = Inr k' \<and>
     bit (t_sig_pending (task_pool (kn_sched k') ! 0)) 2"
proof -
  have d: "decimal (cstr ''4294967298'') = 4294967298" by (simp add: decimal_def digit_def cstr_def)
  have w: "(of_nat 4294967298 :: u32) = 2" by simp
  have m: "cstr ''4294967298'' \<in> set sample_texts" "\<forall>w \<in> {cstr ''raise: numero de senal invalido'' @ [10], cstr ''Enviando senal '', cstr ''...'' @ [10]}. w \<in> set sample_texts"
    by (simp_all add: sample_texts_def)
  have "cstr ''4294967298'' \<noteq> []" "cur_task (kn_sched (shell_kernel [])) = Some 0" by (simp_all add: cstr_def two_tasks_state)
  from cmd_raise_sends[of "shell_kernel []" 0 "lit sample_image (cstr ''4294967298'')" "cstr ''4294967298''" sample_image sample_disk, OF this(2) _ this(1)] sample_ustr m
  have "\<exists>d. cmd_raise sample_disk sample_image (lit sample_image (cstr ''4294967298'')) (shell_kernel []) =
      Inr ((shell_kernel [])\<lparr>kn_screen := d, kn_sched := sent 0 2 two_tasks\<rparr>)" unfolding d w by (auto simp: Let_def)
  moreover have "length (task_pool two_tasks) = 8" using two_tasks_state(1) by (simp add: sched_inv_def)
  then have "bit (t_sig_pending (task_pool (sent 0 2 two_tasks) ! 0)) 2" by (simp add: sent_def update_task_nth bit_simps)
  ultimately show ?thesis by auto
qed

theorem cmd_cat_shows_file_witness:
  "\<exists>k'. cmd_cat sample_disk sample_image (lit sample_image (cstr ''a'')) (shell_kernel []) = Inr k' \<and>
     kn_screen k' = shown (map (file_byte sample_disk sample_fs (sample_inode 1100 7)) [0..<511]) (set_kattr 0x0F (kn_screen (shell_kernel [])))"
proof -
  have t: "ustr sample_shell (lit sample_image (cstr ''a'')) (cstr ''a'')" "holds_text (in_pages {0x40000000}) (in_cat sample_image) sample_image sample_shell [10]"
    by (rule sample_ustr sample_text, simp add: sample_texts_def, simp?)+
  have i: "dir_lookup sample_dir (path_name (cstr ''a'')) = 3" by (simp add: dir_lookup_def path_name_def sample_dir_def cstr_def)
  have n: "used_nodes (kn_nodes (shell_kernel [])) \<noteq> {..<8}" unfolding shell_kernel_fields blank_pool_ok
    using lessThan_empty_iff[of 8] by (metis zero_neq_numeral)
  have f: "\<exists>j. 3 \<le> j \<and> j < 8 \<and> \<not> fd_used (cur_file (kn_sched (shell_kernel [])) 0 j)" using sample_no_files[of 3] by (auto intro!: exI[of _ 3])
  have l: "pread_len sample_disk sample_fs 3 0 511 = 511" by (simp add: pread_len_def sample_inodes sample_inode_fields sample_fs_ok)
  have c: "cstr ''a'' \<noteq> []" "(3 :: u32) \<noteq> 0" "cur_task (kn_sched (shell_kernel [])) = Some 0" "holds_dir sample_disk (kn_fs (shell_kernel [])) 2 sample_dir"
    by (simp_all add: cstr_def two_tasks_state sample_holds_dir)
  from cmd_cat_shows_file[of "shell_kernel []" sample_disk sample_dir 0 "lit sample_image (cstr ''a'')" "cstr ''a''" 3 "0x100000" "{0x40000000}" sample_image,
    OF shell_kernel_inv sample_disk_ok c(4,3) _ c(1) i c(2) n f _ sample_buffers(2)] t sample_page(1)
  show ?thesis by (auto simp: l sample_inodes)
qed

end
