(* ===== verification/Shell_Files.thy ===== *)
theory Shell_Files
  imports Shell_Runs
begin

text \<open>
  The shell as a client of the kernel's files: every call it makes keeps the kernel's invariant, and
  every command closes what it opens, over sessions of any length in which keys arrive between the
  steps of its loop. The statements are postconditions of outcomes, put together along the code by
  the rules of this theory; the steps are related to the loops of \<^verbatim>\<open>Shell\<close> (\<open>shell_turn_goes\<close>).
\<close>

section \<open>Postconditions\<close>

definition returns :: "('a \<Rightarrow> bool) \<Rightarrow> 'a outcome \<Rightarrow> bool" where
  "returns Q m \<longleftrightarrow> (\<forall>x. m = Inr x \<longrightarrow> Q x)"

lemma returns_Inr [simp]: "returns Q (Inr x) = Q x" and returns_Inl [simp]: "returns Q (Inl e)"
  by (simp_all add: returns_def)

lemma returns_bind: "returns R m \<Longrightarrow> (\<And>x. R x \<Longrightarrow> returns Q (f x)) \<Longrightarrow> returns Q (bindo m f)"
  by (cases m) (simp_all add: returns_def)

lemma returns_any: "(\<And>x. returns Q (f x)) \<Longrightarrow> returns Q (bindo m f)"
  by (cases m) simp_all

lemma returns_weaken: "returns R m \<Longrightarrow> (\<And>x. R x \<Longrightarrow> Q x) \<Longrightarrow> returns Q m"
  by (simp add: returns_def)

section \<open>Calls and open files\<close>

text \<open>The invariant holds in the later state, and the same descriptors are open on the same nodes.\<close>

definition same_files :: "kernel \<Rightarrow> kernel \<Rightarrow> bool" where
  "same_files k k' \<longleftrightarrow> kernel_inv k' \<and> cur_task (kn_sched k') = cur_task (kn_sched k) \<and>
     open_fds (kn_sched k') = open_fds (kn_sched k) \<and> used_nodes (kn_nodes k') = used_nodes (kn_nodes k) \<and>
     (\<forall>i j. (i, j) \<in> open_fds (kn_sched k) \<longrightarrow> fd_node (cur_file (kn_sched k') i j) = fd_node (cur_file (kn_sched k) i j))"

lemma same_files_refl: "kernel_inv k \<Longrightarrow> same_files k k"
  by (auto simp: same_files_def)

lemma same_files_trans: "same_files k k1 \<Longrightarrow> same_files k1 k2 \<Longrightarrow> same_files k k2"
  by (auto simp: same_files_def)

lemma same_files_inv: "same_files k k' \<Longrightarrow> kernel_inv k'"
  by (simp add: same_files_def)

lemma same_files_update:
  assumes "kernel_inv k" and "ext2_ok fs" and "kb_inv kb"
  shows "same_files k (k\<lparr>kn_cpu := c, kn_fs := fs, kn_screen := d, kn_kb := kb\<rparr>)"
  using assms by (auto simp: same_files_def kernel_inv_def)

lemma open_fds_update_task:
  assumes "\<And>t. t_files (f t) = t_files t"
  shows "open_fds (update_task i f s) = open_fds s"
  using assms by (auto simp: open_fds_def)

lemma same_files_task:
  assumes "kernel_inv k" and "\<And>t. t_files (f t) = t_files t" and "\<And>t. task_ok t \<Longrightarrow> task_ok (f t)"
  shows "same_files k (k\<lparr>kn_sched := update_task cur f (kn_sched k)\<rparr>)"
  using kernel_inv_update_task[OF assms] by (auto simp: same_files_def open_fds_update_task[of f] assms(2))

lemma sys_print_same: "kernel_inv k \<Longrightarrow> returns (\<lambda>(r, k'). same_files k k') (sys_print a k)"
  using same_files_update[where k = k and fs = "kn_fs k" and kb = "kn_kb k" and c = "kn_cpu k"]
  by (auto simp: returns_def sys_print_def Let_def kernel_inv_def)

lemma sys_setcolor_same: "kernel_inv k \<Longrightarrow> returns (\<lambda>(r, k'). same_files k k') (sys_setcolor a k)"
  using same_files_update[where k = k and fs = "kn_fs k" and kb = "kn_kb k" and c = "kn_cpu k"] by (simp add: sys_setcolor_def kernel_inv_def)

lemma sys_getchar_same: "kernel_inv k \<Longrightarrow> returns (\<lambda>(r, k'). same_files k k') (sys_getchar k)"
  using same_files_update[where k = k and fs = "kn_fs k" and kb = "snd (kb_getchar (kn_kb k))" and c = "kn_cpu k" and d = "kn_screen k"] kb_inv_getchar[of "kn_kb k"]
  by (simp add: sys_getchar_def kernel_inv_def case_prod_beta)

lemma sys_ls_same:
  assumes inv: "kernel_inv k" and disk: "disk_ok disk"
  shows "returns (\<lambda>(r, k'). same_files k k') (sys_ls disk k)"
proof (cases "ext2_ls disk 2 (kn_fs k) (set_kattr 0x0E (kn_screen k))")
  case (Inr p)
  obtain fs d where p: "p = (fs, d)" by (cases p)
  have i: "ext2_ok (kn_fs k)" "kb_inv (kn_kb k)" using inv by (simp_all add: kernel_inv_def)
  from same_fs_ok[OF ext2_ls_same_fs[OF i(1) disk Inr[unfolded p]] i(1)] have "ext2_ok fs" .
  from same_files_update[OF inv this i(2), where c = "kn_cpu k" and d = d] show ?thesis by (simp add: sys_ls_def Inr p)
qed (simp add: sys_ls_def)

lemma sys_sigaction_same: "kernel_inv k \<Longrightarrow> returns (\<lambda>(r, k'). same_files k k') (sys_sigaction a b k)"
  using same_files_refl[of k] same_files_task[of k]
  by (auto simp: sys_sigaction_def sched_current_task_def task_ok_def split: option.split)

lemma sys_kill_same: "kernel_inv k \<Longrightarrow> returns (\<lambda>(r, k'). same_files k k') (sys_kill a k)"
  using same_files_refl[of k] same_files_task[of k]
  by (auto simp: sys_kill_def sched_current_task_def task_ok_def split: option.split)

lemma sys_read_same:
  assumes inv: "kernel_inv k" and disk: "disk_ok disk"
  shows "returns (\<lambda>(r, k'). same_files k k') (sys_read disk a b n k)"
proof (cases "cur_task (kn_sched k)")
  case None
  then show ?thesis using same_files_refl[OF inv] by (simp add: sys_read_def sched_current_task_def)
next
  case (Some cur)
  show ?thesis
  proof (cases "bad_fd (kn_sched k) cur a")
    case True
    then show ?thesis using Some same_files_refl[OF inv] by (simp add: sys_read_def sched_current_task_def)
  next
    case False
    have s: "sched_inv (kn_sched k)" using inv by (simp add: kernel_inv_def)
    note b = bad_fd_open[OF s Some False]
    have "same_files k k'" if run: "sys_read disk a b n k = Inr (r, k')" for r k'
    proof -
      let ?f = "cur_file (kn_sched k) cur (unat a)"
      obtain fs c where k': "k' = set_file cur (unat a) (?f\<lparr>fd_offset := fd_offset ?f + r\<rparr>) (k\<lparr>kn_fs := fs, kn_cpu := c\<rparr>)"
        using sys_read_cases[OF Some False run] .
      have "fd_used ?f" using b(4) by (simp add: open_fds_def)
      then show ?thesis using sys_read_inv[OF inv disk run] b(4) Some
        by (auto simp: same_files_def k' set_file_def open_fds_update[OF s b(1,3)] cur_file_update[OF s b(1,3)])
    qed
    then show ?thesis by (auto simp: returns_def)
  qed
qed


section \<open>The shell keeps its files\<close>

text \<open>A call in the middle of a run from \<open>k0\<close>: every wrapper but those of open and close.\<close>

lemma int30_eq: "eax \<noteq> 10 \<Longrightarrow> int30 disk eax ebx ecx edx k =
    (if eax = 0 then sys_print ebx k else if eax = 1 then sys_exit k else if eax = 2 then sys_setcolor ebx k else if eax = 3 then sys_open disk ebx k
     else if eax = 4 then sys_close ebx k else if eax = 5 then sys_read disk ebx ecx edx k else if eax = 6 then sys_getchar k
     else if eax = 7 then sys_ls disk k else if eax = 8 then sys_sigaction ebx ecx k else if eax = 9 then sys_kill ebx k else Inr (- 1, k))"
  by (simp add: int30_def syscall_handler_def int30_keep)

lemma int30_same:
  assumes "same_files k0 k" and "disk_ok disk" and "eax \<in> {0, 2, 5, 6, 7, 8, 9}"
  shows "returns (\<lambda>(r, k'). same_files k0 k') (int30 disk eax ebx ecx edx k)"
proof -
  note inv = same_files_inv[OF assms(1)]
  have "eax \<noteq> 10" using assms(3) by auto
  then have "returns (\<lambda>(r, k'). same_files k k') (int30 disk eax ebx ecx edx k)"
    using assms(3) sys_print_same[OF inv] sys_setcolor_same[OF inv] sys_getchar_same[OF inv] sys_ls_same[OF inv assms(2)]
      sys_sigaction_same[OF inv] sys_kill_same[OF inv] sys_read_same[OF inv assms(2)] by (auto simp: int30_eq)
  then show ?thesis by (rule returns_weaken) (auto intro: same_files_trans[OF assms(1)])
qed

lemma call_same:
  assumes "same_files k0 k" and "disk_ok disk" and "eax \<in> {0, 2, 5, 6, 7, 8, 9}"
  shows "returns (same_files k0) (bindo (int30 disk eax ebx ecx edx k) (\<lambda>(_, k). Inr k))"
  by (rule returns_bind[OF int30_same[OF assms]]) auto

lemma wrapper_same:
  assumes "same_files k0 k" and "disk_ok disk"
  shows "returns (same_files k0) (sh_print disk a k)" "returns (same_files k0) (sh_setcolor disk v k)" "returns (same_files k0) (sh_ls disk k)"
    "returns (same_files k0) (sh_sigaction disk sig h k)" "returns (same_files k0) (sh_kill disk sig k)"
    "returns (\<lambda>(r, k'). same_files k0 k') (sh_read disk fd a n k)" "returns (\<lambda>(r, k'). same_files k0 k') (sh_getchar disk k)"
  using assms by (simp_all add: sh_print_def sh_setcolor_def sh_ls_def sh_sigaction_def sh_kill_def sh_read_def sh_getchar_def call_same int30_same)

lemma sh_store_same: "same_files k0 k \<Longrightarrow> returns (same_files k0) (sh_store a v k)"
  by (auto simp: returns_def sh_store_def same_files_def kernel_inv_def)

lemma sh_prints_same: "same_files k0 k \<Longrightarrow> disk_ok disk \<Longrightarrow> returns (same_files k0) (sh_prints disk ss k)"
  by (induction ss arbitrary: k) (auto intro!: returns_bind wrapper_same)

lemmas same_intros = returns_bind wrapper_same sh_store_same sh_prints_same

text \<open>Opening and closing again.\<close>

definition opened :: "kernel \<Rightarrow> u32 \<Rightarrow> kernel \<Rightarrow> bool" where
  "opened k0 fd k \<longleftrightarrow> (\<exists>cur j n. fd = of_nat j \<and> 3 \<le> j \<and> j < 8 \<and> (cur, j) \<notin> open_fds (kn_sched k0) \<and> n \<notin> used_nodes (kn_nodes k0) \<and>
     kernel_inv k \<and> cur_task (kn_sched k0) = Some cur \<and> cur_task (kn_sched k) = Some cur \<and> fd_node (cur_file (kn_sched k) cur j) = Some n \<and>
     open_fds (kn_sched k) = insert (cur, j) (open_fds (kn_sched k0)) \<and> used_nodes (kn_nodes k) = insert n (used_nodes (kn_nodes k0)) \<and>
     (\<forall>i j. (i, j) \<in> open_fds (kn_sched k0) \<longrightarrow> fd_node (cur_file (kn_sched k) i j) = fd_node (cur_file (kn_sched k0) i j)))"

lemma opened_same: "opened k0 fd k \<Longrightarrow> same_files k k' \<Longrightarrow> opened k0 fd k'"
  unfolding opened_def same_files_def by fastforce

lemma opened_inv: "opened k0 fd k \<Longrightarrow> kernel_inv k"
  by (auto simp: opened_def)

lemma sh_open_opened:
  assumes inv: "kernel_inv k" and disk: "disk_ok disk"
  shows "returns (\<lambda>(fd, k'). if sint fd < 0 then same_files k k' else opened k fd k') (sh_open disk p k)"
proof -
  have i: "sched_inv (kn_sched k)" "pool_ok (kn_nodes k)" using inv by (simp_all add: kernel_inv_def)
  have "if sint fd < 0 then same_files k k' else opened k fd k'" if run: "sys_open disk p k = Inr (fd, k')" for fd k'
    using inv disk run
  proof (cases rule: sys_open_cases)
    case failed
    then obtain pool fs where k': "k' = k\<lparr>kn_nodes := pool, kn_fs := fs\<rparr>" "used_nodes pool = used_nodes (kn_nodes k)" by blast
    have "kernel_inv k'" by (rule sys_open_inv[OF inv disk run])
    then have "same_files k k'" by (simp add: same_files_def k')
    then show ?thesis by (simp add: failed(1))
  next
    case (opened cur j n nd fs)
    note u = cur_file_update[OF i(1) opened(2,5)] open_fds_update[OF i(1) opened(2,5)] used_nodes_open[OF i(2) opened(8,9)]
    have "kernel_inv k'" by (rule sys_open_inv[OF inv disk run])
    moreover have "open_fds (kn_sched k') = insert (cur, j) (open_fds (kn_sched k))" "used_nodes (kn_nodes k') = insert n (used_nodes (kn_nodes k))"
      "cur_task (kn_sched k') = Some cur" "fd_node (cur_file (kn_sched k') cur j) = Some n" using opened(1) by (simp_all add: opened(12) set_file_def u)
    moreover have "fd_node (cur_file (kn_sched k') x y) = fd_node (cur_file (kn_sched k) x y)" if "(x, y) \<in> open_fds (kn_sched k)" for x y
      using that opened(6) by (auto simp: opened(12) set_file_def u)
    ultimately have "opened k fd k'" unfolding opened_def using opened(1,3-7)
      by (intro exI[of _ cur] exI[of _ j] exI[of _ n] conjI) blast+
    moreover have "\<not> sint fd < 0" using opened(3,5) sint_small[of j] by simp
    ultimately show ?thesis by simp
  qed
  then show ?thesis by (auto simp: returns_def sh_open_eq)
qed

lemma sh_close_opened:
  assumes op: "opened k0 fd k"
  shows "returns (same_files k0) (sh_close disk fd k)"
proof -
  obtain cur j n where o: "fd = of_nat j" "3 \<le> j" "j < 8" "(cur, j) \<notin> open_fds (kn_sched k0)" "n \<notin> used_nodes (kn_nodes k0)" "kernel_inv k"
    "cur_task (kn_sched k0) = Some cur" "cur_task (kn_sched k) = Some cur" "fd_node (cur_file (kn_sched k) cur j) = Some n"
    "open_fds (kn_sched k) = insert (cur, j) (open_fds (kn_sched k0))" "used_nodes (kn_nodes k) = insert n (used_nodes (kn_nodes k0))"
    "\<forall>i j. (i, j) \<in> open_fds (kn_sched k0) \<longrightarrow> fd_node (cur_file (kn_sched k) i j) = fd_node (cur_file (kn_sched k0) i j)"
    using op unfolding opened_def by blast
  have "(cur, j) \<in> open_fds (kn_sched k)" by (simp add: o)
  from sys_close_open[OF o(6,8) this o(9)] obtain k' where c: "sys_close (of_nat j) k = Inr (0, k')" "kernel_inv k'"
    "open_fds (kn_sched k') = open_fds (kn_sched k) - {(cur, j)}" "used_nodes (kn_nodes k') = used_nodes (kn_nodes k) - {n}" by blast
  have s: "sched_inv (kn_sched k)" "cur < 8" using o(6,8) current_lt[of "kn_sched k"] by (simp_all add: kernel_inv_def)
  have j: "j = 3 \<or> j = 4 \<or> j = 5 \<or> j = 6 \<or> j = 7" using o(2,3) by linarith
  have "cur_task (kn_sched k') = Some cur \<and> (\<forall>i m. (i, m) \<noteq> (cur, j) \<longrightarrow> fd_node (cur_file (kn_sched k') i m) = fd_node (cur_file (kn_sched k) i m))"
    using c(1) o(8) cur_file_update[OF s o(3)] j by (auto simp: sys_close_def sched_current_task_def Let_def set_file_def split: if_splits)
  then have "cur_task (kn_sched k') = Some cur" "\<forall>i m. (i, m) \<in> open_fds (kn_sched k0) \<longrightarrow> fd_node (cur_file (kn_sched k') i m) = fd_node (cur_file (kn_sched k0) i m)"
    using o(4,12) by (blast, metis)
  then have "same_files k0 k'" using c o(4,5,7,10,11) by (simp add: same_files_def)
  then show ?thesis using sh_close_eq[OF c(1), of disk] by (simp add: o(1))
qed


section \<open>Commands and rounds\<close>

lemma seq_same: "returns (same_files k0) m \<Longrightarrow> (\<And>k. same_files k0 k \<Longrightarrow> returns (same_files k0) (f k)) \<Longrightarrow> returns (same_files k0) (bindo m f)"
  by (rule returns_bind)

lemma read_same:
  fixes f :: "u8 \<Rightarrow> kernel outcome" and g h :: "u32 \<Rightarrow> kernel outcome"
  shows "(\<And>v. returns Q (f v)) \<Longrightarrow> returns Q (bindo (uld8 a c) f)" "(\<And>v. returns Q (g v)) \<Longrightarrow> returns Q (bindo (str_atoi c a) g)"
    "(\<And>v. returns Q (h v)) \<Longrightarrow> returns Q (bindo (str_skip_word c a) h)"
  by (simp_all add: returns_any)

lemma if_same: "(P \<Longrightarrow> returns Q m) \<Longrightarrow> (\<not> P \<Longrightarrow> returns Q m') \<Longrightarrow> returns Q (if P then m else m')"
  by simp

lemma if_str_same: "returns Q m \<Longrightarrow> returns Q m' \<Longrightarrow> returns Q (if_str t m m')"
  by (cases t) (simp_all add: if_str_def)

lemma for_try_same:
  assumes "same_files k0 k" and "\<And>i k. same_files k0 k \<Longrightarrow> returns (same_files k0) (f i k)"
  shows "returns (same_files k0) (for_try a b f k)"
proof (cases "a \<le> b")
  case True
  have "returns (same_files k0) (for_try a (a + n) f k)" for n
    by (induction n) (simp_all add: assms for_try_Suc seq_same)
  from this[of "b - a"] True show ?thesis by simp
qed (simp add: assms(1))

lemma done_same: "same_files k0 k \<Longrightarrow> returns (same_files k0) (Inr k)"
  by simp

lemmas same_rules = seq_same read_same if_same for_try_same wrapper_same(1-5) sh_store_same sh_prints_same done_same

lemma cmd_help_same: "same_files k0 k \<Longrightarrow> disk_ok disk \<Longrightarrow> returns (same_files k0) (cmd_help disk im k)"
  unfolding cmd_help_def by (intro same_rules)

lemma cmd_echo_same: "same_files k0 k \<Longrightarrow> disk_ok disk \<Longrightarrow> returns (same_files k0) (cmd_echo disk im s k)"
  unfolding cmd_echo_def by (intro same_rules)

lemma cmd_clear_same: "same_files k0 k \<Longrightarrow> disk_ok disk \<Longrightarrow> returns (same_files k0) (cmd_clear disk im k)"
  unfolding cmd_clear_def by (intro same_rules)

lemma cmd_raise_same: "same_files k0 k \<Longrightarrow> disk_ok disk \<Longrightarrow> returns (same_files k0) (cmd_raise disk im a k)"
  unfolding cmd_raise_def by (intro same_rules)

lemma cat_output_same: "same_files k0 k \<Longrightarrow> disk_ok disk \<Longrightarrow> returns (same_files k0) (cat_output disk im n k)"
  unfolding cat_output_def by (intro same_rules)

lemma cat_rest_same:
  assumes op: "opened k0 fd k" and disk: "disk_ok disk"
  shows "returns (same_files k0) (bindo (sh_setcolor disk v k) (\<lambda>k. bindo (sh_read disk fd a c k) (\<lambda>(n, k). bindo (cat_output disk im n k) (sh_close disk fd))))"
proof -
  note here = same_files_refl[OF opened_inv[OF op]]
  have "returns (same_files k) (bindo (sh_setcolor disk v k) (\<lambda>k. bindo (sh_read disk fd a c k) (\<lambda>(n, k). cat_output disk im n k)))"
    by (intro seq_same wrapper_same here disk returns_bind[OF wrapper_same(6)]) (auto intro: cat_output_same disk)
  then have "returns (same_files k0) (bindo (bindo (sh_setcolor disk v k) (\<lambda>k. bindo (sh_read disk fd a c k) (\<lambda>(n, k). cat_output disk im n k))) (sh_close disk fd))"
    by (rule returns_bind) (rule sh_close_opened[OF opened_same[OF op]])
  then show ?thesis unfolding bindo_assoc case_prod_unfold .
qed

lemma cmd_cat_same:
  assumes "same_files k0 k" and disk: "disk_ok disk"
  shows "returns (same_files k0) (cmd_cat disk im p k)"
proof -
  note inv = same_files_inv[OF assms(1)]
  have "returns (same_files k) (cmd_cat disk im p k)"
    unfolding cmd_cat_def cat_output_def[symmetric]
    by (intro same_rules same_files_refl inv disk returns_bind[OF sh_open_opened[OF inv disk]])
       (auto split: if_splits intro: cat_rest_same disk same_rules)
  then show ?thesis by (rule returns_weaken) (rule same_files_trans[OF assms(1)])
qed

lemma execute_same: "same_files k0 k \<Longrightarrow> disk_ok disk \<Longrightarrow> returns (same_files k0) (execute disk im l k)"
  unfolding execute_def Let_def
  by (intro if_str_same same_rules cmd_help_same cmd_cat_same cmd_echo_same cmd_clear_same cmd_raise_same)


text \<open>The loops of the main program: what they return when they return.\<close>

lemma wait_char_same:
  assumes disk: "disk_ok disk" and "same_files k0 k" and run: "wait_char disk k = Some m"
  shows "returns (\<lambda>(r, k'). same_files k0 k') m"
proof -
  have "same_files k0 k \<longrightarrow> disk_ok disk \<longrightarrow> returns (\<lambda>(r, k'). same_files k0 k') m"
  proof (rule wait_char.raw_induct[where P = "\<lambda>disk k m. same_files k0 k \<longrightarrow> disk_ok disk \<longrightarrow> returns (\<lambda>(r, k'). same_files k0 k') m", OF _ run], intro impI)
    fix f disk k m
    assume IH: "\<And>disk k m. f disk k = Some m \<Longrightarrow> same_files k0 k \<longrightarrow> disk_ok disk \<longrightarrow> returns (\<lambda>(r, k'). same_files k0 k') m"
      and eq: "(case sh_getchar disk k of Inl e \<Rightarrow> Some (Inl e) | Inr r \<Rightarrow> if fst r = 0 then f disk (snd r) else Some (Inr r)) = Some m"
      and here: "same_files k0 k" "disk_ok disk"
    from wrapper_same(7)[OF here] eq IH[of disk "snd (projr (sh_getchar disk k))" m] here(2) show "returns (\<lambda>(r, k'). same_files k0 k') m"
      by (auto simp: returns_def split: sum.splits if_splits)
  qed
  with assms show ?thesis by blast
qed

lemma read_line_same:
  assumes disk: "disk_ok disk" and "same_files k0 k" and run: "read_line disk im pos k = Some m"
  shows "returns (same_files k0) m"
proof -
  have "same_files k0 k \<longrightarrow> disk_ok disk \<longrightarrow> returns (same_files k0) m"
  proof (rule read_line.raw_induct[where P = "\<lambda>disk im pos k m. same_files k0 k \<longrightarrow> disk_ok disk \<longrightarrow> returns (same_files k0) m", OF _ run], intro impI)
    fix f disk im pos k m
    assume IH: "\<And>disk im pos k m. f disk im pos k = Some m \<Longrightarrow> same_files k0 k \<longrightarrow> disk_ok disk \<longrightarrow> returns (same_files k0) m"
      and eq: "(case wait_char disk k of None \<Rightarrow> None | Some (Inl e) \<Rightarrow> Some (Inl e) | Some (Inr r) \<Rightarrow>
          if fst r = 10 \<or> fst r = 13 then Some (sh_store (line_adr im + pos) 0 (snd r))
          else if fst r = 8 \<or> fst r = 127 then
            (if sint pos > 0 then (case sh_print disk (lit im [8, 32, 8]) (snd r) of Inl e \<Rightarrow> Some (Inl e) | Inr k \<Rightarrow> f disk im (pos - 1) k)
             else f disk im pos (snd r))
          else if sint pos < 128 - 1 then
            (case sh_store (line_adr im + pos) (ucast (fst r)) (snd r) of Inl e \<Rightarrow> Some (Inl e) | Inr k \<Rightarrow> f disk im (pos + 1) k)
          else f disk im pos (snd r)) = Some m"
      and here: "same_files k0 k" "disk_ok disk"
    obtain w where w: "wait_char disk k = Some w" using eq by (auto split: option.splits)
    show "returns (same_files k0) m"
    proof (cases w)
      case (Inl e)
      with eq w show ?thesis by auto
    next
      case (Inr r)
      have k1: "same_files k0 (snd r)" using wait_char_same[OF here(2,1) w] Inr by (cases r) simp
      have p: "same_files k0 k'" if "sh_print disk (lit im [8, 32, 8]) (snd r) = Inr k'" for k' using wrapper_same(1)[OF k1 here(2)] that by (simp add: returns_def)
      have s: "same_files k0 k'" if "sh_store a v (snd r) = Inr k'" for a v k' using sh_store_same[OF k1] that by (simp add: returns_def)
      show ?thesis using eq[unfolded w option.case Inr sum.case] IH k1 here(2) p s sh_store_same[OF k1]
        by (simp split: if_splits sum.splits) (metis returns_Inl)+
    qed
  qed
  with assms show ?thesis by blast
qed


lemma shell_turn_same:
  assumes disk: "disk_ok disk" and "same_files k0 k" and run: "shell_turn disk im k = Some m"
  shows "returns (same_files k0) m"
proof -
  let ?pre = "bindo (sh_setcolor disk 0x0A k) (\<lambda>k. bindo (sh_print disk (lit im (cstr ''pepinos$ '')) k) (sh_setcolor disk 0x0F))"
  let ?post = "\<lambda>k. bindo (sh_print disk (lit im [10]) k) (\<lambda>k. bindo (sh_setcolor disk 0x07 k) (execute disk im (line_adr im)))"
  have pre: "returns (same_files k0) ?pre" by (intro same_rules assms(2) disk)
  show ?thesis
  proof (cases ?pre)
    case (Inl e)
    with run show ?thesis by (auto simp: shell_turn_def)
  next
    case (Inr k1)
    then obtain r where r: "read_line disk im 0 k1 = Some r" "m = bindo r ?post" using run by (auto simp: shell_turn_def)
    have "same_files k0 k1" using pre Inr by (simp add: returns_def)
    from read_line_same[OF disk this r(1)] show ?thesis unfolding r(2)
      by (rule seq_same) (intro same_rules execute_same disk)
  qed
qed

text \<open>The same for a session: the steps of the loop and the keys that arrive between them.\<close>

lemma key_arrives_same: "kernel_inv k \<Longrightarrow> same_files k (key_arrives sc k)"
proof -
  assume inv: "kernel_inv k"
  obtain kb d s where h: "keyboard_handler sc (kn_kb k, kn_screen k, kn_sched k) = (kb, d, s)" using prod_cases3 by blast
  have kept: "kb_inv kb" "sched_inv s" "t_files (task_pool s ! i) = t_files (task_pool (kn_sched k) ! i)" for i
    using keyboard_keeps[OF h] inv by (auto simp: kernel_inv_def)
  have "length (task_pool s) = length (task_pool (kn_sched k))" using kept(2) inv by (simp add: kernel_inv_def sched_inv_def)
  moreover have f: "cur_file s i j = cur_file (kn_sched k) i j" for i j using kept(3) by simp
  ultimately have "open_fds s = open_fds (kn_sched k)" unfolding open_fds_def by (simp only: f)
  with f show ?thesis using inv kept files_ok_same[of "kn_sched k" s] keyboard_current[OF h]
    by (simp add: same_files_def key_arrives_def h kernel_inv_def)
qed

abbreviation phase_same :: "kernel \<Rightarrow> (phase \<times> kernel) outcome \<Rightarrow> bool" where
  "phase_same k0 \<equiv> returns (\<lambda>(p, k). same_files k0 k)"

lemma edit_char_same: "same_files k0 k \<Longrightarrow> disk_ok disk \<Longrightarrow> phase_same k0 (edit_char disk im c pos k)"
  unfolding edit_char_def by (auto intro!: returns_bind[OF sh_store_same] returns_bind[OF wrapper_same(1)])

lemma shell_step_same:
  assumes here: "same_files k0 k" and disk: "disk_ok disk"
  shows "phase_same k0 (shell_step disk im (p, k))"
proof (cases p)
  case At_Prompt
  have "returns (same_files k0) (bindo (sh_setcolor disk 0x0A k) (\<lambda>k. bindo (sh_print disk (lit im (cstr ''pepinos$ '')) k) (sh_setcolor disk 0x0F)))"
    by (intro same_rules here disk)
  then show ?thesis unfolding At_Prompt shell_step.simps by (rule returns_bind) simp
next
  case (Editing pos)
  show ?thesis unfolding Editing shell_step.simps
    by (rule returns_bind[OF wrapper_same(7)[OF here disk]]) (auto intro: edit_char_same disk)
next
  case Running
  have "returns (same_files k0) (bindo (sh_print disk (lit im [10]) k) (\<lambda>k. bindo (sh_setcolor disk 0x07 k) (execute disk im (line_adr im))))"
    by (intro same_rules execute_same here disk)
  then have "phase_same k0 (bindo (bindo (sh_print disk (lit im [10]) k) (\<lambda>k. bindo (sh_setcolor disk 0x07 k) (execute disk im (line_adr im)))) (\<lambda>k. Inr (At_Prompt, k)))"
    by (rule returns_bind) simp
  then show ?thesis by (simp add: Running bindo_assoc)
qed

lemma shell_event_same: "same_files k0 k \<Longrightarrow> disk_ok disk \<Longrightarrow> phase_same k0 (shell_event disk im e (p, k))"
  by (cases e) (auto intro: shell_step_same same_files_trans key_arrives_same same_files_inv)

lemma shell_session_same: "same_files k0 k \<Longrightarrow> disk_ok disk \<Longrightarrow> phase_same k0 (shell_session disk im es (p, k))"
proof (induction es arbitrary: p k)
  case (Cons e es)
  show ?case unfolding shell_session.simps
    by (rule returns_bind[OF shell_event_same[OF Cons.prems]]) (use Cons in auto)
qed simp

text \<open>A session in which no key arrives is the loop as it is written: \<open>read_line\<close> and \<open>shell_turn\<close>.\<close>

lemma shell_session_append:
  "shell_session disk im (es @ fs) s = bindo (shell_session disk im es s) (shell_session disk im fs)"
proof (induction es arbitrary: s)
  case (Cons e es)
  then have "shell_session disk im (es @ fs) = (\<lambda>s. bindo (shell_session disk im es s) (shell_session disk im fs))" by blast
  then show ?case by (simp add: bindo_assoc)
qed simp

definition goes :: "disk \<Rightarrow> image \<Rightarrow> phase \<times> kernel \<Rightarrow> phase \<times> kernel \<Rightarrow> bool" where
  "goes disk im s s' \<longleftrightarrow> (\<exists>n. shell_session disk im (replicate n Go) s = Inr s')"

lemma goes_refl: "goes disk im s s"
  unfolding goes_def by (rule exI[of _ 0]) simp

lemma goes_step: "shell_step disk im s = Inr s1 \<Longrightarrow> goes disk im s1 s' \<Longrightarrow> goes disk im s s'"
proof -
  assume step: "shell_step disk im s = Inr s1" and "goes disk im s1 s'"
  then obtain n where "shell_session disk im (replicate n Go) s1 = Inr s'" unfolding goes_def by blast
  then show "goes disk im s s'" unfolding goes_def using step by (intro exI[of _ "Suc n"]) simp
qed

lemma goes_last: "shell_step disk im s = Inr s' \<Longrightarrow> goes disk im s s'"
  by (erule goes_step) (rule goes_refl)

lemma goes_trans: "goes disk im s s1 \<Longrightarrow> goes disk im s1 s2 \<Longrightarrow> goes disk im s s2"
  unfolding goes_def by (metis (no_types) bindo.simps(2) replicate_add shell_session_append)

lemma wait_char_goes:
  assumes "wait_char disk k = Some (Inr r)"
  shows "\<exists>k1. goes disk im (Editing pos, k) (Editing pos, k1) \<and> sh_getchar disk k1 = Inr r \<and> fst r \<noteq> 0"
proof -
  have "m = Inr r \<longrightarrow> ?thesis" if "wait_char disk k = Some m" for m
  proof (rule wait_char.raw_induct[where P = "\<lambda>disk k m. m = Inr r \<longrightarrow>
      (\<exists>k1. goes disk im (Editing pos, k) (Editing pos, k1) \<and> sh_getchar disk k1 = Inr r \<and> fst r \<noteq> 0)", OF _ that], intro impI)
    fix f disk k m
    assume IH: "\<And>disk k m. f disk k = Some m \<Longrightarrow> m = Inr r \<longrightarrow>
        (\<exists>k1. goes disk im (Editing pos, k) (Editing pos, k1) \<and> sh_getchar disk k1 = Inr r \<and> fst r \<noteq> 0)"
      and eq: "(case sh_getchar disk k of Inl e \<Rightarrow> Some (Inl e) | Inr r \<Rightarrow> if fst r = 0 then f disk (snd r) else Some (Inr r)) = Some m" "m = Inr r"
    obtain r1 where r1: "sh_getchar disk k = Inr r1" using eq by (cases "sh_getchar disk k") auto
    show "\<exists>k1. goes disk im (Editing pos, k) (Editing pos, k1) \<and> sh_getchar disk k1 = Inr r \<and> fst r \<noteq> 0"
    proof (cases "fst r1 = 0")
      case True
      then obtain k1 where "goes disk im (Editing pos, snd r1) (Editing pos, k1)" "sh_getchar disk k1 = Inr r" "fst r \<noteq> 0"
        using eq r1 IH[of disk "snd r1" m] by auto
      moreover have "shell_step disk im (Editing pos, k) = Inr (Editing pos, snd r1)" by (simp add: r1 True edit_char_def)
      ultimately show ?thesis using goes_step by blast
    next
      case False
      with eq r1 have "sh_getchar disk k = Inr r \<and> fst r \<noteq> 0" by auto
      then show ?thesis using goes_refl[of disk im "(Editing pos, k)"] by blast
    qed
  qed
  with assms show ?thesis by blast
qed

lemma read_line_goes:
  assumes "read_line disk im pos k = Some (Inr k')"
  shows "goes disk im (Editing pos, k) (Running, k')"
proof -
  have "m = Inr k' \<longrightarrow> goes disk im (Editing pos, k) (Running, k')" if "read_line disk im pos k = Some m" for m
  proof (rule read_line.raw_induct[where P = "\<lambda>disk im pos k m. m = Inr k' \<longrightarrow> goes disk im (Editing pos, k) (Running, k')", OF _ that], intro impI)
    fix f disk im pos k m
    assume IH: "\<And>disk im pos k m. f disk im pos k = Some m \<Longrightarrow> m = Inr k' \<longrightarrow> goes disk im (Editing pos, k) (Running, k')"
      and eq: "(case wait_char disk k of None \<Rightarrow> None | Some (Inl e) \<Rightarrow> Some (Inl e) | Some (Inr r) \<Rightarrow>
          if fst r = 10 \<or> fst r = 13 then Some (sh_store (line_adr im + pos) 0 (snd r))
          else if fst r = 8 \<or> fst r = 127 then
            (if sint pos > 0 then (case sh_print disk (lit im [8, 32, 8]) (snd r) of Inl e \<Rightarrow> Some (Inl e) | Inr k \<Rightarrow> f disk im (pos - 1) k)
             else f disk im pos (snd r))
          else if sint pos < 128 - 1 then
            (case sh_store (line_adr im + pos) (ucast (fst r)) (snd r) of Inl e \<Rightarrow> Some (Inl e) | Inr k \<Rightarrow> f disk im (pos + 1) k)
          else f disk im pos (snd r)) = Some m" "m = Inr k'"
    obtain r where r: "wait_char disk k = Some (Inr r)" using eq by (auto split: option.splits sum.splits)
    obtain k1 where k1: "goes disk im (Editing pos, k) (Editing pos, k1)" "sh_getchar disk k1 = Inr r" "fst r \<noteq> 0"
      using wait_char_goes[OF r] by blast
    have "goes disk im (Editing pos, k1) (Running, k')"
    proof (cases "fst r = 10 \<or> fst r = 13")
      case True
      then show ?thesis using eq r k1 by (intro goes_last) (simp add: edit_char_def)
    next
      case False
      then obtain p k2 where "edit_char disk im (fst r) pos (snd r) = Inr (Editing p, k2)" "f disk im p k2 = Some (Inr k')"
        using eq r k1(3) by (auto simp: edit_char_def split: if_splits sum.splits)
      then show ?thesis using k1(2) IH by (intro goes_step[of disk im "(Editing pos, k1)" "(Editing p, k2)"]) auto
    qed
    with k1(1) show "goes disk im (Editing pos, k) (Running, k')" by (rule goes_trans)
  qed
  with assms show ?thesis by blast
qed

lemma shell_turn_goes:
  assumes "shell_turn disk im k = Some (Inr k')"
  shows "goes disk im (At_Prompt, k) (At_Prompt, k')"
proof -
  let ?pre = "bindo (sh_setcolor disk 0x0A k) (\<lambda>k. bindo (sh_print disk (lit im (cstr ''pepinos$ '')) k) (sh_setcolor disk 0x0F))"
  obtain k1 where k1: "?pre = Inr k1" using assms unfolding shell_turn_def by (cases ?pre) (simp_all add: sum.case)
  obtain r where r: "read_line disk im 0 k1 = Some r"
    "bindo r (\<lambda>k. bindo (sh_print disk (lit im [10]) k) (\<lambda>k. bindo (sh_setcolor disk 0x07 k) (execute disk im (line_adr im)))) = Inr k'"
    using assms unfolding shell_turn_def k1 sum.case map_option_eq_Some by blast
  obtain k2 where k2: "r = Inr k2" using r(2) by (cases r) simp_all
  have t: "shell_step disk im (At_Prompt, k) = Inr (Editing 0, k1)" "read_line disk im 0 k1 = Some (Inr k2)"
    "shell_step disk im (Running, k2) = Inr (At_Prompt, k')"
    using k1 r k2 by simp_all
  show ?thesis using goes_step[OF t(1) goes_trans[OF read_line_goes[OF t(2)] goes_last[OF t(3)]]] .
qed

lemma shell_init_same: "same_files k0 k \<Longrightarrow> disk_ok disk \<Longrightarrow> returns (same_files k0) (shell_init disk im k)"
  unfolding shell_init_def by (intro same_rules)

section \<open>Starting up\<close>

definition with_handlers :: "image \<Rightarrow> task \<Rightarrow> task" where
  "with_handlers im t = t\<lparr>t_sig_handlers := (t_sig_handlers t)[2 := on_sigint im, 10 := on_sigusr1 im, 15 := on_sigterm im]\<rparr>"

lemma sigaction_at:
  assumes "cur_task (kn_sched k) = Some n" and "0 < sint sig" "sint sig < 32"
  shows "sh_sigaction disk sig h k = Inr (k\<lparr>kn_sched := update_task n (\<lambda>t. t\<lparr>t_sig_handlers := (t_sig_handlers t)[unat sig := h]\<rparr>) (kn_sched k)\<rparr>)"
  using assms by (simp add: sh_sigaction_def int30_eq sys_sigaction_def sched_current_task_def)

lemma shell_init_at:
  assumes cur: "cur_task (kn_sched k) = Some n" and lits: "\<forall>w \<in> set init_words. ustr (kn_cpu k) (lit im w) w"
  shows "\<exists>d. shell_init disk im k = Inr (k\<lparr>kn_sched := update_task n (with_handlers im) (kn_sched k), kn_screen := d\<rparr>)"
proof -
  let ?k = "k\<lparr>kn_sched := update_task n (with_handlers im) (kn_sched k)\<rparr>"
  let ?w1 = "[10] @ cstr ''  PepinOS Shell  (paso 24 - senales POSIX)'' @ [10]" and ?ws = "tl init_words"
  have wh: "with_handlers im = (\<lambda>t. t\<lparr>t_sig_handlers := (t_sig_handlers t)[2 := on_sigint im, 10 := on_sigusr1 im, 15 := on_sigterm im]\<rparr>)"
    by (rule ext) (rule with_handlers_def)
  have sa: "bindo (sh_sigaction disk 2 (on_sigint im) k) (\<lambda>k. bindo (sh_sigaction disk 10 (on_sigusr1 im) k) (\<lambda>k. bindo (sh_sigaction disk 15 (on_sigterm im) k) f)) = f ?k" for f
    using cur by (simp add: sigaction_at update_task_twice wh)
  have p1: "sh_print disk (lit im ?w1) (?k\<lparr>kn_screen := d\<rparr>) = Inr (?k\<lparr>kn_screen := print ?w1 (set_kattr 0x0F d)\<rparr>)" for d
    using sh_print_at[of "?k\<lparr>kn_screen := d\<rparr>" "lit im ?w1" ?w1 disk] lits by (simp add: init_words_def del: print.simps)
  let ?ss = "map (\<lambda>w. (lit im w, w)) ?ws"
  have p2: "sh_prints disk (map (lit im) ?ws) (?k\<lparr>kn_screen := d\<rparr>) = Inr (?k\<lparr>kn_screen := print (concat ?ws) (set_kattr 0x0F d)\<rparr>)" for d
    using sh_prints_at[of ?ss "?k\<lparr>kn_screen := d\<rparr>" disk] lits by (simp add: init_words_def comp_def del: sh_prints.simps print.simps)
  show ?thesis unfolding shell_init_def sa using p1 p2[unfolded init_words_def list.sel]
    by (simp add: sh_setcolor_eq del: sh_prints.simps print.simps) blast
qed

text \<open>The sample program finds its messages and starts.\<close>

lemma sample_lits: "\<forall>w \<in> set init_words. ustr (kn_cpu (shell_kernel cs)) (lit sample_image w) w" "sigint_text \<in> set sample_texts"
  using sample_ustr by (auto simp: sample_texts_def)

lemma sample_starts: "\<exists>d. shell_init sample_disk sample_image (shell_kernel cs) =
    Inr ((shell_kernel cs)\<lparr>kn_sched := update_task 0 (with_handlers sample_image) two_tasks, kn_screen := d\<rparr>)"
  using shell_init_at[of "shell_kernel cs" 0 sample_image sample_disk] sample_lits(1) by (simp add: two_tasks_state)

text \<open>A session can be of any length: between the rounds somebody presses Enter.\<close>

definition idle_shell :: "kernel \<Rightarrow> bool" where
  "idle_shell k \<longleftrightarrow> user_space 0x100000 {0x40000000} (kn_cpu k) \<and> shell_image (in_pages {0x40000000}) sample_image (kn_cpu k) \<and>
     kb_inv (kn_kb k) \<and> kb_queue (kn_kb k) = []"

lemma enter_round:
  assumes idle: "idle_shell k"
  shows "\<exists>k'. goes sample_disk sample_image (At_Prompt, key_arrives 0x1C k) (At_Prompt, k') \<and> idle_shell k'"
proof -
  let ?k = "key_arrives 0x1C k"
  have "key_arrives 0x1C k = k\<lparr>kn_kb := kb_put 10 (kn_kb k), kn_screen := putcar 10 (set_kattr 0x0F (kn_screen k))\<rparr>"
    by (simp add: key_arrives_def handler_key[of "0x1C" 10] key_char_def kbmap_def cstr_def)
  then have "user_space 0x100000 {0x40000000} (kn_cpu ?k)" "shell_image (in_pages {0x40000000}) sample_image (kn_cpu ?k)"
    "kb_inv (kn_kb ?k)" "kb_queue (kn_kb ?k) = [] @ 10 # []"
    using idle by (simp_all add: idle_shell_def kb_inv_put kb_queue_put)
  from loader.shell_turn_runs[OF this(1,3,2,4), of sample_disk] obtain k1 r where
    "line_read (user_space 0x100000 {0x40000000}) (in_pages {0x40000000}) sample_image [] [] ?k k1"
    "shell_turn sample_disk sample_image ?k = Some r" "r = Inr k1"
    by (auto simp: performs_def parse_def)
  then have "goes sample_disk sample_image (At_Prompt, ?k) (At_Prompt, k1) \<and> idle_shell k1"
    using shell_turn_goes by (auto simp: line_read_def idle_shell_def)
  then show ?thesis by blast
qed

lemma enter_session:
  "idle_shell k \<Longrightarrow> \<exists>es k'. length (filter (\<lambda>e. e = Key 0x1C) es) = n \<and> shell_session sample_disk sample_image es (At_Prompt, k) = Inr (At_Prompt, k')"
proof (induction n arbitrary: k)
  case 0
  show ?case by (intro exI[of _ "[]"]) simp
next
  case (Suc n)
  obtain k1 m where k1: "shell_session sample_disk sample_image (replicate m Go) (At_Prompt, key_arrives 0x1C k) = Inr (At_Prompt, k1)" "idle_shell k1"
    using enter_round[OF Suc.prems] unfolding goes_def by blast
  obtain es k' where es: "length (filter (\<lambda>e. e = Key 0x1C) es) = n" "shell_session sample_disk sample_image es (At_Prompt, k1) = Inr (At_Prompt, k')"
    using Suc.IH[OF k1(2)] by blast
  show ?case by (intro exI[of _ "Key 0x1C # replicate m Go @ es"] exI[of _ k']) (simp add: shell_session_append k1(1) es)
qed

section \<open>Properties\<close>

text \<open>C12: The shell leaks nothing. Whatever keys arrive, any number of them, before a step of the loop or while it waits for a
  character, and whatever is on the disk: in every state a session reaches (at the prompt, in the
  middle of a line, about to run one) the kernel's invariant holds, and the descriptors open are those that were open before
  the shell started, each on its node, with no other node in use. A session in which a call faults or does not come back reaches no further state;
  ticks, and with them signal handlers and other tasks, are no part of it, nor are keys in the middle of a command.\<close>

theorem shell_leaks_nothing:
  assumes "kernel_inv k" and "disk_ok disk" and "shell_start disk im es k = Inr (p, k')"
  shows "kernel_inv k' \<and> open_fds (kn_sched k') = open_fds (kn_sched k) \<and> used_nodes (kn_nodes k') = used_nodes (kn_nodes k) \<and>
    (\<forall>i j. (i, j) \<in> open_fds (kn_sched k) \<longrightarrow> fd_node (cur_file (kn_sched k') i j) = fd_node (cur_file (kn_sched k) i j))"
proof -
  obtain k1 where k1: "shell_init disk im k = Inr k1" "shell_session disk im es (At_Prompt, k1) = Inr (p, k')"
    using assms(3) by (auto simp: shell_start_def)
  have "same_files k k1" using shell_init_same[OF same_files_refl[OF assms(1)] assms(2), of im] k1(1) by (simp add: returns_def)
  from shell_session_same[OF this assms(2), of im es At_Prompt] k1(2) show ?thesis by (simp add: same_files_def)
qed

theorem shell_leaks_nothing_witness:
  "\<exists>es k1. length (filter (\<lambda>e. e = Key 0x1C) es) = 1000 \<and> shell_start sample_disk sample_image es (shell_kernel []) = Inr (At_Prompt, k1) \<and>
     kernel_inv k1 \<and> open_fds (kn_sched k1) = {}"
proof -
  obtain d where i: "shell_init sample_disk sample_image (shell_kernel []) =
      Inr ((shell_kernel [])\<lparr>kn_sched := update_task 0 (with_handlers sample_image) two_tasks, kn_screen := d\<rparr>)" using sample_starts by blast
  let ?k = "(shell_kernel [])\<lparr>kn_sched := update_task 0 (with_handlers sample_image) two_tasks, kn_screen := d\<rparr>"
  have "idle_shell ?k" using sample_page(1) sample_shell_image typed[of "[]"] by (simp add: idle_shell_def)
  from enter_session[OF this, of 1000] obtain es k1 where es: "length (filter (\<lambda>e. e = Key 0x1C) es) = 1000"
    "shell_session sample_disk sample_image es (At_Prompt, ?k) = Inr (At_Prompt, k1)" by blast
  have "shell_start sample_disk sample_image es (shell_kernel []) = Inr (At_Prompt, k1)" by (simp add: shell_start_def i es)
  with shell_leaks_nothing[OF shell_kernel_inv sample_disk_ok this] es(1) show ?thesis by (auto simp: two_tasks_files)
qed

end
