(* ===== verification/Shell_Signals.thy ===== *)
theory Shell_Signals
  imports Shell_Files
begin

text \<open>
  Ctrl+C and the shell, across the kernel: the key press that makes SIGINT pending for the shell's
  task, the switch that delivers it on the shell's stack, the shell's handler as ring-3 code and the
  system call that ends it. The shell is resumed where it was interrupted.
\<close>

section \<open>Ctrl+C\<close>

lemma ctrl_c_keys:
  "keyboard_handler 0x2E (keyboard_handler 0x1D (kb, d, s)) =
     (kb\<lparr>ctrl_held := True\<rparr>, print (cstr ''^C'' @ [10]) (set_kattr 0x0C d), sched_signal (int SIGINT) s)"
proof -
  have "key_char 0x2E = Some (of_char (CHR ''c''))" by (simp add: key_char_def kbmap_def cstr_def of_char_def)
  from handler_ctrl_c[OF this, of "kb\<lparr>ctrl_held := True\<rparr>" d s] show ?thesis by (simp add: keyboard_handler_def[of "0x1D"])
qed

lemma pending_sigint: "pending_signal 4 = 2"
proof -
  have u: "[1..<32] = 1 # 2 # [3..<32::nat]" by (simp add: upt_conv_Cons)
  show ?thesis unfolding pending_signal_def u by simp
qed

lemma sigreturn_frame:
  assumes "cur_task (kn_sched k) = Some n" and "n < length (task_pool (kn_sched k))" and "t_sig_in_handler (task_pool (kn_sched k) ! n)"
    and "t_sig_saved_regs (task_pool (kn_sched k) ! n) = ctx" and "length ctx = 13" and "length frame = 9"
  shows "\<exists>frame'. sh_sigreturn disk frame k = Inr (0, frame', k\<lparr>kn_sched := update_task n (\<lambda>t. t\<lparr>t_sig_in_handler := False\<rparr>) (kn_sched k)\<rparr>) \<and>
    drop 4 frame' = drop 8 ctx"
proof -
  obtain a b c d e f g h i where f: "frame = [a, b, c, d, e, f, g, h, i]"
    using assms(6) by (auto simp: length_Suc_conv numeral_eq_Suc)
  have "drop 8 ctx = [ctx ! 8, ctx ! 9, ctx ! 10, ctx ! 11, ctx ! 12]"
    using assms(5) by (intro nth_equalityI) (auto simp: less_Suc_eq numeral_eq_Suc)
  then show ?thesis using assms(1-4)
    by (simp add: sh_sigreturn_def syscall_handler_def sys_sigreturn_def sched_current_task_def Let_def f)
qed

lemma sigint_handler_resumes:
  assumes "cur_task (kn_sched k) = Some n" and "n < length (task_pool (kn_sched k))" and "t_sig_in_handler (task_pool (kn_sched k) ! n)"
    and "t_sig_saved_regs (task_pool (kn_sched k) ! n) = ctx" and "length ctx = 13" and "length frame = 9"
    and msg: "ustr (kn_cpu k) (lit im sigint_text) sigint_text"
  shows "\<exists>frame'. sigint_handler disk im frame k = Inr (0, frame', k\<lparr>kn_screen := print sigint_text (set_kattr 0x0F (kn_screen k)),
      kn_sched := update_task n (\<lambda>t. t\<lparr>t_sig_in_handler := False\<rparr>) (kn_sched k)\<rparr>) \<and> drop 4 frame' = drop 8 ctx"
proof -
  let ?k = "k\<lparr>kn_screen := print sigint_text (set_kattr 0x0F (kn_screen k))\<rparr>"
  obtain frame' where f: "sh_sigreturn disk frame ?k = Inr (0, frame', ?k\<lparr>kn_sched := update_task n (\<lambda>t. t\<lparr>t_sig_in_handler := False\<rparr>) (kn_sched ?k)\<rparr>)"
    "drop 4 frame' = drop 8 ctx" using sigreturn_frame[of ?k n ctx frame disk] assms(1-6) by auto
  have "bindo (sh_setcolor disk 0x0C k) (\<lambda>k. bindo (sh_print disk (lit im sigint_text) k) f) = bindo (bindo (sh_setcolor disk 0x0C k) (sh_print disk (lit im sigint_text))) f" for f :: "kernel \<Rightarrow> (u32 \<times> u32 list \<times> kernel) outcome"
    by (simp add: bindo_assoc)
  then have "sigint_handler disk im frame k = sh_sigreturn disk frame ?k"
    unfolding sigint_handler_def sigint_text_def[symmetric] setcolor_print sh_print_at[OF msg] by (simp add: setcolor_print sh_print_at[OF msg])
  with f show ?thesis by simp
qed

lemma user_space_deliver:
  assumes us: "user_space pd V c" and del: "deliverable (task_pool s ! n)" "length (t_sig_saved_regs (task_pool s ! n)) = 13" and len: "length ctx = 13"
    and stack: "\<forall>i<8. ctx ! 11 - 8 + of_nat i \<in> in_pages V"
  defines "sig \<equiv> pending_signal (t_sig_pending (task_pool s ! n))"
  shows "\<exists>c'. deliver_signal n ctx s c = Inr (handler_ctx (t_sig_handlers (task_pool s ! n) ! sig) ctx, update_task n (enter_handler sig ctx) s, c') \<and>
    user_space pd V c' \<and> (\<forall>b \<in> in_pages V. \<not> in_buffer (ctx ! 11 - 8) 8 b \<longrightarrow> uld8 b c' = uld8 b c)"
proof -
  let ?a = "ctx ! 11 - 8"
  have own: "?a + of_nat i \<in> in_pages V" if "i < 8" for i using stack that by blast
  have ad: "ctx ! 11 - 4 = ?a + of_nat 4" "?a + of_nat 4 + 1 = ?a + of_nat 5" "?a + of_nat 4 + 2 = ?a + of_nat 6" "?a + of_nat 4 + 3 = ?a + of_nat 7"
    "?a = ?a + of_nat 0" "?a + 1 = ?a + of_nat 1" "?a + 2 = ?a + of_nat 2" "?a + 3 = ?a + of_nat 3" by simp_all
  have hi: "?a + of_nat 4 \<in> in_pages V" "?a + of_nat 4 + 1 \<in> in_pages V" "?a + of_nat 4 + 2 \<in> in_pages V" "?a + of_nat 4 + 3 \<in> in_pages V"
    unfolding ad(2-4) by (rule own, simp)+
  have lo: "?a \<in> in_pages V" "?a + 1 \<in> in_pages V" "?a + 2 \<in> in_pages V" "?a + 3 \<in> in_pages V"
    using own[of 0] own[of 1] own[of 2] own[of 3] by simp_all
  obtain c1 where c1: "kst32 (ctx ! 11 - 4) (of_nat sig) c = Inr c1" "user_space pd V c1"
    "\<forall>b \<in> in_pages V - {?a + of_nat 4, ?a + of_nat 4 + 1, ?a + of_nat 4 + 2, ?a + of_nat 4 + 3}. uld8 b c1 = uld8 b c"
    using user_space_kst32[OF us hi] unfolding ad(1) by blast
  obtain c2 where c2: "kst32 ?a 0 c1 = Inr c2" "user_space pd V c2" "\<forall>b \<in> in_pages V - {?a, ?a + 1, ?a + 2, ?a + 3}. uld8 b c2 = uld8 b c1"
    using user_space_kst32[OF c1(2) lo] by blast
  have "uld8 b c2 = uld8 b c" if "b \<in> in_pages V" "\<not> in_buffer ?a 8 b" for b
  proof -
    have ne: "b \<noteq> ?a + of_nat i" if "i < 8" for i using \<open>\<not> in_buffer ?a 8 b\<close> that by (auto simp: in_buffer_def)
    have "b \<notin> {?a, ?a + 1, ?a + 2, ?a + 3}" using ne[of 0] ne[of 1] ne[of 2] ne[of 3] by simp
    moreover have "b \<notin> {?a + of_nat 4, ?a + of_nat 4 + 1, ?a + of_nat 4 + 2, ?a + of_nat 4 + 3}"
      unfolding ad(2-4) using ne[of 4] ne[of 5] ne[of 6] ne[of 7] by simp
    ultimately show ?thesis using c1(3) c2(3) that(1) by simp
  qed
  then show ?thesis using c2(2) deliver_signal_some[OF del(1) len del(2), of c] c1(1) c2(1) by (auto simp: sig_def)
qed

lemma ctrl_c_task:
  assumes inv: "sched_inv s0" and cur: "cur_task s0 = Some n" and quiet: "t_sig_pending (task_pool s0 ! n) = 0" "\<not> t_sig_in_handler (task_pool s0 ! n)"
    and h: "on_sigint im \<noteq> 0"
    and t: "t = (task_pool (sched_signal (int SIGINT) (update_task n (with_handlers im) s0)) ! n)\<lparr>t_regs := ctx, t_cr3 := cr3\<rparr>"
  shows "deliverable t" "t_sig_pending t = 4" "t_sig_handlers t ! 2 = on_sigint im" "length (t_sig_saved_regs t) = 13"
proof -
  have lt: "n < 8" "n < length (task_pool s0)" using current_lt[OF inv cur] by simp_all
  have ok: "task_ok (task_pool s0 ! n)" using task_okD[OF inv lt(1)] .
  have t: "t = (with_handlers im (task_pool s0 ! n))\<lparr>t_sig_pending := 4, t_regs := ctx, t_cr3 := cr3\<rparr>"
    using cur quiet lt(2) by (simp add: t sched_signal_def update_task_twice update_task_nth with_handlers_def)
  show f: "t_sig_pending t = 4" "t_sig_handlers t ! 2 = on_sigint im" "length (t_sig_saved_regs t) = 13"
    using ok by (simp_all add: t with_handlers_def task_ok_def)
  then show "deliverable t" using h quiet(2) by (simp add: deliverable_def pending_sigint) (simp add: t with_handlers_def)
qed

text \<open>The state in which a handler has been entered for \<open>ctx\<close>, and the state its end leaves.\<close>

definition in_sigint :: "image \<Rightarrow> nat \<Rightarrow> u32 list \<Rightarrow> kernel \<Rightarrow> bool" where
  "in_sigint im n ctx k \<longleftrightarrow> cur_task (kn_sched k) = Some n \<and> n < length (task_pool (kn_sched k)) \<and>
     (let t = task_pool (kn_sched k) ! n in t_sig_in_handler t \<and> t_sig_saved_regs t = ctx \<and> t_sig_pending t = 0 \<and> t_sig_handlers t ! 2 = on_sigint im)"

lemma sigint_entered:
  assumes later: "sched_inv s" "cur_task s = Some n" and len: "length ctx = 13"
    and t: "deliverable (task_pool s ! n)" "t_sig_pending (task_pool s ! n) = 4" "t_sig_handlers (task_pool s ! n) ! 2 = on_sigint im"
      "length (t_sig_saved_regs (task_pool s ! n)) = 13"
    and us: "user_space pd V c" and stack: "\<forall>i<8. ctx ! 11 - 8 + of_nat i \<in> in_pages V"
    and mw: "holds_text (in_pages V) (in_buffer (ctx ! 11 - 8) 8) im c sigint_text"
  shows "\<exists>ctx' s1 c1. deliver_signal n ctx s c = Inr (ctx', s1, c1) \<and> ctx' ! 8 = on_sigint im \<and> ctx' ! 11 = ctx ! 11 - 8 \<and>
    user_space pd V c1 \<and> ustr c1 (lit im sigint_text) sigint_text \<and> (\<forall>k. kn_sched k = s1 \<longrightarrow> in_sigint im n ctx k)"
proof -
  obtain c1 where c1: "deliver_signal n ctx s c = Inr (handler_ctx (on_sigint im) ctx, update_task n (enter_handler 2 ctx) s, c1)" "user_space pd V c1"
    "\<forall>b \<in> in_pages V. \<not> in_buffer (ctx ! 11 - 8) 8 b \<longrightarrow> uld8 b c1 = uld8 b c"
    using user_space_deliver[OF us t(1,4) len stack] unfolding t(2) pending_sigint t(3) by blast
  have "ustr c1 (lit im sigint_text) sigint_text" using holds_text_cong[OF mw c1(3)] by (simp add: holds_text_def)
  moreover have "in_sigint im n ctx k" if "kn_sched k = update_task n (enter_handler 2 ctx) s" for k
    using current_lt[OF later] later(2) t(2,3) by (simp add: in_sigint_def that update_task_nth enter_handler_def)
  ultimately show ?thesis using c1(1,2) len by (simp add: handler_ctx_def)
qed

section \<open>Properties\<close>

text \<open>C10: Ctrl+C reaches the shell and leaves no trace in it: once the shell has started, pressing Ctrl and C makes SIGINT
  pending for it and queues no key; when the shell is next resumed, with context \<open>ctx\<close>, it is in its
  handler instead. The handler prints its message and ends in the system call that resumes the shell
  at the instruction, flags and stack of \<open>ctx\<close>; nothing is pending and no handler is active then, so
  the next Ctrl+C is handled in the same way.\<close>

theorem ctrl_c_reaches_shell:
  assumes inv: "kernel_inv k0" and cur: "cur_task (kn_sched k0) = Some n"
    and quiet: "t_sig_pending (task_pool (kn_sched k0) ! n) = 0" "\<not> t_sig_in_handler (task_pool (kn_sched k0) ! n)"
    and lits: "\<forall>w \<in> set init_words. ustr (kn_cpu k0) (lit im w) w" and h: "on_sigint im \<noteq> 0"
    and init: "shell_init disk im k0 = Inr k1"
    and keys: "keyboard_handler 0x2E (keyboard_handler 0x1D (kn_kb k1, kn_screen k1, kn_sched k1)) = (kb, d, s)"
    and later: "sched_inv s'" "cur_task s' = Some n" "task_pool s' ! n = (task_pool s ! n)\<lparr>t_regs := ctx, t_cr3 := cr3\<rparr>" "length ctx = 13"
    and us: "user_space pd V c" and stack: "\<forall>i<8. ctx ! 11 - 8 + of_nat i \<in> in_pages V"
    and mw: "holds_text (in_pages V) (in_buffer (ctx ! 11 - 8) 8) im c sigint_text"
  shows "kb_queue kb = kb_queue (kn_kb k0) \<and>
    (\<exists>ctx' s1 c1. deliver_signal n ctx s' c = Inr (ctx', s1, c1) \<and> ctx' ! 8 = on_sigint im \<and> ctx' ! 11 = ctx ! 11 - 8 \<and>
       (\<forall>k2 frame. kn_sched k2 = s1 \<longrightarrow> kn_cpu k2 = c1 \<longrightarrow> length frame = 9 \<longrightarrow>
          (\<exists>frame' k3. sigint_handler disk im frame k2 = Inr (0, frame', k3) \<and> drop 4 frame' = drop 8 ctx \<and> kn_cpu k3 = c1 \<and> kn_kb k3 = kn_kb k2 \<and>
             kn_screen k3 = print sigint_text (set_kattr 0x0F (kn_screen k2)) \<and>
             (let t = task_pool (kn_sched k3) ! n in t_sig_pending t = 0 \<and> \<not> t_sig_in_handler t \<and> t_sig_handlers t ! 2 = on_sigint im))))"
proof -
  have si: "sched_inv (kn_sched k0)" using inv by (simp add: kernel_inv_def)
  obtain e where k1: "k1 = k0\<lparr>kn_sched := update_task n (with_handlers im) (kn_sched k0), kn_screen := e\<rparr>"
    using shell_init_at[OF cur lits, of disk] init by auto
  have s: "kb = (kn_kb k0)\<lparr>ctrl_held := True\<rparr>" "s = sched_signal (int SIGINT) (update_task n (with_handlers im) (kn_sched k0))"
    using keys ctrl_c_keys[of "kn_kb k0" e] by (simp_all add: k1)
  then have q: "kb_queue kb = kb_queue (kn_kb k0)" by (simp add: kb_queue_def kb_count_def)
  note t = ctrl_c_task[OF si cur quiet h later(3)[unfolded s(2)]]
  obtain ctx' s1 c1 where d: "deliver_signal n ctx s' c = Inr (ctx', s1, c1)" "ctx' ! 8 = on_sigint im" "ctx' ! 11 = ctx ! 11 - 8"
    "ustr c1 (lit im sigint_text) sigint_text" "\<forall>k. kn_sched k = s1 \<longrightarrow> in_sigint im n ctx k"
    using sigint_entered[OF later(1,2,4) t us stack mw] by blast
  have run: "\<exists>frame' k3. sigint_handler disk im frame k2 = Inr (0, frame', k3) \<and> drop 4 frame' = drop 8 ctx \<and> kn_cpu k3 = c1 \<and> kn_kb k3 = kn_kb k2 \<and>
      kn_screen k3 = print sigint_text (set_kattr 0x0F (kn_screen k2)) \<and>
      (let t = task_pool (kn_sched k3) ! n in t_sig_pending t = 0 \<and> \<not> t_sig_in_handler t \<and> t_sig_handlers t ! 2 = on_sigint im)"
    if k2: "kn_sched k2 = s1" "kn_cpu k2 = c1" "length frame = 9" for k2 frame
  proof -
    have i: "in_sigint im n ctx k2" using d(5) k2(1) by blast
    then obtain frame' where "sigint_handler disk im frame k2 = Inr (0, frame', k2\<lparr>kn_screen := print sigint_text (set_kattr 0x0F (kn_screen k2)),
        kn_sched := update_task n (\<lambda>t. t\<lparr>t_sig_in_handler := False\<rparr>) (kn_sched k2)\<rparr>)" "drop 4 frame' = drop 8 ctx"
      using sigint_handler_resumes[of k2 n ctx frame im disk] later(4) k2(3) d(4) by (auto simp: in_sigint_def Let_def k2(2))
    with i show ?thesis by (auto simp: in_sigint_def Let_def update_task_nth k2(2))
  qed
  show ?thesis using q d(1-3) run by blast
qed

theorem ctrl_c_reaches_shell_witness:
  "\<exists>k1 s ctx' s1 c1 frame' k2 k3. shell_init sample_disk sample_image (shell_kernel []) = Inr k1 \<and>
     deliver_signal 0 (fresh_regs 0x40000010 0x23 0x202 0x40000FF0 0x33) s sample_shell = Inr (ctx', s1, c1) \<and>
     ctx' ! 8 = 0x40000F00 \<and> ctx' ! 11 = 0x40000FE8 \<and> kn_sched k2 = s1 \<and>
     sigint_handler sample_disk sample_image (replicate 9 0) k2 = Inr (0, frame', k3) \<and> drop 4 frame' = [0x40000010, 0x23, 0x202, 0x40000FF0, 0x33]"
proof -
  let ?k0 = "shell_kernel []" and ?ctx = "fresh_regs 0x40000010 0x23 0x202 0x40000FF0 0x33"
  let ?s = "sched_signal (int SIGINT) (update_task 0 (with_handlers sample_image) two_tasks)"
  let ?s' = "update_task 0 (\<lambda>t. t\<lparr>t_regs := ?ctx, t_cr3 := 0x205000\<rparr>) ?s"
  obtain d where i: "shell_init sample_disk sample_image ?k0 = Inr (?k0\<lparr>kn_sched := update_task 0 (with_handlers sample_image) two_tasks, kn_screen := d\<rparr>)"
    using sample_starts by blast
  have inv: "kernel_inv ?k0" "cur_task (kn_sched ?k0) = Some 0" by (simp_all add: shell_kernel_inv two_tasks_state)
  have quiet: "t_sig_pending (task_pool (kn_sched ?k0) ! 0) = 0" "\<not> t_sig_in_handler (task_pool (kn_sched ?k0) ! 0)"
    by (simp_all add: two_tasks_state fresh_task_def)
  have h: "on_sigint sample_image \<noteq> 0" by (simp add: sample_image_def)
  let ?k1 = "?k0\<lparr>kn_sched := update_task 0 (with_handlers sample_image) two_tasks, kn_screen := d\<rparr>"
  have keys: "keyboard_handler 0x2E (keyboard_handler 0x1D (kn_kb ?k1, kn_screen ?k1, kn_sched ?k1)) =
      ((kn_kb ?k0)\<lparr>ctrl_held := True\<rparr>, print (cstr ''^C'' @ [10]) (set_kattr 0x0C d), ?s)" using ctrl_c_keys[of "kn_kb ?k0" d] by simp
  have ctx: "length ?ctx = 13" "?ctx ! 8 = 0x40000010" "?ctx ! 11 = 0x40000FF0" "drop 8 ?ctx = [0x40000010, 0x23, 0x202, 0x40000FF0, 0x33]"
    by (simp_all add: fresh_regs_def nth_append)
  have "sched_inv ?s" using two_tasks_state(1) sched_signal_keeps sched_inv_update_task by (auto simp: task_ok_def with_handlers_def)
  then have later: "sched_inv ?s'" using ctx(1) by (intro sched_inv_update_task) (auto simp: task_ok_def)
  have lt: "0 < length (task_pool ?s)" using \<open>sched_inv ?s\<close> by (simp add: sched_inv_def)
  have at: "cur_task ?s' = Some 0" "task_pool ?s' ! 0 = (task_pool ?s ! 0)\<lparr>t_regs := ?ctx, t_cr3 := 0x205000\<rparr>"
    using lt by (simp_all add: update_task_nth sched_signal_def two_tasks_state)
  have page: "0x40000FE8 + of_nat i = (0x40000000 + of_nat (0xFE8 + i) :: u32)" for i by simp
  have stack: "\<forall>i<8. ?ctx ! 11 - 8 + of_nat i \<in> in_pages {0x40000000}" 
  proof (intro allI impI)
    fix i :: nat assume "i < 8"
    then have "0x40000000 + of_nat (0xFE8 + i) \<in> in_pages {0x40000000}" by (intro sample_page(3)) simp
    then show "?ctx ! 11 - 8 + of_nat i \<in> in_pages {0x40000000}" unfolding page[symmetric] ctx(3) by simp
  qed
  have mw: "holds_text (in_pages {0x40000000}) (in_buffer (?ctx ! 11 - 8) 8) sample_image sample_shell sigint_text"
    using sample_text_off[OF sample_lits(2) elsewhere_buffer[of "0xFE8" 8]] by (simp add: ctx(3))
  obtain ctx' s1 c1 where d: "deliver_signal 0 ?ctx ?s' sample_shell = Inr (ctx', s1, c1)" "ctx' ! 8 = 0x40000F00" "ctx' ! 11 = 0x40000FE8"
    and run: "\<forall>k2 frame. kn_sched k2 = s1 \<longrightarrow> kn_cpu k2 = c1 \<longrightarrow> length frame = 9 \<longrightarrow>
       (\<exists>frame' k3. sigint_handler sample_disk sample_image frame k2 = Inr (0, frame', k3) \<and> drop 4 frame' = drop 8 ?ctx)"
    using ctrl_c_reaches_shell[OF inv quiet sample_lits(1) h i keys later at ctx(1) sample_page(1) stack mw] ctx(3)
    by (fastforce simp: sample_image_def)
  have "kn_sched (?k0\<lparr>kn_sched := s1, kn_cpu := c1\<rparr>) = s1" "kn_cpu (?k0\<lparr>kn_sched := s1, kn_cpu := c1\<rparr>) = c1" by simp_all
  then show ?thesis using d run i ctx(4) length_replicate by metis
qed

end
