(* ===== verification/Hello_Runs.thy ===== *)
theory Hello_Runs
  imports Shell_Runs
begin

text \<open>
  \<^verbatim>\<open>user/hello.c\<close>, the first program: it greets, shows the beginning of \<^verbatim>\<open>hola.txt\<close> when the file is there, and
  prints dots for ever. Its state after \<open>n\<close> dots is stated for every \<open>n\<close>.
\<close>

section \<open>The parts of the program\<close>

definition hello_show :: "disk \<Rightarrow> (u8 list \<Rightarrow> u32) \<Rightarrow> u32 \<Rightarrow> u32 \<Rightarrow> kernel \<Rightarrow> kernel outcome" where
  "hello_show disk lits buf n k =
     (if sint n > 0 then
        bindo (sh_store (buf + n) 0 k) (\<lambda>k.
        bindo (sh_setcolor disk 0x0E k) (\<lambda>k.
        sh_prints disk [lits (cstr ''hola.txt: ''), buf] k))
      else Inr k)"

definition hello_file :: "disk \<Rightarrow> (u8 list \<Rightarrow> u32) \<Rightarrow> u32 \<Rightarrow> kernel \<Rightarrow> kernel outcome" where
  "hello_file disk lits buf k =
     bindo (sh_open disk (lits (cstr ''hola.txt'')) k) (\<lambda>(fd, k).
     if sint fd \<ge> 0 then
       bindo (sh_read disk fd buf 63 k) (\<lambda>(n, k).
       bindo (hello_show disk lits buf n k) (sh_close disk fd))
     else Inr k)"

definition hello_dots :: "disk \<Rightarrow> (u8 list \<Rightarrow> u32) \<Rightarrow> nat \<Rightarrow> kernel \<Rightarrow> kernel outcome" where
  "hello_dots disk lits n k = bindo (sh_setcolor disk 0x0A k) (for_try 0 n (\<lambda>i. sh_print disk (lits (cstr ''.''))))"

lemma hello_start_parts:
  assumes "ustr (kn_cpu k) (lits greeting) greeting"
  shows "hello_start disk lits buf n k =
    bindo (hello_file disk lits buf (k\<lparr>kn_screen := print greeting (set_kattr 0x0F (kn_screen k))\<rparr>)) (hello_dots disk lits n)"
proof -
  have "bindo (sh_setcolor disk 0x0A k) (\<lambda>k. bindo (sh_print disk (lits greeting) k) f) =
      f (k\<lparr>kn_screen := print greeting (set_kattr 0x0F (kn_screen k))\<rparr>)" for f :: "kernel \<Rightarrow> kernel outcome"
    using assms by (simp add: setcolor_print sh_print_at flip: bindo_assoc)
  then show ?thesis unfolding hello_start_def hello_file_def hello_show_def hello_dots_def
    by (simp add: bindo_assoc split_def if_distrib[of "\<lambda>m. bindo m _"] cong: if_cong)
qed

text \<open>What is printed of the file.\<close>

definition hello_shown :: "u8 list \<Rightarrow> screen \<Rightarrow> screen" where
  "hello_shown bs d = (if bs = [] then d else print (cstr ''hola.txt: '' @ takeWhile (\<lambda>v. v \<noteq> 0) bs) (set_kattr 0x0F d))"

context user_memory
begin

lemma hello_works:
  assumes own: "\<forall>i<64. buf + of_nat i \<in> own" and lit: "holds_text_at own (in_buffer buf 64) (lits (cstr ''hola.txt: '')) c (cstr ''hola.txt: '')"
    and bs: "length bs \<le> 63"
  shows "works_on ok own buf 63 c bs (hello_show disk lits buf) (hello_shown bs)"
  unfolding works_on_def
proof (intro allI impI)
  fix k :: kernel assume ok: "ok (kn_cpu k)" and b: "\<forall>i<length bs. uld8 (buf + of_nat i) (kn_cpu k) = Inr (bs ! i)"
    and same: "\<forall>b \<in> own. \<not> in_buffer buf (Suc 63) b \<longrightarrow> uld8 b (kn_cpu k) = uld8 b c"
  let ?n = "length bs" let ?w = "of_nat ?n :: u32" let ?a = "buf + ?w" and ?t = "takeWhile (\<lambda>v. v \<noteq> 0) bs"
  show "\<exists>c. hello_show disk lits buf ?w k = Inr (k\<lparr>kn_cpu := c, kn_screen := hello_shown bs (kn_screen k)\<rparr>) \<and> ok c \<and>
      (\<forall>b \<in> own. \<not> in_buffer buf (Suc 63) b \<longrightarrow> uld8 b c = uld8 b (kn_cpu k))"
  proof (cases "bs = []")
    case True
    then show ?thesis using ok by (intro exI[of _ "kn_cpu k"]) (simp add: hello_show_def hello_shown_def)
  next
    case False
    have pos: "sint ?w > 0" using False bs sint_small[of ?n] by simp
    have a: "?a \<in> own" using own bs by simp
    obtain c' where c': "sh_store ?a 0 k = Inr (k\<lparr>kn_cpu := c'\<rparr>)" "ok c'" "\<forall>b \<in> own. uld8 b c' = (if b = ?a then Inr 0 else uld8 b (kn_cpu k))"
      using store_byte[OF ok a, of 0] by blast
    have "uld8 (buf + of_nat i) c' = Inr (bs ! i)" if "i < ?n" for i
    proof -
      have "buf + of_nat i \<in> own" using own that bs by simp
      moreover have "buf + of_nat i \<noteq> ?a" using of_nat_inj32[of i ?n] that bs by simp
      ultimately show ?thesis using c'(3) b that by simp
    qed
    then have t: "ustr c' buf ?t" using ustr_prefix[of bs buf c'] c'(3) a by simp
    have keep: "\<forall>b \<in> own. \<not> in_buffer buf 64 b \<longrightarrow> uld8 b c' = uld8 b (kn_cpu k)" using c'(3) bs by (auto simp: in_buffer_def)
    then have "ustr c' (lits (cstr ''hola.txt: '')) (cstr ''hola.txt: '')"
      using holds_text_cong[OF lit, of c'] same by (simp add: holds_text_def)
    with t have "sh_prints disk (map fst [(lits (cstr ''hola.txt: ''), cstr ''hola.txt: ''), (buf, ?t)]) (k\<lparr>kn_cpu := c', kn_screen := d\<rparr>) =
        Inr (k\<lparr>kn_cpu := c', kn_screen := print (cstr ''hola.txt: '' @ ?t) (set_kattr 0x0F d)\<rparr>)" for d
      by (subst sh_prints_at) simp_all
    then have "hello_show disk lits buf ?w k = Inr (k\<lparr>kn_cpu := c', kn_screen := hello_shown bs (kn_screen k)\<rparr>)"
      using pos c'(1) False by (simp add: hello_show_def hello_shown_def sh_setcolor_eq set_kattr_twice del: sh_prints.simps)
    with c'(2) keep show ?thesis by (intro exI[of _ c']) simp
  qed
qed

lemma hello_file_found:
  assumes inv: "kernel_inv k" and disk: "disk_ok disk" and dir: "holds_dir disk (kn_fs k) 2 xs"
    and cur: "cur_task (kn_sched k) = Some cur" and lits: "\<forall>w \<in> set hello_words. holds_text_at own (in_buffer buf 64) (lits w) (kn_cpu k) w"
    and ino: "dir_lookup xs (cstr ''hola.txt'') = ino" "ino \<noteq> 0"
    and free: "used_nodes (kn_nodes k) \<noteq> {..<8}" "\<exists>j. 3 \<le> j \<and> j < 8 \<and> \<not> fd_used (cur_file (kn_sched k) cur j)"
    and ok: "ok (kn_cpu k)" and own: "\<forall>i<64. buf + of_nat i \<in> own"
  shows "\<exists>k'. hello_file disk lits buf k = Inr k' \<and> kernel_inv k' \<and> ok (kn_cpu k') \<and>
    (\<forall>b \<in> own. \<not> in_buffer buf 64 b \<longrightarrow> uld8 b (kn_cpu k') = uld8 b (kn_cpu k)) \<and>
    open_fds (kn_sched k') = open_fds (kn_sched k) \<and> used_nodes (kn_nodes k') = used_nodes (kn_nodes k) \<and>
    kn_screen k' = hello_shown (once_read disk (kn_fs k) ino 63) (kn_screen k)"
proof -
  let ?bs = "once_read disk (kn_fs k) ino 63" and ?d = "kn_screen k"
  have own': "\<forall>i<63. buf + of_nat i \<in> own" using own by simp
  have nm: "ustr (kn_cpu k) (lits (cstr ''hola.txt'')) (cstr ''hola.txt'')" using lits by (simp add: hello_words_def holds_text_def)
  have ino': "dir_lookup xs (path_name (cstr ''hola.txt'')) = ino" using ino(1) by (simp add: path_name_def cstr_def)
  have "works_on ok own buf 63 (kn_cpu k) ?bs (hello_show disk lits buf) (hello_shown ?bs)"
    using lits by (intro hello_works own length_once_read) (simp_all add: hello_words_def)
  from file_session[OF inv disk dir cur nm ino' ino(2) free ok _ own' this, of ?d] obtain j k1 k2 k' where s: "sh_open disk (lits (cstr ''hola.txt'')) k = Inr (of_nat j, k1)"
    "j < 8" "kn_screen k1 = ?d" "sh_read disk (of_nat j) buf 63 (k1\<lparr>kn_screen := ?d\<rparr>) = Inr (of_nat (length ?bs), k2)"
    "bindo (hello_show disk lits buf (of_nat (length ?bs)) k2) (sh_close disk (of_nat j)) = Inr k'"
    and k': "kernel_inv k'" "ok (kn_cpu k')" "\<forall>b \<in> own. \<not> in_buffer buf 64 b \<longrightarrow> uld8 b (kn_cpu k') = uld8 b (kn_cpu k)"
      "open_fds (kn_sched k') = open_fds (kn_sched k)" "used_nodes (kn_nodes k') = used_nodes (kn_nodes k)" "kn_screen k' = hello_shown ?bs ?d" by auto
  have "k1\<lparr>kn_screen := ?d\<rparr> = k1" using s(3) by simp
  with s(4) have "sh_read disk (of_nat j) buf 63 k1 = Inr (of_nat (length ?bs), k2)" by (simp only:)
  moreover have "0 \<le> sint (of_nat j :: u32)" using sint_small[of j] s(2) by simp
  ultimately have "hello_file disk lits buf k = Inr k'" using s(1,5) by (simp add: hello_file_def)
  with k' show ?thesis by blast
qed

end

text \<open>Without the file nothing is opened and nothing is printed of it.\<close>

lemma sys_open_missing:
  assumes inv: "kernel_inv k" and disk: "disk_ok disk" and dir: "holds_dir disk (kn_fs k) 2 xs"
    and nm: "names (user_ptr (kn_cpu k) p) nm" and ino: "dir_lookup xs (path_name nm) = 0"
  shows "\<exists>fs. sys_open disk p k = Inr (- 1, k\<lparr>kn_fs := fs\<rparr>) \<and> kernel_inv (k\<lparr>kn_fs := fs\<rparr>)"
proof -
  have i: "ext2_ok (kn_fs k)" "pool_ok (kn_nodes k)" using inv by (simp_all add: kernel_inv_def)
  obtain fs where "vfs_open disk (user_ptr (kn_cpu k) p) (kn_nodes k, kn_fs k) = Inr (None, kn_nodes k, fs)"
    using vfs_open_spec[OF i(1) disk dir nm i(2)] ino by auto
  then have "sys_open disk p k = Inr (- 1, k\<lparr>kn_fs := fs\<rparr>)" by (simp add: sys_open_def)
  with sys_open_inv[OF inv disk this] show ?thesis by blast
qed

lemma hello_file_missing:
  assumes inv: "kernel_inv k" and disk: "disk_ok disk" and dir: "holds_dir disk (kn_fs k) 2 xs"
    and nm: "ustr (kn_cpu k) (lits (cstr ''hola.txt'')) (cstr ''hola.txt'')" and ino: "dir_lookup xs (cstr ''hola.txt'') = 0"
  shows "\<exists>fs. hello_file disk lits buf k = Inr (k\<lparr>kn_fs := fs\<rparr>) \<and> kernel_inv (k\<lparr>kn_fs := fs\<rparr>)"
proof -
  have "dir_lookup xs (path_name (cstr ''hola.txt'')) = 0" using ino by (simp add: path_name_def cstr_def)
  from sys_open_missing[OF inv disk dir ustr_str_at[OF nm] this] obtain fs
    where "sys_open disk (lits (cstr ''hola.txt'')) k = Inr (- 1, k\<lparr>kn_fs := fs\<rparr>)" "kernel_inv (k\<lparr>kn_fs := fs\<rparr>)" by blast
  then show ?thesis by (intro exI[of _ fs]) (simp add: hello_file_def sh_open_eq)
qed

text \<open>The dots: the first sets the attribute of \<^verbatim>\<open>SYS_PRINT\<close> over the colour asked for.\<close>

definition dotted :: "nat \<Rightarrow> screen \<Rightarrow> screen" where
  "dotted n d = (if n = 0 then set_kattr 0x0A d else print (replicate n (of_char (CHR ''.''))) (set_kattr 0x0F d))"

lemma dotted_Suc: "print (cstr ''.'') (set_kattr 0x0F (dotted n d)) = dotted (Suc n) d"
proof (cases "n = 0")
  case False
  let ?r = "replicate n (of_char (CHR ''.'') :: u8)"
  have z: "0 \<notin> set ?r" by (simp add: of_char_def)
  have "?r @ cstr ''.'' = replicate (Suc n) (of_char (CHR ''.''))" unfolding cstr_def by (simp add: replicate_append_same)
  with print_onto[OF z] False show ?thesis by (simp add: dotted_def set_kattr_print del: print.simps replicate_Suc)
qed (simp add: dotted_def set_kattr_twice cstr_def)

lemma hello_dots_at:
  assumes "ustr (kn_cpu k) (lits (cstr ''.'')) (cstr ''.'')"
  shows "hello_dots disk lits n k = Inr (k\<lparr>kn_screen := dotted n (kn_screen k)\<rparr>)"
proof -
  let ?k = "k\<lparr>kn_screen := set_kattr 0x0A (kn_screen k)\<rparr>"
  have "for_try 0 n (\<lambda>i. sh_print disk (lits (cstr ''.''))) ?k = Inr (k\<lparr>kn_screen := dotted n (kn_screen k)\<rparr>)"
  proof (rule for_try_states[where st = "\<lambda>i. k\<lparr>kn_screen := dotted i (kn_screen k)\<rparr>"])
    show "k\<lparr>kn_screen := dotted 0 (kn_screen k)\<rparr> = ?k" by (simp add: dotted_def)
    show "sh_print disk (lits (cstr ''.'')) (k\<lparr>kn_screen := dotted i (kn_screen k)\<rparr>) = Inr (k\<lparr>kn_screen := dotted (Suc i) (kn_screen k)\<rparr>)" for i
      using assms by (subst sh_print_at[of _ _ "cstr ''.''"]) (simp_all add: dotted_Suc del: print.simps)
  qed simp_all
  then show ?thesis by (simp add: hello_dots_def sh_setcolor_eq)
qed


section \<open>Properties\<close>

text \<open>C15: The program \<^verbatim>\<open>hello.elf\<close>, while the kernel has a free node and the task a free descriptor: it prints its greeting, then, if the root directory has a file \<^verbatim>\<open>hola.txt\<close>, the first 63
  bytes of it up to a null byte, and then dots; after any number of them the kernel's invariant
  holds, no file is left open and of its memory only the 64 bytes of the buffer have changed. None
  of the colours it asks for is seen but the one set before the first dot.\<close>

theorem hello_shows_file:
  assumes inv: "kernel_inv k" and disk: "disk_ok disk" and dir: "holds_dir disk (kn_fs k) 2 xs" and cur: "cur_task (kn_sched k) = Some cur"
    and lits: "\<forall>w \<in> set hello_words. holds_text_at (in_pages V) (in_buffer buf 64) (lits w) (kn_cpu k) w"
    and free: "used_nodes (kn_nodes k) \<noteq> {..<8}" "\<exists>j. 3 \<le> j \<and> j < 8 \<and> \<not> fd_used (cur_file (kn_sched k) cur j)"
    and us: "user_space pd V (kn_cpu k)" and own: "\<forall>i<64. buf + of_nat i \<in> in_pages V"
  defines "ino \<equiv> dir_lookup xs (cstr ''hola.txt'')"
  shows "\<exists>k'. hello_start disk lits buf n k = Inr k' \<and> kernel_inv k' \<and> user_space pd V (kn_cpu k') \<and>
    (\<forall>b \<in> in_pages V. \<not> in_buffer buf 64 b \<longrightarrow> uld8 b (kn_cpu k') = uld8 b (kn_cpu k)) \<and>
    open_fds (kn_sched k') = open_fds (kn_sched k) \<and> used_nodes (kn_nodes k') = used_nodes (kn_nodes k) \<and>
    kn_screen k' = dotted n (let d = print greeting (set_kattr 0x0F (kn_screen k)) in
      if ino = 0 then d
      else hello_shown (map (file_byte disk (kn_fs k) (inode_bytes disk (kn_fs k) ino)) [0..<pread_len disk (kn_fs k) ino 0 63]) d)"
proof -
  let ?d = "print greeting (set_kattr 0x0F (kn_screen k))" let ?k = "k\<lparr>kn_screen := ?d\<rparr>"
  let ?bs = "map (file_byte disk (kn_fs k) (inode_bytes disk (kn_fs k) ino)) [0..<pread_len disk (kn_fs k) ino 0 63]"
  have w: "ustr (kn_cpu k) (lits greeting) greeting" "ustr (kn_cpu k) (lits (cstr ''hola.txt'')) (cstr ''hola.txt'')"
    "holds_text_at (in_pages V) (in_buffer buf 64) (lits (cstr ''.'')) (kn_cpu k) (cstr ''.'')"
    using lits by (simp_all add: hello_words_def holds_text_def)
  have k: "kernel_inv ?k" "kn_fs ?k = kn_fs k" "kn_cpu ?k = kn_cpu k" "kn_sched ?k = kn_sched k" "kn_nodes ?k = kn_nodes k"
    using inv by (simp_all add: kernel_inv_def)
  obtain k1 where f: "hello_file disk lits buf ?k = Inr k1" "kernel_inv k1" "user_space pd V (kn_cpu k1)"
    "\<forall>b \<in> in_pages V. \<not> in_buffer buf 64 b \<longrightarrow> uld8 b (kn_cpu k1) = uld8 b (kn_cpu k)"
    "open_fds (kn_sched k1) = open_fds (kn_sched k)" "used_nodes (kn_nodes k1) = used_nodes (kn_nodes k)"
    "kn_screen k1 = (if ino = 0 then ?d else hello_shown ?bs ?d)"
  proof (cases "ino = 0")
    case True
    with hello_file_missing[OF k(1) disk, of xs lits buf] dir w(2) us that show ?thesis by (fastforce simp: ino_def)
  next
    case False
    have a: "holds_dir disk (kn_fs ?k) 2 xs" "cur_task (kn_sched ?k) = Some cur"
      "\<forall>w \<in> set hello_words. holds_text_at (in_pages V) (in_buffer buf 64) (lits w) (kn_cpu ?k) w" "dir_lookup xs (cstr ''hola.txt'') = ino"
      "used_nodes (kn_nodes ?k) \<noteq> {..<8}" "\<exists>j. 3 \<le> j \<and> j < 8 \<and> \<not> fd_used (cur_file (kn_sched ?k) cur j)" "user_space pd V (kn_cpu ?k)"
      using dir cur lits free us by (simp_all add: ino_def)
    from loader.hello_file_found[OF k(1) disk a(1-4) False a(5-7) own] False that show ?thesis by (auto simp: once_read_def)
  qed
  have "ustr (kn_cpu k1) (lits (cstr ''.'')) (cstr ''.'')" using holds_text_cong[OF w(3) f(4)] by (simp add: holds_text_def)
  from hello_dots_at[of k1 lits, OF this] have "hello_start disk lits buf n k = Inr (k1\<lparr>kn_screen := dotted n (kn_screen k1)\<rparr>)"
    unfolding hello_start_parts[of k lits, OF w(1)] f(1) by simp
  moreover have "kernel_inv (k1\<lparr>kn_screen := d\<rparr>)" for d using f(2) by (simp add: kernel_inv_def)
  ultimately show ?thesis using f(3-7) by (intro exI[of _ "k1\<lparr>kn_screen := dotted n (kn_screen k1)\<rparr>"]) (simp add: Let_def)
qed

text \<open>A disk with the file, of five bytes.\<close>

definition hola_dir :: "dirent list" where
  "hola_dir = [\<lparr>de_ino = 3, de_type = 1, de_name = cstr ''hola.txt'', de_pad = []\<rparr>]"

definition hola_disk :: disk where
  "hola_disk l = (if l = 10 then replicate 128 0 @ sample_inode 16 6 @ sample_inode 5 7 @ replicate 128 0
     else if l = 12 then layout hola_dir @ replicate 496 0 else if l = 14 then cstr ''hola'' @ [10] @ replicate 507 0 else sample_disk l)"

lemma hola_disk_ok: "disk_ok hola_disk"
  using sample_disk_ok by (simp add: disk_ok_def hola_disk_def sample_inode_def bytes32_def hola_dir_def layout_def dirent_bytes_def bytes16_def cstr_def)

lemma hola_inodes: "inode_bytes hola_disk sample_fs 2 = sample_inode 16 6" "inode_bytes hola_disk sample_fs 3 = sample_inode 5 7"
  by (simp_all add: inode_bytes_def inode_offset_def inode_block_def bg_inode_table_def block_data_def
      sample_fs_def cold_fs_def bsize_def le32_def bytes32_def disk_sector_def hola_disk_def sample_disk_def sample_inode_def
      nth_append upt_rec)

lemma hola_fields: "i_size (sample_inode 16 6) = 16" "i_block (sample_inode 16 6) 0 = 6" "i_size (sample_inode 5 7) = 5" "i_block (sample_inode 5 7) 0 = 7"
  by (simp_all add: i_size_def i_block_def le32_def sample_inode_def bytes32_def nth_append)

lemma hola_blocks:
  "block_data hola_disk sample_fs 6 = layout hola_dir @ replicate 496 0 @ replicate 512 0"
  "block_data hola_disk sample_fs 7 = cstr ''hola'' @ [10] @ replicate 507 0 @ replicate 512 9"
  by (simp_all add: block_data_def sample_fs_def cold_fs_def bsize_def disk_sector_def hola_disk_def sample_disk_def upt_rec)

lemma hola_holds_dir: "holds_dir hola_disk sample_fs 2 hola_dir"
  by (simp add: holds_dir_def hola_inodes hola_fields hola_blocks sample_fs_ok)
     (simp add: hola_dir_def dirent_ok_def de_len_def layout_def cstr_def)

lemma hola_bytes: "map (file_byte hola_disk sample_fs (inode_bytes hola_disk sample_fs 3)) [0..<pread_len hola_disk sample_fs 3 0 63] = cstr ''hola'' @ [10]"
proof -
  have "pread_len hola_disk sample_fs 3 0 63 = 5" by (simp add: pread_len_def hola_inodes hola_fields sample_fs_ok)
  then show ?thesis by (simp add: hola_inodes file_byte_def hola_fields hola_blocks sample_fs_ok upt_rec cstr_def)
qed

theorem hello_shows_file_witness:
  "\<exists>k'. hello_start hola_disk (lit sample_image) 0x40000000 3 (shell_kernel []) = Inr k' \<and> kernel_inv k' \<and>
     kn_screen k' = dotted 3 (print (cstr ''hola.txt: hola'' @ [10]) (set_kattr 0x0F (print greeting (set_kattr 0x0F (kn_screen (shell_kernel []))))))"
proof -
  have t: "\<forall>w \<in> set hello_words. holds_text_at (in_pages {0x40000000}) (in_buffer 0x40000000 64) (lit sample_image w) (kn_cpu (shell_kernel [])) w"
    using sample_text_off[OF _ elsewhere_buffer[of 0 64]] by (simp add: sample_texts_def)
  have i: "dir_lookup hola_dir (cstr ''hola.txt'') = 3" by (simp add: dir_lookup_def hola_dir_def)
  have n: "used_nodes (kn_nodes (shell_kernel [])) \<noteq> {..<8}" unfolding shell_kernel_fields blank_pool_ok
    using lessThan_empty_iff[of 8] by (metis zero_neq_numeral)
  have f: "\<exists>j. 3 \<le> j \<and> j < 8 \<and> \<not> fd_used (cur_file (kn_sched (shell_kernel [])) 0 j)" using sample_no_files[of 3] by (auto intro!: exI[of _ 3])
  have c: "cur_task (kn_sched (shell_kernel [])) = Some 0" "holds_dir hola_disk (kn_fs (shell_kernel [])) 2 hola_dir"
    "user_space 0x100000 {0x40000000} (kn_cpu (shell_kernel []))" "\<forall>i<64. 0x40000000 + of_nat i \<in> in_pages {0x40000000}"
    using sample_page(1,3) by (simp_all add: two_tasks_state hola_holds_dir)
  have e: "hello_shown (cstr ''hola'' @ [10]) d = print (cstr ''hola.txt: hola'' @ [10]) (set_kattr 0x0F d)" for d
    by (simp add: hello_shown_def cstr_def)
  have k: "kernel_inv (shell_kernel [])" by (simp add: shell_kernel_inv)
  have "(3 :: u32) \<noteq> 0" by simp
  note r = hello_shows_file[OF k hola_disk_ok c(2,1) t n f c(3,4), of 3, unfolded i shell_kernel_fields(4) hola_bytes e Let_def if_not_P[OF this]]
  then show ?thesis by (elim exE conjE) (intro exI conjI)
qed

end
