(* ===== verification/Spec2Isabelle.thy ===== *)
theory Spec2Isabelle
  imports Linked_List PMM Paging VMM Scheduler Screen Keyboard IDE Kernel_Safety ELF Segments CString Launch Boot User_Space Shell_Runs Shell_Files Shell_Signals Hello_Runs
begin

text \<open>
  PepinOS, an educational operating system in C for 32-bit x86: a boot sector loads the kernel, which
  sets up descriptor tables, paging and its drivers, mounts an ext2 partition, starts two built-in
  tasks and the program \<^verbatim>\<open>shell.elf\<close>, and from then on reacts to the timer, the keyboard and INT 0x30.
  This library models the C program from \<^verbatim>\<open>_start\<close> of the kernel to the main loop of the shell.

  \<^bold>\<open>Conventions.\<close> A C integer is a word of its width (\<open>u8\<close>, \<open>u16\<close>, \<open>u32\<close>; a signed one is read with
  \<open>sint\<close>); a struct is a record; a static variable is a field of the state of its component, which
  every operation takes and returns. Physical memory is a function from addresses to bytes, and every
  access of the code after paging is switched on goes through the page tables in that memory. Code that
  may not come back returns an \<open>outcome\<close>: \<open>Inl\<close> of the way it stops (a page fault, a null pointer, a
  division by zero, an index out of an array, a loop that never ends), \<open>Inr\<close> of its result. The disk,
  the drive behind the ports and the addresses the linker chose are arguments of the definitions.

  \<^bold>\<open>Theories and sources\<close> (paths under \<^verbatim>\<open>src/\<close>), each on top of those it calls:

  \<^item> \<^verbatim>\<open>Pepin_Prelude\<close>: integer types, outcomes, the loop combinators \<open>for_range\<close> and \<open>for_try\<close>, shared lemmas
    on words, lists and searches. \<^verbatim>\<open>Machine\<close>: memory, CR0 and CR3, the page walk of the processor.
  \<^item> \<^verbatim>\<open>Linked_List\<close>: \<^verbatim>\<open>lib/list.h\<close>, over a store of next and prev pointers. The predicate \<open>circ\<close> relates a
    store to the list of its nodes; insertion, deletion and traversal are refined to operations on it.
  \<^item> \<^verbatim>\<open>PMM\<close>: \<^verbatim>\<open>mm/pmm.c\<close>, the frame bitmap. Its abstract view is the set of free frames.
  \<^item> \<^verbatim>\<open>Paging\<close>: \<^verbatim>\<open>mm/paging.c\<close>, the kernel's identity map and the address space of a built-in task.
    \<^verbatim>\<open>VMM\<close>: \<^verbatim>\<open>mm/vmm.c\<close>, mapping and unmapping, for any page directory.
  \<^item> \<^verbatim>\<open>Segments\<close>: \<^verbatim>\<open>arch/gdt.c\<close>, \<^verbatim>\<open>arch/idt.c\<close>, \<^verbatim>\<open>arch/tss.c\<close>, down to the bytes of the descriptors.
  \<^item> \<^verbatim>\<open>Screen\<close>, \<^verbatim>\<open>Keyboard\<close>, \<^verbatim>\<open>IDE\<close>: \<^verbatim>\<open>drivers/screen.c\<close> (refined to a terminal), \<^verbatim>\<open>drivers/keyboard.c\<close>
    (the ring buffer as a queue) and \<^verbatim>\<open>drivers/ide.c\<close> (over a bus that stands for the drive).
  \<^item> \<^verbatim>\<open>Ext2\<close>, \<^verbatim>\<open>VFS\<close>: \<^verbatim>\<open>fs/ext2.c\<close> and \<^verbatim>\<open>fs/vfs.c\<close>. A directory is a list of entries, a file the bytes of
    its direct blocks; searching, listing and reading are refined to these.
  \<^item> \<^verbatim>\<open>Scheduler\<close>: \<^verbatim>\<open>process/scheduler.c\<close> with the delivery of signals, on the list of \<^verbatim>\<open>Linked_List\<close>.
  \<^item> \<^verbatim>\<open>Syscall\<close>: \<^verbatim>\<open>process/syscall.c\<close> and the stub of INT 0x30; the record \<open>kernel\<close> holds the states of all
    components, \<open>kernel_inv\<close> their joint invariant. \<^verbatim>\<open>Kernel_Steps\<close>: system calls, ticks, keys and the stores
    of programs as one step relation, the invariant on all its runs, and the calls on files. The relation has
    a parameter, the set \<open>K\<close> of the physical addresses of the kernel's own objects: its steps are those
    whose stores do not hit \<open>K\<close>, which the code does not check. \<^verbatim>\<open>Kernel_Safety\<close>: the ways in
    which a step from a reachable state can stop.
  \<^item> \<^verbatim>\<open>ELF\<close>: \<^verbatim>\<open>fs/elf.c\<close>. \<^verbatim>\<open>Launch\<close>: \<^verbatim>\<open>process/task.c\<close>. \<^verbatim>\<open>CString\<close>: \<^verbatim>\<open>lib/string.c\<close>.
  \<^item> \<^verbatim>\<open>Boot\<close>: \<^verbatim>\<open>kernel/kernel.c\<close>, which calls all of the above in the order of \<^verbatim>\<open>kmain\<close>.
  \<^item> \<^verbatim>\<open>User_Space\<close>: memory as a ring-3 program may use it. \<^verbatim>\<open>Shell\<close>: \<^verbatim>\<open>user/shell.c\<close> and \<^verbatim>\<open>user/hello.c\<close>,
    whose every effect is a store in that memory or a system call of \<^verbatim>\<open>Syscall\<close>. \<^verbatim>\<open>Shell_Runs\<close>: what the
    shell's rounds and commands do. \<^verbatim>\<open>Shell_Files\<close>: its descriptors and the invariant of the kernel over
    sessions of any length, the keys arriving between the steps of its loop. \<^verbatim>\<open>Shell_Signals\<close>: Ctrl+C from the key press through delivery and handler to the return.
    \<^verbatim>\<open>Hello_Runs\<close>: what \<^verbatim>\<open>hello.elf\<close> prints and leaves behind.

  \<^bold>\<open>Interfaces.\<close> Each locale is interpreted on the model: \<open>circular_list\<close> (what the scheduler needs of a list)
  on \<^verbatim>\<open>lib/list.h\<close>; \<open>frame_allocator\<close> (a frame handed out was free and is free no more) on \<^verbatim>\<open>mm/pmm.c\<close>;
  \<open>bounded_queue\<close> (first in, first out, up to a capacity) on the keyboard's buffer; \<open>user_memory\<close> (what is
  stored is loaded, nothing else changes) on the address space the ELF loader builds. The clients'
  lemmas are proved inside the locales and used through the interpretations.

  \<^bold>\<open>What is shown.\<close> The start of the system ends with every invariant established and the processor in
  ring 3 (\<^verbatim>\<open>Boot\<close>), or with a division by zero when there is no file system. The invariant is kept by
  system calls, ticks, keys and stores of programs in any order, as long as no read buffer, signal frame or
  store hits what the kernel owns (\<^verbatim>\<open>Kernel_Steps\<close>), and from it, on a disk whose root directory is well formed,
  no access leaves an array, nothing is divided by zero and no null pointer is followed (\<^verbatim>\<open>Kernel_Safety\<close>). Preempted tasks resume with their registers,
  the scheduler reaches every task, signals are delivered and left as documented (\<^verbatim>\<open>Scheduler\<close>).
  The translation of every address is stated for each space that is built (\<^verbatim>\<open>Paging\<close>, \<^verbatim>\<open>VMM\<close>, \<^verbatim>\<open>Launch\<close>, \<^verbatim>\<open>ELF\<close>).
  Ring 3 has its own pages, each in a frame of its own, faults elsewhere above 16 MB, and may write the whole
  16 MB identity window below, page tables and the frames of other programs included: there is no isolation
  between programs, nor of the kernel from them (\<^verbatim>\<open>User_Space\<close>, \<^verbatim>\<open>Launch\<close>). The screen is a terminal for every
  character, the keyboard a queue that drops what does not fit, and a sector that exists is read from any drive
  that does what the ATA standard promises (\<^verbatim>\<open>Screen\<close>, \<^verbatim>\<open>Keyboard\<close>, \<^verbatim>\<open>IDE\<close>). Files are found, opened and read byte
  for byte (\<^verbatim>\<open>Ext2\<close>, \<^verbatim>\<open>VFS\<close>, \<^verbatim>\<open>Kernel_Steps\<close>) and shown by the shell, which runs the command a line names and never writes
  outside its line buffer (\<^verbatim>\<open>Shell_Runs\<close>), leaks no descriptor (\<^verbatim>\<open>Shell_Files\<close>) and is resumed where Ctrl+C
  interrupted it (\<^verbatim>\<open>Shell_Signals\<close>). Where the code fails on some input, the failure is a theorem or
  a lemma too: an ignored allocation failure, a ninth task, a stored frame through an unmapped stack, a read
  past the end of the drive, a length that wraps around past the end of the file.

  \<^bold>\<open>Loops and bounds.\<close> Counting loops use the combinators above. A scan for a null byte is a function whose
  measure is the address space: after \<open>2 ^ 32\<close> steps the address has come round and the scan would
  repeat itself for ever, which is its outcome \<open>Halted\<close>, so the bound loses nothing. Loops that end only
  when the environment acts (waiting for the drive or for a key, walking a list) or that overlapping
  buffers can keep alive are partial functions whose \<open>None\<close> is not returning; the theorems prove
  \<open>Some\<close>. A program that never ends is modelled by its state after any number of steps: those of a list of
  events for the shell (\<open>shell_session\<close>), a count for the others (\<open>hello_start\<close>, \<open>drain_keys\<close>).

  \<^bold>\<open>Not modelled.\<close> The boot sector and multiboot header, in assembly, run before the C program. The
  assembly stubs appear by what they pass to the handlers and restore; of ECX and EDX after a system
  call nothing is said. Handlers are atomic: a tick does not switch tasks in ring 0, and a key is taken
  between calls, not during one. Interrupts during the start are left out. In \<^verbatim>\<open>Shell\<close> keys arrive at the
  prompt, while the shell waits for a character and before it runs a line, but not in the middle of a command,
  and no tick interrupts the program; the editor's theorem starts from any moment between two
  keys. The static C objects and the text buffer of the screen are apart from the byte memory: a store
  that hits their addresses does not show in them. The runs of \<^verbatim>\<open>Kernel_Steps\<close> therefore exclude such stores
  (the set \<open>K\<close>) instead of modelling what they do, and let the bytes at those addresses change freely. The TLB is not modelled. \<^verbatim>\<open>lib/types.h\<close> only names types,
  \<^verbatim>\<open>process/signal.c\<close> and \<^verbatim>\<open>process/elf.c\<close> hold no code, \<^verbatim>\<open>process/task_user.c\<close> is copied as bytes.
\<close>

end
